(* ===== verification/Prelude.thy ===== *)
theory Prelude
  imports Main
    "HOL-Library.Word"
    "HOL-Library.Multiset"
    "HOL-Library.Char_ord"
    "HOL-Library.List_Lexorder"
    "HOL-Library.Product_Lexorder"
begin

text \<open>
  The shared vocabulary of the development: machine integers and byte strings, Rust's
  \<^verbatim>\<open>Result\<close> with the \<^verbatim>\<open>?\<close> operator, early-exit loops, \<^verbatim>\<open>BTreeMap\<close> as an ordered
  association list, saturating arithmetic, decimal printing, and the lemmas about them that
  the component theories share.

  Rust strings are UTF-8 byte strings, so a \<^verbatim>\<open>String\<close> is a HOL \<^typ>\<open>string\<close> whose
  characters are bytes: \<^const>\<open>length\<close> is \<^verbatim>\<open>str::len\<close>, and the lexicographic order of
  \<^verbatim>\<open>HOL-Library.List_Lexorder\<close> is \<^verbatim>\<open>str\<close>'s \<^verbatim>\<open>Ord\<close>.
\<close>

named_theorems res_simps \<open>rewriting of results and early-exit loops\<close>
named_theorems inv_intros \<open>introduction rules for component invariants\<close>


section \<open>Machine integers and bytes\<close>

type_synonym u8 = "8 word"
type_synonym u32 = "32 word"
type_synonym u64 = "64 word"
type_synonym bytes = "u8 list"

text \<open>\<^verbatim>\<open>str::as_bytes\<close>.\<close>

definition str_bytes :: "string \<Rightarrow> bytes" where
  "str_bytes s = map (\<lambda>c. of_char c) s"

text \<open>\<^verbatim>\<open>u64::saturating_sub\<close>, \<^verbatim>\<open>saturating_add\<close> and \<^verbatim>\<open>saturating_mul\<close> at any width.\<close>

definition sat_sub :: "'a::len word \<Rightarrow> 'a word \<Rightarrow> 'a word" where
  "sat_sub a b = (if b \<le> a then a - b else 0)"

definition sat_add :: "'a::len word \<Rightarrow> 'a word \<Rightarrow> 'a word" where
  "sat_add a b = (if unat a + unat b < 2 ^ LENGTH('a) then a + b else - 1)"

definition sat_mul :: "'a::len word \<Rightarrow> 'a word \<Rightarrow> 'a word" where
  "sat_mul a b = (if unat a * unat b < 2 ^ LENGTH('a) then a * b else - 1)"

lemma length_str_bytes [simp]: "length (str_bytes s) = length s"
  by (simp add: str_bytes_def)

lemma unat_of_char_u8 [simp]: "unat (of_char c :: u8) = of_char c"
proof -
  have "unat (of_nat (of_char c) :: u8) = of_char c mod 256"
    by (simp only: unat_of_nat) simp
  then show ?thesis by (simp only: of_nat_of_char of_char_mod_256)
qed

lemma of_char_u8_inj: "(of_char a :: u8) = of_char b \<longleftrightarrow> a = b"
  by (metis of_char_eq_iff unat_of_char_u8)

lemma unat_max_word: "unat (- 1 :: 'a::len word) = 2 ^ LENGTH('a) - 1"
  by transfer
    (simp add: take_bit_minus_one_eq_mask mask_eq_exp_minus_1 nat_diff_distrib nat_power_eq)

lemma str_bytes_inj [simp]: "str_bytes s = str_bytes t \<longleftrightarrow> s = t"
proof -
  have "inj (\<lambda>c. of_char c :: u8)" by (rule injI) (simp add: of_char_u8_inj)
  then show ?thesis by (simp add: str_bytes_def inj_map_eq_map)
qed

lemma unat_sat_sub [simp]: "unat (sat_sub a b) = unat a - unat b"
  by (simp add: sat_sub_def unat_sub word_le_nat_alt)

lemma unat_sat_add: "unat (sat_add a b) = min (unat a + unat b) (2 ^ LENGTH('a) - 1)"
  for a b :: "'a::len word"
  by (simp add: sat_add_def unat_add_lem [THEN iffD1] unat_max_word)

lemma unat_sat_mul: "unat (sat_mul a b) = min (unat a * unat b) (2 ^ LENGTH('a) - 1)"
  for a b :: "'a::len word"
  by (simp add: sat_mul_def unat_mult_lem [THEN iffD1] unat_max_word)


section \<open>Results\<close>

text \<open>
  \<^verbatim>\<open>Result<T, E>\<close> is the sum \<open>'e + 'a\<close>: \<^const>\<open>Inl\<close> is \<^verbatim>\<open>Err\<close> and \<^const>\<open>Inr\<close> is \<^verbatim>\<open>Ok\<close>.
  \<open>res_bind\<close> is the \<^verbatim>\<open>?\<close> operator followed by the rest of the function body.
\<close>

definition res_bind :: "'e + 'a \<Rightarrow> ('a \<Rightarrow> 'e + 'b) \<Rightarrow> 'e + 'b" where
  "res_bind m f = (case m of Inl e \<Rightarrow> Inl e | Inr x \<Rightarrow> f x)"

definition is_ok :: "'e + 'a \<Rightarrow> bool" where
  "is_ok m = (case m of Inl _ \<Rightarrow> False | Inr _ \<Rightarrow> True)"

text \<open>\<^verbatim>\<open>Result::map_err\<close> and \<^verbatim>\<open>Option::ok_or\<close>.\<close>

definition map_err :: "('e \<Rightarrow> 'f) \<Rightarrow> 'e + 'a \<Rightarrow> 'f + 'a" where
  "map_err g m = (case m of Inl e \<Rightarrow> Inl (g e) | Inr x \<Rightarrow> Inr x)"

definition ok_or :: "'e \<Rightarrow> 'a option \<Rightarrow> 'e + 'a" where
  "ok_or e m = (case m of None \<Rightarrow> Inl e | Some x \<Rightarrow> Inr x)"

text \<open>A \<^verbatim>\<open>for\<close> loop whose body threads a state and may leave the function with \<^verbatim>\<open>?\<close>.\<close>

fun try_fold :: "('s \<Rightarrow> 'a \<Rightarrow> 'e + 's) \<Rightarrow> 's \<Rightarrow> 'a list \<Rightarrow> 'e + 's" where
  "try_fold f s [] = Inr s"
| "try_fold f s (x # xs) = res_bind (f s x) (\<lambda>s'. try_fold f s' xs)"

text \<open>A \<^verbatim>\<open>for\<close> loop whose body only checks.\<close>

fun try_all :: "('a \<Rightarrow> 'e + unit) \<Rightarrow> 'a list \<Rightarrow> 'e + unit" where
  "try_all f [] = Inr ()"
| "try_all f (x # xs) = res_bind (f x) (\<lambda>_. try_all f xs)"

lemma res_bind_simps [simp]:
  "res_bind (Inl e) f = Inl e"
  "res_bind (Inr x) f = f x"
  by (simp_all add: res_bind_def)

lemma res_bind_Inr_iff [res_simps]:
  "res_bind m f = Inr y \<longleftrightarrow> (\<exists>x. m = Inr x \<and> f x = Inr y)"
  by (cases m) simp_all

lemma res_bind_Inl_iff [res_simps]:
  "res_bind m f = Inl e \<longleftrightarrow> m = Inl e \<or> (\<exists>x. m = Inr x \<and> f x = Inl e)"
  by (cases m) simp_all

lemma is_ok_simps [simp]: "\<not> is_ok (Inl e)" "is_ok (Inr x)"
  by (simp_all add: is_ok_def)

lemma is_ok_iff: "is_ok m \<longleftrightarrow> (\<exists>x. m = Inr x)"
  by (cases m) simp_all

lemma is_ok_unit_iff: "is_ok m \<longleftrightarrow> m = Inr ()"
  by (cases m) simp_all

lemma map_err_simps [simp]: "map_err g (Inl e) = Inl (g e)" "map_err g (Inr x) = Inr x"
  by (simp_all add: map_err_def)

lemma map_err_Inr_iff [res_simps]: "map_err g m = Inr x \<longleftrightarrow> m = Inr x"
  by (cases m) simp_all

lemma ok_or_simps [simp]: "ok_or e None = Inl e" "ok_or e (Some x) = Inr x"
  by (simp_all add: ok_or_def)

lemma ok_or_Inr_iff [res_simps]: "ok_or e m = Inr x \<longleftrightarrow> m = Some x"
  by (cases m) simp_all

lemma if_Inr_iff [res_simps]:
  "(if b then Inl e else m) = Inr y \<longleftrightarrow> \<not> b \<and> m = Inr y"
  by simp

lemma try_all_Inr_iff [res_simps]:
  "try_all f xs = Inr u \<longleftrightarrow> (\<forall>x \<in> set xs. f x = Inr ())"
  by (induction xs) (auto simp: res_bind_Inr_iff)

lemma try_all_append: "try_all f (xs @ ys) = res_bind (try_all f xs) (\<lambda>_. try_all f ys)"
proof (induction xs)
  case (Cons x xs)
  then show ?case by (cases "f x") simp_all
qed simp

lemma try_fold_append:
  "try_fold f s (xs @ ys) = res_bind (try_fold f s xs) (\<lambda>s'. try_fold f s' ys)"
proof (induction xs arbitrary: s)
  case (Cons x xs)
  then show ?case by (cases "f s x") simp_all
qed simp

lemma try_fold_invariant:
  assumes "try_fold f s xs = Inr s'" and "P s"
    and "\<And>x t t'. x \<in> set xs \<Longrightarrow> P t \<Longrightarrow> f t x = Inr t' \<Longrightarrow> P t'"
  shows "P s'"
  using assms
proof (induction xs arbitrary: s)
  case (Cons x xs)
  from Cons.prems(1) obtain t where t: "f s x = Inr t" "try_fold f t xs = Inr s'"
    by (auto simp: res_bind_Inr_iff)
  have "P t" by (rule Cons.prems(3) [OF _ Cons.prems(2) t(1)]) simp
  from t(2) this show ?case
    by (rule Cons.IH) (auto intro: Cons.prems(3))
qed simp


section \<open>Lists\<close>

text \<open>\<^verbatim>\<open>Iterator::position\<close>.\<close>

fun position :: "('a \<Rightarrow> bool) \<Rightarrow> 'a list \<Rightarrow> nat option" where
  "position P [] = None"
| "position P (x # xs) = (if P x then Some 0 else map_option Suc (position P xs))"

lemma position_SomeD: "position P xs = Some i \<Longrightarrow> i < length xs \<and> P (xs ! i)"
  by (induction xs arbitrary: i) (auto split: if_splits)

lemma position_first: "position P xs = Some i \<Longrightarrow> j < i \<Longrightarrow> \<not> P (xs ! j)"
proof (induction xs arbitrary: i j)
  case (Cons x xs)
  then show ?case by (cases j) (auto split: if_splits)
qed simp

lemma position_None_iff: "position P xs = None \<longleftrightarrow> (\<forall>x \<in> set xs. \<not> P x)"
  by (induction xs) auto

lemma find_SomeD: "List.find P xs = Some x \<Longrightarrow> x \<in> set xs \<and> P x"
  by (induction xs) (auto split: if_splits)

lemma find_cong_set: "(\<And>x. x \<in> set xs \<Longrightarrow> P x = Q x) \<Longrightarrow> List.find P xs = List.find Q xs"
  by (induction xs) auto

lemma length_filter_distinct:
  assumes "distinct xs"
  shows "length (filter P xs) = card {x \<in> set xs. P x}"
  using distinct_card [OF distinct_filter [OF assms, of P]] by simp


section \<open>Ordered association lists\<close>

text \<open>
  A \<^verbatim>\<open>BTreeMap<K, V>\<close> is the list of its entries in key order; \<^const>\<open>map_of\<close> is \<^verbatim>\<open>get\<close> and
  iteration is the list itself.
\<close>

fun btree_insert :: "'k::linorder \<Rightarrow> 'v \<Rightarrow> ('k \<times> 'v) list \<Rightarrow> ('k \<times> 'v) list" where
  "btree_insert k v [] = [(k, v)]"
| "btree_insert k v (e # es) =
     (if fst e = k then (k, v) # es
      else if k < fst e then (k, v) # e # es
      else e # btree_insert k v es)"

definition btree_of_list :: "('k::linorder \<times> 'v) list \<Rightarrow> ('k \<times> 'v) list" where
  "btree_of_list kvs = fold (\<lambda>(k, v). btree_insert k v) kvs []"

definition btree_wf :: "('k::linorder \<times> 'v) list \<Rightarrow> bool" where
  "btree_wf es = sorted_wrt (<) (map fst es)"

lemma map_of_btree_insert: "map_of (btree_insert k v es) = (map_of es)(k \<mapsto> v)"
  by (induction es) (auto simp: fun_eq_iff)

lemma keys_btree_insert: "fst ` set (btree_insert k v es) = insert k (fst ` set es)"
  by (induction es) auto

lemma btree_wf_insert [inv_intros]: "btree_wf es \<Longrightarrow> btree_wf (btree_insert k v es)"
proof (induction es)
  case (Cons e es)
  have hd_less: "\<forall>x \<in> fst ` set es. fst e < x" and tl_wf: "btree_wf es"
    using Cons.prems by (auto simp: btree_wf_def)
  consider "fst e = k" | "k < fst e" | "fst e < k" by fastforce
  then show ?case
  proof cases
    case 1
    then show ?thesis using Cons.prems by (simp add: btree_wf_def)
  next
    case 2
    then show ?thesis using Cons.prems by (auto simp: btree_wf_def)
  next
    case 3
    then have "\<forall>x \<in> fst ` set (btree_insert k v es). fst e < x"
      using hd_less by (auto simp: keys_btree_insert)
    with 3 Cons.IH [OF tl_wf] show ?thesis by (auto simp: btree_wf_def)
  qed
qed (simp add: btree_wf_def)

lemma btree_wf_Nil [simp]: "btree_wf []"
  by (simp add: btree_wf_def)

lemma btree_wf_distinct: "btree_wf es \<Longrightarrow> distinct (map fst es)"
  by (simp add: btree_wf_def strict_sorted_iff)

lemma btree_wf_of_list: "btree_wf (btree_of_list kvs)"
proof -
  have "btree_wf (fold (\<lambda>(k, v). btree_insert k v) kvs es)" if "btree_wf es" for es
    using that by (induction kvs arbitrary: es) (auto intro: btree_wf_insert)
  then show ?thesis by (simp add: btree_of_list_def)
qed

lemma map_of_btree_of_list: "map_of (btree_of_list kvs) = map_of (rev kvs)"
proof -
  have "map_of (fold (\<lambda>(k, v). btree_insert k v) kvs es) = map_of es ++ map_of (rev kvs)" for es
    by (induction kvs arbitrary: es) (auto simp: map_of_btree_insert map_add_def fun_eq_iff
        split: option.splits)
  then show ?thesis by (simp add: btree_of_list_def)
qed

lemma keys_btree_of_list: "fst ` set (btree_of_list kvs) = fst ` set kvs"
  using map_of_btree_of_list [of kvs] by (metis dom_map_of_conv_image_fst set_rev)

lemma map_of_Some_in_keys: "map_of es k = Some v \<Longrightarrow> k \<in> fst ` set es"
  by (metis domI dom_map_of_conv_image_fst)

lemma map_of_btree_sorted_eq:
  assumes "btree_wf xs" "btree_wf ys" "map_of xs = map_of ys"
  shows "xs = ys"
proof -
  have "set xs = set ys"
    using assms by (metis btree_wf_distinct map_of_eq_Some_iff subrelI subset_antisym)
  moreover have "sorted (map fst xs)" "sorted (map fst ys)"
    using assms(1,2) by (auto simp: btree_wf_def strict_sorted_iff)
  moreover have "inj_on fst (set xs \<union> set ys)" "distinct (map fst xs)" "distinct (map fst ys)"
    using assms(1,2) btree_wf_distinct \<open>set xs = set ys\<close> by (auto simp: distinct_map)
  ultimately show ?thesis
    by (intro map_sorted_distinct_set_unique [of fst])
qed


section \<open>Decimal printing\<close>

text \<open>\<^verbatim>\<open>Display\<close> of an unsigned integer.\<close>

fun show_nat :: "nat \<Rightarrow> string" where
  "show_nat n = (if n < 10 then [char_of (48 + n)]
     else show_nat (n div 10) @ [char_of (48 + n mod 10)])"

declare show_nat.simps [simp del]

lemma show_nat_less_10: "n < 10 \<Longrightarrow> show_nat n = [char_of (48 + n)]"
  by (subst show_nat.simps) simp

lemma show_nat_ge_10:
  "\<not> n < 10 \<Longrightarrow> show_nat n = show_nat (n div 10) @ [char_of (48 + n mod 10)]"
  by (subst show_nat.simps) simp

lemma show_nat_not_Nil [simp]: "show_nat n \<noteq> []"
  by (cases "n < 10") (simp_all add: show_nat_less_10 show_nat_ge_10)

lemma char_of_digit_eq: "a < 10 \<Longrightarrow> b < 10 \<Longrightarrow>
    (char_of (48 + a) :: char) = char_of (48 + b) \<longleftrightarrow> a = b" for a b :: nat
  by (simp add: char_of_eq_iff take_bit_eq_mod)

lemma show_nat_inj [simp]: "show_nat n = show_nat m \<longleftrightarrow> n = m"
proof
  show "show_nat n = show_nat m \<Longrightarrow> n = m"
  proof (induction n arbitrary: m rule: less_induct)
    case (less n)
    show ?case
    proof (cases "n < 10 \<or> m < 10")
      case True
      with less.prems show ?thesis
        by (cases "n < 10"; cases "m < 10")
          (auto simp: show_nat_less_10 show_nat_ge_10 char_of_digit_eq Cons_eq_append_conv
            append_eq_Cons_conv)
    next
      case False
      with less.prems have "show_nat (n div 10) = show_nat (m div 10)" "n mod 10 = m mod 10"
        by (simp_all add: show_nat_ge_10 char_of_digit_eq)
      moreover have "n div 10 < n" using False by simp
      ultimately show ?thesis using less.IH [of "n div 10" "m div 10"] by (metis div_mult_mod_eq)
    qed
  qed
qed simp

definition is_ascii_digit :: "char \<Rightarrow> bool" where
  "is_ascii_digit c = (of_char c \<ge> (48::nat) \<and> of_char c \<le> (57::nat))"

definition is_ascii_hexdigit :: "char \<Rightarrow> bool" where
  "is_ascii_hexdigit c =
     (is_ascii_digit c
      \<or> (of_char c \<ge> (65::nat) \<and> of_char c \<le> (70::nat))
      \<or> (of_char c \<ge> (97::nat) \<and> of_char c \<le> (102::nat)))"

text \<open>\<^verbatim>\<open>[T]::join\<close> on strings.\<close>

fun join_str :: "string \<Rightarrow> string list \<Rightarrow> string" where
  "join_str sep [] = []"
| "join_str sep [s] = s"
| "join_str sep (s # ss) = s @ sep @ join_str sep ss"

text \<open>\<^verbatim>\<open>str::starts_with\<close> and \<^verbatim>\<open>str::strip_prefix\<close>.\<close>

fun starts_with :: "string \<Rightarrow> string \<Rightarrow> bool" where
  "starts_with s [] = True"
| "starts_with [] (p # ps) = False"
| "starts_with (c # s) (p # ps) = (c = p \<and> starts_with s ps)"

lemma starts_with_iff: "starts_with s p \<longleftrightarrow> (\<exists>r. s = p @ r)"
  by (induction s p rule: starts_with.induct) auto

text \<open>Joining with a separator is unambiguous when the separator is absent from the head.\<close>

lemma sep_append_inj:
  assumes "x \<notin> set a" "x \<notin> set b" "a @ x # r = b @ x # s"
  shows "a = b \<and> r = s"
  using assms
proof (induction a arbitrary: b)
  case Nil
  then show ?case by (cases b) auto
next
  case (Cons c a)
  then show ?case by (cases b) auto
qed

end
