(* ===== verification/Core_Base.thy ===== *)
theory Core_Base
  imports Prelude
begin

text \<open>
  The parts of \<^verbatim>\<open>glasschain-core\<close> every other module uses: \<^verbatim>\<open>error.rs\<close>, \<^verbatim>\<open>crypto.rs\<close> and
  \<^verbatim>\<open>wire.rs\<close>.

  Error values keep the variant of \<^verbatim>\<open>CoreError\<close> and replace its message by one constructor per
  place that raises it, so every early return of the code is a value of the model.

  The SHA-256 and hexadecimal encoders are external crates.  They are the fields of a record
  \<open>crypto\<close> that the definitions take as an argument; the records of later theories extend it
  with the other external functions they need.
\<close>

section \<open>Errors\<close>

text \<open>\<^verbatim>\<open>GasMeter\<close>: the budget that was exhausted.\<close>

datatype gas_meter = Fuel | Operation

text \<open>Why a canonical record is rejected (\<^verbatim>\<open>canonical.rs\<close>, \<^verbatim>\<open>capability.rs\<close>).\<close>

datatype record_error =
    RecordIdEmpty
  | IssuerEmpty
  | NoSignature
  | VersionZero
  | UnsupportedVersion
  | UnknownSchema
  | LegacyShaped
  | MissingRequired string
  | UnknownPayloadField string
  | BadGtin
  | BadReceivedAt
  | BadValidityDates
  | ValidityReversed
  | BadManifestCommitment
  | BadMerkleRoot
  | CounterpartiesNotArray
  | BadCounterparties
  | TooFewSignatures
  | BadAggregationRatio
  | BadStatus
  | AnchorMissing
  | AnchorMismatch
  | AnchorNotAllowed
  | UnknownNamespace string
  | NamespaceVersion string
  | ShadowsCoreField string
  | ExtensionMissingField string
  | ExtensionWrongType string
  | PrivateNeedsPdcRef
  | PrivateNotSingleton
  | PrivateBadCommitment
  | StateCommitmentInactive

text \<open>Why a capability activation is rejected (\<^verbatim>\<open>capability.rs\<close>).\<close>

datatype capability_error =
    UnknownCapability
  | VersionNotRegistered
  | CapabilityHashMismatch
  | HeightNotFuture
  | AlreadyActivated
  | NoGovernanceSignature

text \<open>Why endorsement policy metadata or an endorsement is rejected (\<^verbatim>\<open>endorsement.rs\<close>).\<close>

datatype endorsement_error =
    PrincipalEmpty
  | NoRules
  | RequiredOutOfRange
  | EmptyPolicyKey
  | UpdateChannelEmpty
  | SameBlockConflict
  | MissingReceiver
  | MissingIssuedBy
  | MissingIssuer
  | MissingCounterparties
  | CounterpartyNotName
  | WriteOutsideScope
  | UpdateWithoutCarrier
  | PolicyUnsatisfied
  | DefaultUnsatisfied
  | UnknownSigningKey
  | PrincipalConflict
  | NotYetAuthorized
  | KeyRevoked
  | KeyNot32Bytes
  | KeyNotEd25519

text \<open>Why a persistent write set is rejected (\<^verbatim>\<open>write_set.rs\<close>).\<close>

datatype write_error =
    ChannelEmpty | ContractEmpty | KeyEmpty | CollectionEmpty | DuplicateScopedKey

text \<open>The reasons behind \<^verbatim>\<open>CoreError::InvalidTransaction\<close>.\<close>

datatype tx_error =
    TxIdEmpty
  | PoolFull
  | RecordRejected record_error
  | CapabilityRejected capability_error
  | EndorsementRejected endorsement_error
  | WriteRejected write_error
  | BftNoValidatorSet
  | BftNotInSet
  | BftNotLeader
  | BftPrevoteTimeout
  | BftPrecommitTimeout
  | PdcInactive
  | NoEndorsementProvider

text \<open>Why the BFT engine rejects a validator, a vote, a certificate or evidence (\<^verbatim>\<open>bft.rs\<close>, \<^verbatim>\<open>node.rs\<close>).\<close>

datatype bft_error =
    KeyLength
  | KeyInvalid
  | PopInvalid
  | PopRejected
  | VoterOutsideSet
  | VoteSignatureInvalid
  | AggregationFailed
  | DegenerateCertificate
  | BitmapTooLarge
  | QuorumMissed
  | BitmapOutsideSet
  | AggregateInvalid
  | AggregateRejected
  | NoRecoverableSet
  | RegistryCorrupt
  | RegistryNoKey
  | RegistryNoPop

datatype vote_error =
    VoteAlgorithm
  | NoContextSignature
  | VoteKeyInvalid
  | VoteInvalid
  | VoteRejected
  | ContextInvalid
  | ContextRejected
  | EquivocationSameHash
  | EquivocationContext
  | EquivocationChains

text \<open>Why a block does not chain or is not admitted (\<^verbatim>\<open>block.rs\<close>, \<^verbatim>\<open>ledger.rs\<close>, \<^verbatim>\<open>providers.rs\<close>).\<close>

datatype chain_error =
    PreviousHashMismatch
  | IndexGap
  | HashInvalid
  | PowMissed
  | NoConsensusProof
  | GenesisHashInvalid
  | GenesisPowMissed
  | NotGenesisOnEmptyStore
  | StaleTip

datatype certificate_error =
    CertIndexMismatch
  | CertHashMismatch
  | CertMissingAggregate
  | CertWrongAlgorithm

text \<open>
  \<^verbatim>\<open>CoreError\<close> and the reasons behind \<^verbatim>\<open>InvalidBlock\<close>.  Some of those reasons quote another
  \<^verbatim>\<open>CoreError\<close>.
\<close>

datatype core_error =
    InvalidBlock block_error
  | InvalidTransaction tx_error
  | EmptyLedger
  | Serialization
  | GasExhausted gas_meter u64 u64
  | Execution string
  | Storage string
and block_error =
    ChainRejected chain_error
  | CertificateRejected certificate_error
  | BftRejected bft_error
  | VoteRefused vote_error
  | CapabilityHistoryInvalid core_error
  | DoesNotChain core_error
  | HistoricalSetInvalid core_error

abbreviation chain_err :: "chain_error \<Rightarrow> core_error" where
  "chain_err e \<equiv> InvalidBlock (ChainRejected e)"

abbreviation certificate_err :: "certificate_error \<Rightarrow> core_error" where
  "certificate_err e \<equiv> InvalidBlock (CertificateRejected e)"

abbreviation bft_err :: "bft_error \<Rightarrow> core_error" where
  "bft_err e \<equiv> InvalidBlock (BftRejected e)"

abbreviation vote_err :: "vote_error \<Rightarrow> core_error" where
  "vote_err e \<equiv> InvalidBlock (VoteRefused e)"

abbreviation record_err :: "record_error \<Rightarrow> core_error" where
  "record_err e \<equiv> InvalidTransaction (RecordRejected e)"

abbreviation capability_err :: "capability_error \<Rightarrow> core_error" where
  "capability_err e \<equiv> InvalidTransaction (CapabilityRejected e)"

abbreviation endorsement_err :: "endorsement_error \<Rightarrow> core_error" where
  "endorsement_err e \<equiv> InvalidTransaction (EndorsementRejected e)"

abbreviation write_err :: "write_error \<Rightarrow> core_error" where
  "write_err e \<equiv> InvalidTransaction (WriteRejected e)"


section \<open>Hashing\<close>

record crypto =
  sha_digest :: "bytes \<Rightarrow> bytes"
  hex_encode :: "bytes \<Rightarrow> string"

text \<open>\<^verbatim>\<open>sha256\<close> of \<^verbatim>\<open>crypto.rs\<close>: the hexadecimal digest.\<close>

definition sha256 :: "'z crypto_scheme \<Rightarrow> bytes \<Rightarrow> string" where
  "sha256 E data = hex_encode E (sha_digest E data)"

text \<open>
  Two different inputs with the same digest.  Statements about commitments have this as the
  alternative they cannot exclude.
\<close>

definition sha_collision :: "'z crypto_scheme \<Rightarrow> bool" where
  "sha_collision E \<longleftrightarrow> (\<exists>x y. x \<noteq> y \<and> sha256 E x = sha256 E y)"

lemma sha256_eqD: "sha256 E x = sha256 E y \<Longrightarrow> x = y \<or> sha_collision E"
  by (auto simp: sha_collision_def)

text \<open>
  The documented shape of a SHA-256 digest in hexadecimal: 64 lower-case hexadecimal digits.
\<close>

definition sha_hex64 :: "'z crypto_scheme \<Rightarrow> bool" where
  "sha_hex64 E \<longleftrightarrow>
     (\<forall>x. length (sha256 E x) = 64 \<and> list_all is_ascii_hexdigit (sha256 E x))"


section \<open>Wire encoding\<close>

text \<open>\<^verbatim>\<open>SignatureAlgorithm\<close>: the discriminant every signature carrier names.\<close>

datatype signature_algorithm = Ed25519 | Bls12381

definition is_ed25519 :: "signature_algorithm \<Rightarrow> bool" where
  "is_ed25519 a = (case a of Ed25519 \<Rightarrow> True | Bls12381 \<Rightarrow> False)"

end
