(* ===== verification/WriteSet.thy ===== *)
theory WriteSet
  imports Core_Base
begin

text \<open>
  \<^verbatim>\<open>glasschain-core/src/write_set.rs\<close>: typed execution results, scoped persistent writes,
  their canonical order, their redacted block form and their effect on the world-state cache.
\<close>

section \<open>Data\<close>

datatype write_visibility = Public | Pdc string

datatype write_op = Set bytes | Delete

record persistent_write =
  pw_channel :: string
  pw_contract :: string
  pw_key :: string
  pw_op :: write_op
  pw_visibility :: write_visibility

record execution_result =
  ephemeral :: "(string \<times> bytes) list"
  writes :: "persistent_write list"

text \<open>A world state is \<^verbatim>\<open>HashMap<String, Vec<u8>>\<close>.\<close>

type_synonym world_state = "string \<rightharpoonup> bytes"

text \<open>The scoped key of a write.\<close>

definition scope :: "persistent_write \<Rightarrow> string \<times> string \<times> string" where
  "scope w = (pw_channel w, pw_contract w, pw_key w)"


section \<open>Operations\<close>

text \<open>\<^verbatim>\<open>From<Vec<(String, Vec<u8>)>>\<close>: a legacy provider's ephemeral-only output.\<close>

definition from_ephemeral :: "(string \<times> bytes) list \<Rightarrow> execution_result" where
  "from_ephemeral e = \<lparr>ephemeral = e, writes = []\<rparr>"

definition block_form :: "'z crypto_scheme \<Rightarrow> persistent_write \<Rightarrow> persistent_write" where
  "block_form E w =
     w\<lparr>pw_op := (case (pw_op w, pw_visibility w) of
        (Set value, Pdc _) \<Rightarrow> Set (str_bytes (sha256 E value))
      | _ \<Rightarrow> pw_op w)\<rparr>"

definition state_key :: "persistent_write \<Rightarrow> string" where
  "state_key w =
     ''ws:'' @ pw_channel w @ '':'' @ pw_contract w @ '':'' @ pw_key w"

definition apply_to_cache :: "persistent_write \<Rightarrow> world_state \<Rightarrow> world_state" where
  "apply_to_cache w cache =
     (case pw_op w of
        Set value \<Rightarrow> cache(state_key w \<mapsto> value)
      | Delete \<Rightarrow> cache(state_key w := None))"

text \<open>The per-write checks of \<^verbatim>\<open>ExecutionResult::canonicalize\<close>, with the set of scopes seen.\<close>

definition check_write ::
  "(string \<times> string \<times> string) set \<Rightarrow> persistent_write \<Rightarrow>
     core_error + (string \<times> string \<times> string) set" where
  "check_write seen w =
     (if pw_channel w = [] then Inl (write_err ChannelEmpty)
      else if pw_contract w = [] then Inl (write_err ContractEmpty)
      else if pw_key w = [] then Inl (write_err KeyEmpty)
      else if pw_visibility w = Pdc [] then Inl (write_err CollectionEmpty)
      else if scope w \<in> seen then Inl (write_err DuplicateScopedKey)
      else Inr (insert (scope w) seen))"

definition canonicalize :: "execution_result \<Rightarrow> core_error + execution_result" where
  "canonicalize r =
     res_bind (try_fold check_write {} (writes r)) (\<lambda>_.
       Inr \<lparr>ephemeral = ephemeral r, writes = sort_key scope (writes r)\<rparr>)"


section \<open>Canonical form\<close>

text \<open>A write passes the stateless checks.\<close>

definition write_ok :: "persistent_write \<Rightarrow> bool" where
  "write_ok w \<longleftrightarrow>
     pw_channel w \<noteq> [] \<and> pw_contract w \<noteq> [] \<and> pw_key w \<noteq> [] \<and> pw_visibility w \<noteq> Pdc []"

lemma check_write_Inr_iff:
  "check_write seen w = Inr seen' \<longleftrightarrow>
     write_ok w \<and> scope w \<notin> seen \<and> seen' = insert (scope w) seen"
  by (auto simp: check_write_def write_ok_def)

lemma try_fold_check_write:
  "is_ok (try_fold check_write seen ws) \<longleftrightarrow>
     list_all write_ok ws \<and> distinct (map scope ws) \<and> scope ` set ws \<inter> seen = {}"
proof (induction ws arbitrary: seen)
  case (Cons w ws)
  show ?case
  proof (cases "check_write seen w")
    case (Inl e)
    then have "\<not> (write_ok w \<and> scope w \<notin> seen)"
      using check_write_Inr_iff [of seen w] by fastforce
    with Inl show ?thesis by auto
  next
    case (Inr seen')
    then have "write_ok w" "scope w \<notin> seen" "seen' = insert (scope w) seen"
      by (simp_all add: check_write_Inr_iff)
    with Inr Cons.IH [of seen'] show ?thesis by auto
  qed
qed simp

text \<open>The exact condition under which \<^const>\<open>canonicalize\<close> accepts.\<close>

lemma canonicalize_Inr_iff:
  "canonicalize r = Inr r' \<longleftrightarrow>
     list_all write_ok (writes r) \<and> distinct (map scope (writes r)) \<and>
     r' = \<lparr>ephemeral = ephemeral r, writes = sort_key scope (writes r)\<rparr>"
  using try_fold_check_write [of "{}" "writes r"]
  by (auto simp: canonicalize_def res_bind_Inr_iff is_ok_iff)

lemma sort_key_scope_unique:
  assumes "mset ws = mset ws'" "distinct (map scope ws)"
  shows "sort_key scope ws = sort_key scope ws'"
proof -
  have sets: "set ws = set ws'" using assms(1) by (rule mset_eq_setD)
  have d: "distinct (map scope us)" if "mset us = mset ws" for us
    using that assms(2) by (metis mset_eq_imp_distinct_iff mset_map)
  have "inj_on scope (set ws)" using assms(2) by (simp add: distinct_map)
  with sets d assms(1) show ?thesis
    by (intro map_sorted_distinct_set_unique [of scope]) auto
qed

text \<open>
  The canonical write set does not depend on the order in which the guest issued its
  writes: two results with the same ephemeral output and the same writes in any order are
  accepted together and give the same canonical result.
\<close>

theorem canonicalize_order_independent:
  assumes "mset (writes a) = mset (writes b)" and "ephemeral a = ephemeral b"
    and "canonicalize a = Inr r"
  shows "canonicalize b = Inr r \<and> sorted (map scope (writes r)) \<and> mset (writes r) = mset (writes a)"
proof -
  have ok: "list_all write_ok (writes a)" "distinct (map scope (writes a))"
    and r: "r = \<lparr>ephemeral = ephemeral a, writes = sort_key scope (writes a)\<rparr>"
    using assms(3) by (simp_all add: canonicalize_Inr_iff)
  have "list_all write_ok (writes b)"
    using ok(1) mset_eq_setD [OF assms(1)] by (simp add: list_all_iff)
  moreover have "distinct (map scope (writes b))"
    using ok(2) assms(1) by (metis mset_eq_imp_distinct_iff mset_map)
  moreover have "sort_key scope (writes a) = sort_key scope (writes b)"
    using assms(1) ok(2) by (rule sort_key_scope_unique)
  ultimately have "canonicalize b = Inr r"
    using assms(2) r by (simp add: canonicalize_Inr_iff)
  then show ?thesis using r by simp
qed

definition sample_write :: "string \<Rightarrow> persistent_write" where
  "sample_write k = \<lparr>pw_channel = ''c'', pw_contract = ''k'', pw_key = k,
     pw_op = Delete, pw_visibility = Public\<rparr>"

theorem canonicalize_order_independent_witness:
  "canonicalize \<lparr>ephemeral = [], writes = [sample_write ''b'', sample_write ''a'']\<rparr> =
     canonicalize \<lparr>ephemeral = [], writes = [sample_write ''a'', sample_write ''b'']\<rparr>"
proof -
  let ?a = "\<lparr>ephemeral = [], writes = [sample_write ''b'', sample_write ''a'']\<rparr>"
  let ?b = "\<lparr>ephemeral = [], writes = [sample_write ''a'', sample_write ''b'']\<rparr>"
  have "canonicalize ?a = Inr \<lparr>ephemeral = [], writes = [sample_write ''a'', sample_write ''b'']\<rparr>"
    by (simp add: canonicalize_Inr_iff write_ok_def scope_def sample_write_def)
  then show ?thesis using canonicalize_order_independent [of ?a ?b] by simp
qed


section \<open>State keys\<close>

text \<open>No component of the scope contains the separator.\<close>

definition colon_free :: "persistent_write \<Rightarrow> bool" where
  "colon_free w \<longleftrightarrow> CHR '':'' \<notin> set (pw_channel w) \<and> CHR '':'' \<notin> set (pw_contract w)"

lemma state_key_inj:
  assumes "colon_free v" "colon_free w" "state_key v = state_key w"
  shows "scope v = scope w"
proof -
  have "pw_channel v @ CHR '':'' # pw_contract v @ CHR '':'' # pw_key v =
      pw_channel w @ CHR '':'' # pw_contract w @ CHR '':'' # pw_key w"
    using assms(3) by (simp add: state_key_def)
  then have "pw_channel v = pw_channel w"
    "pw_contract v @ CHR '':'' # pw_key v = pw_contract w @ CHR '':'' # pw_key w"
    using assms(1,2) sep_append_inj [of "CHR '':''" "pw_channel v" "pw_channel w"]
    by (auto simp: colon_free_def)
  then show ?thesis
    using assms(1,2) sep_append_inj [of "CHR '':''" "pw_contract v" "pw_contract w"]
    by (auto simp: colon_free_def scope_def)
qed

text \<open>Applying a list of writes, as the commit and replay paths do.\<close>

definition apply_writes :: "persistent_write list \<Rightarrow> world_state \<Rightarrow> world_state" where
  "apply_writes ws cache = fold apply_to_cache ws cache"

lemma apply_to_cache_other:
  "state_key w \<noteq> k \<Longrightarrow> apply_to_cache w cache k = cache k"
  by (simp add: apply_to_cache_def split: write_op.split)

lemma apply_to_cache_own:
  "apply_to_cache w cache (state_key w) = (case pw_op w of Set v \<Rightarrow> Some v | Delete \<Rightarrow> None)"
  by (simp add: apply_to_cache_def split: write_op.split)

lemma apply_writes_other:
  "k \<notin> state_key ` set ws \<Longrightarrow> apply_writes ws cache k = cache k"
  by (induction ws arbitrary: cache) (auto simp: apply_writes_def apply_to_cache_other)

lemma apply_writes_distinct:
  assumes "distinct (map state_key ws)" "w \<in> set ws"
  shows "apply_writes ws cache (state_key w) =
    (case pw_op w of Set v \<Rightarrow> Some v | Delete \<Rightarrow> None)"
  using assms
proof (induction ws arbitrary: cache)
  case (Cons v ws)
  show ?case
  proof (cases "w = v")
    case True
    with Cons.prems(1) have "state_key w \<notin> state_key ` set ws" by simp
    then show ?thesis
      using True apply_writes_other [of "state_key w" ws "apply_to_cache v cache"]
      by (simp add: apply_writes_def apply_to_cache_own)
  next
    case False
    with Cons show ?thesis by (simp add: apply_writes_def)
  qed
qed simp

end
