(* ===== verification/Asset.thy ===== *)
theory Asset
  imports Core_Base Complex_Main
begin

text \<open>
  \<^verbatim>\<open>glasschain-core/src/asset.rs\<close> and \<^verbatim>\<open>schema.rs\<close>: the traceable asset, the ISO-8601 date
  check, the metadata trust score with its fee multiplier, and the SNCM compliance report.
\<close>

section \<open>Parsing and dates\<close>

text \<open>
  \<^verbatim>\<open>str::parse\<close> at an unsigned type with largest value \<open>m\<close>: a lone sign is an invalid digit, one
  leading \<^verbatim>\<open>+\<close> is accepted, every other character must be a digit, overflow is an error.
\<close>

fun parse_digits :: "nat \<Rightarrow> nat \<Rightarrow> string \<Rightarrow> nat option" where
  "parse_digits m acc [] = Some acc"
| "parse_digits m acc (c # cs) =
     (if is_ascii_digit c \<and> acc * 10 + (of_char c - 48) \<le> m
      then parse_digits m (acc * 10 + (of_char c - 48)) cs else None)"

definition parse_uint :: "nat \<Rightarrow> string \<Rightarrow> nat option" where
  "parse_uint m s =
     (case s of
        [] \<Rightarrow> None
      | [c] \<Rightarrow> parse_digits m 0 [c]
      | c # cs \<Rightarrow> if c = CHR ''+'' then parse_digits m 0 cs else parse_digits m 0 s)"

text \<open>
  \<^verbatim>\<open>s[i..j]\<close>.  At the offsets used below the slice is at a character boundary of any UTF-8
  string that passed the separator test, since both neighbours of an ASCII byte are boundaries.
\<close>

definition slice :: "nat \<Rightarrow> nat \<Rightarrow> string \<Rightarrow> string" where
  "slice i j s = take (j - i) (drop i s)"

definition is_valid_iso8601_date :: "string \<Rightarrow> bool" where
  "is_valid_iso8601_date s =
     (if length s \<noteq> 10 then False
      else if s ! 4 \<noteq> CHR ''-'' \<or> s ! 7 \<noteq> CHR ''-'' then False
      else case parse_uint 65535 (slice 0 4 s) of
        None \<Rightarrow> False
      | Some year \<Rightarrow>
          (case parse_uint 255 (slice 5 7 s) of
             None \<Rightarrow> False
           | Some month \<Rightarrow>
               (case parse_uint 255 (slice 8 10 s) of
                  None \<Rightarrow> False
                | Some day \<Rightarrow>
                    year \<ge> 1900 \<and> 1 \<le> month \<and> month \<le> 12 \<and> 1 \<le> day \<and> day \<le> 31)))"


section \<open>Assets and trust scores\<close>

record traceable_asset =
  gtin :: "string option"
  batch_number :: "string option"
  expiry_date :: "string option"
  serial_number :: "string option"
  anvisa_registration :: "string option"
  manufacturer_id :: "string option"
  product_name :: string
  custodian_id :: string
  country_of_origin :: "string option"
  storage_temp_celsius :: "string option"
  asset_quantity :: u64

record metadata_trust_score =
  score :: u8
  is_standard :: bool
  missing_core_fields :: "string list"
  bonus_fields_present :: "string list"

definition TRUST_SCORE_STANDARD_THRESHOLD :: u8 where
  "TRUST_SCORE_STANDARD_THRESHOLD = 80"

definition points :: "bool \<Rightarrow> u8 \<Rightarrow> u8" where
  "points flag weight = (if flag then weight else 0)"

text \<open>\<^verbatim>\<open>trust_score_value\<close> on \<^verbatim>\<open>[bool; 4]\<close> and \<^verbatim>\<open>[bool; 2]\<close>.\<close>

definition trust_score_value ::
  "bool \<times> bool \<times> bool \<times> bool \<Rightarrow> bool \<times> bool \<Rightarrow> u8" where
  "trust_score_value core bonus =
     (case (core, bonus) of
        ((c0, c1, c2, c3), (b0, b1)) \<Rightarrow>
          points c0 20 + points c1 20 + points c2 20 + points c3 20
          + points b0 10 + points b1 10)"

definition is_standard_score :: "u8 \<Rightarrow> bool" where
  "is_standard_score s = (s \<ge> TRUST_SCORE_STANDARD_THRESHOLD)"

text \<open>\<^verbatim>\<open>as_deref().is_some_and(|s| !s.is_empty())\<close>.\<close>

definition present :: "string option \<Rightarrow> bool" where
  "present v = (case v of None \<Rightarrow> False | Some s \<Rightarrow> s \<noteq> [])"

definition date_present :: "string option \<Rightarrow> bool" where
  "date_present v = (case v of None \<Rightarrow> False | Some s \<Rightarrow> is_valid_iso8601_date s)"

text \<open>\<^verbatim>\<open>MetadataTrustScore::compute\<close>.\<close>

definition compute :: "traceable_asset \<Rightarrow> metadata_trust_score" where
  "compute a =
     (let c0 = present (gtin a);
          c1 = present (batch_number a);
          c2 = date_present (expiry_date a);
          c3 = present (serial_number a);
          b0 = present (anvisa_registration a);
          b1 = present (manufacturer_id a);
          s = trust_score_value (c0, c1, c2, c3) (b0, b1)
      in \<lparr>score = s,
          is_standard = is_standard_score s,
          missing_core_fields =
            (if \<not> c0 then [''gtin''] else [])
            @ (if \<not> c1 then [''batch_number''] else [])
            @ (if \<not> c2 then [''expiry_date''] else [])
            @ (if \<not> c3 then [''serial_number''] else []),
          bonus_fields_present =
            (if b0 then [''anvisa_registration''] else [])
            @ (if b1 then [''manufacturer_id''] else [])\<rparr>)"

definition fee_multiplier :: "metadata_trust_score \<Rightarrow> rat" where
  "fee_multiplier s = (if is_standard s then 1 / 2 else 1)"


section \<open>SNCM compliance\<close>

record sncm_field =
  sf_name :: string
  sf_description :: string
  sf_is_mandatory :: bool
  sf_regex_hint :: "string option"

definition SNCM_SCHEMA :: "sncm_field list" where
  "SNCM_SCHEMA =
     [\<lparr>sf_name = ''gtin'',
       sf_description = ''Global Trade Item Number (GTIN-14 or EAN-13), 13-14 numeric digits'',
       sf_is_mandatory = True, sf_regex_hint = Some (''^'' @ [CHR 0x5C] @ ''d{13,14}$'')\<rparr>,
      \<lparr>sf_name = ''batch_number'',
       sf_description = ''Production batch/lot number (alfanum'' @ [CHR 0xC3, CHR 0xA9] @ ''rico)'',
       sf_is_mandatory = True, sf_regex_hint = None\<rparr>,
      \<lparr>sf_name = ''expiry_date'',
       sf_description = ''Expiry date in ISO-8601 format YYYY-MM-DD'',
       sf_is_mandatory = True,
       sf_regex_hint = Some (''^'' @ [CHR 0x5C] @ ''d{4}-'' @ [CHR 0x5C] @ ''d{2}-'' @
         [CHR 0x5C] @ ''d{2}$'')\<rparr>,
      \<lparr>sf_name = ''serial_number'',
       sf_description = ''Unique serialization number per unit'',
       sf_is_mandatory = True, sf_regex_hint = None\<rparr>,
      \<lparr>sf_name = ''anvisa_registration'',
       sf_description = ''Anvisa MS registration code (e.g., MS 1.0000.0001.001-1)'',
       sf_is_mandatory = False, sf_regex_hint = None\<rparr>,
      \<lparr>sf_name = ''manufacturer_id'',
       sf_description = ''CNPJ or legal entity ID of the manufacturer'',
       sf_is_mandatory = False, sf_regex_hint = None\<rparr>]"

datatype violation_severity = Critical | Warning

record schema_violation =
  sv_field :: string
  sv_message :: string
  sv_severity :: violation_severity

record schema_validation_report =
  is_compliant :: bool
  violations :: "schema_violation list"
  field_count_present :: nat
  field_count_total :: nat
  gas_fee_multiplier :: rat

definition critical_count :: "schema_validation_report \<Rightarrow> nat" where
  "critical_count r = length (filter (\<lambda>v. sv_severity v = Critical) (violations r))"

definition warning_count :: "schema_validation_report \<Rightarrow> nat" where
  "warning_count r = length (filter (\<lambda>v. sv_severity v = Warning) (violations r))"

text \<open>The closure \<^verbatim>\<open>check\<close> of \<^verbatim>\<open>validate_asset\<close>, on the captured counters.\<close>

definition check_field ::
  "bool \<Rightarrow> sncm_field \<times> bool \<Rightarrow> schema_violation list \<times> nat \<Rightarrow> schema_violation list \<times> nat" where
  "check_field expiry_invalid fp acc =
     (case (fp, acc) of
        ((field, present_flag), (vs, n)) \<Rightarrow>
          if present_flag then (vs, n + 1)
          else
            (let sev = (if sf_is_mandatory field then Critical else Warning);
                 prefix = (if sf_is_mandatory field then ''Mandatory'' else ''Recommended'');
                 problem = (if sf_name field = ''expiry_date'' \<and> expiry_invalid
                   then ''invalid format (expected YYYY-MM-DD)'' else ''missing or empty'')
             in (vs @ [\<lparr>sv_field = sf_name field,
                        sv_message = prefix @ '' field '' @ [CHR 0x27] @ sf_name field @
                          [CHR 0x27] @ '' is '' @ problem @ ''. '' @ sf_description field,
                        sv_severity = sev\<rparr>], n)))"

definition validate_asset :: "traceable_asset \<Rightarrow> schema_validation_report" where
  "validate_asset a =
     (let expiry_invalid = (case expiry_date a of
            None \<Rightarrow> False
          | Some s \<Rightarrow> s \<noteq> [] \<and> \<not> is_valid_iso8601_date s);
          presences = [present (gtin a), present (batch_number a), date_present (expiry_date a),
            present (serial_number a), present (anvisa_registration a),
            present (manufacturer_id a)];
          (vs, n) = fold (check_field expiry_invalid) (zip SNCM_SCHEMA presences) ([], 0);
          compliant = list_all (\<lambda>v. sv_severity v \<noteq> Critical) vs
      in \<lparr>is_compliant = compliant,
          violations = vs,
          field_count_present = n,
          field_count_total = length SNCM_SCHEMA,
          gas_fee_multiplier = (if compliant then 7 / 10 else 1)\<rparr>)"


section \<open>Scores and compliance agree\<close>

lemma trust_score_value_unat:
  "unat (trust_score_value (c0, c1, c2, c3) (b0, b1)) =
     20 * (of_bool c0 + of_bool c1 + of_bool c2 + of_bool c3) + 10 * (of_bool b0 + of_bool b1)"
  by (cases c0; cases c1; cases c2; cases c3; cases b0; cases b1)
    (simp_all add: trust_score_value_def points_def)

lemmas compute_simps = compute_def Let_def is_standard_score_def TRUST_SCORE_STANDARD_THRESHOLD_def
  word_le_nat_alt trust_score_value_unat

text \<open>
  The trust score is exactly 20 points per core field present plus 10 per bonus field
  present, so it never exceeds 100 and the \<^verbatim>\<open>u8\<close> sum never wraps.  An asset is standard exactly
  when no core field is missing, or when one is missing and both bonus fields are present.
\<close>

theorem compute_exact:
  "unat (score (compute a)) =
     20 * (4 - length (missing_core_fields (compute a)))
     + 10 * length (bonus_fields_present (compute a))
   \<and> length (missing_core_fields (compute a)) \<le> 4
   \<and> score (compute a) \<le> 100
   \<and> (is_standard (compute a) \<longleftrightarrow>
        missing_core_fields (compute a) = []
        \<or> length (missing_core_fields (compute a)) = 1
          \<and> length (bonus_fields_present (compute a)) = 2)"
  by (cases "present (gtin a)"; cases "present (batch_number a)";
      cases "date_present (expiry_date a)"; cases "present (serial_number a)";
      cases "present (anvisa_registration a)"; cases "present (manufacturer_id a)")
    (simp_all add: compute_simps)


text \<open>What the loop of \<^verbatim>\<open>validate_asset\<close> has accumulated, over any schema and presence flags.\<close>

lemma fold_check_field:
  assumes "fold (check_field ei) fps (vs, n) = (vs', n')"
  shows "map sv_field (filter (\<lambda>v. sv_severity v = Critical) vs') =
      map sv_field (filter (\<lambda>v. sv_severity v = Critical) vs)
      @ map (sf_name \<circ> fst) (filter (\<lambda>(f, p). \<not> p \<and> sf_is_mandatory f) fps)"
    and "map sv_field (filter (\<lambda>v. sv_severity v = Warning) vs') =
      map sv_field (filter (\<lambda>v. sv_severity v = Warning) vs)
      @ map (sf_name \<circ> fst) (filter (\<lambda>(f, p). \<not> p \<and> \<not> sf_is_mandatory f) fps)"
    and "n' + length vs' = n + length vs + length fps"
  using assms by (induction fps arbitrary: vs n) (auto simp: check_field_def Let_def split: if_splits)


text \<open>The presence flags of an asset in schema order.\<close>

definition presence_flags :: "traceable_asset \<Rightarrow> bool list" where
  "presence_flags a = [present (gtin a), present (batch_number a), date_present (expiry_date a),
     present (serial_number a), present (anvisa_registration a), present (manufacturer_id a)]"

lemma filter_schema:
  "map (sf_name \<circ> fst) (filter (\<lambda>(f, p). \<not> p \<and> sf_is_mandatory f)
     (zip SNCM_SCHEMA (presence_flags a))) = missing_core_fields (compute a)"
  "map (sf_name \<circ> fst) (filter (\<lambda>(f, p). \<not> p \<and> \<not> sf_is_mandatory f)
     (zip SNCM_SCHEMA (presence_flags a))) =
     filter (\<lambda>f. f \<notin> set (bonus_fields_present (compute a)))
       [''anvisa_registration'', ''manufacturer_id'']"
  by (simp_all add: SNCM_SCHEMA_def presence_flags_def compute_def Let_def)

lemma validate_asset_report:
  "map sv_field (filter (\<lambda>v. sv_severity v = Critical) (violations (validate_asset a))) =
     missing_core_fields (compute a)"
  "map sv_field (filter (\<lambda>v. sv_severity v = Warning) (violations (validate_asset a))) =
     filter (\<lambda>f. f \<notin> set (bonus_fields_present (compute a)))
       [''anvisa_registration'', ''manufacturer_id'']"
  "field_count_present (validate_asset a) + length (violations (validate_asset a)) = 6"
  "is_compliant (validate_asset a) \<longleftrightarrow>
     filter (\<lambda>v. sv_severity v = Critical) (violations (validate_asset a)) = []"
  "gas_fee_multiplier (validate_asset a) = (if is_compliant (validate_asset a) then 7 / 10 else 1)"
proof -
  define ei where "ei = (case expiry_date a of None \<Rightarrow> False
    | Some s \<Rightarrow> s \<noteq> [] \<and> \<not> is_valid_iso8601_date s)"
  obtain vs n where f: "fold (check_field ei) (zip SNCM_SCHEMA (presence_flags a)) ([], 0) = (vs, n)"
    by fastforce
  have r: "validate_asset a = \<lparr>is_compliant = list_all (\<lambda>v. sv_severity v \<noteq> Critical) vs,
      violations = vs, field_count_present = n, field_count_total = length SNCM_SCHEMA,
      gas_fee_multiplier = (if list_all (\<lambda>v. sv_severity v \<noteq> Critical) vs then 7 / 10 else 1)\<rparr>"
    using f unfolding validate_asset_def presence_flags_def ei_def by simp
  have len: "length (zip SNCM_SCHEMA (presence_flags a)) = 6"
    by (simp add: SNCM_SCHEMA_def presence_flags_def)
  show "map sv_field (filter (\<lambda>v. sv_severity v = Critical) (violations (validate_asset a))) =
     missing_core_fields (compute a)"
    using fold_check_field(1) [OF f] filter_schema(1) [of a] by (simp add: r)
  show "map sv_field (filter (\<lambda>v. sv_severity v = Warning) (violations (validate_asset a))) =
     filter (\<lambda>f. f \<notin> set (bonus_fields_present (compute a)))
       [''anvisa_registration'', ''manufacturer_id'']"
    using fold_check_field(2) [OF f] filter_schema(2) [of a] by (simp add: r)
  show "field_count_present (validate_asset a) + length (violations (validate_asset a)) = 6"
    using fold_check_field(3) [OF f] len by (simp add: r)
  show "is_compliant (validate_asset a) \<longleftrightarrow>
     filter (\<lambda>v. sv_severity v = Critical) (violations (validate_asset a)) = []"
    by (simp add: r filter_empty_conv list_all_iff)
  show "gas_fee_multiplier (validate_asset a) =
      (if is_compliant (validate_asset a) then 7 / 10 else 1)"
    by (simp add: r)
qed

text \<open>
  The SNCM report and the trust score judge the same six fields: the critical violations
  name exactly the missing core fields, in order, the warnings exactly the absent bonus fields,
  every field is counted once, an asset is compliant exactly when no core field is missing, and
  a compliant asset pays both discounted multipliers.
\<close>

theorem validate_asset_agrees:
  "map sv_field (filter (\<lambda>v. sv_severity v = Critical) (violations (validate_asset a))) =
     missing_core_fields (compute a)
   \<and> map sv_field (filter (\<lambda>v. sv_severity v = Warning) (violations (validate_asset a))) =
     filter (\<lambda>f. f \<notin> set (bonus_fields_present (compute a)))
       [''anvisa_registration'', ''manufacturer_id'']
   \<and> field_count_present (validate_asset a) + length (violations (validate_asset a)) = 6
   \<and> (is_compliant (validate_asset a) \<longleftrightarrow> missing_core_fields (compute a) = [])
   \<and> (if is_compliant (validate_asset a)
      then gas_fee_multiplier (validate_asset a) = 7 / 10 \<and> fee_multiplier (compute a) = 1 / 2
      else gas_fee_multiplier (validate_asset a) = 1)"
proof -
  have c: "is_compliant (validate_asset a) \<longleftrightarrow> missing_core_fields (compute a) = []"
    using validate_asset_report(1,4) [of a] by (metis Nil_is_map_conv)
  have "is_standard (compute a)" if "missing_core_fields (compute a) = []"
    using that by (simp add: compute_simps split: if_splits)
  then show ?thesis
    using c validate_asset_report [of a] by (simp add: fee_multiplier_def)
qed


section \<open>Calendar dates\<close>

text \<open>A date printed the way ISO-8601 prints it: zero-padded decimal fields.\<close>

definition digit :: "nat \<Rightarrow> char" where
  "digit n = char_of (48 + n)"

fun pad :: "nat \<Rightarrow> nat \<Rightarrow> string" where
  "pad 0 n = []"
| "pad (Suc w) n = pad w (n div 10) @ [digit (n mod 10)]"

definition print_date :: "nat \<Rightarrow> nat \<Rightarrow> nat \<Rightarrow> string" where
  "print_date y m d = pad 4 y @ ''-'' @ pad 2 m @ ''-'' @ pad 2 d"

lemma of_char_digit: "n < 10 \<Longrightarrow> of_char (digit n) = 48 + n"
  by (simp add: digit_def)

lemma digit_less: "a < 10 \<Longrightarrow> b < 10 \<Longrightarrow> digit a < digit b \<longleftrightarrow> a < b"
  by (simp add: less_char_def of_char_digit)

lemma digit_eq: "a < 10 \<Longrightarrow> b < 10 \<Longrightarrow> digit a = digit b \<longleftrightarrow> a = b"
  by (metis add_left_imp_eq of_char_digit)

lemma length_pad [simp]: "length (pad w n) = w"
  by (induction w arbitrary: n) simp_all

lemma append_less_iff:
  fixes xs ys :: "'a::linorder list"
  assumes "length xs = length ys"
  shows "xs @ us < ys @ vs \<longleftrightarrow> xs < ys \<or> xs = ys \<and> us < vs"
  using assms by (induction xs ys rule: list_induct2) auto

lemma pad_eq: "n < 10 ^ w \<Longrightarrow> m < 10 ^ w \<Longrightarrow> pad w n = pad w m \<longleftrightarrow> n = m"
proof (induction w arbitrary: n m)
  case (Suc w)
  then have "pad w (n div 10) = pad w (m div 10) \<longleftrightarrow> n div 10 = m div 10"
    by (intro Suc.IH) auto
  then show ?case
    by (auto simp: digit_eq) (metis div_mult_mod_eq)
qed simp

lemma less_div_mod_10:
  "n < m \<longleftrightarrow> n div 10 < m div 10 \<or> n div 10 = m div 10 \<and> n mod 10 < m mod 10" for n m :: nat
proof -
  have "n = 10 * (n div 10) + n mod 10" "m = 10 * (m div 10) + m mod 10"
    "n mod 10 < 10" "m mod 10 < 10" by simp_all
  then show ?thesis by linarith
qed

lemma pad_less: "n < 10 ^ w \<Longrightarrow> m < 10 ^ w \<Longrightarrow> pad w n < pad w m \<longleftrightarrow> n < m"
proof (induction w arbitrary: n m)
  case (Suc w)
  then have b: "n div 10 < 10 ^ w" "m div 10 < 10 ^ w" by auto
  have "pad (Suc w) n < pad (Suc w) m \<longleftrightarrow>
      n div 10 < m div 10 \<or> n div 10 = m div 10 \<and> n mod 10 < m mod 10"
    using Suc.IH [OF b] pad_eq [OF b] by (simp add: append_less_iff digit_less)
  then show ?case using less_div_mod_10 [of n m] by simp
qed simp

lemma parse_digits_append:
  "parse_digits m acc (xs @ ys) =
     (case parse_digits m acc xs of None \<Rightarrow> None | Some a \<Rightarrow> parse_digits m a ys)"
  by (induction m acc xs rule: parse_digits.induct) auto

lemma parse_digits_pad:
  "n < 10 ^ w \<Longrightarrow> n \<le> m \<Longrightarrow> parse_digits m 0 (pad w n) = Some n"
proof (induction w arbitrary: n)
  case (Suc w)
  then have "parse_digits m 0 (pad w (n div 10)) = Some (n div 10)"
    by (intro Suc.IH) auto
  with Suc.prems(2) show ?case
    by (simp add: parse_digits_append is_ascii_digit_def of_char_digit)
qed simp

lemma pad_Cons: "\<exists>k cs. k < 10 \<and> pad (Suc w) n = digit k # cs"
proof (induction w arbitrary: n)
  case (Suc w)
  from Suc.IH [of "n div 10"] show ?case by (subst pad.simps(2)) force
qed (auto intro!: exI [of _ "_ mod 10"])

lemma parse_uint_pad:
  assumes "n < 10 ^ w" "n \<le> m" "w > 0"
  shows "parse_uint m (pad w n) = Some n"
proof -
  obtain k c cs where k: "k < 10" "c = digit k" and s: "pad w n = c # cs"
    using assms(3) pad_Cons by (cases w) blast+
  from k have "c \<noteq> CHR ''+''" using of_char_digit [of k] by auto
  then show ?thesis
    using parse_digits_pad [OF assms(1,2)] s by (cases cs) (simp_all add: parse_uint_def)
qed

lemma print_date_parts:
  "length (print_date y m d) = 10"
  "print_date y m d ! 4 = CHR ''-''" "print_date y m d ! 7 = CHR ''-''"
  "slice 0 4 (print_date y m d) = pad 4 y"
  "slice 5 7 (print_date y m d) = pad 2 m"
  "slice 8 10 (print_date y m d) = pad 2 d"
  by (simp_all add: print_date_def slice_def nth_append)

text \<open>
  Every calendar date from 1900 to 9999 in its ISO-8601 form is accepted, and on these
  strings the byte-wise string comparison the record validation uses is the chronological
  order.
\<close>

theorem iso8601_dates_ordered:
  assumes "1900 \<le> y" "y \<le> 9999" "1 \<le> m" "m \<le> 12" "1 \<le> d" "d \<le> 31"
    and "1900 \<le> y'" "y' \<le> 9999" "1 \<le> m'" "m' \<le> 12" "1 \<le> d'" "d' \<le> 31"
  shows "is_valid_iso8601_date (print_date y m d)
    \<and> (print_date y m d < print_date y' m' d' \<longleftrightarrow>
         y < y' \<or> y = y' \<and> (m < m' \<or> m = m' \<and> d < d'))"
proof
  show "is_valid_iso8601_date (print_date y m d)"
    using assms(1-6) by (simp add: is_valid_iso8601_date_def print_date_parts parse_uint_pad)
  have bounds: "y < 10 ^ 4" "y' < 10 ^ 4" "m < 10\<^sup>2" "m' < 10\<^sup>2" "d < 10\<^sup>2" "d' < 10\<^sup>2"
    using assms by simp_all
  show "print_date y m d < print_date y' m' d' \<longleftrightarrow>
      y < y' \<or> y = y' \<and> (m < m' \<or> m = m' \<and> d < d')"
    unfolding print_date_def
    using pad_less [OF bounds(1,2)] pad_less [OF bounds(3,4)] pad_less [OF bounds(5,6)]
      pad_eq [OF bounds(1,2)] pad_eq [OF bounds(3,4)]
    by (simp add: append_less_iff)
qed

theorem iso8601_dates_ordered_witness:
  "is_valid_iso8601_date (print_date 2025 9 30) \<and> print_date 2025 9 30 < print_date 2025 10 1"
  using iso8601_dates_ordered [of 2025 9 30 2025 10 1] by simp

text \<open>
  The check is wider than its documented format: \<^verbatim>\<open>parse\<close> accepts a leading \<^verbatim>\<open>+\<close>, so a string
  that is not a \<^verbatim>\<open>YYYY-MM-DD\<close> date is accepted, and the string order of accepted dates is then
  not chronological.
\<close>

theorem iso8601_accepts_signs:
  "is_valid_iso8601_date ''2025-+9-01'' \<and> is_valid_iso8601_date ''2025-01-01''
   \<and> ''2025-+9-01'' < ''2025-01-01''"
  by (simp add: is_valid_iso8601_date_def slice_def parse_uint_def is_ascii_digit_def
      less_char_def)

end
