(* ===== verification/Canonical.thy ===== *)
theory Canonical
  imports Asset "HOL-Library.Countable"
begin

text \<open>
  \<^verbatim>\<open>glasschain-core/src/canonical.rs\<close>: the registry of the thirteen v1 record families, strict
  record validation, anchor commitments, and the migration of legacy assets.

  \<^verbatim>\<open>serde_json\<close> is an external crate.  Its data type \<^verbatim>\<open>Value\<close> is the datatype \<open>json\<close>; its
  serializer at the tuple of \<^verbatim>\<open>canonical_form\<close> is the field \<open>ser_record\<close> of the environment.
\<close>

section \<open>JSON values\<close>

text \<open>
  \<^verbatim>\<open>serde_json::Number\<close> is a \<^verbatim>\<open>u64\<close>, a negative \<^verbatim>\<open>i64\<close> or a float; a float is kept as its bits.
  Objects are \<^verbatim>\<open>BTreeMap\<close>s.
\<close>

datatype json_number = PosInt u64 | NegInt "64 word" | Float u64

datatype json =
    Null
  | Bool bool
  | Number json_number
  | String string
  | Array "json list"
  | Object "(string \<times> json) list"

definition as_str :: "json \<Rightarrow> string option" where
  "as_str v = (case v of String s \<Rightarrow> Some s | _ \<Rightarrow> None)"

definition as_array :: "json \<Rightarrow> json list option" where
  "as_array v = (case v of Array xs \<Rightarrow> Some xs | _ \<Rightarrow> None)"

definition as_object :: "json \<Rightarrow> (string \<times> json) list option" where
  "as_object v = (case v of Object m \<Rightarrow> Some m | _ \<Rightarrow> None)"

definition as_u64 :: "json_number \<Rightarrow> u64 option" where
  "as_u64 n = (case n of PosInt u \<Rightarrow> Some u | _ \<Rightarrow> None)"

text \<open>\<^verbatim>\<open>map.get(key).and_then(Value::as_str).unwrap_or_default()\<close>.\<close>

definition get_str :: "(string \<times> json) list \<Rightarrow> string \<Rightarrow> string" where
  "get_str m k = (case Option.bind (map_of m k) as_str of None \<Rightarrow> [] | Some s \<Rightarrow> s)"


section \<open>Records\<close>

type_synonym payload = "(string \<times> json) list"

record record_signature =
  rs_signer :: string
  rs_signature_bytes :: bytes
  rs_algorithm :: signature_algorithm

record extension_value =
  ev_schema_version :: u32
  ev_value :: payload

record canonical_record =
  cr_record_id :: string
  cr_schema_id :: string
  cr_schema_version :: u32
  cr_commitment :: "string option"
  cr_occurred_at :: u64
  cr_issuer :: string
  cr_signatures :: "record_signature list"
  cr_pdc_ref :: "string option"
  cr_extensions :: "(string \<times> extension_value) list"
  cr_payload :: payload

definition SCHEMA_VERSION_V1 :: u32 where
  "SCHEMA_VERSION_V1 = 1"

text \<open>\<^verbatim>\<open>CanonicalRecord::new\<close>; the first argument is the string \<^verbatim>\<open>Uuid::new_v4\<close> returns.\<close>

definition new_record :: "string \<Rightarrow> u64 \<Rightarrow> string \<Rightarrow> payload \<Rightarrow> string \<Rightarrow> canonical_record" where
  "new_record uuid occurred_at schema_id pl issuer =
     \<lparr>cr_record_id = uuid, cr_schema_id = schema_id, cr_schema_version = SCHEMA_VERSION_V1,
      cr_commitment = None, cr_occurred_at = occurred_at, cr_issuer = issuer,
      cr_signatures = [], cr_pdc_ref = None, cr_extensions = [], cr_payload = pl\<rparr>"

text \<open>The tuple that \<^verbatim>\<open>canonical_form\<close> serializes.\<close>

type_synonym canonical_tuple =
  "string \<times> string \<times> u32 \<times> u64 \<times> string \<times> string option \<times> payload \<times>
   (string \<times> u32 \<times> payload) list"

definition canonical_tuple :: "canonical_record \<Rightarrow> canonical_tuple" where
  "canonical_tuple r =
     (cr_record_id r, cr_schema_id r, cr_schema_version r, cr_occurred_at r, cr_issuer r,
      cr_pdc_ref r, cr_payload r,
      map (\<lambda>(k, e). (k, ev_schema_version e, ev_value e)) (cr_extensions r))"

record canon_env = crypto +
  ser_record :: "canonical_tuple \<Rightarrow> string option"

definition canonical_form :: "'z canon_env_scheme \<Rightarrow> canonical_record \<Rightarrow> core_error + string" where
  "canonical_form E r = ok_or Serialization (ser_record E (canonical_tuple r))"

definition commitment :: "'z canon_env_scheme \<Rightarrow> canonical_record \<Rightarrow> core_error + string" where
  "commitment E r = res_bind (canonical_form E r) (\<lambda>s. Inr (sha256 E (str_bytes s)))"


section \<open>The registry\<close>

datatype extension_field_type =
  StringField | IntegerField | NumberField | BooleanField | ObjectField | ArrayField

record namespace_descriptor =
  nd_namespace :: string
  nd_version :: u32
  nd_private :: bool
  nd_required :: "string list"
  nd_properties :: "(string \<times> extension_field_type) list"

record schema_descriptor =
  sd_schema_id :: string
  sd_version :: u32
  sd_required :: "string list"
  sd_optional :: "string list"
  sd_anchored :: bool
  sd_status_values :: "string list option"

definition SCHEMA_V1 :: "schema_descriptor list" where
  "SCHEMA_V1 =
     [\<lparr>sd_schema_id = ''party_identity'', sd_version = 1,
        sd_required = [''org_id'', ''legal_name''],
        sd_optional = [],
        sd_anchored = False, sd_status_values = None\<rparr>,
      \<lparr>sd_schema_id = ''product'', sd_version = 1,
        sd_required = [''product_id'', ''gtin'', ''product_name''],
        sd_optional = [],
        sd_anchored = False, sd_status_values = None\<rparr>,
      \<lparr>sd_schema_id = ''lot'', sd_version = 1,
        sd_required = [''lot_id'', ''product_id'', ''batch_number''],
        sd_optional = [''expiry_date''],
        sd_anchored = True, sd_status_values = None\<rparr>,
      \<lparr>sd_schema_id = ''inventory_threshold'', sd_version = 1,
        sd_required = [''trigger_id'', ''product_id'', ''owner_id'', ''reorder_threshold''],
        sd_optional = [],
        sd_anchored = False, sd_status_values = None\<rparr>,
      \<lparr>sd_schema_id = ''purchase_order'', sd_version = 1,
        sd_required = [''product_id'', ''buyer_id'', ''seller_id'', ''quantity'', ''currency''],
        sd_optional = [],
        sd_anchored = False, sd_status_values = None\<rparr>,
      \<lparr>sd_schema_id = ''shipment'', sd_version = 1,
        sd_required = [''lot_ref'', ''from_org'', ''to_org''],
        sd_optional = [],
        sd_anchored = False, sd_status_values = None\<rparr>,
      \<lparr>sd_schema_id = ''transit_event'', sd_version = 1,
        sd_required = [''shipment_ref'', ''event_type'', ''location''],
        sd_optional = [],
        sd_anchored = False, sd_status_values = None\<rparr>,
      \<lparr>sd_schema_id = ''delivery_receipt'', sd_version = 1,
        sd_required = [''shipment_ref'', ''receiver_id'', ''received_at''],
        sd_optional = [],
        sd_anchored = False, sd_status_values = None\<rparr>,
      \<lparr>sd_schema_id = ''inventory_transformation'', sd_version = 1,
        sd_required = [''lot_ref'', ''transformation_type''],
        sd_optional = [],
        sd_anchored = False, sd_status_values = None\<rparr>,
      \<lparr>sd_schema_id = ''recall'', sd_version = 1,
        sd_required = [''lot_ref'', ''reason'', ''status'', ''issued_by''],
        sd_optional = [],
        sd_anchored = False, sd_status_values = Some [''issued'', ''active'', ''completed'']\<rparr>,
      \<lparr>sd_schema_id = ''quality_certification'', sd_version = 1,
        sd_required = [''lot_ref'', ''issuer'', ''scope'', ''valid_from'', ''valid_to'',
        ''status'', ''evidence_manifest''],
        sd_optional = [],
        sd_anchored = True, sd_status_values = Some [''valid'', ''suspended'', ''revoked'']\<rparr>,
      \<lparr>sd_schema_id = ''audit_attestation'', sd_version = 1,
        sd_required = [''lot_ref'', ''issuer'', ''scope'', ''valid_from'', ''valid_to'',
        ''status'', ''evidence_manifest''],
        sd_optional = [],
        sd_anchored = True, sd_status_values = Some [''valid'', ''suspended'', ''revoked'']\<rparr>,
      \<lparr>sd_schema_id = ''state_commitment'', sd_version = 1,
        sd_required = [''merkle_root'', ''counterparties''],
        sd_optional = [''aggregation_ratio''],
        sd_anchored = True, sd_status_values = None\<rparr>]"

definition NAMESPACE_V1 :: "namespace_descriptor list" where
  "NAMESPACE_V1 =
     [\<lparr>nd_namespace = ''anvisa'', nd_version = 1, nd_private = False,
        nd_required = [], nd_properties = []\<rparr>]"

definition CORE_FIELD_NAMES :: "string list" where
  "CORE_FIELD_NAMES =
     [''record_id'', ''schema_id'', ''schema_version'', ''commitment'', ''occurred_at'',
     ''issuer'', ''signatures'', ''pdc_ref'', ''extensions'', ''payload'', ''org_id'',
     ''legal_name'', ''product_id'', ''gtin'', ''product_name'', ''lot_id'', ''batch_number'',
     ''expiry_date'', ''trigger_id'', ''owner_id'', ''reorder_threshold'', ''buyer_id'',
     ''seller_id'', ''quantity'', ''currency'', ''lot_ref'', ''from_org'', ''to_org'',
     ''shipment_ref'', ''event_type'', ''location'', ''receiver_id'', ''received_at'',
     ''transformation_type'', ''reason'', ''status'', ''issued_by'', ''scope'', ''valid_from'',
     ''valid_to'', ''evidence_manifest'', ''manifest_commitment'', ''merkle_root'',
     ''counterparties'', ''aggregation_ratio'']"

definition LEGACY_ASSET_KEYS :: "string list" where
  "LEGACY_ASSET_KEYS =
     [''gtin'', ''batch_number'', ''expiry_date'', ''serial_number'', ''anvisa_registration'',
     ''manufacturer_id'']"

record schema_entry =
  se_descriptor :: schema_descriptor
  se_schema_hash :: string

record registry =
  reg_schemas :: "((string \<times> u32) \<times> schema_entry) list"
  reg_namespaces :: "(string \<times> namespace_descriptor) list"

text \<open>
  \<^verbatim>\<open>{:?}\<close> of the status vocabulary.  Every vocabulary of the registry is printable ASCII without
  quotes and backslashes, which Rust prints between double quotes unescaped.
\<close>

definition debug_str :: "string \<Rightarrow> string" where
  "debug_str s = [CHR 0x22] @ s @ [CHR 0x22]"

definition debug_status :: "string list option \<Rightarrow> string" where
  "debug_status v = (case v of
       None \<Rightarrow> ''None''
     | Some vs \<Rightarrow> ''Some(['' @ join_str '', '' (map debug_str vs) @ ''])'')"

definition descriptor_hash :: "'z crypto_scheme \<Rightarrow> schema_descriptor \<Rightarrow> string" where
  "descriptor_hash E d = sha256 E (str_bytes
     (sd_schema_id d @ ''|v'' @ show_nat (unat (sd_version d))
      @ ''|required='' @ join_str '','' (sd_required d)
      @ ''|optional='' @ join_str '','' (sd_optional d)
      @ ''|anchored='' @ (if sd_anchored d then ''true'' else ''false'')
      @ ''|status='' @ debug_status (sd_status_values d)))"

definition from_static :: "'z crypto_scheme \<Rightarrow> registry" where
  "from_static E =
     \<lparr>reg_schemas = btree_of_list (map (\<lambda>d.
          ((sd_schema_id d, sd_version d),
           \<lparr>se_descriptor = d, se_schema_hash = descriptor_hash E d\<rparr>)) SCHEMA_V1),
      reg_namespaces = btree_of_list (map (\<lambda>n. (nd_namespace n, n)) NAMESPACE_V1)\<rparr>"

definition with_namespace :: "namespace_descriptor \<Rightarrow> registry \<Rightarrow> registry" where
  "with_namespace n R =
     R\<lparr>reg_namespaces := btree_insert (nd_namespace n) n (reg_namespaces R)\<rparr>"

definition with_schema :: "'z crypto_scheme \<Rightarrow> schema_descriptor \<Rightarrow> registry \<Rightarrow> registry" where
  "with_schema E d R =
     R\<lparr>reg_schemas := btree_insert (sd_schema_id d, sd_version d)
        \<lparr>se_descriptor = d, se_schema_hash = descriptor_hash E d\<rparr> (reg_schemas R)\<rparr>"

definition lookup_schema :: "registry \<Rightarrow> string \<Rightarrow> u32 \<Rightarrow> schema_entry option" where
  "lookup_schema R schema_id version =
     map_option snd (List.find (\<lambda>((i, v), _). i = schema_id \<and> v = version) (reg_schemas R))"

definition lookup_namespace :: "registry \<Rightarrow> string \<Rightarrow> namespace_descriptor option" where
  "lookup_namespace R namespace = map_of (reg_namespaces R) namespace"


section \<open>Record validation\<close>

definition is_hex64 :: "string \<Rightarrow> bool" where
  "is_hex64 s = (length s = 64 \<and> list_all is_ascii_hexdigit s)"

definition is_present :: "json option \<Rightarrow> bool" where
  "is_present v = (case v of
       Some (String s) \<Rightarrow> s \<noteq> []
     | Some Null \<Rightarrow> False
     | None \<Rightarrow> False
     | Some _ \<Rightarrow> True)"

definition matches_type :: "json \<Rightarrow> extension_field_type \<Rightarrow> bool" where
  "matches_type v ty = (case ty of
       StringField \<Rightarrow> (case v of String _ \<Rightarrow> True | _ \<Rightarrow> False)
     | IntegerField \<Rightarrow> (case v of Number (PosInt _) \<Rightarrow> True | Number (NegInt _) \<Rightarrow> True | _ \<Rightarrow> False)
     | NumberField \<Rightarrow> (case v of Number _ \<Rightarrow> True | _ \<Rightarrow> False)
     | BooleanField \<Rightarrow> (case v of Bool _ \<Rightarrow> True | _ \<Rightarrow> False)
     | ObjectField \<Rightarrow> (case v of Object _ \<Rightarrow> True | _ \<Rightarrow> False)
     | ArrayField \<Rightarrow> (case v of Array _ \<Rightarrow> True | _ \<Rightarrow> False))"

definition looks_like_legacy_asset :: "payload \<Rightarrow> bool" where
  "looks_like_legacy_asset p =
     (length (filter (\<lambda>k. map_of p k \<noteq> None) LEGACY_ASSET_KEYS) \<ge> 3)"

text \<open>The sections of \<^verbatim>\<open>validate_record_with\<close>, in its order.\<close>

definition check_envelope :: "canonical_record \<Rightarrow> core_error + unit" where
  "check_envelope r =
     (if cr_record_id r = [] then Inl (record_err RecordIdEmpty)
      else if cr_issuer r = [] then Inl (record_err IssuerEmpty)
      else if cr_signatures r = [] then Inl (record_err NoSignature)
      else if cr_schema_version r = 0 then Inl (record_err VersionZero)
      else Inr ())"

definition find_family :: "registry \<Rightarrow> canonical_record \<Rightarrow> core_error + schema_descriptor" where
  "find_family R r =
     (case lookup_schema R (cr_schema_id r) (cr_schema_version r) of
        Some entry \<Rightarrow> Inr (se_descriptor entry)
      | None \<Rightarrow>
          if list_ex (\<lambda>((i, _), _). i = cr_schema_id r) (reg_schemas R)
          then Inl (record_err UnsupportedVersion) else Inl (record_err UnknownSchema))"

definition check_payload :: "schema_descriptor \<Rightarrow> payload \<Rightarrow> core_error + unit" where
  "check_payload d p =
     (if looks_like_legacy_asset p then Inl (record_err LegacyShaped)
      else res_bind (try_all (\<lambda>key.
          if \<not> is_present (map_of p key) then Inl (record_err (MissingRequired key)) else Inr ())
        (sd_required d)) (\<lambda>_.
      let allowed = sd_required d @ sd_optional d in
      case List.find (\<lambda>key. key \<notin> set allowed) (map fst p) of
        Some unknown \<Rightarrow> Inl (record_err (UnknownPayloadField unknown))
      | None \<Rightarrow> Inr ()))"

definition check_product :: "payload \<Rightarrow> core_error + unit" where
  "check_product p =
     (let gtin = get_str p ''gtin'' in
      if length gtin \<noteq> 13 \<and> length gtin \<noteq> 14 \<or> \<not> list_all is_ascii_digit gtin
      then Inl (record_err BadGtin) else Inr ())"

definition check_delivery_receipt :: "payload \<Rightarrow> core_error + unit" where
  "check_delivery_receipt p =
     (if \<not> is_valid_iso8601_date (get_str p ''received_at'')
      then Inl (record_err BadReceivedAt) else Inr ())"

definition check_certification :: "payload \<Rightarrow> core_error + unit" where
  "check_certification p =
     (let valid_from = get_str p ''valid_from''; valid_to = get_str p ''valid_to'' in
      if \<not> is_valid_iso8601_date valid_from \<or> \<not> is_valid_iso8601_date valid_to
      then Inl (record_err BadValidityDates)
      else if valid_to < valid_from then Inl (record_err ValidityReversed)
      else
        let manifest_commitment =
          (case Option.bind (Option.bind (Option.bind (map_of p ''evidence_manifest'') as_object)
             (\<lambda>m. map_of m ''manifest_commitment'')) as_str of None \<Rightarrow> [] | Some s \<Rightarrow> s) in
        if \<not> is_hex64 manifest_commitment then Inl (record_err BadManifestCommitment)
        else Inr ())"

definition check_state_commitment :: "nat \<Rightarrow> payload \<Rightarrow> core_error + unit" where
  "check_state_commitment signature_count p =
     (if \<not> is_hex64 (get_str p ''merkle_root'') then Inl (record_err BadMerkleRoot)
      else case Option.bind (map_of p ''counterparties'') as_array of
        None \<Rightarrow> Inl (record_err CounterpartiesNotArray)
      | Some cs \<Rightarrow>
          if cs = [] \<or> \<not> list_all (\<lambda>c. case as_str c of None \<Rightarrow> False | Some s \<Rightarrow> s \<noteq> []) cs
          then Inl (record_err BadCounterparties)
          else if signature_count < length cs then Inl (record_err TooFewSignatures)
          else case map_of p ''aggregation_ratio'' of
            Some (Number ratio) \<Rightarrow>
              if (case as_u64 ratio of None \<Rightarrow> 0 | Some u \<Rightarrow> u) < 1
              then Inl (record_err BadAggregationRatio) else Inr ()
          | _ \<Rightarrow> Inr ())"

definition check_family :: "schema_descriptor \<Rightarrow> canonical_record \<Rightarrow> core_error + unit" where
  "check_family d r =
     (if sd_schema_id d = ''product'' then check_product (cr_payload r)
      else if sd_schema_id d = ''delivery_receipt'' then check_delivery_receipt (cr_payload r)
      else if sd_schema_id d = ''quality_certification'' \<or> sd_schema_id d = ''audit_attestation''
      then check_certification (cr_payload r)
      else if sd_schema_id d = ''state_commitment''
      then check_state_commitment (length (cr_signatures r)) (cr_payload r)
      else Inr ())"

definition check_status :: "schema_descriptor \<Rightarrow> payload \<Rightarrow> core_error + unit" where
  "check_status d p = (case sd_status_values d of
       None \<Rightarrow> Inr ()
     | Some vs \<Rightarrow> if get_str p ''status'' \<notin> set vs then Inl (record_err BadStatus) else Inr ())"

definition check_anchor ::
  "'z canon_env_scheme \<Rightarrow> schema_descriptor \<Rightarrow> canonical_record \<Rightarrow> core_error + unit" where
  "check_anchor E d r =
     (if sd_anchored d
      then case cr_commitment r of
          None \<Rightarrow> Inl (record_err AnchorMissing)
        | Some c \<Rightarrow> res_bind (commitment E r) (\<lambda>expected.
            if c \<noteq> expected then Inl (record_err AnchorMismatch) else Inr ())
      else if cr_commitment r \<noteq> None then Inl (record_err AnchorNotAllowed) else Inr ())"

definition check_private :: "string option \<Rightarrow> payload \<Rightarrow> core_error + unit" where
  "check_private pdc_ref v =
     (if (case pdc_ref of None \<Rightarrow> True | Some s \<Rightarrow> s = []) then Inl (record_err PrivateNeedsPdcRef)
      else if length v \<noteq> 1 then Inl (record_err PrivateNotSingleton)
      else if \<not> is_hex64 (get_str v ''commitment'') then Inl (record_err PrivateBadCommitment)
      else Inr ())"

definition check_extension ::
  "registry \<Rightarrow> canonical_record \<Rightarrow> string \<times> extension_value \<Rightarrow> core_error + unit" where
  "check_extension R r ne =
     (case ne of (namespace, x) \<Rightarrow>
        case lookup_namespace R namespace of
          None \<Rightarrow> Inl (record_err (UnknownNamespace namespace))
        | Some d \<Rightarrow>
            if ev_schema_version x \<noteq> nd_version d then Inl (record_err (NamespaceVersion namespace))
            else res_bind (try_all (\<lambda>key.
                if key \<noteq> ''commitment'' \<and> key \<in> set CORE_FIELD_NAMES
                then Inl (record_err (ShadowsCoreField key)) else Inr ()) (map fst (ev_value x))) (\<lambda>_.
              res_bind (try_all (\<lambda>key.
                if \<not> is_present (map_of (ev_value x) key)
                then Inl (record_err (ExtensionMissingField key)) else Inr ()) (nd_required d)) (\<lambda>_.
              res_bind (try_all (\<lambda>(name, ty).
                case map_of (ev_value x) name of
                  None \<Rightarrow> Inr ()
                | Some v \<Rightarrow> if \<not> matches_type v ty then Inl (record_err (ExtensionWrongType name))
                    else Inr ()) (nd_properties d)) (\<lambda>_.
              if nd_private d then check_private (cr_pdc_ref r) (ev_value x) else Inr ()))))"

definition validate_record_with ::
  "'z canon_env_scheme \<Rightarrow> registry \<Rightarrow> canonical_record \<Rightarrow> core_error + unit" where
  "validate_record_with E R r =
     res_bind (check_envelope r) (\<lambda>_.
     res_bind (find_family R r) (\<lambda>d.
     res_bind (check_payload d (cr_payload r)) (\<lambda>_.
     res_bind (check_family d r) (\<lambda>_.
     res_bind (check_status d (cr_payload r)) (\<lambda>_.
     res_bind (check_anchor E d r) (\<lambda>_.
     try_all (check_extension R r) (cr_extensions r)))))))"

definition validate_record :: "'z canon_env_scheme \<Rightarrow> canonical_record \<Rightarrow> core_error + unit" where
  "validate_record E r = validate_record_with E (from_static E) r"


section \<open>Legacy assets\<close>

text \<open>\<^verbatim>\<open>migrate_legacy_asset\<close>; \<open>u1\<close> and \<open>u2\<close> are the two fresh record identifiers.\<close>

definition migrate_legacy_asset ::
  "'z canon_env_scheme \<Rightarrow> string \<Rightarrow> string \<Rightarrow> traceable_asset \<Rightarrow> string \<Rightarrow> u64 \<Rightarrow>
     core_error + canonical_record \<times> canonical_record" where
  "migrate_legacy_asset E u1 u2 a issuer occurred_at =
     (let g = (case gtin a of None \<Rightarrow> [] | Some s \<Rightarrow> s);
          batch = (case batch_number a of None \<Rightarrow> [] | Some s \<Rightarrow> s);
          product = new_record u1 occurred_at ''product''
            (btree_of_list [(''product_id'', String g), (''gtin'', String g),
               (''product_name'', String (product_name a))]) issuer;
          lot_payload = btree_of_list [(''lot_id'', String (g @ ''-'' @ batch)),
            (''product_id'', String g), (''batch_number'', String batch)];
          lot_payload = (case expiry_date a of
              None \<Rightarrow> lot_payload
            | Some expiry \<Rightarrow> btree_insert ''expiry_date'' (String expiry) lot_payload);
          lot = new_record u2 occurred_at ''lot'' lot_payload issuer
      in res_bind (commitment E lot) (\<lambda>c. Inr (product, lot\<lparr>cr_commitment := Some c\<rparr>)))"


section \<open>Registry lookups\<close>

lemma lookup_schema_map_of: "lookup_schema R i v = map_of (reg_schemas R) (i, v)"
proof -
  have "map_option snd (List.find (\<lambda>((i', v'), _). i' = i \<and> v' = v) es) = map_of es (i, v)"
    for es :: "((string \<times> u32) \<times> schema_entry) list"
    by (induction es) auto
  then show ?thesis by (simp add: lookup_schema_def)
qed

lemma lookup_schema_static:
  assumes "lookup_schema (from_static E) i v = Some e"
  shows "se_descriptor e \<in> set SCHEMA_V1 \<and> sd_schema_id (se_descriptor e) = i
    \<and> sd_version (se_descriptor e) = v \<and> se_schema_hash e = descriptor_hash E (se_descriptor e)"
  using assms
  by (auto simp: lookup_schema_map_of from_static_def map_of_btree_of_list dest!: map_of_SomeD)

lemma lookup_with_schema:
  "lookup_schema (with_schema E d R) i v =
     (if i = sd_schema_id d \<and> v = sd_version d
      then Some \<lparr>se_descriptor = d, se_schema_hash = descriptor_hash E d\<rparr>
      else lookup_schema R i v)"
  by (simp add: lookup_schema_map_of with_schema_def map_of_btree_insert)

lemma lookup_with_namespace:
  "lookup_namespace (with_namespace n R) k =
     (if k = nd_namespace n then Some n else lookup_namespace R k)"
  by (simp add: lookup_namespace_def with_namespace_def map_of_btree_insert)

lemma find_family_Inr_iff:
  "find_family R r = Inr d \<longleftrightarrow>
     (\<exists>e. lookup_schema R (cr_schema_id r) (cr_schema_version r) = Some e \<and> se_descriptor e = d)"
  by (auto simp: find_family_def split: option.splits if_splits)


section \<open>What validation guarantees\<close>

lemma check_envelope_Inr_iff:
  "check_envelope r = Inr u \<longleftrightarrow>
     cr_record_id r \<noteq> [] \<and> cr_issuer r \<noteq> [] \<and> cr_signatures r \<noteq> [] \<and> cr_schema_version r \<noteq> 0"
  by (auto simp: check_envelope_def)

lemma check_payload_Inr_iff:
  "check_payload d p = Inr u \<longleftrightarrow>
     \<not> looks_like_legacy_asset p
     \<and> (\<forall>k \<in> set (sd_required d). is_present (map_of p k))
     \<and> fst ` set p \<subseteq> set (sd_required d) \<union> set (sd_optional d)"
proof -
  have "List.find (\<lambda>key. key \<notin> set (sd_required d @ sd_optional d)) (map fst p) = None
    \<longleftrightarrow> fst ` set p \<subseteq> set (sd_required d) \<union> set (sd_optional d)"
    by (auto simp: find_None_iff)
  then show ?thesis
    by (auto simp: check_payload_def res_simps Let_def split: option.splits if_splits)
qed

lemma check_status_Inr_iff:
  "check_status d p = Inr u \<longleftrightarrow>
     (case sd_status_values d of None \<Rightarrow> True | Some vs \<Rightarrow> get_str p ''status'' \<in> set vs)"
  by (auto simp: check_status_def split: option.splits)

lemma check_anchor_Inr_iff:
  "check_anchor E d r = Inr u \<longleftrightarrow>
     (if sd_anchored d then \<exists>c. cr_commitment r = Some c \<and> commitment E r = Inr c
      else cr_commitment r = None)"
  by (auto simp: check_anchor_def res_bind_Inr_iff split: option.splits if_splits)

lemma get_str_hex64:
  assumes "is_hex64 (get_str v k)"
  shows "map_of v k = Some (String (get_str v k))"
proof -
  have "get_str v k \<noteq> []" using assms by (auto simp: is_hex64_def)
  then show ?thesis
    by (auto simp: get_str_def as_str_def split: option.splits json.splits bind_splits)
qed

lemma check_private_Inr_iff:
  "check_private pdc v = Inr u \<longleftrightarrow>
     (\<exists>p c. pdc = Some p \<and> p \<noteq> [] \<and> v = [(''commitment'', String c)] \<and> is_hex64 c)"
proof
  assume a: "check_private pdc v = Inr u"
  then have hex: "is_hex64 (get_str v ''commitment'')" and len: "length v = 1"
    and pdc: "\<exists>p. pdc = Some p \<and> p \<noteq> []"
    by (auto simp: check_private_def split: option.splits if_splits)
  from len obtain k j where v: "v = [(k, j)]" by (auto simp: length_Suc_conv)
  with get_str_hex64 [OF hex] have "k = ''commitment''" "j = String (get_str v ''commitment'')"
    by (auto split: if_splits)
  with v hex pdc show "\<exists>p c. pdc = Some p \<and> p \<noteq> [] \<and> v = [(''commitment'', String c)] \<and> is_hex64 c"
    by blast
next
  assume "\<exists>p c. pdc = Some p \<and> p \<noteq> [] \<and> v = [(''commitment'', String c)] \<and> is_hex64 c"
  then show "check_private pdc v = Inr u"
    by (auto simp: check_private_def get_str_def as_str_def)
qed

lemma check_extension_Inr_iff:
  "check_extension R r (ns, x) = Inr u \<longleftrightarrow>
     (\<exists>d. lookup_namespace R ns = Some d \<and> ev_schema_version x = nd_version d
       \<and> (\<forall>k \<in> fst ` set (ev_value x). k = ''commitment'' \<or> k \<notin> set CORE_FIELD_NAMES)
       \<and> (\<forall>k \<in> set (nd_required d). is_present (map_of (ev_value x) k))
       \<and> (\<forall>(k, ty) \<in> set (nd_properties d). \<forall>v. map_of (ev_value x) k = Some v \<longrightarrow> matches_type v ty)
       \<and> (nd_private d \<longrightarrow> check_private (cr_pdc_ref r) (ev_value x) = Inr ()))"
  by (auto simp: check_extension_def res_simps split: option.splits if_splits)

lemma validate_record_with_Inr_iff:
  "validate_record_with E R r = Inr u \<longleftrightarrow>
     check_envelope r = Inr () \<and>
     (\<exists>d. find_family R r = Inr d \<and> check_payload d (cr_payload r) = Inr ()
       \<and> check_family d r = Inr () \<and> check_status d (cr_payload r) = Inr ()
       \<and> check_anchor E d r = Inr ())
     \<and> (\<forall>x \<in> set (cr_extensions r). check_extension R r x = Inr ())"
  by (auto simp: validate_record_with_def res_bind_Inr_iff try_all_Inr_iff)


text \<open>
  The serializer is documented to be read back by the deserializer, so two tuples with the same
  text are the same tuple.
\<close>

definition ser_record_faithful :: "'z canon_env_scheme \<Rightarrow> bool" where
  "ser_record_faithful E \<longleftrightarrow>
     (\<forall>t t' s. ser_record E t = Some s \<longrightarrow> ser_record E t' = Some s \<longrightarrow> t = t')"

lemma commitment_eqD:
  assumes "ser_record_faithful E" "commitment E a = Inr c" "commitment E b = Inr c"
  shows "canonical_tuple a = canonical_tuple b \<or> sha_collision E"
proof -
  obtain s t where s: "ser_record E (canonical_tuple a) = Some s" "c = sha256 E (str_bytes s)"
    and t: "ser_record E (canonical_tuple b) = Some t" "c = sha256 E (str_bytes t)"
    using assms(2,3) by (auto simp: commitment_def canonical_form_def res_simps)
  from s(2) t(2) have "str_bytes s = str_bytes t \<or> sha_collision E"
    using sha256_eqD [of E "str_bytes s" "str_bytes t"] by simp
  with s(1) t(1) assms(1) show ?thesis unfolding ser_record_faithful_def str_bytes_inj by metis
qed

text \<open>What the family of a record demands of its payload beyond the catalogue of fields.\<close>

definition family_ok :: "schema_descriptor \<Rightarrow> canonical_record \<Rightarrow> bool" where
  "family_ok d r \<longleftrightarrow>
     (sd_schema_id d = ''product'' \<longrightarrow>
        length (get_str (cr_payload r) ''gtin'') \<in> {13, 14} \<and> list_all is_ascii_digit (get_str (cr_payload r) ''gtin''))
     \<and> (sd_schema_id d = ''delivery_receipt'' \<longrightarrow> is_valid_iso8601_date (get_str (cr_payload r) ''received_at''))
     \<and> (sd_schema_id d \<in> {''quality_certification'', ''audit_attestation''} \<longrightarrow>
        is_valid_iso8601_date (get_str (cr_payload r) ''valid_from'') \<and> is_valid_iso8601_date (get_str (cr_payload r) ''valid_to'')
        \<and> get_str (cr_payload r) ''valid_from'' \<le> get_str (cr_payload r) ''valid_to''
        \<and> (\<exists>m c. map_of (cr_payload r) ''evidence_manifest'' = Some (Object m)
            \<and> map_of m ''manifest_commitment'' = Some (String c) \<and> is_hex64 c))
     \<and> (sd_schema_id d = ''state_commitment'' \<longrightarrow>
        is_hex64 (get_str (cr_payload r) ''merkle_root'')
        \<and> (\<exists>cs. map_of (cr_payload r) ''counterparties'' = Some (Array cs) \<and> cs \<noteq> []
            \<and> (\<forall>c \<in> set cs. \<exists>s. c = String s \<and> s \<noteq> []) \<and> length cs \<le> length (cr_signatures r))
        \<and> (\<forall>ratio. map_of (cr_payload r) ''aggregation_ratio'' = Some (Number ratio) \<longrightarrow>
            (\<exists>u. as_u64 ratio = Some u \<and> u \<noteq> 0)))"

lemma manifest_commitment_iff:
  "is_hex64 (case Option.bind (Option.bind (Option.bind v as_object) (\<lambda>m. map_of m k)) as_str of None \<Rightarrow> [] | Some s \<Rightarrow> s) \<longleftrightarrow>
     (\<exists>m c. v = Some (Object m) \<and> map_of m k = Some (String c) \<and> is_hex64 c)"
  by (auto simp: as_object_def as_str_def is_hex64_def split: option.splits json.splits bind_splits)

lemma nonempty_names_iff:
  "list_all (\<lambda>c. case as_str c of None \<Rightarrow> False | Some s \<Rightarrow> s \<noteq> []) cs \<longleftrightarrow> (\<forall>c \<in> set cs. \<exists>s. c = String s \<and> s \<noteq> [])"
proof -
  have "(case as_str c of None \<Rightarrow> False | Some s \<Rightarrow> s \<noteq> []) \<longleftrightarrow> (\<exists>s. c = String s \<and> s \<noteq> [])" for c
    by (cases c) (simp_all add: as_str_def)
  then show ?thesis by (simp only: list_all_iff)
qed

lemma check_ratio_iff:
  "(case x of Some (Number ratio) \<Rightarrow> if (case as_u64 ratio of None \<Rightarrow> 0 | Some u \<Rightarrow> u) < 1
      then Inl (record_err BadAggregationRatio) else Inr () | _ \<Rightarrow> Inr ()) = Inr () \<longleftrightarrow>
     (\<forall>ratio. x = Some (Number ratio) \<longrightarrow> (\<exists>u. as_u64 ratio = Some u \<and> u \<noteq> 0))"
proof (cases x)
  case (Some v)
  show ?thesis
  proof (cases v)
    case (Number ratio)
    then show ?thesis by (cases "as_u64 ratio") (auto simp: Some)
  qed (simp_all add: Some)
qed simp

lemma as_array_iff: "Option.bind v as_array = Some cs \<longleftrightarrow> v = Some (Array cs)"
  by (cases v) (auto simp: as_array_def split: json.splits)

lemma check_state_commitment_iff:
  "check_state_commitment n p = Inr () \<longleftrightarrow> is_hex64 (get_str p ''merkle_root'')
     \<and> (\<exists>cs. map_of p ''counterparties'' = Some (Array cs) \<and> cs \<noteq> []
         \<and> (\<forall>c \<in> set cs. \<exists>s. c = String s \<and> s \<noteq> []) \<and> length cs \<le> n)
     \<and> (\<forall>ratio. map_of p ''aggregation_ratio'' = Some (Number ratio) \<longrightarrow> (\<exists>u. as_u64 ratio = Some u \<and> u \<noteq> 0))"
proof (cases "Option.bind (map_of p ''counterparties'') as_array")
  case None
  have "map_of p ''counterparties'' \<noteq> Some (Array cs)" for cs
  proof
    assume "map_of p ''counterparties'' = Some (Array cs)"
    then have "Option.bind (map_of p ''counterparties'') as_array = Some cs" by (simp only: as_array_iff)
    with None show False by simp
  qed
  with None show ?thesis by (simp add: check_state_commitment_def)
next
  case (Some cs)
  then have "map_of p ''counterparties'' = Some (Array cs)" by (simp only: as_array_iff)
  then have ex: "(\<exists>cs. map_of p ''counterparties'' = Some (Array cs) \<and> Q cs) \<longleftrightarrow> Q cs" for Q by simp
  define names where "names \<longleftrightarrow> (\<forall>c \<in> set cs. \<exists>s. c = String s \<and> s \<noteq> [])"
  show ?thesis
    unfolding ex check_state_commitment_def Some option.case nonempty_names_iff names_def [symmetric]
      if_distrib [of "\<lambda>x. x = Inr ()"] check_ratio_iff
    by (cases "is_hex64 (get_str p ''merkle_root'')"; cases "cs = []"; cases names; cases "n < length cs")
      (simp_all only: not_less [symmetric] sum.distinct simp_thms if_False if_True)
qed

lemma check_certification_iff:
  "check_certification p = Inr () \<longleftrightarrow> is_valid_iso8601_date (get_str p ''valid_from'') \<and> is_valid_iso8601_date (get_str p ''valid_to'')
     \<and> get_str p ''valid_from'' \<le> get_str p ''valid_to''
     \<and> (\<exists>m c. map_of p ''evidence_manifest'' = Some (Object m)
         \<and> map_of m ''manifest_commitment'' = Some (String c) \<and> is_hex64 c)"
  unfolding check_certification_def Let_def manifest_commitment_iff if_distrib [of "\<lambda>x. x = Inr ()"]
  by (simp only: not_less [symmetric] sum.distinct simp_thms split: if_split) blast

lemma check_family_Inr_iff: "check_family d r = Inr u \<longleftrightarrow> family_ok d r"
proof -
  have product: "check_product p = Inr () \<longleftrightarrow> length (get_str p ''gtin'') \<in> {13, 14} \<and> list_all is_ascii_digit (get_str p ''gtin'')" for p
    by (auto simp: check_product_def Let_def)
  have receipt: "check_delivery_receipt p = Inr () \<longleftrightarrow> is_valid_iso8601_date (get_str p ''received_at'')" for p
    by (simp add: check_delivery_receipt_def)
  consider "sd_schema_id d = ''product''" | "sd_schema_id d = ''delivery_receipt''" | "sd_schema_id d = ''quality_certification''"
    | "sd_schema_id d = ''audit_attestation''" | "sd_schema_id d = ''state_commitment''"
    | "sd_schema_id d \<notin> {''product'', ''delivery_receipt'', ''quality_certification'', ''audit_attestation'', ''state_commitment''}" by blast
  then show ?thesis
    by cases (simp_all add: check_family_def family_ok_def product receipt check_certification_iff check_state_commitment_iff)
qed

text \<open>
  C20. Validation accepts exactly the well-formed records, under any registry: the envelope has an
  identifier, an issuer, a signature and a version; the family is registered at that version;
  every required field is present and every payload key is in the family's catalogue; the payload is not
  a disguised legacy asset; what the family demands of dates, codes, digests and counterparties holds,
  and its status is one of the listed ones; an anchored family carries exactly the commitment of its
  canonical form and no other family carries one; and every extension belongs to a registered namespace
  at its version, shadows no core field, has its required fields, every field of its declared type, and
  in a private namespace is a single 64-digit commitment behind a non-empty collection reference.
\<close>

theorem validate_record_exact:
  "validate_record_with E R r = Inr () \<longleftrightarrow>
     cr_record_id r \<noteq> [] \<and> cr_issuer r \<noteq> [] \<and> cr_signatures r \<noteq> [] \<and> cr_schema_version r \<noteq> 0
     \<and> (\<exists>d h. lookup_schema R (cr_schema_id r) (cr_schema_version r) = Some \<lparr>se_descriptor = d, se_schema_hash = h\<rparr>
         \<and> \<not> looks_like_legacy_asset (cr_payload r)
         \<and> (\<forall>k \<in> set (sd_required d). is_present (map_of (cr_payload r) k))
         \<and> fst ` set (cr_payload r) \<subseteq> set (sd_required d) \<union> set (sd_optional d)
         \<and> family_ok d r
         \<and> (\<forall>vs. sd_status_values d = Some vs \<longrightarrow> get_str (cr_payload r) ''status'' \<in> set vs)
         \<and> (if sd_anchored d then \<exists>c. cr_commitment r = Some c \<and> commitment E r = Inr c
            else cr_commitment r = None))
     \<and> (\<forall>(ns, x) \<in> set (cr_extensions r). \<exists>n. lookup_namespace R ns = Some n
         \<and> ev_schema_version x = nd_version n
         \<and> fst ` set (ev_value x) \<inter> set CORE_FIELD_NAMES \<subseteq> {''commitment''}
         \<and> (\<forall>k \<in> set (nd_required n). is_present (map_of (ev_value x) k))
         \<and> (\<forall>(k, ty) \<in> set (nd_properties n). \<forall>v. map_of (ev_value x) k = Some v \<longrightarrow> matches_type v ty)
         \<and> (nd_private n \<longrightarrow> (\<exists>p c. cr_pdc_ref r = Some p \<and> p \<noteq> []
              \<and> ev_value x = [(''commitment'', String c)] \<and> is_hex64 c)))"
proof -
  have family: "(\<exists>d. find_family R r = Inr d \<and> Q d) \<longleftrightarrow>
      (\<exists>d h. lookup_schema R (cr_schema_id r) (cr_schema_version r) = Some \<lparr>se_descriptor = d, se_schema_hash = h\<rparr> \<and> Q d)" for Q
  proof (cases "lookup_schema R (cr_schema_id r) (cr_schema_version r)")
    case None
    then show ?thesis by (simp add: find_family_Inr_iff)
  next
    case (Some e)
    obtain d h where "e = \<lparr>se_descriptor = d, se_schema_hash = h\<rparr>" by (cases e)
    with Some show ?thesis by (simp add: find_family_Inr_iff)
  qed
  have status: "check_status d p = Inr () \<longleftrightarrow> (\<forall>vs. sd_status_values d = Some vs \<longrightarrow> get_str p ''status'' \<in> set vs)" for d p
    unfolding check_status_Inr_iff by (cases "sd_status_values d") simp_all
  have shadow: "(\<forall>k \<in> A. k = ''commitment'' \<or> k \<notin> B) \<longleftrightarrow> A \<inter> B \<subseteq> {''commitment''}" for A B :: "string set" by blast
  have ext: "(\<forall>x \<in> set (cr_extensions r). check_extension R r x = Inr ()) \<longleftrightarrow>
      (\<forall>(ns, x) \<in> set (cr_extensions r). check_extension R r (ns, x) = Inr ())" by auto
  show ?thesis
    unfolding validate_record_with_Inr_iff family status check_envelope_Inr_iff check_payload_Inr_iff
      check_family_Inr_iff check_anchor_Inr_iff ext check_extension_Inr_iff check_private_Inr_iff shadow
    by (simp only: conj_assoc)
qed


text \<open>
  Anchored records are tamper evident: two accepted v1 records with the same anchor
  commitment agree on everything the commitment covers (identity, family, time, issuer,
  collection reference, payload and extensions), unless SHA-256 has a collision.
\<close>

theorem anchored_record_tamper_evident:
  assumes "ser_record_faithful E"
    and "validate_record E a = Inr ()" and "validate_record E b = Inr ()"
    and "cr_commitment a = Some c" and "cr_commitment b = Some c"
  shows "canonical_tuple a = canonical_tuple b \<or> sha_collision E"
proof -
  have "commitment E r = Inr c" if "validate_record E r = Inr ()" "cr_commitment r = Some c" for r
    using that by (auto simp: validate_record_def validate_record_with_Inr_iff check_anchor_Inr_iff
        split: if_splits)
  then show ?thesis using assms by (intro commitment_eqD [of E a c b]) simp_all
qed


section \<open>Migration of legacy assets\<close>

lemma lookup_v1:
  "lookup_schema (from_static E) ''product'' 1 =
     Some \<lparr>se_descriptor = SCHEMA_V1 ! Suc 0, se_schema_hash = descriptor_hash E (SCHEMA_V1 ! Suc 0)\<rparr>"
  "lookup_schema (from_static E) ''lot'' 1 =
     Some \<lparr>se_descriptor = SCHEMA_V1 ! 2, se_schema_hash = descriptor_hash E (SCHEMA_V1 ! 2)\<rparr>"
  by (simp_all add: lookup_schema_map_of from_static_def map_of_btree_of_list SCHEMA_V1_def)

lemma v1_descriptors:
  "sd_schema_id (SCHEMA_V1 ! Suc 0) = ''product''" "sd_anchored (SCHEMA_V1 ! Suc 0) = False"
  "sd_required (SCHEMA_V1 ! Suc 0) = [''product_id'', ''gtin'', ''product_name'']"
  "sd_optional (SCHEMA_V1 ! Suc 0) = []" "sd_status_values (SCHEMA_V1 ! Suc 0) = None"
  "sd_schema_id (SCHEMA_V1 ! 2) = ''lot''" "sd_anchored (SCHEMA_V1 ! 2) = True"
  "sd_required (SCHEMA_V1 ! 2) = [''lot_id'', ''product_id'', ''batch_number'']"
  "sd_optional (SCHEMA_V1 ! 2) = [''expiry_date'']" "sd_status_values (SCHEMA_V1 ! 2) = None"
  by (simp_all add: SCHEMA_V1_def)


lemma canonical_tuple_updates [simp]:
  "canonical_tuple (r\<lparr>cr_signatures := ss\<rparr>) = canonical_tuple r"
  "canonical_tuple (r\<lparr>cr_commitment := c\<rparr>) = canonical_tuple r"
  by (simp_all add: canonical_tuple_def)

lemma commitment_updates [simp]:
  "commitment E (r\<lparr>cr_signatures := ss\<rparr>) = commitment E r"
  "commitment E (r\<lparr>cr_commitment := c\<rparr>) = commitment E r"
  by (simp_all add: commitment_def canonical_form_def)

lemma new_record_sel [simp]:
  "cr_record_id (new_record u t i pl org) = u" "cr_schema_id (new_record u t i pl org) = i"
  "cr_schema_version (new_record u t i pl org) = 1" "cr_commitment (new_record u t i pl org) = None"
  "cr_issuer (new_record u t i pl org) = org" "cr_extensions (new_record u t i pl org) = []"
  "cr_payload (new_record u t i pl org) = pl"
  by (simp_all add: new_record_def SCHEMA_VERSION_V1_def)

lemma migrated_product_valid:
  assumes "u \<noteq> []" "issuer \<noteq> []" "ss \<noteq> []" "length g = 13 \<or> length g = 14"
    "list_all is_ascii_digit g" "name \<noteq> []"
  shows "validate_record E
    ((new_record u t ''product'' (btree_of_list [(''product_id'', String g), (''gtin'', String g),
       (''product_name'', String name)]) issuer)\<lparr>cr_signatures := ss\<rparr>) = Inr ()"
proof -
  let ?p = "btree_of_list [(''product_id'', String g), (''gtin'', String g),
       (''product_name'', String name)]"
  have "g \<noteq> []" using assms(4) by auto
  then have "check_payload (SCHEMA_V1 ! Suc 0) ?p = Inr ()"
    using assms(6) by (simp add: check_payload_Inr_iff keys_btree_of_list map_of_btree_of_list
        v1_descriptors is_present_def looks_like_legacy_asset_def LEGACY_ASSET_KEYS_def)
  moreover have "get_str ?p ''gtin'' = g"
    by (simp add: get_str_def map_of_btree_of_list as_str_def)
  ultimately show ?thesis
    using assms by (auto simp: validate_record_def validate_record_with_Inr_iff find_family_def
      check_envelope_Inr_iff check_anchor_Inr_iff check_status_Inr_iff check_family_def
      check_product_def lookup_v1 v1_descriptors)
qed

lemma migrated_lot_valid:
  assumes "u \<noteq> []" "issuer \<noteq> []" "ss \<noteq> []" "g \<noteq> []" "batch \<noteq> []"
    and "commitment E (new_record u t ''lot'' pl issuer) = Inr c"
    and pl: "map_of pl = [''lot_id'' \<mapsto> String (g @ ''-'' @ batch), ''product_id'' \<mapsto> String g,
       ''batch_number'' \<mapsto> String batch] ++ ex" "dom ex \<subseteq> {''expiry_date''}"
  shows "validate_record E
    ((new_record u t ''lot'' pl issuer)\<lparr>cr_commitment := Some c, cr_signatures := ss\<rparr>) = Inr ()"
proof -
  have other: "ex k = None" if "k \<noteq> ''expiry_date''" for k using that pl(2) by blast
  have keys: "fst ` set pl \<subseteq> {''expiry_date'', ''lot_id'', ''product_id'', ''batch_number''}"
    using pl by (auto simp: dom_map_of_conv_image_fst [symmetric])
  have vals: "map_of pl ''lot_id'' = Some (String (g @ ''-'' @ batch))"
    "map_of pl ''product_id'' = Some (String g)" "map_of pl ''batch_number'' = Some (String batch)"
    "map_of pl ''gtin'' = None" "map_of pl ''serial_number'' = None"
    "map_of pl ''anvisa_registration'' = None" "map_of pl ''manufacturer_id'' = None"
    using other by (simp_all add: pl(1) map_add_def)
  have "check_payload (SCHEMA_V1 ! 2) pl = Inr ()"
    using keys assms(4,5)
    by (simp add: check_payload_Inr_iff vals v1_descriptors is_present_def
        looks_like_legacy_asset_def LEGACY_ASSET_KEYS_def)
  then show ?thesis
    using assms(1-3,6) by (simp add: validate_record_def validate_record_with_Inr_iff
      find_family_def check_envelope_Inr_iff check_anchor_Inr_iff check_status_Inr_iff
      check_family_def lookup_v1 v1_descriptors)
qed


text \<open>
  The migration path produces valid v1 records: whenever the asset has a 13 or 14 digit
  GTIN, a batch number and a product name, the product and lot records it returns are accepted
  as soon as the caller attaches any signature, and the lot carries its own anchor.  The
  migration fails only when the serializer does.
\<close>

theorem migrate_legacy_asset_valid:
  assumes "gtin a = Some g" "length g = 13 \<or> length g = 14" "list_all is_ascii_digit g"
    and "batch_number a = Some b" "b \<noteq> []" "product_name a \<noteq> []"
    and "u1 \<noteq> []" "u2 \<noteq> []" "issuer \<noteq> []" "ss \<noteq> []"
  shows "case migrate_legacy_asset E u1 u2 a issuer t of
      Inl e \<Rightarrow> e = Serialization \<and> (\<exists>r. ser_record E (canonical_tuple r) = None)
    | Inr (product, lot) \<Rightarrow>
        validate_record E (product\<lparr>cr_signatures := ss\<rparr>) = Inr ()
        \<and> validate_record E (lot\<lparr>cr_signatures := ss\<rparr>) = Inr ()
        \<and> cr_commitment lot \<noteq> None"
proof -
  let ?base = "btree_of_list [(''lot_id'', String (g @ ''-'' @ b)), (''product_id'', String g),
      (''batch_number'', String b)]"
  define pl where "pl = (case expiry_date a of None \<Rightarrow> ?base
      | Some x \<Rightarrow> btree_insert ''expiry_date'' (String x) ?base)"
  define ex where "ex = (case expiry_date a of None \<Rightarrow> Map.empty
      | Some x \<Rightarrow> [''expiry_date'' \<mapsto> String x])"
  have pl: "map_of pl = [''lot_id'' \<mapsto> String (g @ ''-'' @ b), ''product_id'' \<mapsto> String g,
       ''batch_number'' \<mapsto> String b] ++ ex" "dom ex \<subseteq> {''expiry_date''}"
    by (auto simp: pl_def ex_def map_of_btree_insert map_of_btree_of_list fun_eq_iff map_add_def
        split: option.splits)
  have m: "migrate_legacy_asset E u1 u2 a issuer t =
      res_bind (commitment E (new_record u2 t ''lot'' pl issuer)) (\<lambda>c. Inr
        (new_record u1 t ''product'' (btree_of_list [(''product_id'', String g),
           (''gtin'', String g), (''product_name'', String (product_name a))]) issuer,
         (new_record u2 t ''lot'' pl issuer)\<lparr>cr_commitment := Some c\<rparr>))"
    by (simp only: migrate_legacy_asset_def pl_def Let_def assms(1,4) option.case)
  have g: "g \<noteq> []" using assms(2) by auto
  show ?thesis
  proof (cases "commitment E (new_record u2 t ''lot'' pl issuer)")
    case (Inl e)
    then show ?thesis unfolding m
      by (auto simp: commitment_def canonical_form_def res_bind_Inl_iff ok_or_def split: option.splits)
  next
    case (Inr c)
    then show ?thesis unfolding m
      using migrated_lot_valid [OF assms(8,9,10) g assms(5) Inr pl]
        migrated_product_valid [OF assms(7,9,10,2,3,6), of E t] by simp
  qed
qed


section \<open>A concrete environment\<close>

text \<open>
  A concrete environment in which the hypotheses above hold: the digest is the input itself and
  the serializer numbers its inputs.
\<close>

instance json_number :: countable
  by countable_datatype

instance json :: countable
  by countable_datatype

definition sample_env :: canon_env where
  "sample_env = \<lparr>sha_digest = (\<lambda>x. x), hex_encode = map (\<lambda>b. char_of (unat b)),
     ser_record = (\<lambda>t. Some (show_nat (to_nat t)))\<rparr>"

lemma ser_record_faithful_sample: "ser_record_faithful sample_env"
  unfolding ser_record_faithful_def sample_env_def by auto

lemma sha_collision_sample: "\<not> sha_collision sample_env"
proof -
  have "inj (\<lambda>b :: u8. (char_of (unat b) :: char))"
  proof (rule injI)
    fix a b :: u8
    assume "(char_of (unat a) :: char) = char_of (unat b)"
    then have "unat a mod 256 = unat b mod 256" by (metis of_char_of)
    moreover have "unat w < 256" for w :: u8 using unsigned_less [of w, where 'a = nat] by simp
    ultimately show "a = b" by (simp add: word_unat_eq_iff)
  qed
  then show ?thesis by (auto simp: sha_collision_def sha256_def sample_env_def inj_map_eq_map)
qed

lemma sha256_sample [simp]: "sha256 sample_env (str_bytes s) = s"
  by (simp add: sha256_def sample_env_def str_bytes_def comp_def)

definition sample_asset :: traceable_asset where
  "sample_asset = \<lparr>gtin = Some ''7891234567890'', batch_number = Some ''L1'',
     expiry_date = Some ''2027-01-31'', serial_number = None, anvisa_registration = None,
     manufacturer_id = None, product_name = ''Aspirin'', custodian_id = ''acme'',
     country_of_origin = None, storage_temp_celsius = None, asset_quantity = 10\<rparr>"

definition sample_signature :: record_signature where
  "sample_signature = \<lparr>rs_signer = ''acme'', rs_signature_bytes = [], rs_algorithm = Ed25519\<rparr>"


definition sample_lot :: "record_signature list \<Rightarrow> canonical_record" where
  "sample_lot ss = (case migrate_legacy_asset sample_env ''r1'' ''r2'' sample_asset ''acme'' 0 of
     Inr (product, lot) \<Rightarrow> lot\<lparr>cr_signatures := ss\<rparr>)"

lemma sample_commitment: "\<exists>c. commitment sample_env r = Inr c"
  by (simp add: commitment_def canonical_form_def sample_env_def)

lemma sample_lot_valid:
  assumes "ss \<noteq> []"
  shows "validate_record sample_env (sample_lot ss) = Inr ()"
proof -
  let ?pl = "btree_insert ''expiry_date'' (String ''2027-01-31'')
    (btree_of_list [(''lot_id'', String ''7891234567890-L1''),
      (''product_id'', String ''7891234567890''), (''batch_number'', String ''L1'')])"
  obtain c where c: "commitment sample_env (new_record ''r2'' 0 ''lot'' ?pl ''acme'') = Inr c"
    using sample_commitment by blast
  have lot: "sample_lot ss = (new_record ''r2'' 0 ''lot'' ?pl ''acme'')
      \<lparr>cr_commitment := Some c, cr_signatures := ss\<rparr>"
    using c by (simp add: sample_lot_def migrate_legacy_asset_def sample_asset_def Let_def)
  have pl: "map_of ?pl = [''lot_id'' \<mapsto> String (''7891234567890'' @ ''-'' @ ''L1''),
      ''product_id'' \<mapsto> String ''7891234567890'', ''batch_number'' \<mapsto> String ''L1'']
      ++ [''expiry_date'' \<mapsto> String ''2027-01-31'']"
    by (simp add: map_of_btree_insert map_of_btree_of_list fun_upd_twist)
  show ?thesis
    unfolding lot by (rule migrated_lot_valid [OF _ _ assms _ _ c pl]) simp_all
qed

theorem validate_record_exact_witness:
  "validate_record sample_env (sample_lot [sample_signature]) = Inr ()
   \<and> (\<exists>d h. lookup_schema (from_static sample_env) (cr_schema_id (sample_lot [sample_signature]))
      (cr_schema_version (sample_lot [sample_signature])) =
        Some \<lparr>se_descriptor = d, se_schema_hash = h\<rparr>
    \<and> family_ok d (sample_lot [sample_signature])
    \<and> fst ` set (cr_payload (sample_lot [sample_signature])) \<subseteq>
        set (sd_required d) \<union> set (sd_optional d))"
proof -
  have v: "validate_record sample_env (sample_lot [sample_signature]) = Inr ()" by (rule sample_lot_valid) simp
  note e = iffD1 [OF validate_record_exact v [unfolded validate_record_def]]
  obtain d h where "lookup_schema (from_static sample_env) (cr_schema_id (sample_lot [sample_signature]))
      (cr_schema_version (sample_lot [sample_signature])) = Some \<lparr>se_descriptor = d, se_schema_hash = h\<rparr>"
    "family_ok d (sample_lot [sample_signature])"
    "fst ` set (cr_payload (sample_lot [sample_signature])) \<subseteq> set (sd_required d) \<union> set (sd_optional d)"
    using e by (elim conjE exE) (rule that; assumption)
  with v show ?thesis by (intro conjI exI)
qed

theorem anchored_record_tamper_evident_witness:
  "canonical_tuple (sample_lot [sample_signature]) =
   canonical_tuple (sample_lot [sample_signature, sample_signature])"
proof -
  obtain c where c: "cr_commitment (sample_lot ss) = Some c" for ss
  proof -
    obtain m where m: "migrate_legacy_asset sample_env ''r1'' ''r2'' sample_asset ''acme'' 0 = m"
      by blast
    have "\<exists>p r c. m = Inr (p, r\<lparr>cr_commitment := Some c\<rparr>)"
      using m sample_commitment unfolding migrate_legacy_asset_def Let_def by (metis res_bind_simps(2))
    with m that show thesis by (auto simp: sample_lot_def)
  qed
  show ?thesis
    using anchored_record_tamper_evident [OF ser_record_faithful_sample sample_lot_valid
        sample_lot_valid c c] sha_collision_sample by blast
qed

theorem migrate_legacy_asset_valid_witness:
  "case migrate_legacy_asset sample_env ''r1'' ''r2'' sample_asset ''acme'' 0 of
     Inl e \<Rightarrow> False
   | Inr (product, lot) \<Rightarrow>
       validate_record sample_env (product\<lparr>cr_signatures := [sample_signature]\<rparr>) = Inr ()
       \<and> validate_record sample_env (lot\<lparr>cr_signatures := [sample_signature]\<rparr>) = Inr ()"
proof -
  have "list_all is_ascii_digit ''7891234567890''" by (simp add: is_ascii_digit_def)
  moreover have "\<not> (\<exists>r. ser_record sample_env (canonical_tuple r) = None)"
    by (simp add: sample_env_def)
  ultimately show ?thesis
    using migrate_legacy_asset_valid [of sample_asset "''7891234567890''" "''L1''" "''r1''" "''r2''"
        "''acme''" "[sample_signature]" sample_env 0]
    by (simp add: sample_asset_def split: sum.splits prod.splits) (metis option.distinct(1))
qed

end
