(* ===== verification/Policy.thy ===== *)
theory Policy
  imports WriteSet
begin

text \<open>
  The policy language of \<^verbatim>\<open>glasschain-core/src/endorsement.rs\<close>: signature-policy trees, their
  validation and evaluation, and the layered policies of a channel/contract scope.
\<close>

section \<open>Expressions\<close>

text \<open>\<^verbatim>\<open>Principal\<close> is a newtype over \<^verbatim>\<open>String\<close>.\<close>

type_synonym principal = string

datatype policy_expression =
    SignedBy principal
  | NOutOf (required: nat) (rules: "policy_expression list")

definition signed_by :: "principal \<Rightarrow> policy_expression" where
  "signed_by p = SignedBy p"

definition policy_and :: "policy_expression list \<Rightarrow> policy_expression" where
  "policy_and rs = NOutOf (length rs) rs"

definition policy_or :: "policy_expression list \<Rightarrow> policy_expression" where
  "policy_or rs = NOutOf 1 rs"

lemma try_all_cong [fundef_cong]:
  "xs = ys \<Longrightarrow> (\<And>x. x \<in> set ys \<Longrightarrow> f x = g x) \<Longrightarrow> try_all f xs = try_all g ys"
  by (induction ys arbitrary: xs) auto

fun policy_validate :: "policy_expression \<Rightarrow> core_error + unit" where
  "policy_validate (SignedBy p) =
     (if p = [] then Inl (endorsement_err PrincipalEmpty) else Inr ())"
| "policy_validate (NOutOf n rs) =
     (if rs = [] then Inl (endorsement_err NoRules)
      else if n = 0 \<or> n > length rs then Inl (endorsement_err RequiredOutOfRange)
      else try_all policy_validate rs)"

definition required_count :: "policy_expression \<Rightarrow> nat" where
  "required_count e = (case e of SignedBy _ \<Rightarrow> 1 | NOutOf n _ \<Rightarrow> n)"

fun policy_evaluate :: "policy_expression \<Rightarrow> principal set \<Rightarrow> bool" where
  "policy_evaluate (SignedBy p) S = (p \<in> S)"
| "policy_evaluate (NOutOf n rs) S =
     (if rs = [] \<or> n = 0 then False
      else length (filter (\<lambda>r. policy_evaluate r S) rs) \<ge> n)"


section \<open>Scopes and layers\<close>

record scoped_target =
  st_channel :: string
  st_contract :: string
  st_keys :: "string list"
  st_collection :: "string option"

record scoped_policies =
  channel_default :: policy_expression
  contract_default :: "policy_expression option"
  collection_policy :: "policy_expression option"
  key_policies :: "(string \<times> policy_expression) list"

definition option_list :: "'a option \<Rightarrow> 'a list" where
  "option_list v = (case v of None \<Rightarrow> [] | Some x \<Rightarrow> [x])"

definition applicable :: "scoped_policies \<Rightarrow> scoped_target \<Rightarrow> policy_expression list" where
  "applicable sp t =
     channel_default sp
     # option_list (contract_default sp)
     @ (if st_collection t \<noteq> None then option_list (collection_policy sp) else [])
     @ concat (map (\<lambda>key.
         option_list (map_option snd (List.find (\<lambda>(k, _). k = key) (key_policies sp)))) (st_keys t))"

definition policies_validate :: "scoped_policies \<Rightarrow> core_error + unit" where
  "policies_validate sp =
     res_bind (policy_validate (channel_default sp)) (\<lambda>_.
     res_bind (try_all policy_validate (option_list (contract_default sp))) (\<lambda>_.
     res_bind (try_all policy_validate (option_list (collection_policy sp))) (\<lambda>_.
     try_all (\<lambda>(key, policy). if key = [] then Inl (endorsement_err EmptyPolicyKey)
       else policy_validate policy) (key_policies sp))))"

record endorser_identity =
  claimed_principal :: principal
  ei_public_key :: bytes
  ei_signature :: bytes
  ei_algorithm :: signature_algorithm

record endorsement_request =
  er_target :: scoped_target
  er_payload :: bytes
  er_signers :: "endorser_identity list"

record endorsement_evaluation =
  satisfied :: bool
  distinct_principals :: "principal list"
  ee_required :: nat

record transaction_endorsement =
  te_target :: scoped_target
  te_signers :: "endorser_identity list"

record policy_update =
  pu_channel :: string
  pu_contract :: string
  pu_policies :: scoped_policies

text \<open>\<^verbatim>\<open>TransactionEndorsement::covers\<close>.\<close>

definition covers :: "transaction_endorsement \<Rightarrow> persistent_write \<Rightarrow> bool" where
  "covers te w =
     (pw_channel w = st_channel (te_target te)
      \<and> pw_contract w = st_contract (te_target te)
      \<and> list_ex (\<lambda>key. key = pw_key w) (st_keys (te_target te))
      \<and> (case (pw_visibility w, st_collection (te_target te)) of
           (Public, None) \<Rightarrow> True
         | (Pdc name, Some collection) \<Rightarrow> name = collection
         | _ \<Rightarrow> False))"


section \<open>Meaning of expressions\<close>

text \<open>The principals a policy names.\<close>

fun leaves :: "policy_expression \<Rightarrow> principal set" where
  "leaves (SignedBy p) = {p}"
| "leaves (NOutOf n rs) = \<Union> (leaves ` set rs)"

lemma length_filter_mono:
  "(\<And>x. x \<in> set xs \<Longrightarrow> P x \<Longrightarrow> Q x) \<Longrightarrow> length (filter P xs) \<le> length (filter Q xs)"
  by (induction xs) (auto intro: le_SucI)

lemma policy_evaluate_mono: "S \<subseteq> T \<Longrightarrow> policy_evaluate e S \<Longrightarrow> policy_evaluate e T"
proof (induction e)
  case (NOutOf n rs)
  then have "length (filter (\<lambda>r. policy_evaluate r S) rs) \<le> length (filter (\<lambda>r. policy_evaluate r T) rs)"
    by (intro length_filter_mono) blast
  with NOutOf.prems show ?case by (auto split: if_splits)
qed auto

lemma policy_evaluate_leaves: "policy_evaluate e S \<longleftrightarrow> policy_evaluate e (S \<inter> leaves e)"
proof (induction e arbitrary: S)
  case (NOutOf n rs)
  have "policy_evaluate r S = policy_evaluate r (S \<inter> leaves (NOutOf n rs))" if "r \<in> set rs" for r
  proof -
    have sub: "S \<inter> leaves (NOutOf n rs) \<inter> leaves r = S \<inter> leaves r" using that by auto
    show ?thesis using NOutOf.IH [OF that, of S] NOutOf.IH [OF that, of "S \<inter> leaves (NOutOf n rs)"]
      unfolding sub by simp
  qed
  then have "filter (\<lambda>r. policy_evaluate r S) rs =
      filter (\<lambda>r. policy_evaluate r (S \<inter> leaves (NOutOf n rs))) rs"
    by (rule filter_cong [OF refl])
  then show ?case by simp
qed simp

lemma policy_evaluate_all_leaves:
  "policy_validate e = Inr () \<Longrightarrow> leaves e \<subseteq> S \<Longrightarrow> policy_evaluate e S"
proof (induction e)
  case (NOutOf n rs)
  then have "\<forall>r \<in> set rs. policy_evaluate r S"
    by (auto simp: try_all_Inr_iff UN_subset_iff split: if_splits)
  then have "filter (\<lambda>r. policy_evaluate r S) rs = rs" by (simp add: filter_id_conv)
  with NOutOf.prems show ?case by (auto split: if_splits)
qed auto

lemma policy_evaluate_empty: "\<not> policy_evaluate e {}"
proof (induction e)
  case (NOutOf n rs)
  then have "filter (\<lambda>r. policy_evaluate r {}) rs = []" by (simp add: filter_empty_conv)
  then show ?case by simp
qed simp

text \<open>
  Policy evaluation is monotone and depends only on the principals the policy names; no
  policy, validated or not, is satisfied by nobody; and a validated policy can be satisfied,
  namely by all the principals it names.
\<close>

theorem policy_evaluate_meaning:
  "(policy_evaluate e S \<longleftrightarrow> policy_evaluate e (S \<inter> leaves e))
   \<and> (policy_evaluate e S \<longrightarrow> policy_evaluate e (S \<union> T))
   \<and> \<not> policy_evaluate e {}
   \<and> (policy_validate e = Inr () \<longrightarrow> policy_evaluate e (leaves e) \<and> [] \<notin> leaves e)"
proof -
  have "[] \<notin> leaves e" if "policy_validate e = Inr ()"
    using that by (induction e) (auto simp: try_all_Inr_iff split: if_splits)
  then show ?thesis
    using policy_evaluate_leaves [of e S] policy_evaluate_mono [of S "S \<union> T" e]
      policy_evaluate_empty [of e] policy_evaluate_all_leaves [of e "leaves e"] by blast
qed

theorem policy_evaluate_meaning_witness:
  "policy_evaluate (policy_or [SignedBy ''a'', SignedBy ''b'']) {''a'', ''c''}
   \<and> policy_evaluate (policy_or [SignedBy ''a'', SignedBy ''b'']) ({''a'', ''c''} \<union> {''d''})
   \<and> policy_evaluate (policy_or [SignedBy ''a'', SignedBy ''b''])
       (leaves (policy_or [SignedBy ''a'', SignedBy ''b'']))"
  using policy_evaluate_meaning [of "policy_or [SignedBy ''a'', SignedBy ''b'']" "{''a'', ''c''}" "{''d''}"]
  by (simp add: policy_or_def)

lemma policy_and_evaluate:
  "policy_evaluate (policy_and rs) S \<longleftrightarrow> rs \<noteq> [] \<and> (\<forall>r \<in> set rs. policy_evaluate r S)"
proof -
  have "length (filter P rs) \<ge> length rs \<longleftrightarrow> (\<forall>r \<in> set rs. P r)" for P
    by (metis filter_True le_refl length_filter_less linorder_not_less)
  then show ?thesis by (simp add: policy_and_def)
qed

lemma policy_or_evaluate: "policy_evaluate (policy_or rs) S \<longleftrightarrow> (\<exists>r \<in> set rs. policy_evaluate r S)"
proof -
  have "length (filter P rs) \<ge> 1 \<longleftrightarrow> (\<exists>r \<in> set rs. P r)" for P
    by (induction rs) auto
  then show ?thesis by (auto simp: policy_or_def)
qed


section \<open>Layers only add constraints\<close>

lemma applicable_layers:
  "set (applicable (sp\<lparr>contract_default := None\<rparr>) t) \<subseteq> set (applicable sp t)"
  "set (applicable (sp\<lparr>collection_policy := None\<rparr>) t) \<subseteq> set (applicable sp t)"
  "set (applicable (sp\<lparr>key_policies := []\<rparr>) t) \<subseteq> set (applicable sp t)"
  "channel_default sp \<in> set (applicable sp t)"
  by (auto simp: applicable_def option_list_def)

text \<open>A set of principals meets every applicable layer.\<close>

definition meets :: "scoped_policies \<Rightarrow> scoped_target \<Rightarrow> principal set \<Rightarrow> bool" where
  "meets sp t S \<longleftrightarrow> (\<forall>e \<in> set (applicable sp t). policy_evaluate e S)"

text \<open>
  A more specific layer never weakens a base policy: whoever meets all applicable layers
  meets the channel default and every policy set obtained by dropping the contract, collection
  or key layer, and with keys added to the target the requirements only grow.  In particular
  nobody meets any policy set with no signature.
\<close>

theorem layers_only_add:
  "(meets sp t S \<longrightarrow>
      policy_evaluate (channel_default sp) S
      \<and> meets (sp\<lparr>contract_default := None\<rparr>) t S
      \<and> meets (sp\<lparr>collection_policy := None\<rparr>) t S
      \<and> meets (sp\<lparr>key_policies := []\<rparr>) t S)
   \<and> (meets sp (t\<lparr>st_keys := ks @ st_keys t\<rparr>) S \<longrightarrow> meets sp t S)
   \<and> \<not> meets sp t {}"
proof -
  have "set (applicable sp t) \<subseteq> set (applicable sp (t\<lparr>st_keys := ks @ st_keys t\<rparr>))"
    by (auto simp: applicable_def)
  then show ?thesis
    using applicable_layers [where sp = sp and t = t] policy_evaluate_empty
    unfolding meets_def by blast
qed

theorem layers_only_add_witness:
  "meets \<lparr>channel_default = SignedBy ''a'', contract_default = None, collection_policy = None,
      key_policies = []\<rparr>
     \<lparr>st_channel = ''ch'', st_contract = ''k'', st_keys = [''x''], st_collection = None\<rparr> {''a''}"
proof -
  let ?sp = "\<lparr>channel_default = SignedBy ''a'', contract_default = Some (SignedBy ''b''),
      collection_policy = None, key_policies = []\<rparr>"
  let ?t = "\<lparr>st_channel = ''ch'', st_contract = ''k'', st_keys = [''x''], st_collection = None\<rparr>"
  have "meets ?sp ?t {''a'', ''b''}"
    by (simp add: meets_def applicable_def option_list_def)
  then have "meets (?sp\<lparr>contract_default := None\<rparr>) ?t {''a'', ''b''}"
    using layers_only_add [of ?sp ?t "{''a'', ''b''}" "[]"] by blast
  then show ?thesis by (simp add: meets_def applicable_def option_list_def)
qed

lemma policies_validate_applicable:
  assumes "policies_validate sp = Inr ()" "e \<in> set (applicable sp t)"
  shows "policy_validate e = Inr ()"
proof -
  have "policy_validate p = Inr ()" if "Some (k, p) = List.find (\<lambda>(k, _). k = key) (key_policies sp)"
    for key k p
    using assms(1) find_SomeD [OF that [symmetric]]
    by (auto simp: policies_validate_def res_bind_Inr_iff try_all_Inr_iff split: if_splits)
  with assms show ?thesis
    by (auto simp: applicable_def policies_validate_def res_bind_Inr_iff try_all_Inr_iff
        option_list_def split: option.splits if_splits)
qed

end
