(* ===== verification/Transaction.thy ===== *)
theory Transaction
  imports Canonical Policy
begin

text \<open>
  \<^verbatim>\<open>glasschain-core/src/transaction.rs\<close>: the payloads of the ledger and the transaction itself,
  with the capability activation record of \<^verbatim>\<open>capability.rs\<close> that one payload carries.

  The environment gains the serializers at \<^verbatim>\<open>Transaction\<close> and at the block header tuple.
\<close>

section \<open>Payloads\<close>

record supply_offer =
  so_product_id :: string
  so_product_name :: string
  so_seller_id :: string
  so_quantity_available :: u64
  so_price_per_unit :: u64
  so_lead_time_days :: u32
  so_currency :: string

record purchase_order =
  po_product_id :: string
  po_buyer_id :: string
  po_seller_id :: string
  po_quantity :: u64
  po_agreed_price_per_unit :: u64
  po_currency :: string
  po_contract_id :: "string option"

record purchase_conditions =
  pc_max_price_per_unit :: u64
  pc_min_quantity :: u64
  pc_max_quantity :: u64
  pc_max_lead_time_days :: u32
  pc_preferred_seller_id :: "string option"
  pc_currency :: string
  pc_auto_execute :: bool

record smart_contract_def =
  sc_contract_id :: string
  sc_buyer_id :: string
  sc_product_id :: string
  sc_conditions :: purchase_conditions
  sc_wasm_code_b64 :: "string option"

record traceable_asset_registration =
  ar_asset :: traceable_asset
  ar_event_type :: string
  ar_originator_id :: string
  ar_purchase_order_ref :: "string option"

record contract_execution =
  ce_contract_id :: string
  ce_purchase_order_tx_id :: string
  ce_buyer_id :: string
  ce_seller_id :: string
  ce_product_id :: string
  ce_quantity :: u64
  ce_total_price :: u64
  ce_currency :: string

text \<open>The signed \<^verbatim>\<open>i64\<close> of an inventory delta is its two's-complement word.\<close>

record inventory_update =
  iu_product_id :: string
  iu_owner_id :: string
  iu_quantity_delta :: "64 word"
  iu_reason :: string

record capability_activation =
  ca_capability_id :: string
  ca_version :: u32
  ca_hash :: string
  ca_activation_height :: u64
  ca_signatures :: "record_signature list"

datatype transaction_kind =
    SupplyOffer supply_offer
  | PurchaseOrder purchase_order
  | ContractCreation smart_contract_def
  | ContractExecution contract_execution
  | InventoryUpdate inventory_update
  | AssetRegistration traceable_asset_registration
  | CanonicalRecord canonical_record
  | CapabilityActivation capability_activation
  | PolicyUpdate policy_update

record transaction =
  tx_id :: string
  tx_timestamp :: u64
  tx_kind :: transaction_kind
  tx_endorsements :: "transaction_endorsement list"

text \<open>
  \<^verbatim>\<open>Transaction::new\<close> and \<^verbatim>\<open>Transaction::with_id\<close>; the fresh identifier and the clock reading are
  arguments.
\<close>

definition transaction_new :: "string \<Rightarrow> u64 \<Rightarrow> transaction_kind \<Rightarrow> transaction" where
  "transaction_new uuid now kind =
     \<lparr>tx_id = uuid, tx_timestamp = now, tx_kind = kind, tx_endorsements = []\<rparr>"

definition with_id :: "string \<Rightarrow> u64 \<Rightarrow> transaction_kind \<Rightarrow> transaction" where
  "with_id i now kind =
     \<lparr>tx_id = i, tx_timestamp = now, tx_kind = kind, tx_endorsements = []\<rparr>"


section \<open>Serializers\<close>

text \<open>The tuple that \<^verbatim>\<open>Block::calculate_hash\<close> serializes.\<close>

type_synonym header =
  "u64 \<times> u64 \<times> transaction list \<times> persistent_write list \<times> string \<times> u64"

record env = canon_env +
  ser_transaction :: "transaction \<Rightarrow> string option"
  ser_header :: "header \<Rightarrow> string"

text \<open>\<^verbatim>\<open>TransactionEndorsement::payload\<close>: the bytes every endorser signs.\<close>

definition tx_payload :: "'z env_scheme \<Rightarrow> transaction \<Rightarrow> core_error + bytes" where
  "tx_payload E tx =
     res_bind (ok_or Serialization (ser_transaction E (tx\<lparr>tx_endorsements := []\<rparr>)))
       (\<lambda>s. Inr (str_bytes s))"

definition ser_transaction_faithful :: "'z env_scheme \<Rightarrow> bool" where
  "ser_transaction_faithful E \<longleftrightarrow>
     (\<forall>t t' s. ser_transaction E t = Some s \<longrightarrow> ser_transaction E t' = Some s \<longrightarrow> t = t')"

definition ser_header_faithful :: "'z env_scheme \<Rightarrow> bool" where
  "ser_header_faithful E \<longleftrightarrow> (\<forall>h h'. ser_header E h = ser_header E h' \<longrightarrow> h = h')"


section \<open>Countability\<close>

text \<open>
  The model's types are countable, so faithful serializers exist; \<open>sample_tx_env\<close> is one.
\<close>

instance signature_algorithm :: countable
  by countable_datatype

instance write_visibility :: countable
  by countable_datatype

instance write_op :: countable
  by countable_datatype

instance policy_expression :: countable
  by countable_datatype

instance persistent_write_ext :: (countable) countable
  by (rule countable_classI [of "\<lambda>r. to_nat (pw_channel r, pw_contract r, pw_key r, pw_op r,
      pw_visibility r, persistent_write.more r)"]) simp

instance traceable_asset_ext :: (countable) countable
  by (rule countable_classI [of "\<lambda>r. to_nat (gtin r, batch_number r, expiry_date r,
      serial_number r, anvisa_registration r, manufacturer_id r, product_name r, custodian_id r,
      country_of_origin r, storage_temp_celsius r, asset_quantity r, traceable_asset.more r)"]) simp

instance record_signature_ext :: (countable) countable
  by (rule countable_classI [of "\<lambda>r. to_nat (rs_signer r, rs_signature_bytes r, rs_algorithm r,
      record_signature.more r)"]) simp

instance extension_value_ext :: (countable) countable
  by (rule countable_classI [of "\<lambda>r. to_nat (ev_schema_version r, ev_value r,
      extension_value.more r)"]) simp

instance canonical_record_ext :: (countable) countable
  by (rule countable_classI [of "\<lambda>r. to_nat (cr_record_id r, cr_schema_id r, cr_schema_version r,
      cr_commitment r, cr_occurred_at r, cr_issuer r, cr_signatures r, cr_pdc_ref r,
      cr_extensions r, cr_payload r, canonical_record.more r)"]) simp

instance scoped_target_ext :: (countable) countable
  by (rule countable_classI [of "\<lambda>r. to_nat (st_channel r, st_contract r, st_keys r,
      st_collection r, scoped_target.more r)"]) simp

instance scoped_policies_ext :: (countable) countable
  by (rule countable_classI [of "\<lambda>r. to_nat (channel_default r, contract_default r,
      collection_policy r, key_policies r, scoped_policies.more r)"]) simp

instance endorser_identity_ext :: (countable) countable
  by (rule countable_classI [of "\<lambda>r. to_nat (claimed_principal r, ei_public_key r, ei_signature r,
      ei_algorithm r, endorser_identity.more r)"]) simp

instance transaction_endorsement_ext :: (countable) countable
  by (rule countable_classI [of "\<lambda>r. to_nat (te_target r, te_signers r,
      transaction_endorsement.more r)"]) simp

instance policy_update_ext :: (countable) countable
  by (rule countable_classI [of "\<lambda>r. to_nat (pu_channel r, pu_contract r, pu_policies r,
      policy_update.more r)"]) simp

instance supply_offer_ext :: (countable) countable
  by (rule countable_classI [of "\<lambda>r. to_nat (so_product_id r, so_product_name r, so_seller_id r,
      so_quantity_available r, so_price_per_unit r, so_lead_time_days r, so_currency r,
      supply_offer.more r)"]) simp

instance purchase_order_ext :: (countable) countable
  by (rule countable_classI [of "\<lambda>r. to_nat (po_product_id r, po_buyer_id r, po_seller_id r,
      po_quantity r, po_agreed_price_per_unit r, po_currency r, po_contract_id r,
      purchase_order.more r)"]) simp

instance purchase_conditions_ext :: (countable) countable
  by (rule countable_classI [of "\<lambda>r. to_nat (pc_max_price_per_unit r, pc_min_quantity r,
      pc_max_quantity r, pc_max_lead_time_days r, pc_preferred_seller_id r, pc_currency r,
      pc_auto_execute r, purchase_conditions.more r)"]) simp

instance smart_contract_def_ext :: (countable) countable
  by (rule countable_classI [of "\<lambda>r. to_nat (sc_contract_id r, sc_buyer_id r, sc_product_id r,
      sc_conditions r, sc_wasm_code_b64 r, smart_contract_def.more r)"]) simp

instance traceable_asset_registration_ext :: (countable) countable
  by (rule countable_classI [of "\<lambda>r. to_nat (ar_asset r, ar_event_type r, ar_originator_id r,
      ar_purchase_order_ref r, traceable_asset_registration.more r)"]) simp

instance contract_execution_ext :: (countable) countable
  by (rule countable_classI [of "\<lambda>r. to_nat (ce_contract_id r, ce_purchase_order_tx_id r,
      ce_buyer_id r, ce_seller_id r, ce_product_id r, ce_quantity r, ce_total_price r,
      ce_currency r, contract_execution.more r)"]) simp

instance inventory_update_ext :: (countable) countable
  by (rule countable_classI [of "\<lambda>r. to_nat (iu_product_id r, iu_owner_id r, iu_quantity_delta r,
      iu_reason r, inventory_update.more r)"]) simp

instance capability_activation_ext :: (countable) countable
  by (rule countable_classI [of "\<lambda>r. to_nat (ca_capability_id r, ca_version r, ca_hash r,
      ca_activation_height r, ca_signatures r, capability_activation.more r)"]) simp

instance transaction_kind :: countable
  by countable_datatype

instance transaction_ext :: (countable) countable
  by (rule countable_classI [of "\<lambda>r. to_nat (tx_id r, tx_timestamp r, tx_kind r,
      tx_endorsements r, transaction.more r)"]) simp

definition sample_tx_env :: env where
  "sample_tx_env =
     \<lparr>sha_digest = sha_digest sample_env, hex_encode = hex_encode sample_env,
      ser_record = ser_record sample_env,
      ser_transaction = (\<lambda>t. Some (show_nat (to_nat t))), ser_header = (\<lambda>h. show_nat (to_nat h))\<rparr>"

lemma sample_tx_env_sel [simp]:
  "sha256 sample_tx_env = sha256 sample_env"
  "ser_record sample_tx_env = ser_record sample_env"
  "ser_transaction sample_tx_env t = Some (show_nat (to_nat t))"
  "ser_header sample_tx_env h = show_nat (to_nat h)"
  by (simp_all add: sample_tx_env_def sha256_def fun_eq_iff)

lemma sample_tx_env_faithful:
  "ser_header_faithful sample_tx_env" "ser_transaction_faithful sample_tx_env"
  "ser_record_faithful sample_tx_env" "\<not> sha_collision sample_tx_env"
proof -
  show "ser_header_faithful sample_tx_env"
    unfolding ser_header_faithful_def by (simp only: sample_tx_env_sel show_nat_inj to_nat_split) blast
  show "ser_transaction_faithful sample_tx_env"
    unfolding ser_transaction_faithful_def by simp
  show "ser_record_faithful sample_tx_env"
    using ser_record_faithful_sample unfolding ser_record_faithful_def sample_tx_env_sel .
  show "\<not> sha_collision sample_tx_env"
    using sha_collision_sample unfolding sha_collision_def sample_tx_env_sel .
qed

end
