(* ===== verification/Block.thy ===== *)
theory Block
  imports Transaction
begin

text \<open>
  \<^verbatim>\<open>glasschain-core/src/block.rs\<close> and \<^verbatim>\<open>consensus.rs\<close>: blocks, their hash, Proof-of-Work mining,
  the structural chain rule, and quorum certificates.

  The wall clock is a stream of readings with the number of readings taken so far.
\<close>

section \<open>Blocks and certificates\<close>

record quorum_certificate =
  qc_block_index :: u64
  qc_block_hash :: string
  qc_signers_bitmap :: bytes
  qc_aggregate_signature :: bytes
  qc_algorithm :: signature_algorithm

record block =
  b_index :: u64
  b_timestamp :: u64
  b_transactions :: "transaction list"
  b_write_set :: "persistent_write list"
  b_previous_hash :: string
  b_nonce :: u64
  b_hash :: string
  b_certificate :: "quorum_certificate option"

type_synonym clock = "nat \<Rightarrow> u64"

definition has_leading_zeros :: "string \<Rightarrow> nat \<Rightarrow> bool" where
  "has_leading_zeros hash difficulty =
     (length hash \<ge> difficulty \<and> list_all (\<lambda>c. c = CHR ''0'') (take difficulty hash))"

definition header_of :: "block \<Rightarrow> header" where
  "header_of b = (b_index b, b_timestamp b, b_transactions b, b_write_set b,
     b_previous_hash b, b_nonce b)"

definition calculate_hash :: "'z env_scheme \<Rightarrow> block \<Rightarrow> string" where
  "calculate_hash E b = sha256 E (str_bytes (ser_header E (header_of b)))"

definition has_valid_pow :: "block \<Rightarrow> nat \<Rightarrow> bool" where
  "has_valid_pow b difficulty = has_leading_zeros (b_hash b) difficulty"

definition with_write_set ::
  "'z env_scheme \<Rightarrow> u64 \<Rightarrow> u64 \<Rightarrow> transaction list \<Rightarrow> string \<Rightarrow> persistent_write list \<Rightarrow> block" where
  "with_write_set E now index txs previous_hash ws =
     (let b = \<lparr>b_index = index, b_timestamp = now, b_transactions = txs, b_write_set = ws,
          b_previous_hash = previous_hash, b_nonce = 0, b_hash = [], b_certificate = None\<rparr>
      in b\<lparr>b_hash := calculate_hash E b\<rparr>)"

definition block_new ::
  "'z env_scheme \<Rightarrow> u64 \<Rightarrow> u64 \<Rightarrow> transaction list \<Rightarrow> string \<Rightarrow> block" where
  "block_new E now index txs previous_hash = with_write_set E now index txs previous_hash []"

definition is_valid :: "'z env_scheme \<Rightarrow> block \<Rightarrow> bool" where
  "is_valid E b = (b_hash b = calculate_hash E b)"

definition chains_to :: "'z env_scheme \<Rightarrow> block \<Rightarrow> block \<Rightarrow> core_error + unit" where
  "chains_to E b previous =
     (if b_previous_hash b \<noteq> b_hash previous then Inl (chain_err PreviousHashMismatch)
      else if b_index b \<noteq> b_index previous + 1 then Inl (chain_err IndexGap)
      else if \<not> is_valid E b then Inl (chain_err HashInvalid)
      else Inr ())"


section \<open>Mining\<close>

text \<open>
  One turn of the loop of \<^verbatim>\<open>Block::mine\<close>: refresh the timestamp when the nonce is about to wrap,
  increment the nonce, recompute the hash.
\<close>

definition mine_step ::
  "'z env_scheme \<Rightarrow> clock \<Rightarrow> block \<times> nat \<Rightarrow> block \<times> nat" where
  "mine_step E clock bk =
     (case bk of (b, k) \<Rightarrow>
        let (b, k) = (if b_nonce b = - 1 then (b\<lparr>b_timestamp := clock k\<rparr>, k + 1) else (b, k));
            b = b\<lparr>b_nonce := b_nonce b + 1\<rparr>
        in (b\<lparr>b_hash := calculate_hash E b\<rparr>, k))"

partial_function (option) mine_loop ::
  "'z env_scheme \<Rightarrow> clock \<Rightarrow> string \<Rightarrow> block \<times> nat \<Rightarrow> (block \<times> nat) option" where
  "mine_loop E clock target bk =
     (if starts_with (b_hash (fst bk)) target then Some bk
      else mine_loop E clock target (mine_step E clock bk))"

definition mine ::
  "'z env_scheme \<Rightarrow> clock \<Rightarrow> nat \<Rightarrow> block \<Rightarrow> nat \<Rightarrow> (block \<times> nat) option" where
  "mine E clock difficulty b k =
     mine_loop E clock (replicate difficulty (CHR ''0'')) (b\<lparr>b_hash := calculate_hash E b\<rparr>, k)"


section \<open>Quorum certificates\<close>

datatype cert_decision =
  Accepted | IndexMismatch | HashMismatch | MissingAggregate | WrongAlgorithm

definition decide ::
  "u64 \<Rightarrow> string \<Rightarrow> u64 \<Rightarrow> string \<Rightarrow> bool \<Rightarrow> bool \<Rightarrow> bool \<Rightarrow> cert_decision" where
  "decide block_index block_hash cert_index cert_hash degenerate has_aggregate bls_algorithm =
     (if cert_index \<noteq> block_index then IndexMismatch
      else if cert_hash \<noteq> block_hash then HashMismatch
      else if degenerate then Accepted
      else if \<not> has_aggregate then MissingAggregate
      else if \<not> bls_algorithm then WrongAlgorithm
      else Accepted)"

definition qc_pow :: "block \<Rightarrow> quorum_certificate" where
  "qc_pow b = \<lparr>qc_block_index = b_index b, qc_block_hash = b_hash b, qc_signers_bitmap = [],
     qc_aggregate_signature = [], qc_algorithm = Ed25519\<rparr>"

definition is_degenerate :: "quorum_certificate \<Rightarrow> bool" where
  "is_degenerate c = (qc_signers_bitmap c = [])"

definition qc_validate :: "quorum_certificate \<Rightarrow> block \<Rightarrow> core_error + unit" where
  "qc_validate c b =
     (case decide (b_index b) (b_hash b) (qc_block_index c) (qc_block_hash c) (is_degenerate c)
         (qc_aggregate_signature c \<noteq> []) (qc_algorithm c = Bls12381) of
        Accepted \<Rightarrow> Inr ()
      | IndexMismatch \<Rightarrow> Inl (certificate_err CertIndexMismatch)
      | HashMismatch \<Rightarrow> Inl (certificate_err CertHashMismatch)
      | MissingAggregate \<Rightarrow> Inl (certificate_err CertMissingAggregate)
      | WrongAlgorithm \<Rightarrow> Inl (certificate_err CertWrongAlgorithm))"

record commit_notification =
  cn_block :: block
  cn_certificate :: quorum_certificate

definition for_pow_block :: "block \<Rightarrow> commit_notification" where
  "for_pow_block b = \<lparr>cn_block = b, cn_certificate = qc_pow b\<rparr>"

definition cn_validate :: "commit_notification \<Rightarrow> core_error + unit" where
  "cn_validate n = qc_validate (cn_certificate n) (cn_block n)"

lemma qc_validate_Inr_iff:
  "qc_validate c b = Inr () \<longleftrightarrow>
     qc_block_index c = b_index b \<and> qc_block_hash c = b_hash b
     \<and> (is_degenerate c \<or> qc_aggregate_signature c \<noteq> [] \<and> qc_algorithm c = Bls12381)"
  by (simp add: qc_validate_def decide_def)

lemma cn_validate_for_pow_block: "cn_validate (for_pow_block b) = Inr ()"
  by (simp add: cn_validate_def for_pow_block_def qc_validate_Inr_iff qc_pow_def is_degenerate_def)


section \<open>What mining returns\<close>

lemma starts_with_zeros:
  "starts_with h (replicate d (CHR ''0'')) \<longleftrightarrow> has_leading_zeros h d"
proof (induction d arbitrary: h)
  case (Suc d)
  then show ?case by (cases h) (auto simp: has_leading_zeros_def)
qed (simp add: has_leading_zeros_def)

lemma has_leading_zeros_mono: "has_leading_zeros h d \<Longrightarrow> d' \<le> d \<Longrightarrow> has_leading_zeros h d'"
  by (auto simp: has_leading_zeros_def list_all_iff dest: set_take_subset_set_take [THEN subsetD])


lemma calculate_hash_updates [simp]:
  "calculate_hash E (b\<lparr>b_hash := h\<rparr>) = calculate_hash E b"
  "calculate_hash E (b\<lparr>b_certificate := c\<rparr>) = calculate_hash E b"
  by (simp_all add: calculate_hash_def header_of_def)

text \<open>What no turn of the loop changes.\<close>

definition same_content :: "block \<Rightarrow> block \<Rightarrow> bool" where
  "same_content a b \<longleftrightarrow>
     b_index a = b_index b \<and> b_transactions a = b_transactions b \<and> b_write_set a = b_write_set b
     \<and> b_previous_hash a = b_previous_hash b \<and> b_certificate a = b_certificate b"

lemma mine_step_keeps:
  "same_content (fst (mine_step E clock (b, k))) b \<and> is_valid E (fst (mine_step E clock (b, k)))"
  by (auto simp: mine_step_def same_content_def is_valid_def Let_def split: if_splits)

lemma mine_loop_Some:
  assumes "mine_loop E clock target bk = Some bk'" and "is_valid E (fst bk)"
  shows "is_valid E (fst bk') \<and> starts_with (b_hash (fst bk')) target
    \<and> same_content (fst bk') (fst bk)"
  using assms
proof (induction rule: mine_loop.raw_induct [rotated 1, consumes 1])
  case (1 mine_loop E clock target bk bk')
  show ?case
  proof (cases "starts_with (b_hash (fst bk)) target")
    case True
    with 1 show ?thesis by (auto simp: same_content_def)
  next
    case False
    have "is_valid E (fst (mine_step E clock bk))" "same_content (fst (mine_step E clock bk)) (fst bk)"
      using mine_step_keeps [of E clock "fst bk" "snd bk"] by simp_all
    with 1 False show ?thesis by (auto simp: same_content_def)
  qed
qed

text \<open>
  Whatever \<^const>\<open>mine\<close> returns has a correct hash, meets the Proof-of-Work target that
  validation checks (at its difficulty and every lower one), and still carries the index,
  transactions, write set, previous hash and certificate it was given.
\<close>

theorem mine_sound:
  assumes "mine E clock d b k = Some (b', k')"
  shows "is_valid E b' \<and> (\<forall>d' \<le> d. has_valid_pow b' d') \<and> same_content b' b"
  using mine_loop_Some [OF assms [unfolded mine_def]] has_leading_zeros_mono
  by (auto simp: is_valid_def starts_with_zeros has_valid_pow_def same_content_def)

text \<open>The block after \<open>i\<close> turns that did not wrap the nonce.\<close>

definition at_nonce :: "'z env_scheme \<Rightarrow> block \<Rightarrow> nat \<Rightarrow> block" where
  "at_nonce E b i = (let b' = b\<lparr>b_nonce := b_nonce b + of_nat i\<rparr>
     in b'\<lparr>b_hash := calculate_hash E b'\<rparr>)"

lemma nonce_not_max:
  assumes "unat n + Suc i < 2 ^ 64"
  shows "n + of_nat i \<noteq> (- 1 :: u64)"
proof
  assume a: "n + of_nat i = (- 1 :: u64)"
  have "unat (n + of_nat i) = unat n + i"
    using assms by (simp add: unat_word_ariths unat_of_nat)
  then show False using assms a unat_max_word [where 'a = 64] by simp
qed

lemma mine_step_at_nonce:
  assumes "unat (b_nonce b) + Suc i < 2 ^ 64"
  shows "mine_step E clock (at_nonce E b i, k) = (at_nonce E b (Suc i), k)"
  using nonce_not_max [OF assms]
  by (simp add: mine_step_def at_nonce_def Let_def calculate_hash_def header_of_def ac_simps)

lemma mine_loop_reaches:
  assumes "starts_with (b_hash (at_nonce E b (i + n))) target" "unat (b_nonce b) + (i + n) < 2 ^ 64"
  shows "\<exists>j \<le> i + n. mine_loop E clock target (at_nonce E b i, k) = Some (at_nonce E b j, k)"
  using assms
proof (induction n arbitrary: i)
  case 0
  then show ?case by (subst mine_loop.simps) (auto intro: exI [of _ i])
next
  case (Suc n)
  show ?case
  proof (cases "starts_with (b_hash (at_nonce E b i)) target")
    case True
    then show ?thesis by (subst mine_loop.simps) (auto intro!: exI [of _ i])
  next
    case False
    have "mine_step E clock (at_nonce E b i, k) = (at_nonce E b (Suc i), k)"
      using Suc.prems(2) by (intro mine_step_at_nonce) simp
    with False Suc.IH [of "Suc i"] Suc.prems show ?thesis
      by (subst mine_loop.simps) simp
  qed
qed

text \<open>
  C26. Mining terminates whenever some nonce from the starting one up to the 64-bit maximum
  meets the target: it then returns at that nonce or an earlier one, without touching the
  timestamp or reading the clock.
\<close>

theorem mine_returns:
  assumes "has_leading_zeros (b_hash (at_nonce E b i)) d" and "unat (b_nonce b) + i < 2 ^ 64"
  shows "\<exists>j \<le> i. mine E clock d b k = Some (at_nonce E b j, k)"
proof -
  have "at_nonce E b 0 = b\<lparr>b_hash := calculate_hash E b\<rparr>" by (simp add: at_nonce_def)
  then show ?thesis
    using mine_loop_reaches [of E b 0 i "replicate d (CHR ''0'')" clock k] assms
    by (simp add: mine_def starts_with_zeros)
qed


text \<open>
  An environment in which exactly the nonce 1 meets difficulty 1: the header text is \<^verbatim>\<open>0\<close> there
  and \<^verbatim>\<open>1\<close> elsewhere, and the digest is the input.
\<close>

definition pow_env :: env where
  "pow_env = sample_tx_env\<lparr>ser_header := (\<lambda>(_, _, _, _, _, n). if n = 1 then ''0'' else ''1'')\<rparr>"

definition pow_block :: block where
  "pow_block = block_new pow_env 7 0 [] ''0''"

lemma pow_env_hash: "calculate_hash pow_env b = (if b_nonce b = 1 then ''0'' else ''1'')"
proof -
  have "sha256 pow_env (str_bytes s) = s" for s
    using sha256_sample [of s] by (simp add: pow_env_def sample_tx_env_def sha256_def)
  then show ?thesis by (simp add: calculate_hash_def header_of_def pow_env_def)
qed

lemma pow_block_mined:
  "mine pow_env (\<lambda>_. 9) 1 pow_block 0 = Some (at_nonce pow_env pow_block 1, 0)"
proof -
  have b: "pow_block = \<lparr>b_index = 0, b_timestamp = 7, b_transactions = [], b_write_set = [],
      b_previous_hash = ''0'', b_nonce = 0, b_hash = ''1'', b_certificate = None\<rparr>"
    by (simp add: pow_block_def block_new_def with_write_set_def pow_env_hash Let_def)
  show ?thesis
    unfolding mine_def
    by (subst mine_loop.simps, subst mine_loop.simps)
      (simp add: b mine_step_def at_nonce_def pow_env_hash Let_def)
qed

theorem mine_sound_witness:
  "is_valid pow_env (at_nonce pow_env pow_block 1)
   \<and> has_valid_pow (at_nonce pow_env pow_block 1) 1
   \<and> same_content (at_nonce pow_env pow_block 1) pow_block"
  using mine_sound [OF pow_block_mined] by simp

theorem mine_returns_witness:
  "\<exists>j \<le> 1. mine pow_env (\<lambda>_. 9) 1 pow_block 0 = Some (at_nonce pow_env pow_block j, 0)"
  by (rule mine_returns)
    (simp_all add: at_nonce_def pow_env_hash has_leading_zeros_def pow_block_def block_new_def
      with_write_set_def Let_def)

text \<open>
  A certificate is admitted for a block exactly when it names the block's index and hash
  and is either the degenerate Proof-of-Work form (an empty bitmap) or carries a non-empty
  aggregate labelled BLS12-381; the error reported is the first failed check in that order.
\<close>

theorem qc_validate_exact:
  "(qc_validate c b = Inr () \<longleftrightarrow>
      qc_block_index c = b_index b \<and> qc_block_hash c = b_hash b
      \<and> (qc_signers_bitmap c = [] \<or> qc_aggregate_signature c \<noteq> [] \<and> qc_algorithm c = Bls12381))
   \<and> (qc_block_index c \<noteq> b_index b \<longleftrightarrow> qc_validate c b = Inl (certificate_err CertIndexMismatch))
   \<and> cn_validate (for_pow_block b) = Inr ()"
  using cn_validate_for_pow_block
  by (simp add: qc_validate_Inr_iff is_degenerate_def) (simp add: qc_validate_def decide_def)

end
