(* ===== verification/Capability.thy ===== *)
theory Capability
  imports Block
begin

text \<open>
  \<^verbatim>\<open>glasschain-core/src/capability.rs\<close>: the capability registry, activation records, the set
  effective at a height, and the history replayed from committed blocks.

  Methods that take \<^verbatim>\<open>&mut self\<close> and can fail return the result together with the state they
  leave behind, because a failed replay keeps the activations folded before the failure.
\<close>

section \<open>Registry\<close>

record capability_descriptor =
  cd_id :: string
  cd_version :: u32

definition STATE_COMMITMENT_CAPABILITY_ID :: string where
  "STATE_COMMITMENT_CAPABILITY_ID = ''state_commitment''"

definition ENDORSEMENT_CAPABILITY_ID :: string where
  "ENDORSEMENT_CAPABILITY_ID = ''endorsement''"

definition PDC_CAPABILITY_ID :: string where
  "PDC_CAPABILITY_ID = ''pdc''"

definition BFT_CONSENSUS_CAPABILITY_ID :: string where
  "BFT_CONSENSUS_CAPABILITY_ID = ''bft_consensus''"

lemmas capability_ids = STATE_COMMITMENT_CAPABILITY_ID_def ENDORSEMENT_CAPABILITY_ID_def
  PDC_CAPABILITY_ID_def BFT_CONSENSUS_CAPABILITY_ID_def

definition CAPABILITY_V1 :: "capability_descriptor list" where
  "CAPABILITY_V1 =
     [\<lparr>cd_id = ''canonical_schema_v1'', cd_version = 1\<rparr>,
      \<lparr>cd_id = STATE_COMMITMENT_CAPABILITY_ID, cd_version = 1\<rparr>,
      \<lparr>cd_id = PDC_CAPABILITY_ID, cd_version = 1\<rparr>,
      \<lparr>cd_id = ''endorsement'', cd_version = 1\<rparr>,
      \<lparr>cd_id = BFT_CONSENSUS_CAPABILITY_ID, cd_version = 1\<rparr>]"

definition GENESIS_CAPABILITIES :: "string list" where
  "GENESIS_CAPABILITIES = [''canonical_schema_v1'', STATE_COMMITMENT_CAPABILITY_ID]"

definition capability_hash :: "'z crypto_scheme \<Rightarrow> string \<Rightarrow> u32 \<Rightarrow> string" where
  "capability_hash E i version =
     sha256 E (str_bytes (i @ ''|v'' @ show_nat (unat version)))"

definition lookup_capability :: "string \<Rightarrow> capability_descriptor option" where
  "lookup_capability i = List.find (\<lambda>c. cd_id c = i) CAPABILITY_V1"

record capability_advertisement =
  adv_id :: string
  adv_version :: u32


section \<open>Capability sets and histories\<close>

record capability_set =
  cs_active :: "(string \<times> u32 \<times> string) list"

definition cs_genesis :: "'z crypto_scheme \<Rightarrow> capability_set" where
  "cs_genesis E =
     \<lparr>cs_active = fold (\<lambda>i active. case lookup_capability i of
          None \<Rightarrow> active
        | Some d \<Rightarrow> btree_insert i (cd_version d, capability_hash E i (cd_version d)) active)
        GENESIS_CAPABILITIES []\<rparr>"

definition is_active :: "capability_set \<Rightarrow> string \<Rightarrow> bool" where
  "is_active s i = (map_of (cs_active s) i \<noteq> None)"

definition active_version :: "capability_set \<Rightarrow> string \<Rightarrow> (u32 \<times> string) option" where
  "active_version s i = map_of (cs_active s) i"

definition cs_len :: "capability_set \<Rightarrow> nat" where
  "cs_len s = length (cs_active s)"

definition cs_is_empty :: "capability_set \<Rightarrow> bool" where
  "cs_is_empty s = (cs_active s = [])"

definition insert_activation :: "capability_activation \<Rightarrow> capability_set \<Rightarrow> capability_set" where
  "insert_activation a s =
     s\<lparr>cs_active := btree_insert (ca_capability_id a) (ca_version a, ca_hash a) (cs_active s)\<rparr>"

record capability_history =
  activations :: "capability_activation list"

definition cap_default :: capability_history where
  "cap_default = \<lparr>activations = []\<rparr>"

definition effective_set :: "'z crypto_scheme \<Rightarrow> capability_history \<Rightarrow> u64 \<Rightarrow> capability_set" where
  "effective_set E h height =
     fold (\<lambda>a s. if ca_activation_height a \<le> height then insert_activation a s else s)
       (activations h) (cs_genesis E)"

definition cap_apply ::
  "'z crypto_scheme \<Rightarrow> capability_activation \<Rightarrow> u64 \<Rightarrow> capability_history \<Rightarrow>
     (core_error + unit) \<times> capability_history" where
  "cap_apply E a containing h =
     (case lookup_capability (ca_capability_id a) of
        None \<Rightarrow> (Inl (capability_err UnknownCapability), h)
      | Some d \<Rightarrow>
          if ca_version a \<noteq> cd_version d then (Inl (capability_err VersionNotRegistered), h)
          else if ca_hash a \<noteq> capability_hash E (ca_capability_id a) (ca_version a)
          then (Inl (capability_err CapabilityHashMismatch), h)
          else if ca_activation_height a \<le> containing
          then (Inl (capability_err HeightNotFuture), h)
          else if list_ex (\<lambda>x. ca_capability_id x = ca_capability_id a) (activations h)
          then (Inl (capability_err AlreadyActivated), h)
          else if ca_signatures a = [] then (Inl (capability_err NoGovernanceSignature), h)
          else (Inr (), h\<lparr>activations := activations h @ [a]\<rparr>))"

definition validate_record_under ::
  "'z canon_env_scheme \<Rightarrow> capability_set \<Rightarrow> canonical_record \<Rightarrow> core_error + unit" where
  "validate_record_under E s r =
     res_bind (validate_record E r) (\<lambda>_.
       if cr_schema_id r = STATE_COMMITMENT_CAPABILITY_ID
          \<and> \<not> is_active s STATE_COMMITMENT_CAPABILITY_ID
       then Inl (record_err StateCommitmentInactive) else Inr ())"

text \<open>The body of the loop of \<^verbatim>\<open>CapabilityHistory::validate_block\<close>, over the transactions.\<close>

fun cap_validate_txs ::
  "'z canon_env_scheme \<Rightarrow> capability_set \<Rightarrow> u64 \<Rightarrow> transaction list \<Rightarrow> capability_history \<Rightarrow>
     (core_error + unit) \<times> capability_history" where
  "cap_validate_txs E s index [] h = (Inr (), h)"
| "cap_validate_txs E s index (tx # txs) h =
     (case tx_kind tx of
        CanonicalRecord r \<Rightarrow>
          (case validate_record_under E s r of
             Inl e \<Rightarrow> (Inl e, h)
           | Inr _ \<Rightarrow> cap_validate_txs E s index txs h)
      | CapabilityActivation a \<Rightarrow>
          (case cap_apply E a index h of
             (Inl e, h') \<Rightarrow> (Inl e, h')
           | (Inr _, h') \<Rightarrow> cap_validate_txs E s index txs h')
      | _ \<Rightarrow> cap_validate_txs E s index txs h)"

definition cap_validate_block ::
  "'z canon_env_scheme \<Rightarrow> block \<Rightarrow> capability_history \<Rightarrow> (core_error + unit) \<times> capability_history" where
  "cap_validate_block E b h =
     cap_validate_txs E (effective_set E h (b_index b)) (b_index b) (b_transactions b) h"

fun cap_replay ::
  "'z canon_env_scheme \<Rightarrow> capability_history \<Rightarrow> block list \<Rightarrow> core_error + capability_history" where
  "cap_replay E h [] = Inr h"
| "cap_replay E h (b # bs) =
     (case cap_validate_block E b h of
        (Inl e, _) \<Rightarrow> Inl e
      | (Inr _, h') \<Rightarrow> cap_replay E h' bs)"

definition cap_build_from_blocks ::
  "'z canon_env_scheme \<Rightarrow> block list \<Rightarrow> core_error + capability_history" where
  "cap_build_from_blocks E bs = cap_replay E cap_default bs"


section \<open>The history invariant\<close>

text \<open>A well-formed activation carries the identity the registry gives its capability.\<close>

definition registered :: "'z crypto_scheme \<Rightarrow> string \<Rightarrow> u32 \<times> string \<Rightarrow> bool" where
  "registered E i vh \<longleftrightarrow>
     (\<exists>d. lookup_capability i = Some d \<and> vh = (cd_version d, capability_hash E i (cd_version d)))"

definition history_wf :: "'z crypto_scheme \<Rightarrow> capability_history \<Rightarrow> bool" where
  "history_wf E h \<longleftrightarrow>
     distinct (map ca_capability_id (activations h))
     \<and> (\<forall>a \<in> set (activations h). registered E (ca_capability_id a) (ca_version a, ca_hash a)
         \<and> ca_signatures a \<noteq> [])"

lemma cap_apply_cases:
  "cap_apply E a containing h = (Inr (), h\<lparr>activations := activations h @ [a]\<rparr>)
     \<and> containing < ca_activation_height a
     \<and> registered E (ca_capability_id a) (ca_version a, ca_hash a)
     \<and> ca_capability_id a \<notin> ca_capability_id ` set (activations h) \<and> ca_signatures a \<noteq> []
   \<or> (\<exists>e. cap_apply E a containing h = (Inl e, h))"
  by (auto simp: cap_apply_def registered_def list_ex_iff split: option.splits)

text \<open>
  Replay, successful or not, only appends activations that are strictly future of the block,
  and keeps the history well formed.
\<close>

definition extends :: "'z crypto_scheme \<Rightarrow> u64 \<Rightarrow> capability_history \<Rightarrow> capability_history \<Rightarrow> bool" where
  "extends E index h h' \<longleftrightarrow>
     (\<exists>new. activations h' = activations h @ new \<and> (\<forall>a \<in> set new. index < ca_activation_height a))
     \<and> (history_wf E h \<longrightarrow> history_wf E h')"

lemma extends_refl [intro]: "extends E index h h"
  by (simp add: extends_def)

lemma extends_trans: "extends E index h h' \<Longrightarrow> extends E index h' h'' \<Longrightarrow> extends E index h h''"
  by (fastforce simp: extends_def)

lemma cap_apply_extends: "extends E index h (snd (cap_apply E a index h))"
proof -
  consider (ok) "cap_apply E a index h = (Inr (), h\<lparr>activations := activations h @ [a]\<rparr>)"
      "index < ca_activation_height a" "registered E (ca_capability_id a) (ca_version a, ca_hash a)"
      "ca_capability_id a \<notin> ca_capability_id ` set (activations h)" "ca_signatures a \<noteq> []"
    | (err) "snd (cap_apply E a index h) = h"
    using cap_apply_cases [of E a index h] by fastforce
  then show ?thesis
  proof cases
    case ok
    then show ?thesis by (auto simp: extends_def history_wf_def)
  qed auto
qed

lemma cap_validate_txs_extends: "extends E index h (snd (cap_validate_txs E s index txs h))"
proof (induction txs arbitrary: h)
  case (Cons tx txs)
  show ?case
  proof (cases "tx_kind tx")
    case (CapabilityActivation a)
    then show ?thesis
      using cap_apply_extends [of E index h a] Cons.IH [of "snd (cap_apply E a index h)"]
      by (auto split: prod.splits sum.splits intro: extends_trans)
  qed (use Cons.IH in \<open>auto split: sum.splits\<close>)
qed auto

lemma cap_validate_block_extends: "extends E (b_index b) h (snd (cap_validate_block E b h))"
  by (simp add: cap_validate_block_def cap_validate_txs_extends)

lemma fold_irrelevant: "(\<And>x s. x \<in> set xs \<Longrightarrow> f x s = s) \<Longrightarrow> fold f xs s = s"
  by (induction xs arbitrary: s) auto

lemma effective_set_extends:
  assumes "extends E index h h'" "height \<le> index"
  shows "effective_set E h' height = effective_set E h height"
proof -
  obtain new where new: "activations h' = activations h @ new"
      "\<forall>a \<in> set new. index < ca_activation_height a"
    using assms(1) by (auto simp: extends_def)
  then have "\<forall>a \<in> set new. \<not> ca_activation_height a \<le> height" using assms(2) by fastforce
  then show ?thesis unfolding effective_set_def new(1) fold_append comp_apply
    by (intro fold_irrelevant) simp
qed


section \<open>Replay\<close>

lemma cap_replay_append:
  "cap_replay E h (bs @ cs) = res_bind (cap_replay E h bs) (\<lambda>h'. cap_replay E h' cs)"
proof (induction bs arbitrary: h)
  case (Cons b bs)
  then show ?case by (cases "cap_validate_block E b h" rule: prod.exhaust) (simp split: sum.splits)
qed simp

lemma cap_replay_extends:
  assumes "cap_replay E h bs = Inr h'" "\<forall>b \<in> set bs. index \<le> b_index b"
  shows "extends E index h h'"
  using assms
proof (induction bs arbitrary: h)
  case (Cons b bs)
  from Cons.prems obtain h1 where h1: "cap_validate_block E b h = (Inr (), h1)"
      "cap_replay E h1 bs = Inr h'"
    by (auto split: prod.splits sum.splits)
  have "extends E index h h1"
    using cap_validate_block_extends [of E b h] Cons.prems(2) h1(1)
    by (fastforce simp: extends_def)
  with Cons.IH [OF h1(2)] Cons.prems(2) show ?case by (auto intro: extends_trans)
qed auto

lemma cap_build_wf: "cap_build_from_blocks E bs = Inr h \<Longrightarrow> history_wf E h"
  using cap_replay_extends [of E cap_default bs h 0]
  by (auto simp: cap_build_from_blocks_def extends_def history_wf_def cap_default_def)

text \<open>
  C14. Old blocks keep their meaning: when a chain replays, the capability set that validated a
  block is the set the complete history gives for that block's height.  No activation carried
  by the block itself or by any block at its height or above changes it.
\<close>

theorem capability_history_stable:
  assumes "cap_build_from_blocks E (pre @ b # post) = Inr h'"
    and "\<forall>c \<in> set post. b_index b \<le> b_index c"
  shows "\<exists>h. cap_build_from_blocks E pre = Inr h
    \<and> fst (cap_validate_block E b h) = Inr ()
    \<and> effective_set E h' (b_index b) = effective_set E h (b_index b)"
proof -
  obtain h where h: "cap_replay E cap_default pre = Inr h" "cap_replay E h (b # post) = Inr h'"
    using assms(1) by (auto simp: cap_build_from_blocks_def cap_replay_append res_bind_Inr_iff)
  have "extends E (b_index b) h h'"
    using assms(2) by (intro cap_replay_extends [OF h(2)]) auto
  then have "effective_set E h' (b_index b) = effective_set E h (b_index b)"
    by (rule effective_set_extends) simp
  moreover have "fst (cap_validate_block E b h) = Inr ()"
    using h(2) by (auto split: prod.splits sum.splits)
  ultimately show ?thesis using h(1) by (auto simp: cap_build_from_blocks_def)
qed

lemma map_of_insert_activation:
  "map_of (cs_active (insert_activation a s)) =
     (map_of (cs_active s))(ca_capability_id a \<mapsto> (ca_version a, ca_hash a))"
  by (simp add: insert_activation_def map_of_btree_insert)

lemma dom_effective_fold:
  "dom (map_of (cs_active (fold (\<lambda>a s. if ca_activation_height a \<le> height
       then insert_activation a s else s) acts s))) =
   dom (map_of (cs_active s)) \<union> {ca_capability_id a | a. a \<in> set acts \<and> ca_activation_height a \<le> height}"
  by (induction acts arbitrary: s) (auto simp: map_of_insert_activation)

lemma genesis_active:
  "map_of (cs_active (cs_genesis E)) =
     [''canonical_schema_v1'' \<mapsto> (1, capability_hash E ''canonical_schema_v1'' 1),
      ''state_commitment'' \<mapsto> (1, capability_hash E ''state_commitment'' 1)]"
  by (simp add: cs_genesis_def GENESIS_CAPABILITIES_def lookup_capability_def CAPABILITY_V1_def
      capability_ids map_of_btree_insert fun_eq_iff)

lemma is_active_effective_set:
  "is_active (effective_set E h height) i \<longleftrightarrow>
     i \<in> set GENESIS_CAPABILITIES
     \<or> (\<exists>a \<in> set (activations h). ca_capability_id a = i \<and> ca_activation_height a \<le> height)"
proof -
  have "is_active s i \<longleftrightarrow> i \<in> dom (map_of (cs_active s))" for s
    by (auto simp: is_active_def)
  note dom = this
  show ?thesis
    unfolding dom effective_set_def dom_effective_fold
    by (auto simp: genesis_active GENESIS_CAPABILITIES_def capability_ids split: if_splits)
qed

lemma registered_effective_fold:
  assumes "\<forall>a \<in> set acts. registered E (ca_capability_id a) (ca_version a, ca_hash a)"
    and "\<forall>i vh. map_of (cs_active s) i = Some vh \<longrightarrow> registered E i vh"
    and "map_of (cs_active (fold (\<lambda>a s. if ca_activation_height a \<le> height
       then insert_activation a s else s) acts s)) i = Some vh"
  shows "registered E i vh"
  using assms
proof (induction acts arbitrary: s)
  case (Cons a acts)
  let ?s = "if ca_activation_height a \<le> height then insert_activation a s else s"
  have "\<forall>i vh. map_of (cs_active ?s) i = Some vh \<longrightarrow> registered E i vh"
    using Cons.prems(1,2) by (auto simp: map_of_insert_activation)
  with Cons.IH [of ?s] Cons.prems(1,3) show ?case by simp
qed (cases vh; simp)

lemma registered_genesis:
  "map_of (cs_active (cs_genesis E)) i = Some vh \<Longrightarrow> registered E i vh"
  by (auto simp: genesis_active registered_def lookup_capability_def CAPABILITY_V1_def
      capability_ids split: if_splits)

text \<open>
  On a replayed chain the effective set is exactly the genesis capabilities plus the
  activations whose height has been reached; every entry carries the registered version and
  hash; and a capability that is active at a height stays active at every later height.
\<close>

theorem effective_set_exact:
  assumes "cap_build_from_blocks E bs = Inr h"
  shows "(is_active (effective_set E h height) i \<longleftrightarrow>
      i \<in> set GENESIS_CAPABILITIES
      \<or> (\<exists>a \<in> set (activations h). ca_capability_id a = i \<and> ca_activation_height a \<le> height))
    \<and> (\<forall>vh. active_version (effective_set E h height) i = Some vh \<longrightarrow> registered E i vh)
    \<and> (\<forall>later. height \<le> later \<longrightarrow> is_active (effective_set E h height) i \<longrightarrow>
        is_active (effective_set E h later) i)
    \<and> distinct (map ca_capability_id (activations h))"
proof -
  have wf: "history_wf E h" using assms by (rule cap_build_wf)
  have "registered E i vh" if "active_version (effective_set E h height) i = Some vh" for vh
    using registered_effective_fold [of "activations h" E "cs_genesis E" height i vh]
      that wf registered_genesis
    by (auto simp: active_version_def effective_set_def history_wf_def)
  moreover have "is_active (effective_set E h later) i"
    if "height \<le> later" "is_active (effective_set E h height) i" for later
    using that unfolding is_active_effective_set by (meson order_trans)
  ultimately show ?thesis
    using wf is_active_effective_set [of E h height i] by (auto simp: history_wf_def)
qed


section \<open>An example chain\<close>

definition sample_activation :: capability_activation where
  "sample_activation = \<lparr>ca_capability_id = ''endorsement'', ca_version = 1,
     ca_hash = capability_hash sample_tx_env ''endorsement'' 1, ca_activation_height = 5,
     ca_signatures = [sample_signature]\<rparr>"

definition sample_block :: "u64 \<Rightarrow> transaction_kind list \<Rightarrow> block" where
  "sample_block i ks = block_new sample_tx_env 0 i (map (with_id ''t'' 0) ks) ''0''"

lemma sample_block_sel [simp]:
  "b_index (sample_block i ks) = i" "b_transactions (sample_block i ks) = map (with_id ''t'' 0) ks"
  by (simp_all add: sample_block_def block_new_def with_write_set_def Let_def)

lemma sample_chain_replays:
  "cap_build_from_blocks sample_tx_env
     ([sample_block 0 []] @ sample_block 1 [CapabilityActivation sample_activation]
      # [sample_block 2 []]) = Inr \<lparr>activations = [sample_activation]\<rparr>"
  by (simp add: cap_build_from_blocks_def cap_validate_block_def cap_default_def with_id_def
      cap_apply_def lookup_capability_def CAPABILITY_V1_def capability_ids sample_activation_def
      word_le_nat_alt)

theorem capability_history_stable_witness:
  "effective_set sample_tx_env \<lparr>activations = [sample_activation]\<rparr> 1 =
     effective_set sample_tx_env cap_default 1"
proof -
  have "cap_build_from_blocks sample_tx_env [sample_block 0 []] = Inr cap_default"
    by (simp add: cap_build_from_blocks_def cap_validate_block_def cap_default_def)
  then show ?thesis using capability_history_stable [OF sample_chain_replays] by auto
qed

theorem effective_set_exact_witness:
  "\<not> is_active (effective_set sample_tx_env \<lparr>activations = [sample_activation]\<rparr> 4) ''endorsement''
   \<and> is_active (effective_set sample_tx_env \<lparr>activations = [sample_activation]\<rparr> 5) ''endorsement''"
  using effective_set_exact [OF sample_chain_replays, of 4 "''endorsement''"]
    effective_set_exact [OF sample_chain_replays, of 5 "''endorsement''"]
  by (simp add: sample_activation_def GENESIS_CAPABILITIES_def capability_ids)

end
