(* ===== verification/Endorsement.thy ===== *)
theory Endorsement
  imports Capability
begin

text \<open>
  The chain-derived half of \<^verbatim>\<open>glasschain-core/src/endorsement.rs\<close>: the policy history replayed
  from blocks, the operation defaults, and the evaluation of a transaction's endorsements
  against an \<^verbatim>\<open>EndorsementProvider\<close>.  The trait is the locale \<open>endorsement_contract\<close>.
\<close>

section \<open>Policy history\<close>

definition NETWORK_GOVERNANCE_PRINCIPAL :: principal where
  "NETWORK_GOVERNANCE_PRINCIPAL = ''network-governance''"

record policy_history =
  pol_updates :: "policy_update list"

definition pol_default :: policy_history where
  "pol_default = \<lparr>pol_updates = []\<rparr>"

definition default_policies :: scoped_policies where
  "default_policies = \<lparr>channel_default = signed_by NETWORK_GOVERNANCE_PRINCIPAL,
     contract_default = None, collection_policy = None, key_policies = []\<rparr>"

definition policies_for :: "policy_history \<Rightarrow> string \<Rightarrow> string \<Rightarrow> scoped_policies" where
  "policies_for h channel contract =
     (let exact = List.find (\<lambda>u. pu_channel u = channel \<and> pu_contract u = contract)
            (rev (pol_updates h));
          channel_wide = List.find (\<lambda>u. pu_channel u = channel \<and> pu_contract u = [])
            (rev (pol_updates h))
      in case exact of
           Some u \<Rightarrow> pu_policies u
         | None \<Rightarrow> (case channel_wide of Some u \<Rightarrow> pu_policies u | None \<Rightarrow> default_policies))"

definition pol_apply :: "policy_update \<Rightarrow> policy_history \<Rightarrow> (core_error + unit) \<times> policy_history" where
  "pol_apply u h =
     (if pu_channel u = [] then (Inl (endorsement_err UpdateChannelEmpty), h)
      else case policies_validate (pu_policies u) of
        Inl e \<Rightarrow> (Inl e, h)
      | Inr _ \<Rightarrow> (Inr (), h\<lparr>pol_updates := pol_updates h @ [u]\<rparr>))"

text \<open>The policy updates a block carries.\<close>

definition update_of :: "transaction \<Rightarrow> policy_update option" where
  "update_of tx = (case tx_kind tx of PolicyUpdate u \<Rightarrow> Some u | _ \<Rightarrow> None)"

definition pending_updates :: "block \<Rightarrow> policy_update list" where
  "pending_updates b = List.map_filter update_of (b_transactions b)"

definition changed_keys :: "block \<Rightarrow> (string \<times> string \<times> string) list" where
  "changed_keys b = concat (map (\<lambda>u.
     map (\<lambda>(key, _). (pu_channel u, pu_contract u, key)) (key_policies (pu_policies u)))
     (pending_updates b))"

definition written_keys :: "block \<Rightarrow> (string \<times> string \<times> string) list" where
  "written_keys b =
     map (\<lambda>w. (pw_channel w, pw_contract w, pw_key w)) (b_write_set b)
     @ concat (map (\<lambda>tx. concat (map (\<lambda>te.
         map (\<lambda>key. (st_channel (te_target te), st_contract (te_target te), key))
           (st_keys (te_target te))) (tx_endorsements tx)))
       (filter (\<lambda>tx. update_of tx = None) (b_transactions b)))"

fun pol_apply_all ::
  "policy_update list \<Rightarrow> policy_history \<Rightarrow> (core_error + unit) \<times> policy_history" where
  "pol_apply_all [] h = (Inr (), h)"
| "pol_apply_all (u # us) h =
     (case pol_apply u h of
        (Inl e, h') \<Rightarrow> (Inl e, h')
      | (Inr _, h') \<Rightarrow> pol_apply_all us h')"

definition pol_validate_block ::
  "block \<Rightarrow> policy_history \<Rightarrow> (core_error + unit) \<times> policy_history" where
  "pol_validate_block b h =
     (if list_ex (\<lambda>k. k \<in> set (changed_keys b)) (written_keys b)
      then (Inl (endorsement_err SameBlockConflict), h)
      else pol_apply_all (pending_updates b) h)"

fun pol_replay :: "policy_history \<Rightarrow> block list \<Rightarrow> core_error + policy_history" where
  "pol_replay h [] = Inr h"
| "pol_replay h (b # bs) =
     (case pol_validate_block b h of
        (Inl e, _) \<Rightarrow> Inl e
      | (Inr _, h') \<Rightarrow> pol_replay h' bs)"

definition pol_build_from_blocks :: "block list \<Rightarrow> core_error + policy_history" where
  "pol_build_from_blocks bs = pol_replay pol_default bs"


section \<open>Operation defaults\<close>

text \<open>The closure \<^verbatim>\<open>payload_str\<close>.\<close>

definition payload_str :: "payload \<Rightarrow> string \<Rightarrow> string option" where
  "payload_str p key = (case Option.bind (map_of p key) as_str of
       None \<Rightarrow> None | Some s \<Rightarrow> if s = [] then None else Some s)"

definition nonempty_str :: "json \<Rightarrow> string option" where
  "nonempty_str j = (case as_str j of None \<Rightarrow> None | Some s \<Rightarrow> if s = [] then None else Some s)"

definition record_default :: "canonical_record \<Rightarrow> core_error + policy_expression option" where
  "record_default r =
     (if cr_schema_id r = ''delivery_receipt'' then
        (case payload_str (cr_payload r) ''receiver_id'' of
           None \<Rightarrow> Inl (endorsement_err MissingReceiver)
         | Some receiver \<Rightarrow> Inr (Some (policy_and [signed_by (cr_issuer r), signed_by receiver])))
      else if cr_schema_id r = ''recall'' then
        (if payload_str (cr_payload r) ''issued_by'' = None
         then Inl (endorsement_err MissingIssuedBy)
         else Inr (Some (signed_by (cr_issuer r))))
      else if cr_schema_id r = ''quality_certification'' \<or> cr_schema_id r = ''audit_attestation'' then
        (case payload_str (cr_payload r) ''issuer'' of
           None \<Rightarrow> Inl (endorsement_err MissingIssuer)
         | Some issuer \<Rightarrow> Inr (Some (signed_by issuer)))
      else if cr_schema_id r = ''state_commitment'' then
        (case Option.bind (map_of (cr_payload r) ''counterparties'') as_array of
           None \<Rightarrow> Inl (endorsement_err MissingCounterparties)
         | Some cs \<Rightarrow>
             res_bind (try_fold (\<lambda>rs c. case nonempty_str c of
                 None \<Rightarrow> Inl (endorsement_err CounterpartyNotName)
               | Some name \<Rightarrow> Inr (rs @ [signed_by name])) [signed_by (cr_issuer r)] cs)
             (\<lambda>rs. Inr (Some (NOutOf (length rs) rs))))
      else Inr None)"

definition operation_default :: "transaction \<Rightarrow> core_error + policy_expression option" where
  "operation_default tx =
     (case tx_kind tx of
        CapabilityActivation _ \<Rightarrow> Inr (Some (signed_by ''network-governance''))
      | CanonicalRecord r \<Rightarrow> record_default r
      | _ \<Rightarrow> Inr None)"


section \<open>Evaluation of a transaction\<close>

type_synonym endorsement_provider =
  "policy_expression \<Rightarrow> endorsement_request \<Rightarrow> u64 \<Rightarrow> core_error + endorsement_evaluation"

definition is_record :: "transaction \<Rightarrow> bool" where
  "is_record tx = (case tx_kind tx of CanonicalRecord _ \<Rightarrow> True | _ \<Rightarrow> False)"

definition check_scope :: "transaction \<Rightarrow> persistent_write \<Rightarrow> core_error + unit" where
  "check_scope tx w =
     (if \<not> list_ex (\<lambda>te. covers te w) (tx_endorsements tx)
      then Inl (endorsement_err WriteOutsideScope) else Inr ())"

definition check_carrier ::
  "'z env_scheme \<Rightarrow> endorsement_provider \<Rightarrow> policy_history \<Rightarrow> transaction \<Rightarrow> u64 \<Rightarrow>
     transaction_endorsement \<Rightarrow> core_error + unit" where
  "check_carrier E provider h tx height te =
     (let policies = policies_for h (st_channel (te_target te)) (st_contract (te_target te))
      in res_bind (tx_payload E tx) (\<lambda>pl.
        let request = \<lparr>er_target = te_target te, er_payload = pl, er_signers = te_signers te\<rparr>
        in try_all (\<lambda>policy. res_bind (provider policy request height) (\<lambda>ev.
             if \<not> satisfied ev then Inl (endorsement_err PolicyUnsatisfied) else Inr ()))
           (applicable policies (te_target te))))"

definition check_default ::
  "'z env_scheme \<Rightarrow> endorsement_provider \<Rightarrow> transaction \<Rightarrow> u64 \<Rightarrow> policy_expression \<Rightarrow>
     core_error + unit" where
  "check_default E provider tx height e =
     res_bind (tx_payload E tx) (\<lambda>pl.
       let request = \<lparr>er_target = \<lparr>st_channel = [], st_contract = [], st_keys = [],
               st_collection = None\<rparr>,
             er_payload = pl,
             er_signers = concat (map te_signers (tx_endorsements tx))\<rparr>
       in res_bind (provider e request height) (\<lambda>ev.
            if \<not> satisfied ev then Inl (endorsement_err DefaultUnsatisfied) else Inr ()))"

definition evaluate_transaction_endorsements ::
  "'z env_scheme \<Rightarrow> endorsement_provider \<Rightarrow> policy_history \<Rightarrow> transaction \<Rightarrow>
     persistent_write list \<Rightarrow> u64 \<Rightarrow> core_error + unit" where
  "evaluate_transaction_endorsements E provider h tx partial_writes height =
     res_bind (try_all (check_scope tx) partial_writes) (\<lambda>_.
     if update_of tx \<noteq> None \<and> tx_endorsements tx = []
     then Inl (endorsement_err UpdateWithoutCarrier)
     else res_bind (if is_record tx then Inr ()
          else try_all (check_carrier E provider h tx height) (tx_endorsements tx)) (\<lambda>_.
       res_bind (operation_default tx) (\<lambda>d.
         case d of None \<Rightarrow> Inr () | Some e \<Rightarrow> check_default E provider tx height e)))"


section \<open>The policy history\<close>

lemma pol_apply_Inr_iff:
  "pol_apply u h = (Inr x, h') \<longleftrightarrow>
     pu_channel u \<noteq> [] \<and> policies_validate (pu_policies u) = Inr ()
     \<and> h' = h\<lparr>pol_updates := pol_updates h @ [u]\<rparr>"
  by (auto simp: pol_apply_def split: sum.splits)

lemma pol_apply_all_Inr:
  "pol_apply_all us h = (Inr x, h') \<Longrightarrow>
     pol_updates h' = pol_updates h @ us
     \<and> (\<forall>u \<in> set us. pu_channel u \<noteq> [] \<and> policies_validate (pu_policies u) = Inr ())"
proof (induction us arbitrary: h)
  case (Cons u us)
  from Cons.prems obtain h1 where h1: "pol_apply u h = (Inr (), h1)" "pol_apply_all us h1 = (Inr x, h')"
    by (auto split: prod.splits sum.splits)
  from Cons.IH [OF h1(2)] h1(1) show ?case by (auto simp: pol_apply_Inr_iff)
qed simp

lemma pol_validate_block_Inr:
  assumes "pol_validate_block b h = (Inr x, h')"
  shows "pol_updates h' = pol_updates h @ pending_updates b"
    and "\<forall>u \<in> set (pending_updates b). pu_channel u \<noteq> [] \<and> policies_validate (pu_policies u) = Inr ()"
    and "set (written_keys b) \<inter> set (changed_keys b) = {}"
  using assms pol_apply_all_Inr [of "pending_updates b" h x h']
  by (auto simp: pol_validate_block_def list_ex_iff split: if_splits)

lemma pol_replay_Inr:
  assumes "pol_replay h bs = Inr h'"
  shows "pol_updates h' = pol_updates h @ concat (map pending_updates bs)"
    and "\<forall>u \<in> set (pol_updates h). policies_validate (pu_policies u) = Inr () \<Longrightarrow>
      \<forall>u \<in> set (pol_updates h'). policies_validate (pu_policies u) = Inr ()"
    and "\<forall>b \<in> set bs. set (written_keys b) \<inter> set (changed_keys b) = {}"
  using assms
proof (induction bs arbitrary: h)
  case (Cons b bs)
  {
    case 1
    then show ?case using Cons(1) pol_validate_block_Inr(1) [of b h]
      by (fastforce split: prod.splits sum.splits)
  next
    case 2
    then obtain h1 where h1: "pol_validate_block b h = (Inr (), h1)" "pol_replay h1 bs = Inr h'"
      by (auto split: prod.splits sum.splits)
    from Cons(2) [OF _ h1(2)] pol_validate_block_Inr(1,2) [OF h1(1)] 2(1) show ?case by auto
  next
    case 3
    then obtain h1 where h1: "pol_validate_block b h = (Inr (), h1)" "pol_replay h1 bs = Inr h'"
      by (auto split: prod.splits sum.splits)
    from Cons(3) [OF h1(2)] pol_validate_block_Inr(3) [OF h1(1)] show ?case by auto
  }
qed simp_all

lemma pol_replay_append:
  "pol_replay h (bs @ cs) = res_bind (pol_replay h bs) (\<lambda>h'. pol_replay h' cs)"
proof (induction bs arbitrary: h)
  case (Cons b bs)
  then show ?case by (cases "pol_validate_block b h" rule: prod.exhaust) (simp split: sum.splits)
qed simp

lemma default_policies_valid: "policies_validate default_policies = Inr ()"
  by (simp add: policies_validate_def default_policies_def option_list_def signed_by_def
      NETWORK_GOVERNANCE_PRINCIPAL_def)

lemma policies_for_valid:
  assumes "\<forall>u \<in> set (pol_updates h). policies_validate (pu_policies u) = Inr ()"
  shows "policies_validate (policies_for h channel contract) = Inr ()"
proof -
  have "u \<in> set (pol_updates h)" if "List.find P (rev (pol_updates h)) = Some u" for P u
    using find_SomeD [OF that] by simp
  with assms default_policies_valid show ?thesis
    by (auto simp: policies_for_def Let_def split: option.splits)
qed

text \<open>The update of a list that was made last among those with a property.\<close>

definition latest_such :: "('a \<Rightarrow> bool) \<Rightarrow> 'a list \<Rightarrow> 'a \<Rightarrow> bool" where
  "latest_such P us u \<longleftrightarrow> (\<exists>pre post. us = pre @ u # post \<and> P u \<and> (\<forall>v \<in> set post. \<not> P v))"

lemma find_rev_latest: "latest_such P us u \<Longrightarrow> List.find P (rev us) = Some u"
proof -
  assume "latest_such P us u"
  then obtain pre post where us: "us = pre @ u # post" "P u" "\<forall>v \<in> set post. \<not> P v" by (auto simp: latest_such_def)
  have "List.find P (xs @ u # ys) = Some u" if "\<forall>v \<in> set xs. \<not> P v" for xs ys
    using that us(2) by (induction xs) simp_all
  from this [of "rev post" "rev pre"] us(1,3) show ?thesis by simp
qed

lemma latest_update:
  assumes "pol_updates h = us"
  shows "\<forall>channel contract u. latest_such (\<lambda>v. pu_channel v = channel \<and> pu_contract v = contract) us u \<longrightarrow>
      policies_for h channel contract = pu_policies u"
    "\<forall>channel contract u. (\<forall>v \<in> set us. \<not> (pu_channel v = channel \<and> pu_contract v = contract)) \<and>
      latest_such (\<lambda>v. pu_channel v = channel \<and> pu_contract v = []) us u \<longrightarrow> policies_for h channel contract = pu_policies u"
    "\<forall>channel contract. (\<forall>v \<in> set us. \<not> (pu_channel v = channel \<and> pu_contract v \<in> {contract, []})) \<longrightarrow>
      policies_for h channel contract = default_policies"
proof -
  have none: "List.find P (rev us) = None" if "\<forall>v \<in> set us. \<not> P v" for P
    using that by (simp add: find_None_iff)
  show "\<forall>channel contract u. latest_such (\<lambda>v. pu_channel v = channel \<and> pu_contract v = contract) us u \<longrightarrow>
      policies_for h channel contract = pu_policies u"
    by (auto simp: policies_for_def Let_def assms dest!: find_rev_latest)
  show "\<forall>channel contract u. (\<forall>v \<in> set us. \<not> (pu_channel v = channel \<and> pu_contract v = contract)) \<and>
      latest_such (\<lambda>v. pu_channel v = channel \<and> pu_contract v = []) us u \<longrightarrow> policies_for h channel contract = pu_policies u"
  proof (intro allI impI, elim conjE)
    fix channel contract u
    assume "\<forall>v \<in> set us. \<not> (pu_channel v = channel \<and> pu_contract v = contract)"
      "latest_such (\<lambda>v. pu_channel v = channel \<and> pu_contract v = []) us u"
    from none [OF this(1)] find_rev_latest [OF this(2)] show "policies_for h channel contract = pu_policies u"
      by (simp add: policies_for_def Let_def assms)
  qed
  show "\<forall>channel contract. (\<forall>v \<in> set us. \<not> (pu_channel v = channel \<and> pu_contract v \<in> {contract, []})) \<longrightarrow>
      policies_for h channel contract = default_policies"
  proof (intro allI impI)
    fix channel contract
    assume "\<forall>v \<in> set us. \<not> (pu_channel v = channel \<and> pu_contract v \<in> {contract, []})"
    then have "\<forall>v \<in> set us. \<not> (pu_channel v = channel \<and> pu_contract v = contract)"
      "\<forall>v \<in> set us. \<not> (pu_channel v = channel \<and> pu_contract v = [])" by auto
    from this [THEN none] show "policies_for h channel contract = default_policies"
      by (simp add: policies_for_def Let_def assms)
  qed
qed

text \<open>
  C13. On a chain whose policy history replays, the history is exactly the concatenation of the
  blocks' updates; the policies in force for a contract are those of the latest update of that contract
  in its channel, without one those of the latest channel-wide update, and without either the default;
  each of their layers is valid v1 metadata, satisfied by the principals it names together and never by
  an empty signature set; and no block both changes the policy of a scoped key and writes that key.
\<close>

theorem policy_history_sound:
  assumes "pol_build_from_blocks bs = Inr h" "us = concat (map pending_updates bs)"
  shows "pol_updates h = us
    \<and> (\<forall>channel contract u. latest_such (\<lambda>v. pu_channel v = channel \<and> pu_contract v = contract) us u \<longrightarrow>
        policies_for h channel contract = pu_policies u)
    \<and> (\<forall>channel contract u. (\<forall>v \<in> set us. \<not> (pu_channel v = channel \<and> pu_contract v = contract)) \<and>
        latest_such (\<lambda>v. pu_channel v = channel \<and> pu_contract v = []) us u \<longrightarrow> policies_for h channel contract = pu_policies u)
    \<and> (\<forall>channel contract. (\<forall>v \<in> set us. \<not> (pu_channel v = channel \<and> pu_contract v \<in> {contract, []})) \<longrightarrow>
        policies_for h channel contract = default_policies)
    \<and> (\<forall>channel contract t. \<forall>e \<in> set (applicable (policies_for h channel contract) t).
        policy_validate e = Inr () \<and> policy_evaluate e (leaves e) \<and> \<not> policy_evaluate e {})
    \<and> (\<forall>b \<in> set bs. \<forall>w \<in> set (b_write_set b). scope w \<notin> set (changed_keys b))"
proof -
  note r = pol_replay_Inr [OF assms(1) [unfolded pol_build_from_blocks_def]]
  have us: "pol_updates h = us" using r(1) by (simp add: pol_default_def assms(2))
  have valid: "policies_validate (policies_for h channel contract) = Inr ()" for channel contract
    by (rule policies_for_valid, rule r(2)) (simp add: pol_default_def)
  have "scope w \<notin> set (changed_keys b)" if "b \<in> set bs" "w \<in> set (b_write_set b)" for b w
  proof -
    have "scope w \<in> set (written_keys b)" using that by (auto simp: written_keys_def scope_def)
    with r(3) that show ?thesis by blast
  qed
  moreover have "policy_validate e = Inr () \<and> policy_evaluate e (leaves e) \<and> \<not> policy_evaluate e {}"
    if "e \<in> set (applicable (policies_for h channel contract) t)" for channel contract t e
    using policies_validate_applicable [OF valid that] policy_evaluate_all_leaves [of e "leaves e"]
      policy_evaluate_empty [of e] by simp
  ultimately show ?thesis using us latest_update [OF us] by blast
qed

lemma policies_for_append:
  "policies_for (h\<lparr>pol_updates := pol_updates h @ [u]\<rparr>) channel contract =
     (if pu_channel u = channel \<and> pu_contract u = contract then pu_policies u
      else if pu_channel u = channel \<and> pu_contract u = []
        \<and> List.find (\<lambda>v. pu_channel v = channel \<and> pu_contract v = contract) (rev (pol_updates h)) = None
      then pu_policies u
      else policies_for h channel contract)"
  by (auto simp: policies_for_def Let_def split: option.splits)

text \<open>
  A committed update governs its own scope from the next evaluation on; a channel-wide
  update governs exactly the contracts without a policy of their own; every other scope keeps
  its policies.
\<close>

theorem policy_update_scope:
  assumes "pol_apply u h = (Inr (), h')"
  shows "policies_for h' (pu_channel u) (pu_contract u) = pu_policies u
    \<and> (channel \<noteq> pu_channel u \<longrightarrow> policies_for h' channel contract = policies_for h channel contract)
    \<and> (contract \<noteq> pu_contract u \<and> pu_contract u \<noteq> [] \<longrightarrow>
        policies_for h' channel contract = policies_for h channel contract)
    \<and> (pu_contract u = [] \<longrightarrow> policies_for h' (pu_channel u) contract =
        (if contract = [] \<or> (\<forall>v \<in> set (pol_updates h). pu_channel v = pu_channel u \<longrightarrow>
              pu_contract v \<noteq> contract)
         then pu_policies u else policies_for h (pu_channel u) contract))"
proof -
  have h': "h' = h\<lparr>pol_updates := pol_updates h @ [u]\<rparr>"
    using assms by (simp add: pol_apply_Inr_iff)
  show ?thesis unfolding h' policies_for_append by (auto simp: find_None_iff)
qed


definition sample_update :: policy_update where
  "sample_update = \<lparr>pu_channel = ''ch'', pu_contract = ''k'',
     pu_policies = \<lparr>channel_default = SignedBy ''acme'', contract_default = None,
       collection_policy = None, key_policies = [(''x'', SignedBy ''bob'')]\<rparr>\<rparr>"

lemma sample_update_valid: "policies_validate (pu_policies sample_update) = Inr ()"
  by (simp add: sample_update_def policies_validate_def option_list_def)

lemma sample_policy_chain:
  "pol_build_from_blocks [sample_block 0 [], sample_block 1 [PolicyUpdate sample_update]] =
     Inr \<lparr>pol_updates = [sample_update]\<rparr>"
  using sample_update_valid
  by (simp add: pol_build_from_blocks_def pol_validate_block_def pending_updates_def update_of_def
      written_keys_def changed_keys_def with_id_def pol_apply_def pol_default_def
      sample_block_def block_new_def with_write_set_def Let_def map_filter_simps)
    (simp add: sample_update_def)

theorem policy_history_sound_witness:
  "policy_evaluate (SignedBy ''bob'') (leaves (SignedBy ''bob''))
   \<and> SignedBy ''bob'' \<in> set (applicable (policies_for \<lparr>pol_updates = [sample_update]\<rparr> ''ch'' ''k'')
       \<lparr>st_channel = ''ch'', st_contract = ''k'', st_keys = [''x''], st_collection = None\<rparr>)"
proof -
  have "SignedBy ''bob'' \<in> set (applicable (policies_for \<lparr>pol_updates = [sample_update]\<rparr> ''ch'' ''k'')
       \<lparr>st_channel = ''ch'', st_contract = ''k'', st_keys = [''x''], st_collection = None\<rparr>)"
    by (simp add: policies_for_def sample_update_def applicable_def option_list_def)
  with policy_history_sound [OF sample_policy_chain refl] show ?thesis by blast
qed

theorem policy_update_scope_witness:
  "policies_for \<lparr>pol_updates = [sample_update]\<rparr> ''ch'' ''k'' = pu_policies sample_update
   \<and> policies_for \<lparr>pol_updates = [sample_update]\<rparr> ''other'' ''k'' = default_policies"
proof -
  have "pol_apply sample_update pol_default = (Inr (), \<lparr>pol_updates = [sample_update]\<rparr>)"
    using sample_update_valid by (simp add: pol_apply_Inr_iff pol_default_def sample_update_def)
  moreover have "policies_for pol_default channel contract = default_policies" for channel contract
    by (simp add: policies_for_def pol_default_def)
  ultimately show ?thesis
    using policy_update_scope [of sample_update pol_default "\<lparr>pol_updates = [sample_update]\<rparr>" "''other''" "''k''"]
    by (simp add: sample_update_def)
qed


section \<open>The provider contract\<close>

text \<open>
  What the core relies on from an \<^verbatim>\<open>EndorsementProvider\<close>: when it reports a policy satisfied, the
  principals with an authenticated signature over the payload, authorized at the height, satisfy
  it, and the policy is valid v1 metadata.
\<close>

locale endorsement_contract =
  fixes evaluate :: endorsement_provider
    and endorsed_by :: "u64 \<Rightarrow> bytes \<Rightarrow> endorser_identity list \<Rightarrow> principal set"
  assumes evaluate_sound:
      "evaluate e req height = Inr ev \<Longrightarrow> satisfied ev \<Longrightarrow>
         policy_evaluate e (endorsed_by height (er_payload req) (er_signers req))"
    and evaluate_valid: "evaluate e req height = Inr ev \<Longrightarrow> policy_validate e = Inr ()"
begin

lemma check_carrier_sound:
  assumes "check_carrier E evaluate h tx height te = Inr ()"
  shows "\<exists>pl. tx_payload E tx = Inr pl
    \<and> meets (policies_for h (st_channel (te_target te)) (st_contract (te_target te)))
        (te_target te) (endorsed_by height pl (te_signers te))"
proof -
  obtain pl where pl: "tx_payload E tx = Inr pl"
      "\<forall>e \<in> set (applicable (policies_for h (st_channel (te_target te)) (st_contract (te_target te)))
         (te_target te)). \<exists>ev. evaluate e \<lparr>er_target = te_target te, er_payload = pl,
           er_signers = te_signers te\<rparr> height = Inr ev \<and> satisfied ev"
    using assms
    by (auto simp: check_carrier_def Let_def res_bind_Inr_iff try_all_Inr_iff split: if_splits)
  then show ?thesis unfolding meets_def using evaluate_sound by fastforce
qed

lemma check_default_sound:
  assumes "check_default E evaluate tx height e = Inr ()"
  shows "\<exists>pl. tx_payload E tx = Inr pl \<and> policy_validate e = Inr ()
    \<and> policy_evaluate e (endorsed_by height pl (concat (map te_signers (tx_endorsements tx))))"
proof -
  let ?req = "\<lambda>pl. \<lparr>er_target = \<lparr>st_channel = [], st_contract = [], st_keys = [],
      st_collection = None\<rparr>, er_payload = pl,
      er_signers = concat (map te_signers (tx_endorsements tx))\<rparr>"
  obtain pl ev where pl: "tx_payload E tx = Inr pl" "evaluate e (?req pl) height = Inr ev" "satisfied ev"
    using assms by (auto simp: check_default_def Let_def res_bind_Inr_iff split: if_splits)
  with evaluate_sound [OF pl(2,3)] evaluate_valid [OF pl(2)] show ?thesis by simp
qed

text \<open>What acceptance of a transaction by the core guarantees, for any provider.\<close>

lemma accepted_transaction:
  assumes "evaluate_transaction_endorsements E evaluate h tx ws height = Inr ()"
  shows "(\<forall>w \<in> set ws. \<exists>te \<in> set (tx_endorsements tx). covers te w)
    \<and> (update_of tx \<noteq> None \<longrightarrow> tx_endorsements tx \<noteq> [])
    \<and> (\<not> is_record tx \<longrightarrow> (\<forall>te \<in> set (tx_endorsements tx). \<exists>pl. tx_payload E tx = Inr pl
        \<and> meets (policies_for h (st_channel (te_target te)) (st_contract (te_target te)))
            (te_target te) (endorsed_by height pl (te_signers te))))
    \<and> (\<exists>d. operation_default tx = Inr d \<and> (case d of None \<Rightarrow> True | Some e \<Rightarrow>
        \<exists>pl. tx_payload E tx = Inr pl
          \<and> policy_evaluate e (endorsed_by height pl (concat (map te_signers (tx_endorsements tx))))))"
proof -
  have u: "update_of tx \<noteq> None \<longrightarrow> tx_endorsements tx \<noteq> []"
    using assms by (auto simp: evaluate_transaction_endorsements_def res_bind_Inr_iff)
  obtain d where a: "\<forall>w \<in> set ws. check_scope tx w = Inr ()"
      "\<not> is_record tx \<Longrightarrow> \<forall>te \<in> set (tx_endorsements tx). check_carrier E evaluate h tx height te = Inr ()"
      "operation_default tx = Inr d"
      "case d of None \<Rightarrow> True | Some e \<Rightarrow> check_default E evaluate tx height e = Inr ()"
    using assms unfolding evaluate_transaction_endorsements_def
    by (auto simp: res_bind_Inr_iff try_all_Inr_iff split: if_splits option.splits)
  have "\<forall>w \<in> set ws. \<exists>te \<in> set (tx_endorsements tx). covers te w"
    using a(1) by (auto simp: check_scope_def list_ex_iff split: if_splits)
  moreover have "case d of None \<Rightarrow> True | Some e \<Rightarrow> \<exists>pl. tx_payload E tx = Inr pl
      \<and> policy_evaluate e (endorsed_by height pl (concat (map te_signers (tx_endorsements tx))))"
    using a(4) by (auto split: option.splits dest!: check_default_sound)
  moreover have "\<forall>te \<in> set (tx_endorsements tx). \<exists>pl. tx_payload E tx = Inr pl
      \<and> meets (policies_for h (st_channel (te_target te)) (st_contract (te_target te)))
          (te_target te) (endorsed_by height pl (te_signers te))" if "\<not> is_record tx"
    using a(2) [OF that] by (auto dest!: check_carrier_sound)
  ultimately show ?thesis using a(3) u by simp
qed

end

section \<open>What the defaults require\<close>

lemma state_commitment_rules:
  "try_fold (\<lambda>rs c. case nonempty_str c of None \<Rightarrow> Inl err | Some name \<Rightarrow> Inr (rs @ [signed_by name])) rs cs
     = Inr rs' \<longleftrightarrow>
   (\<forall>c \<in> set cs. nonempty_str c \<noteq> None)
   \<and> rs' = rs @ map (\<lambda>c. signed_by (the (nonempty_str c))) cs"
proof (induction cs arbitrary: rs)
  case (Cons c cs)
  then show ?case by (cases "nonempty_str c") auto
qed auto

text \<open>The principals whose signature the operation default of a record demands.\<close>

definition required_signers :: "canonical_record \<Rightarrow> principal set" where
  "required_signers r =
     (if cr_schema_id r = ''delivery_receipt''
      then {cr_issuer r, get_str (cr_payload r) ''receiver_id''}
      else if cr_schema_id r = ''recall'' then {cr_issuer r}
      else if cr_schema_id r = ''quality_certification'' \<or> cr_schema_id r = ''audit_attestation''
      then {get_str (cr_payload r) ''issuer''}
      else if cr_schema_id r = ''state_commitment''
      then insert (cr_issuer r) {s. \<exists>cs. map_of (cr_payload r) ''counterparties'' = Some (Array cs)
             \<and> String s \<in> set cs}
      else {})"

lemma payload_str_get_str: "payload_str p k = Some s \<Longrightarrow> s = get_str p k \<and> s \<noteq> []"
  by (auto simp: payload_str_def get_str_def split: option.splits if_splits)

lemma nonempty_str_Some: "nonempty_str c = Some s \<longleftrightarrow> c = String s \<and> s \<noteq> []"
  by (cases c) (auto simp: nonempty_str_def as_str_def)

lemma as_array_Some: "Option.bind v as_array = Some cs \<longleftrightarrow> v = Some (Array cs)"
  by (cases v) (auto simp: as_array_def split: json.splits)

lemma record_default_signers:
  assumes "record_default r = Inr d" "d \<noteq> None" "policy_evaluate (the d) S"
  shows "required_signers r \<subseteq> S"
proof (cases "cr_schema_id r = ''state_commitment''")
  case True
  then obtain cs where cs: "map_of (cr_payload r) ''counterparties'' = Some (Array cs)"
      "\<forall>c \<in> set cs. nonempty_str c \<noteq> None"
      "d = Some (policy_and (signed_by (cr_issuer r) # map (\<lambda>c. signed_by (the (nonempty_str c))) cs))"
    using assms(1)
    by (auto simp: record_default_def res_bind_Inr_iff state_commitment_rules as_array_Some policy_and_def
        split: option.splits)
  have "s \<in> S" if "String s \<in> set cs" for s
  proof -
    have "nonempty_str (String s) = Some s" using cs(2) that by (cases "nonempty_str (String s)")
      (auto simp: nonempty_str_def as_str_def split: if_splits)
    then have "signed_by s \<in> set (map (\<lambda>c. signed_by (the (nonempty_str c))) cs)"
      using that by force
    then show ?thesis using assms(3) cs(3) by (auto simp: policy_and_evaluate signed_by_def)
  qed
  moreover have "cr_issuer r \<in> S"
    using assms(3) cs(3) by (simp add: policy_and_evaluate signed_by_def)
  ultimately show ?thesis using True cs(1) by (auto simp: required_signers_def)
next
  case False
  with assms show ?thesis
    by (auto simp: record_default_def required_signers_def signed_by_def policy_and_evaluate
        split: option.splits if_splits dest!: payload_str_get_str)
qed

lemma record_default_family:
  "record_default r = Inr None \<Longrightarrow> required_signers r = {}"
  by (auto simp: record_default_def required_signers_def res_bind_Inr_iff
      split: option.splits if_splits)

end
