(* ===== verification/Possession.thy ===== *)
theory Possession
  imports Core_Base
begin

text \<open>
  \<^verbatim>\<open>glasschain-identity/src/possession.rs\<close>: the domain-separated, length-prefixed messages that
  possession, pin-rotation and registration proofs sign.

  The ed25519 crate is a record of functions; X.509 parsing is a parameter of the functions that
  read certificates.
\<close>

section \<open>Signatures\<close>

text \<open>
  \<^verbatim>\<open>VerifyingKey::from_bytes(..).is_ok()\<close> and \<^verbatim>\<open>verify(..).is_ok()\<close>, on a key of 32 bytes and a
  signature of 64.
\<close>

record ed25519 =
  ed_key_valid :: "bytes \<Rightarrow> bool"
  ed_verify :: "bytes \<Rightarrow> bytes \<Rightarrow> bytes \<Rightarrow> bool"

definition verify_ed25519 :: "'z ed25519_scheme \<Rightarrow> bytes \<Rightarrow> bytes \<Rightarrow> bytes \<Rightarrow> bool" where
  "verify_ed25519 K public_key message proof_bytes =
     (if length public_key \<noteq> 32 then False
      else if \<not> ed_key_valid K public_key then False
      else if length proof_bytes \<noteq> 64 then False
      else ed_verify K public_key message proof_bytes)"


section \<open>Messages\<close>

text \<open>\<^verbatim>\<open>u32::to_be_bytes\<close>.\<close>

definition to_be_bytes :: "u32 \<Rightarrow> bytes" where
  "to_be_bytes w = map (\<lambda>i. of_nat (unat w div 256 ^ i)) [3, 2, 1, 0]"

text \<open>\<^const>\<open>None\<close> is the panic of \<^verbatim>\<open>expect\<close> on a field longer than a \<^verbatim>\<open>u32\<close>.\<close>

definition push_field :: "bytes \<Rightarrow> bytes \<Rightarrow> bytes option" where
  "push_field message field =
     (if length field < 2 ^ 32
      then Some (message @ to_be_bytes (of_nat (length field)) @ field) else None)"

definition org_possession_message :: "string \<Rightarrow> string \<Rightarrow> bytes \<Rightarrow> bytes option" where
  "org_possession_message org node_id binding =
     Option.bind (push_field (str_bytes ''glasschain-org-possession:'') (str_bytes org)) (\<lambda>m.
     Option.bind (push_field m (str_bytes node_id)) (\<lambda>m.
     push_field m binding))"

definition tofu_pin_message :: "string \<Rightarrow> string \<Rightarrow> bytes option" where
  "tofu_pin_message node_id fingerprint =
     Option.bind (push_field (str_bytes ''glasschain-tofu-pin:'') (str_bytes node_id)) (\<lambda>m.
     push_field m (str_bytes fingerprint))"

definition msp_registration_message :: "string \<Rightarrow> bytes \<Rightarrow> bytes option" where
  "msp_registration_message org public_key =
     Option.bind (push_field (str_bytes ''glasschain-msp-registration:'') (str_bytes org)) (\<lambda>m.
     push_field m public_key)"

text \<open>
  \<^verbatim>\<open>verify_org_possession\<close>; the first argument is what \<^verbatim>\<open>certificate_ed25519_public_key\<close> returns
  for the certificate.
\<close>

definition verify_org_possession ::
  "'z ed25519_scheme \<Rightarrow> bytes option \<Rightarrow> string \<Rightarrow> string \<Rightarrow> bytes \<Rightarrow> bytes \<Rightarrow> bool option" where
  "verify_org_possession K cert_key org node_id binding proof_bytes =
     (case cert_key of
        None \<Rightarrow> Some False
      | Some key \<Rightarrow> map_option (\<lambda>m. verify_ed25519 K key m proof_bytes)
          (org_possession_message org node_id binding))"


section \<open>Messages are unambiguous\<close>

lemma length_to_be_bytes [simp]: "length (to_be_bytes w) = 4"
  by (simp add: to_be_bytes_def)

lemma of_nat_u8_eq: "(of_nat a :: u8) = of_nat b \<longleftrightarrow> a mod 256 = b mod 256"
  by (simp add: word_unat_eq_iff unat_of_nat)

lemma div_mod_step: "a div 256 ^ i = 256 * (a div 256 ^ Suc i) + a div 256 ^ i mod 256" for a :: nat
  unfolding power_Suc2 div_mult2_eq by simp

lemma base256_inj:
  fixes a b :: nat
  assumes "\<forall>j < k. a div 256 ^ j mod 256 = b div 256 ^ j mod 256"
    and "a div 256 ^ k = b div 256 ^ k"
  shows "a = b"
  using assms
proof (induction k)
  case (Suc k)
  then have "a div 256 ^ k = b div 256 ^ k"
    using div_mod_step [of a k] div_mod_step [of b k] by auto
  with Suc show ?case by auto
qed simp

lemma to_be_bytes_inj: "to_be_bytes v = to_be_bytes w \<Longrightarrow> v = w"
proof -
  assume "to_be_bytes v = to_be_bytes w"
  then have d: "unat v div 256 ^ 3 mod 256 = unat w div 256 ^ 3 mod 256"
      "unat v div 256 ^ 2 mod 256 = unat w div 256 ^ 2 mod 256"
      "unat v div 256 ^ 1 mod 256 = unat w div 256 ^ 1 mod 256"
      "unat v div 256 ^ 0 mod 256 = unat w div 256 ^ 0 mod 256"
    unfolding to_be_bytes_def list.map list.inject of_nat_u8_eq by simp_all
  have e: "\<forall>j < 4. unat v div 256 ^ j mod 256 = unat w div 256 ^ j mod 256"
  proof (intro allI impI)
    fix j :: nat
    assume "j < 4"
    then consider "j = 0" | "j = 1" | "j = 2" | "j = 3" by linarith
    then show "unat v div 256 ^ j mod 256 = unat w div 256 ^ j mod 256"
      using d by cases (simp_all only:)
  qed
  have "unat x < 256 ^ 4" for x :: u32
    using unsigned_less [of x, where 'a = nat] by simp
  then have "unat v div 256 ^ 4 = unat w div 256 ^ 4" by (simp only: div_less)
  with e have "unat v = unat w" by (rule base256_inj)
  then show "v = w" by (simp only: word_unat_eq_iff)
qed

text \<open>One length-prefixed field followed by anything.\<close>

lemma field_inj:
  assumes "length f < 2 ^ 32" "length g < 2 ^ 32"
    and "to_be_bytes (of_nat (length f)) @ f @ r = to_be_bytes (of_nat (length g)) @ g @ s"
  shows "f = g \<and> r = s"
proof -
  have "to_be_bytes (of_nat (length f)) = to_be_bytes (of_nat (length g))" "f @ r = g @ s"
    using assms(3) by (auto simp: append_eq_append_conv)
  moreover from this(1) have "(of_nat (length f) :: u32) = of_nat (length g)"
    by (rule to_be_bytes_inj)
  then have "length f = length g"
    using assms(1,2) by (simp add: word_unat_eq_iff unat_of_nat)
  ultimately show ?thesis by (auto simp: append_eq_append_conv)
qed


lemma push_field_Some:
  "push_field m f = Some x \<longleftrightarrow>
     length f < 2 ^ 32 \<and> x = m @ to_be_bytes (of_nat (length f)) @ f"
  by (auto simp: push_field_def)

lemmas message_defs = org_possession_message_def tofu_pin_message_def msp_registration_message_def
  push_field_Some bind_eq_Some_conv

lemma org_possession_message_inj:
  assumes "org_possession_message a b c = Some m" "org_possession_message a' b' c' = Some m"
  shows "a = a' \<and> b = b' \<and> c = c'"
proof -
  have "to_be_bytes (of_nat (length (str_bytes a))) @ str_bytes a
        @ to_be_bytes (of_nat (length (str_bytes b))) @ str_bytes b
        @ to_be_bytes (of_nat (length c)) @ c @ [] =
      to_be_bytes (of_nat (length (str_bytes a'))) @ str_bytes a'
        @ to_be_bytes (of_nat (length (str_bytes b'))) @ str_bytes b'
        @ to_be_bytes (of_nat (length c')) @ c' @ []"
    and l: "length (str_bytes a) < 2 ^ 32" "length (str_bytes a') < 2 ^ 32"
      "length (str_bytes b) < 2 ^ 32" "length (str_bytes b') < 2 ^ 32"
      "length c < 2 ^ 32" "length c' < 2 ^ 32"
    using assms by (auto simp: message_defs)
  from field_inj [OF l(1,2) this(1)] field_inj [OF l(3,4)] field_inj [OF l(5,6)]
  show ?thesis by (metis str_bytes_inj)
qed

lemma two_field_inj:
  assumes "length f < 2 ^ 32" "length f' < 2 ^ 32" "length g < 2 ^ 32" "length g' < 2 ^ 32"
    and "p @ to_be_bytes (of_nat (length f)) @ f @ to_be_bytes (of_nat (length g)) @ g =
      p @ to_be_bytes (of_nat (length f')) @ f' @ to_be_bytes (of_nat (length g')) @ g'"
  shows "f = f' \<and> g = g'"
proof -
  have 1: "f = f' \<and> to_be_bytes (of_nat (length g)) @ g = to_be_bytes (of_nat (length g')) @ g'"
    by (rule field_inj [OF assms(1,2)]) (use assms(5) in simp)
  have "g = g' \<and> [] = ([] :: bytes)"
    by (rule field_inj [OF assms(3,4)]) (use 1 in simp)
  with 1 show ?thesis by simp
qed

lemma tofu_pin_message_inj:
  assumes "tofu_pin_message a b = Some m" "tofu_pin_message a' b' = Some m"
  shows "a = a' \<and> b = b'"
proof -
  have "str_bytes a = str_bytes a' \<and> str_bytes b = str_bytes b'"
    by (rule two_field_inj [of _ _ _ _ "str_bytes ''glasschain-tofu-pin:''"])
      (use assms in \<open>simp_all add: message_defs\<close>)
  then show ?thesis by simp
qed

lemma msp_registration_message_inj:
  assumes "msp_registration_message a k = Some m" "msp_registration_message a' k' = Some m"
  shows "a = a' \<and> k = k'"
proof -
  have "str_bytes a = str_bytes a' \<and> k = k'"
    by (rule two_field_inj [of _ _ _ _ "str_bytes ''glasschain-msp-registration:''"])
      (use assms in \<open>simp_all add: message_defs\<close>)
  then show ?thesis by simp
qed

lemma message_tags:
  "org_possession_message a b c = Some m \<Longrightarrow> m ! 11 = of_char (CHR ''o'')"
  "tofu_pin_message a b = Some m \<Longrightarrow> m ! 11 = of_char (CHR ''t'')"
  "msp_registration_message a k = Some m \<Longrightarrow> m ! 11 = of_char (CHR ''m'')"
  by (auto simp: message_defs nth_append str_bytes_def)

lemma tags_distinct:
  "(of_char (CHR ''o'') :: u8) \<noteq> of_char (CHR ''t'')" "(of_char (CHR ''o'') :: u8) \<noteq> of_char (CHR ''m'')"
  "(of_char (CHR ''t'') :: u8) \<noteq> of_char (CHR ''m'')"
  unfolding of_char_u8_inj by simp_all

text \<open>
  The signed messages are unambiguous: each determines its fields, and no message of one
  purpose (session possession, pin rotation, principal registration) is a message of another,
  so a signature captured in one protocol is useless in the others.
\<close>

theorem proof_messages_unambiguous:
  "(org_possession_message a b c = Some m \<and> org_possession_message a' b' c' = Some m \<longrightarrow>
      a = a' \<and> b = b' \<and> c = c')
   \<and> (tofu_pin_message a b = Some m \<and> tofu_pin_message a' b' = Some m \<longrightarrow> a = a' \<and> b = b')
   \<and> (msp_registration_message a k = Some m \<and> msp_registration_message a' k' = Some m \<longrightarrow>
      a = a' \<and> k = k')
   \<and> \<not> (org_possession_message a b c = Some m \<and> tofu_pin_message a' b' = Some m)
   \<and> \<not> (org_possession_message a b c = Some m \<and> msp_registration_message a' k = Some m)
   \<and> \<not> (tofu_pin_message a b = Some m \<and> msp_registration_message a' k = Some m)"
  using org_possession_message_inj [of a b c m a' b' c'] tofu_pin_message_inj [of a b m a' b']
    msp_registration_message_inj [of a k m a' k'] message_tags(1) [of a b c m]
    message_tags(2) [of a b m] message_tags(2) [of a' b' m] message_tags(3) [of a' k m] tags_distinct
  by metis

theorem proof_messages_unambiguous_witness:
  "\<exists>m. tofu_pin_message ''n'' ''f'' = Some m \<and> (\<forall>a b. tofu_pin_message a b = Some m \<longrightarrow> a = ''n'')"
proof -
  obtain m where m: "tofu_pin_message ''n'' ''f'' = Some m"
    by (simp add: tofu_pin_message_def push_field_def)
  then show ?thesis using proof_messages_unambiguous [of "''n''" "''f''" _ m] by blast
qed

end
