(* ===== verification/Msp.thy ===== *)
theory Msp
  imports Endorsement Possession
begin

text \<open>
  \<^verbatim>\<open>glasschain-identity/src/msp_policy.rs\<close>: the MSP-backed endorsement provider over a directory
  of registered keys, with certificate-bound registration, height windows and go-forward
  revocation.  It is the interpretation of the endorsement contract.
\<close>

section \<open>Height windows\<close>

datatype height_outcome = Authorized | NotYetValid | Revoked u64

definition height_outcome :: "u64 \<Rightarrow> u64 option \<Rightarrow> u64 \<Rightarrow> height_outcome" where
  "height_outcome valid_from revoked_at height =
     (if height < valid_from then NotYetValid
      else case revoked_at of
        Some revoked \<Rightarrow> if height \<ge> revoked then Revoked revoked else Authorized
      | None \<Rightarrow> Authorized)"


section \<open>The directory\<close>

datatype 'c msp_registration_error =
  MissingCertificate string | Certificate 'c | OrgMismatch string string | NoPublicKey | ProofInvalid

record registered_principal =
  rp_principal :: principal
  rp_valid_from :: u64
  rp_revoked_at :: "u64 option"

type_synonym directory = "bytes \<rightharpoonup> registered_principal"

text \<open>\<^verbatim>\<open>MspEndorsementProvider::new\<close>.\<close>

definition msp_new :: directory where
  "msp_new = Map.empty"

definition register :: "bytes \<Rightarrow> principal \<Rightarrow> directory \<Rightarrow> directory" where
  "register public_key p dir =
     dir(public_key \<mapsto> \<lparr>rp_principal = p, rp_valid_from = 0, rp_revoked_at = None\<rparr>)"

text \<open>
  \<^verbatim>\<open>register_certificate\<close>: the arguments \<open>chain_result\<close>, \<open>organization\<close> and \<open>cert_key\<close> are what
  the verifier and the X.509 parser return for the certificate.  The result \<^const>\<open>None\<close> is the
  panic on a field longer than \<^verbatim>\<open>u32::MAX\<close>.
\<close>

definition register_certificate ::
  "'z ed25519_scheme \<Rightarrow> 'c + unit \<Rightarrow> string option \<Rightarrow> bytes option \<Rightarrow> bytes \<Rightarrow> string \<Rightarrow> u64 \<Rightarrow>
     directory \<Rightarrow> (('c msp_registration_error + unit) \<times> directory) option" where
  "register_certificate K chain_result organization cert_key proof_bytes org valid_from_height dir =
     (case chain_result of
        Inl e \<Rightarrow> Some (Inl (Certificate e), dir)
      | Inr _ \<Rightarrow>
          let subject = (case organization of None \<Rightarrow> ''(absent)'' | Some s \<Rightarrow> s) in
          if subject \<noteq> org then Some (Inl (OrgMismatch org subject), dir)
          else case cert_key of
            None \<Rightarrow> Some (Inl NoPublicKey, dir)
          | Some public_key \<Rightarrow>
              map_option (\<lambda>message.
                if \<not> verify_ed25519 K public_key message proof_bytes then (Inl ProofInvalid, dir)
                else (Inr (), dir(public_key \<mapsto> \<lparr>rp_principal = org,
                  rp_valid_from = valid_from_height, rp_revoked_at = None\<rparr>)))
              (msp_registration_message org public_key))"

definition revoke :: "bytes \<Rightarrow> u64 \<Rightarrow> directory \<Rightarrow> bool \<times> directory" where
  "revoke public_key at_height dir =
     (case dir public_key of
        Some entry \<Rightarrow> (True, dir(public_key \<mapsto> entry\<lparr>rp_revoked_at := Some at_height\<rparr>))
      | None \<Rightarrow> (False, dir))"


section \<open>Evaluation\<close>

text \<open>The body of the signer loop: the set of distinct principals counted so far.\<close>

definition msp_signer ::
  "'z ed25519_scheme \<Rightarrow> directory \<Rightarrow> bytes \<Rightarrow> u64 \<Rightarrow> principal set \<Rightarrow> endorser_identity \<Rightarrow>
     core_error + principal set" where
  "msp_signer K dir pl height counted signer =
     (case dir (ei_public_key signer) of
        None \<Rightarrow> Inl (endorsement_err UnknownSigningKey)
      | Some entry \<Rightarrow>
          if rp_principal entry \<noteq> claimed_principal signer
          then Inl (endorsement_err PrincipalConflict)
          else case height_outcome (rp_valid_from entry) (rp_revoked_at entry) height of
            NotYetValid \<Rightarrow> Inl (endorsement_err NotYetAuthorized)
          | Revoked _ \<Rightarrow> Inl (endorsement_err KeyRevoked)
          | Authorized \<Rightarrow>
              if length (ei_public_key signer) \<noteq> 32 then Inl (endorsement_err KeyNot32Bytes)
              else if \<not> ed_key_valid K (ei_public_key signer)
              then Inl (endorsement_err KeyNotEd25519)
              else if length (ei_signature signer) \<noteq> 64 then Inr counted
              else if \<not> ed_verify K (ei_public_key signer) pl (ei_signature signer) then Inr counted
              else Inr (insert (rp_principal entry) counted))"

definition msp_evaluate :: "'z ed25519_scheme \<Rightarrow> directory \<Rightarrow> endorsement_provider" where
  "msp_evaluate K dir e req height =
     res_bind (policy_validate e) (\<lambda>_.
     res_bind (try_fold (msp_signer K dir (er_payload req) height) {} (er_signers req)) (\<lambda>counted.
       Inr \<lparr>satisfied = policy_evaluate e counted,
            distinct_principals = sorted_list_of_set counted,
            ee_required = required_count e\<rparr>))"


section \<open>What counts\<close>

text \<open>
  The principals with a verifying signature over the payload, by a registered key whose
  committed window contains the height.
\<close>

definition signed_at ::
  "'z ed25519_scheme \<Rightarrow> directory \<Rightarrow> u64 \<Rightarrow> bytes \<Rightarrow> endorser_identity list \<Rightarrow> principal set" where
  "signed_at K dir height pl signers =
     {p. \<exists>signer \<in> set signers. \<exists>entry. dir (ei_public_key signer) = Some entry
         \<and> rp_principal entry = p \<and> claimed_principal signer = p
         \<and> rp_valid_from entry \<le> height
         \<and> (case rp_revoked_at entry of None \<Rightarrow> True | Some r \<Rightarrow> height < r)
         \<and> verify_ed25519 K (ei_public_key signer) pl (ei_signature signer)}"

lemma height_outcome_Authorized_iff:
  "height_outcome vf ra h = Authorized \<longleftrightarrow>
     vf \<le> h \<and> (case ra of None \<Rightarrow> True | Some r \<Rightarrow> h < r)"
  by (auto simp: height_outcome_def split: option.splits)

lemma msp_signer_Inr:
  assumes "msp_signer K dir pl height counted signer = Inr counted'"
  shows "counted' = counted \<union> signed_at K dir height pl [signer]"
  using assms
  by (auto simp: msp_signer_def signed_at_def height_outcome_Authorized_iff verify_ed25519_def
      split: option.splits if_splits height_outcome.splits)

lemma signed_at_Cons:
  "signed_at K dir height pl (s # ss) = signed_at K dir height pl [s] \<union> signed_at K dir height pl ss"
  by (auto simp: signed_at_def)

lemma try_fold_msp_signer:
  "try_fold (msp_signer K dir pl height) counted signers = Inr counted' \<Longrightarrow>
     counted' = counted \<union> signed_at K dir height pl signers"
proof (induction signers arbitrary: counted)
  case Nil
  then show ?case by (simp add: signed_at_def)
next
  case (Cons s ss)
  then show ?case
    by (auto simp: res_bind_Inr_iff signed_at_Cons [of K dir height pl s ss] dest!: msp_signer_Inr)
qed

lemma finite_signed_at: "finite (signed_at K dir height pl signers)"
  by (rule finite_subset [of _ "claimed_principal ` set signers"]) (force simp: signed_at_def)+

lemma msp_evaluate_Inr:
  assumes "msp_evaluate K dir e req height = Inr ev"
  shows "policy_validate e = Inr ()"
    and "set (distinct_principals ev) = signed_at K dir height (er_payload req) (er_signers req)"
    and "distinct (distinct_principals ev)"
    and "satisfied ev = policy_evaluate e (signed_at K dir height (er_payload req) (er_signers req))"
  using assms
  by (auto simp: msp_evaluate_def res_bind_Inr_iff finite_signed_at dest!: try_fold_msp_signer)

interpretation msp: endorsement_contract "msp_evaluate K dir" "signed_at K dir" for K dir
  by unfold_locales (simp_all add: msp_evaluate_Inr)


section \<open>Properties\<close>

text \<open>The principals whose signature the operation default of a transaction demands.\<close>

definition operation_signers :: "transaction \<Rightarrow> principal set" where
  "operation_signers tx =
     (case tx_kind tx of
        CapabilityActivation _ \<Rightarrow> {''network-governance''}
      | CanonicalRecord r \<Rightarrow> required_signers r
      | _ \<Rightarrow> {})"

lemma operation_default_signers:
  assumes "operation_default tx = Inr d" "d \<noteq> None" "policy_evaluate (the d) S"
  shows "operation_signers tx \<subseteq> S"
  using assms record_default_signers
  by (auto simp: operation_default_def operation_signers_def signed_by_def split: transaction_kind.splits)

lemma operation_default_none: "operation_default tx = Inr None \<Longrightarrow> operation_signers tx = {}"
  by (auto simp: operation_default_def operation_signers_def record_default_family split: transaction_kind.splits)

text \<open>
  C7. A transaction the MSP provider lets through is authorized: every write it commits is
  inside the scope of one of its carriers; a policy update has a carrier; unless the transaction is a
  canonical record, whose carriers are not held against the channel's policies, all applicable
  policy layers of every carrier are met by principals with a verifying signature over the transaction's
  canonical bytes under a key registered and not revoked at the block's height; and the carriers
  together bear such signatures of everyone the operation default names: the network governance for a
  capability activation, issuer and receiver of a custody handoff, the issuer of a recall, the
  certifier, the issuer and all counterparties of a state commitment.
\<close>

theorem msp_transaction_authorized:
  assumes "evaluate_transaction_endorsements E (msp_evaluate K dir) h tx ws height = Inr ()"
  shows "(\<forall>w \<in> set ws. \<exists>te \<in> set (tx_endorsements tx). covers te w)
    \<and> (update_of tx \<noteq> None \<longrightarrow> tx_endorsements tx \<noteq> [])
    \<and> (\<not> is_record tx \<longrightarrow> (\<forall>te \<in> set (tx_endorsements tx). \<exists>pl. tx_payload E tx = Inr pl
        \<and> meets (policies_for h (st_channel (te_target te)) (st_contract (te_target te)))
            (te_target te) (signed_at K dir height pl (te_signers te))))
    \<and> (operation_signers tx = {} \<or>
        (\<exists>pl. tx_payload E tx = Inr pl \<and> operation_signers tx \<subseteq>
          signed_at K dir height pl (concat (map te_signers (tx_endorsements tx)))))"
proof -
  note acc = msp.accepted_transaction [OF assms]
  then obtain d where d: "operation_default tx = Inr d" "d \<noteq> None \<Longrightarrow> \<exists>pl. tx_payload E tx = Inr pl
      \<and> policy_evaluate (the d) (signed_at K dir height pl (concat (map te_signers (tx_endorsements tx))))"
    by (auto split: option.splits)
  have "operation_signers tx = {} \<or> (\<exists>pl. tx_payload E tx = Inr pl \<and> operation_signers tx \<subseteq>
      signed_at K dir height pl (concat (map te_signers (tx_endorsements tx))))"
  proof (cases "d = None")
    case True
    with operation_default_none d(1) show ?thesis by simp
  next
    case False
    with d operation_default_signers [OF d(1) False] show ?thesis by blast
  qed
  with acc show ?thesis by blast
qed

lemma signed_at_revoke:
  assumes "dir k = Some entry" "height < r"
  shows "msp_signer K (snd (revoke k r dir)) pl height counted signer =
    msp_signer K (dir(k \<mapsto> entry\<lparr>rp_revoked_at := None\<rparr>)) pl height counted signer"
  using assms by (auto simp: msp_signer_def revoke_def height_outcome_def)

lemma signed_at_unrevoked:
  assumes "dir k = Some entry" "\<forall>r0. rp_revoked_at entry = Some r0 \<longrightarrow> height < r0"
  shows "msp_signer K (dir(k \<mapsto> entry\<lparr>rp_revoked_at := None\<rparr>)) pl height counted signer =
    msp_signer K dir pl height counted signer"
  using assms by (auto simp: msp_signer_def height_outcome_def split: option.splits)

lemma try_fold_cong: "(\<And>s x. f s x = g s x) \<Longrightarrow> try_fold f s xs = try_fold g s xs"
  by (induction xs arbitrary: s) (auto simp: res_bind_def split: sum.splits)

lemma try_fold_error:
  assumes "x \<in> set xs" "\<And>s. \<exists>e. f s x = Inl e"
  shows "\<exists>e. try_fold f s xs = Inl e"
  using assms(1)
proof (induction xs arbitrary: s)
  case (Cons y ys)
  show ?case
  proof (cases "f s y")
    case (Inr t)
    with Cons assms(2) show ?thesis by (metis Inr_Inl_False res_bind_simps(2) set_ConsD try_fold.simps(2))
  qed auto
qed simp

lemma msp_evaluate_cong:
  assumes "\<And>counted signer. msp_signer K dir (er_payload req) height counted signer =
    msp_signer K dir' (er_payload req) height counted signer"
  shows "msp_evaluate K dir e req height = msp_evaluate K dir' e req height"
  using try_fold_cong [of "msp_signer K dir (er_payload req) height" "msp_signer K dir' (er_payload req) height", OF assms]
  by (simp only: msp_evaluate_def)

text \<open>
  C18. Revocation is go-forward: once a registered key is revoked at a height, every request that
  carries the key is refused from that height on, and below it every request is evaluated as
  if the key had never been revoked.  So no evaluation changes at an earlier height at which the key
  was not yet revoked, and committed history keeps verifying; but a key that was already revoked
  earlier is authorized again up to the new height.
\<close>

theorem revoke_go_forward:
  assumes "dir k = Some entry"
  shows "(r \<le> height \<and> k \<in> ei_public_key ` set (er_signers req) \<longrightarrow>
      \<not> is_ok (msp_evaluate K (snd (revoke k r dir)) e req height))
    \<and> (height < r \<longrightarrow> msp_evaluate K (snd (revoke k r dir)) e req height =
        msp_evaluate K (dir(k \<mapsto> entry\<lparr>rp_revoked_at := None\<rparr>)) e req height)
    \<and> (height < r \<and> (\<forall>r0. rp_revoked_at entry = Some r0 \<longrightarrow> height < r0) \<longrightarrow>
        msp_evaluate K (snd (revoke k r dir)) e req height = msp_evaluate K dir e req height)"
proof -
  have 1: "msp_evaluate K (snd (revoke k r dir)) e req height =
      msp_evaluate K (dir(k \<mapsto> entry\<lparr>rp_revoked_at := None\<rparr>)) e req height" if "height < r"
    by (rule msp_evaluate_cong) (rule signed_at_revoke [of dir k entry height r, OF assms that])
  have 2: "msp_evaluate K (dir(k \<mapsto> entry\<lparr>rp_revoked_at := None\<rparr>)) e req height = msp_evaluate K dir e req height"
    if "\<forall>r0. rp_revoked_at entry = Some r0 \<longrightarrow> height < r0"
    by (rule msp_evaluate_cong) (rule signed_at_unrevoked [of dir k entry, OF assms that])
  have 3: "\<not> is_ok (msp_evaluate K (snd (revoke k r dir)) e req height)"
    if "r \<le> height" and in_req: "k \<in> ei_public_key ` set (er_signers req)"
  proof -
    obtain s where s: "s \<in> set (er_signers req)" "ei_public_key s = k" using in_req by blast
    let ?f = "msp_signer K (snd (revoke k r dir)) (er_payload req) height"
    have "\<exists>x. ?f counted s = Inl x" for counted
      using assms \<open>r \<le> height\<close> s(2)
      by (auto simp: msp_signer_def revoke_def height_outcome_def)
    then have "\<exists>x. try_fold ?f {} (er_signers req) = Inl x"
      by (rule try_fold_error [of s "er_signers req" ?f "{}", OF s(1)])
    then obtain x where "try_fold ?f {} (er_signers req) = Inl x" ..
    then show ?thesis by (cases "policy_validate e") (auto simp: msp_evaluate_def)
  qed
  from 1 2 3 show ?thesis by simp
qed

section \<open>An example\<close>

text \<open>A signature scheme in which every 64-byte signature verifies, and a one-key directory.\<close>

definition sample_ed :: ed25519 where
  "sample_ed = \<lparr>ed_key_valid = (\<lambda>_. True), ed_verify = (\<lambda>_ _ _. True)\<rparr>"

definition sample_dir :: directory where
  "sample_dir = register (replicate 32 1) NETWORK_GOVERNANCE_PRINCIPAL msp_new"

definition sample_carrier :: transaction_endorsement where
  "sample_carrier = \<lparr>te_target = \<lparr>st_channel = ''c'', st_contract = ''k'', st_keys = [''x''],
       st_collection = None\<rparr>,
     te_signers = [\<lparr>claimed_principal = NETWORK_GOVERNANCE_PRINCIPAL,
       ei_public_key = replicate 32 1, ei_signature = replicate 64 0, ei_algorithm = Ed25519\<rparr>]\<rparr>"

definition sample_tx :: transaction where
  "sample_tx = \<lparr>tx_id = ''t'', tx_timestamp = 0,
     tx_kind = InventoryUpdate \<lparr>iu_product_id = ''p'', iu_owner_id = ''o'', iu_quantity_delta = 1,
       iu_reason = ''r''\<rparr>,
     tx_endorsements = [sample_carrier]\<rparr>"

lemma sample_tx_accepted:
  "evaluate_transaction_endorsements sample_tx_env (msp_evaluate sample_ed sample_dir) pol_default
     sample_tx [sample_write ''x''] 3 = Inr ()"
  by (simp add: evaluate_transaction_endorsements_def check_scope_def covers_def sample_tx_def
      sample_carrier_def sample_write_def update_of_def is_record_def operation_default_def
      check_carrier_def tx_payload_def policies_for_def pol_default_def default_policies_def
      applicable_def option_list_def signed_by_def msp_evaluate_def msp_signer_def sample_dir_def
      register_def height_outcome_def sample_ed_def NETWORK_GOVERNANCE_PRINCIPAL_def Let_def)

theorem msp_transaction_authorized_witness:
  "covers sample_carrier (sample_write ''x'')
   \<and> (\<exists>pl. meets default_policies (te_target sample_carrier)
        (signed_at sample_ed sample_dir 3 pl (te_signers sample_carrier)))"
proof -
  have d: "policies_for pol_default c k = default_policies" for c k
    by (simp add: policies_for_def pol_default_def)
  have s: "tx_endorsements sample_tx = [sample_carrier]" "\<not> is_record sample_tx"
    by (simp_all add: sample_tx_def is_record_def)
  show ?thesis
    using msp_transaction_authorized [OF sample_tx_accepted] s unfolding d by auto
qed

theorem revoke_go_forward_witness:
  "\<not> is_ok (msp_evaluate sample_ed (snd (revoke (replicate 32 1) 2 sample_dir)) (SignedBy ''a'')
     \<lparr>er_target = te_target sample_carrier, er_payload = [], er_signers = te_signers sample_carrier\<rparr> 3)"
proof -
  have "sample_dir (replicate 32 1) = Some \<lparr>rp_principal = NETWORK_GOVERNANCE_PRINCIPAL,
      rp_valid_from = 0, rp_revoked_at = None\<rparr>"
    by (simp add: sample_dir_def register_def)
  then show ?thesis
    using revoke_go_forward [of sample_dir "replicate 32 1" _ 2 3 "\<lparr>er_target = te_target sample_carrier, er_payload = [],
          er_signers = te_signers sample_carrier\<rparr>" sample_ed "SignedBy ''a''"]
    by (simp add: sample_carrier_def)
qed

end
