(* ===== verification/Ledger.thy ===== *)
theory Ledger
  imports Endorsement
begin

text \<open>
  \<^verbatim>\<open>glasschain-core/src/ledger.rs\<close>: the chain, the bounded pending pool, the incremental admission
  indexes, mining, the commit gate, chain validation and the longest-chain rule.

  A method that takes \<^verbatim>\<open>&mut self\<close> returns its result with the ledger it leaves.  Mining is
  partial, so the operations that mine return an option.
\<close>

section \<open>State\<close>

definition DEFAULT_DIFFICULTY :: nat where
  "DEFAULT_DIFFICULTY = 2"

definition MAX_PENDING_TRANSACTIONS :: nat where
  "MAX_PENDING_TRANSACTIONS = 8000"

definition MAX_BLOCK_TRANSACTIONS :: nat where
  "MAX_BLOCK_TRANSACTIONS = 4000"

record ledger =
  lg_chain :: "block list"
  lg_pending :: "transaction list"
  lg_difficulty :: nat
  lg_history_len :: nat
  lg_history :: "capability_history option"
  lg_ids_len :: nat
  lg_ids :: "string set option"

text \<open>\<^verbatim>\<open>chain.last()\<close>.\<close>

definition last_opt :: "'a list \<Rightarrow> 'a option" where
  "last_opt xs = (if xs = [] then None else Some (last xs))"

definition genesis_block :: "'z env_scheme \<Rightarrow> block" where
  "genesis_block E =
     (let g = \<lparr>b_index = 0, b_timestamp = 0, b_transactions = [], b_write_set = [],
          b_previous_hash = ''0'', b_nonce = 0, b_hash = [], b_certificate = None\<rparr>
      in g\<lparr>b_hash := calculate_hash E g\<rparr>)"

definition ledger_new ::
  "'z env_scheme \<Rightarrow> clock \<Rightarrow> nat \<Rightarrow> nat \<Rightarrow> (ledger \<times> nat) option" where
  "ledger_new E clock difficulty k =
     map_option (\<lambda>(genesis, k'). (\<lparr>lg_chain = [genesis], lg_pending = [],
        lg_difficulty = difficulty, lg_history_len = 0, lg_history = None, lg_ids_len = 0,
        lg_ids = None\<rparr>, k'))
     (mine E clock difficulty (genesis_block E) k)"


section \<open>Admission indexes\<close>

text \<open>The \<^verbatim>\<open>while\<close> loop of \<^verbatim>\<open>fold_capability\<close>, over the blocks not yet folded.\<close>

fun fold_tail ::
  "'z canon_env_scheme \<Rightarrow> block list \<Rightarrow> capability_history \<Rightarrow> nat \<Rightarrow>
     (core_error + unit) \<times> capability_history \<times> nat" where
  "fold_tail E [] h n = (Inr (), h, n)"
| "fold_tail E (b # bs) h n =
     (case cap_validate_block E b h of
        (Inl e, h') \<Rightarrow> (Inl e, h', n)
      | (Inr _, h') \<Rightarrow> fold_tail E bs h' (n + 1))"

definition fold_capability :: "'z canon_env_scheme \<Rightarrow> ledger \<Rightarrow> (core_error + unit) \<times> ledger" where
  "fold_capability E l =
     (if lg_history_len l = length (lg_chain l) then (Inr (), l)
      else
        let h = (case lg_history l of None \<Rightarrow> cap_default | Some h \<Rightarrow> h);
            (res, h', n) = fold_tail E (drop (lg_history_len l) (lg_chain l)) h (lg_history_len l)
        in (res, l\<lparr>lg_history := Some h', lg_history_len := n\<rparr>))"

definition block_ids :: "block list \<Rightarrow> string set" where
  "block_ids bs = tx_id ` set (concat (map b_transactions bs))"

definition fold_committed_ids :: "ledger \<Rightarrow> ledger" where
  "fold_committed_ids l =
     (case lg_ids l of
        None \<Rightarrow> l\<lparr>lg_ids_len := length (lg_chain l), lg_ids := Some (block_ids (lg_chain l))\<rparr>
      | Some ids \<Rightarrow> l\<lparr>lg_ids := Some (ids \<union> block_ids (drop (lg_ids_len l) (lg_chain l))),
          lg_ids_len := max (lg_ids_len l) (length (lg_chain l))\<rparr>)"

definition reset_indexes :: "ledger \<Rightarrow> ledger" where
  "reset_indexes l = l\<lparr>lg_history_len := 0, lg_history := None, lg_ids_len := 0, lg_ids := None\<rparr>"


section \<open>Admission\<close>

text \<open>The \<^verbatim>\<open>match\<close> on the payload in \<^verbatim>\<open>add_transaction\<close>, after the fold.\<close>

definition admit_kind ::
  "'z canon_env_scheme \<Rightarrow> capability_history option \<Rightarrow> u64 \<Rightarrow> transaction_kind \<Rightarrow> core_error + unit" where
  "admit_kind E history next_height kind =
     (case kind of
        CanonicalRecord r \<Rightarrow>
          (case history of
             None \<Rightarrow> Inl EmptyLedger
           | Some h \<Rightarrow> validate_record_under E (effective_set E h next_height) r)
      | CapabilityActivation a \<Rightarrow>
          (case history of
             None \<Rightarrow> Inl EmptyLedger
           | Some h \<Rightarrow> fst (cap_apply E a next_height h))
      | PolicyUpdate u \<Rightarrow>
          if pu_channel u = [] then Inl (endorsement_err UpdateChannelEmpty)
          else policies_validate (pu_policies u)
      | _ \<Rightarrow> Inr ())"

definition enqueue :: "transaction \<Rightarrow> ledger \<Rightarrow> (core_error + unit) \<times> ledger" where
  "enqueue tx l =
     (let l = fold_committed_ids l;
          already_committed = (case lg_ids l of None \<Rightarrow> False | Some ids \<Rightarrow> tx_id tx \<in> ids);
          already_pending = list_ex (\<lambda>t. tx_id t = tx_id tx) (lg_pending l)
      in if \<not> already_committed \<and> \<not> already_pending
         then if length (lg_pending l) \<ge> MAX_PENDING_TRANSACTIONS
              then (Inl (InvalidTransaction PoolFull), l)
              else (Inr (), l\<lparr>lg_pending := lg_pending l @ [tx]\<rparr>)
         else (Inr (), l))"

definition add_transaction ::
  "'z canon_env_scheme \<Rightarrow> transaction \<Rightarrow> ledger \<Rightarrow> (core_error + unit) \<times> ledger" where
  "add_transaction E tx l =
     (if tx_id tx = [] then (Inl (InvalidTransaction TxIdEmpty), l)
      else
        let next_height = (case last_opt (lg_chain l) of None \<Rightarrow> 1 | Some b \<Rightarrow> b_index b + 1)
        in case fold_capability E l of
             (Inl e, l) \<Rightarrow> (Inl e, l)
           | (Inr _, l) \<Rightarrow>
               (case admit_kind E (lg_history l) next_height (tx_kind tx) of
                  Inl e \<Rightarrow> (Inl e, l)
                | Inr _ \<Rightarrow> enqueue tx l))"


section \<open>Mining\<close>

definition mine_pending_transactions ::
  "'z env_scheme \<Rightarrow> clock \<Rightarrow> ledger \<Rightarrow> nat \<Rightarrow> ((core_error + block) \<times> ledger \<times> nat) option" where
  "mine_pending_transactions E clock l k =
     (case last_opt (lg_chain l) of
        None \<Rightarrow> Some (Inl EmptyLedger, l, k)
      | Some previous \<Rightarrow>
          let n = min (length (lg_pending l)) MAX_BLOCK_TRANSACTIONS;
              block = block_new E (clock k) (b_index previous + 1) (take n (lg_pending l))
                (b_hash previous)
          in map_option (\<lambda>(b, k'). (Inr b, fold_committed_ids
               (l\<lparr>lg_pending := drop n (lg_pending l), lg_chain := lg_chain l @ [b]\<rparr>), k'))
             (mine E clock (lg_difficulty l) block (k + 1)))"

definition prepare_mining ::
  "ledger \<Rightarrow> (core_error + u64 \<times> string \<times> transaction list \<times> nat) \<times> ledger" where
  "prepare_mining l =
     (case last_opt (lg_chain l) of
        None \<Rightarrow> (Inl EmptyLedger, l)
      | Some prev \<Rightarrow>
          let n = min (length (lg_pending l)) MAX_BLOCK_TRANSACTIONS
          in (Inr (b_index prev + 1, b_hash prev, take n (lg_pending l), lg_difficulty l),
              l\<lparr>lg_pending := drop n (lg_pending l)\<rparr>))"

definition restore_transaction :: "transaction \<Rightarrow> ledger \<Rightarrow> ledger" where
  "restore_transaction tx l =
     (if (case lg_ids l of None \<Rightarrow> False | Some ids \<Rightarrow> tx_id tx \<in> ids) then l
      else if list_ex (\<lambda>queued. tx_id queued = tx_id tx) (lg_pending l) then l
      else l\<lparr>lg_pending := lg_pending l @ [tx]\<rparr>)"

text \<open>
  The end of \<^verbatim>\<open>commit_mined_block\<close>: the block is pushed and the indexes advanced.
\<close>

definition append_block :: "block \<Rightarrow> ledger \<Rightarrow> ledger" where
  "append_block b l =
     (let l = l\<lparr>lg_chain := lg_chain l @ [b]\<rparr>;
          l = l\<lparr>lg_history_len := length (lg_chain l)\<rparr>
      in case lg_ids l of
           None \<Rightarrow> l
         | Some ids \<Rightarrow> l\<lparr>lg_ids_len := length (lg_chain l), lg_ids := Some (ids \<union> block_ids [b])\<rparr>)"

definition commit_mined_block ::
  "'z canon_env_scheme \<Rightarrow> block \<Rightarrow> string \<Rightarrow> ledger \<Rightarrow> (core_error + bool) \<times> ledger" where
  "commit_mined_block E b expected_prev_hash l =
     (case last_opt (lg_chain l) of
        None \<Rightarrow> (Inl EmptyLedger, l)
      | Some tip \<Rightarrow>
          if b_hash tip \<noteq> expected_prev_hash
          then (Inr False, fold restore_transaction (b_transactions b) l)
          else case fold_capability E l of
            (Inl e, l) \<Rightarrow> (Inl e, l)
          | (Inr _, l) \<Rightarrow>
              (case lg_history l of
                 None \<Rightarrow> (Inl EmptyLedger, l)
               | Some h \<Rightarrow>
                   (case cap_validate_block E b h of
                      (Inl e, h') \<Rightarrow> (Inl e, l\<lparr>lg_history := Some h'\<rparr>)
                    | (Inr _, h') \<Rightarrow>
                        let l = l\<lparr>lg_history := Some h'\<rparr> in
                        (case pol_build_from_blocks (lg_chain l) of
                           Inl e \<Rightarrow> (Inl e, l)
                         | Inr policies \<Rightarrow>
                             (case fst (pol_validate_block b policies) of
                                Inl e \<Rightarrow> (Inl e, l)
                              | Inr _ \<Rightarrow> (Inr True, append_block b l))))))"

text \<open>
  \<^verbatim>\<open>Node::append_peer_block\<close> of \<^verbatim>\<open>glasschain-network/src/node.rs\<close>: a peer's block, admitted before,
  is re-checked against the tip, its transactions leave the pool, and it is pushed.
\<close>

definition append_peer_block :: "'z env_scheme \<Rightarrow> block \<Rightarrow> ledger \<Rightarrow> bool \<times> ledger" where
  "append_peer_block E b l =
     (if \<not> (case last_opt (lg_chain l) of
          None \<Rightarrow> b_index b = 0 \<and> b_previous_hash b = ''0''
        | Some tip \<Rightarrow> is_ok (chains_to E b tip)) then (False, l)
      else (True, l\<lparr>lg_pending := filter (\<lambda>t. tx_id t \<notin> tx_id ` set (b_transactions b)) (lg_pending l),
          lg_chain := lg_chain l @ [b]\<rparr>))"

definition latest_block :: "ledger \<Rightarrow> block option" where
  "latest_block l = last_opt (lg_chain l)"


section \<open>Validation\<close>

definition block_consensus_admissible :: "block \<Rightarrow> nat \<Rightarrow> bool" where
  "block_consensus_admissible b difficulty =
     (has_valid_pow b difficulty
      \<or> (case b_certificate b of
           None \<Rightarrow> False
         | Some c \<Rightarrow> \<not> is_degenerate c \<and> is_ok (qc_validate c b)))"

text \<open>The loop over consecutive blocks shared by \<^verbatim>\<open>validate_chain\<close> and the longest-chain rule.\<close>

fun check_links :: "'z env_scheme \<Rightarrow> nat \<Rightarrow> block list \<Rightarrow> core_error + unit" where
  "check_links E d (p # b # bs) =
     res_bind (chains_to E b p) (\<lambda>_.
       if \<not> block_consensus_admissible b d then Inl (chain_err NoConsensusProof)
       else check_links E d (b # bs))"
| "check_links E d bs = Inr ()"

definition validate_chain :: "'z env_scheme \<Rightarrow> ledger \<Rightarrow> core_error + unit" where
  "validate_chain E l =
     res_bind (check_links E (lg_difficulty l) (lg_chain l)) (\<lambda>_.
     res_bind (map_err (\<lambda>e. InvalidBlock (CapabilityHistoryInvalid e))
         (cap_build_from_blocks E (lg_chain l))) (\<lambda>_.
       case lg_chain l of
         [] \<Rightarrow> Inr ()
       | g # _ \<Rightarrow>
           if \<not> is_valid E g then Inl (chain_err GenesisHashInvalid)
           else if \<not> has_valid_pow g (lg_difficulty l) then Inl (chain_err GenesisPowMissed)
           else Inr ()))"

text \<open>
  The loop of \<^verbatim>\<open>try_replace_chain\<close>: link, consensus and content checks block by block.
\<close>

fun check_candidate ::
  "'z env_scheme \<Rightarrow> nat \<Rightarrow> capability_history \<Rightarrow> block list \<Rightarrow> bool" where
  "check_candidate E d h (p # b # bs) =
     (if \<not> is_ok (chains_to E b p) then False
      else if \<not> block_consensus_admissible b d then False
      else case cap_validate_block E b h of
        (Inl _, _) \<Rightarrow> False
      | (Inr _, h') \<Rightarrow> check_candidate E d h' (b # bs))"
| "check_candidate E d h bs = True"

definition try_replace_chain :: "'z env_scheme \<Rightarrow> block list \<Rightarrow> ledger \<Rightarrow> bool \<times> ledger" where
  "try_replace_chain E candidate l =
     (if length candidate \<le> length (lg_chain l) then (False, l)
      else if (case (lg_chain l, candidate) of
          (g # _, c # _) \<Rightarrow> b_hash g \<noteq> b_hash c
        | _ \<Rightarrow> False) then (False, l)
      else if \<not> check_candidate E (lg_difficulty l) cap_default candidate then (False, l)
      else if (case candidate of
          [] \<Rightarrow> False
        | g # _ \<Rightarrow> \<not> is_valid E g \<or> \<not> has_valid_pow g (lg_difficulty l)) then (False, l)
      else (True, reset_indexes (l\<lparr>lg_chain := candidate\<rparr>)))"

definition committed_supply_offers :: "ledger \<Rightarrow> supply_offer list" where
  "committed_supply_offers l =
     List.map_filter (\<lambda>tx. case tx_kind tx of SupplyOffer offer \<Rightarrow> Some offer | _ \<Rightarrow> None)
       (concat (map b_transactions (lg_chain l)))"


section \<open>The indexes agree with a rebuild\<close>

lemma fold_tail_replay:
  "cap_replay E h bs = Inr h' \<Longrightarrow> fold_tail E bs h n = (Inr (), h', n + length bs)"
  by (induction bs arbitrary: h n) (auto split: prod.splits sum.splits)

lemma block_ids_append [simp]: "block_ids (xs @ ys) = block_ids xs \<union> block_ids ys"
  by (auto simp: block_ids_def)

lemma block_ids_take_drop: "block_ids (take n bs) \<union> block_ids (drop n bs) = block_ids bs"
  using block_ids_append [of "take n bs" "drop n bs"] by simp

text \<open>
  The capability index has folded a prefix of the chain and the identifier index holds the
  identifiers of a prefix.
\<close>

definition history_ok :: "'z canon_env_scheme \<Rightarrow> ledger \<Rightarrow> bool" where
  "history_ok E l \<longleftrightarrow>
     lg_history_len l \<le> length (lg_chain l)
     \<and> (case lg_history l of
          None \<Rightarrow> lg_history_len l = 0
        | Some h \<Rightarrow> cap_build_from_blocks E (take (lg_history_len l) (lg_chain l)) = Inr h)"

definition ids_ok :: "ledger \<Rightarrow> bool" where
  "ids_ok l \<longleftrightarrow>
     (case lg_ids l of
        None \<Rightarrow> True
      | Some ids \<Rightarrow> lg_ids_len l \<le> length (lg_chain l)
          \<and> ids = block_ids (take (lg_ids_len l) (lg_chain l)))"

text \<open>The weaker property that survives blocks appended by peers: no invented identifier.\<close>

definition ids_sound :: "ledger \<Rightarrow> bool" where
  "ids_sound l \<longleftrightarrow>
     (case lg_ids l of
        None \<Rightarrow> True
      | Some ids \<Rightarrow> lg_ids_len l \<le> length (lg_chain l) \<and> ids \<subseteq> block_ids (lg_chain l))"

definition indexes_ok :: "'z canon_env_scheme \<Rightarrow> ledger \<Rightarrow> bool" where
  "indexes_ok E l \<longleftrightarrow> history_ok E l \<and> ids_ok l"

lemmas index_defs = indexes_ok_def history_ok_def ids_ok_def

lemma ids_ok_sound: "ids_ok l \<Longrightarrow> ids_sound l"
  using block_ids_take_drop [of "lg_ids_len l" "lg_chain l"]
  by (auto simp: ids_ok_def ids_sound_def split: option.splits)

definition content_ok :: "'z canon_env_scheme \<Rightarrow> ledger \<Rightarrow> bool" where
  "content_ok E l \<longleftrightarrow> lg_chain l \<noteq> [] \<and> is_ok (cap_build_from_blocks E (lg_chain l))"

lemma fold_capability_rebuild:
  assumes "history_ok E l" "lg_chain l \<noteq> []" "cap_build_from_blocks E (lg_chain l) = Inr h"
  shows "fold_capability E l =
    (Inr (), l\<lparr>lg_history := Some h, lg_history_len := length (lg_chain l)\<rparr>)"
proof (cases "lg_history_len l = length (lg_chain l)")
  case True
  with assms have "lg_history l = Some h"
    by (auto simp: index_defs split: option.splits)
  with True show ?thesis by (simp add: fold_capability_def)
next
  case False
  define h0 where "h0 = (case lg_history l of None \<Rightarrow> cap_default | Some h \<Rightarrow> h)"
  have h0: "cap_replay E cap_default (take (lg_history_len l) (lg_chain l)) = Inr h0"
    using assms(1) by (auto simp: index_defs h0_def cap_build_from_blocks_def split: option.splits)
  have "cap_replay E cap_default (take (lg_history_len l) (lg_chain l) @
      drop (lg_history_len l) (lg_chain l)) = Inr h"
    using assms(3) by (simp add: cap_build_from_blocks_def)
  then have "cap_replay E h0 (drop (lg_history_len l) (lg_chain l)) = Inr h"
    unfolding cap_replay_append h0 by simp
  note fold = fold_tail_replay [OF this, of "lg_history_len l"]
  have "lg_history_len l + length (drop (lg_history_len l) (lg_chain l)) = length (lg_chain l)"
    using assms(1) by (auto simp: index_defs)
  with fold False show ?thesis by (simp add: fold_capability_def h0_def Let_def)
qed

lemma fold_committed_ids_rebuild:
  assumes "indexes_ok E l"
  shows "fold_committed_ids l =
    l\<lparr>lg_ids_len := length (lg_chain l), lg_ids := Some (block_ids (lg_chain l))\<rparr>"
  using assms block_ids_take_drop [of "lg_ids_len l" "lg_chain l"]
  by (auto simp: fold_committed_ids_def index_defs max_def split: option.splits)

lemma indexes_ok_folded:
  assumes "indexes_ok E l" "cap_build_from_blocks E (lg_chain l) = Inr h"
  shows "indexes_ok E (l\<lparr>lg_history := Some h, lg_history_len := length (lg_chain l)\<rparr>)"
  using assms by (auto simp: index_defs split: option.splits)

lemma indexes_ok_ids:
  assumes "indexes_ok E l"
  shows "indexes_ok E (l\<lparr>lg_ids_len := length (lg_chain l), lg_ids := Some (block_ids (lg_chain l))\<rparr>)"
  using assms by (auto simp: index_defs split: option.splits)

lemma indexes_ok_pending [simp]: "indexes_ok E (l\<lparr>lg_pending := p\<rparr>) = indexes_ok E l"
  by (simp add: index_defs split: option.splits)

lemma content_ok_pending [simp]: "content_ok E (l\<lparr>lg_pending := p\<rparr>) = content_ok E l"
  by (simp add: content_ok_def)


section \<open>Admission\<close>

lemma list_ex_tx_id [simp]: "list_ex (\<lambda>t. tx_id t = i) p \<longleftrightarrow> i \<in> tx_id ` set p"
  by (auto simp: list_ex_iff)

lemma enqueue_cases:
  assumes "indexes_ok E l"
  shows "enqueue tx l =
    (let l' = l\<lparr>lg_ids_len := length (lg_chain l), lg_ids := Some (block_ids (lg_chain l))\<rparr> in
     if tx_id tx \<in> block_ids (lg_chain l) \<or> tx_id tx \<in> tx_id ` set (lg_pending l) then (Inr (), l')
     else if length (lg_pending l) \<ge> MAX_PENDING_TRANSACTIONS
     then (Inl (InvalidTransaction PoolFull), l')
     else (Inr (), l'\<lparr>lg_pending := lg_pending l @ [tx]\<rparr>))"
  unfolding enqueue_def fold_committed_ids_rebuild [OF assms] by (simp add: Let_def)

text \<open>What admission does on a ledger whose chain has valid content.\<close>

lemma add_transaction_cases:
  assumes "history_ok E l" "lg_chain l \<noteq> []" "cap_build_from_blocks E (lg_chain l) = Inr h"
    and "tx_id tx \<noteq> []"
  shows "add_transaction E tx l =
    (let l1 = l\<lparr>lg_history := Some h, lg_history_len := length (lg_chain l)\<rparr> in
     case admit_kind E (Some h) (b_index (last (lg_chain l)) + 1) (tx_kind tx) of
       Inl e \<Rightarrow> (Inl e, l1)
     | Inr _ \<Rightarrow> enqueue tx l1)"
  using assms by (simp add: add_transaction_def fold_capability_rebuild [OF assms(1-3)]
      last_opt_def Let_def)

lemma add_transaction_keeps:
  assumes "indexes_ok E l" "content_ok E l" "add_transaction E tx l = (res, l')"
  shows "indexes_ok E l' \<and> content_ok E l' \<and> lg_chain l' = lg_chain l"
proof (cases "tx_id tx = []")
  case False
  have hist: "history_ok E l" using assms(1) by (simp add: indexes_ok_def)
  obtain h where h: "cap_build_from_blocks E (lg_chain l) = Inr h" and ne: "lg_chain l \<noteq> []"
    using assms(2) by (auto simp: content_ok_def is_ok_iff)
  let ?l1 = "l\<lparr>lg_history := Some h, lg_history_len := length (lg_chain l)\<rparr>"
  have ok1: "indexes_ok E ?l1" by (rule indexes_ok_folded [OF assms(1) h])
  note e = enqueue_cases [OF ok1, of tx] and i = indexes_ok_ids [OF ok1]
  show ?thesis
    using assms(3) h ne ok1 i
    unfolding add_transaction_cases [OF hist ne h False] Let_def e
    by (auto simp: content_ok_def split: sum.splits if_splits)
qed (use assms in \<open>auto simp: add_transaction_def\<close>)


text \<open>
  Admission is idempotent and bounded: on a ledger whose chain has valid content, a
  transaction is queued at most once, only if its identifier is neither committed nor queued,
  and only below the pool bound; a success means the identifier is committed or queued; an
  error leaves the pool as it was; the chain is never touched.
\<close>

theorem add_transaction_pool:
  assumes "indexes_ok E l" "content_ok E l" "add_transaction E tx l = (res, l')"
  shows "lg_chain l' = lg_chain l
    \<and> (case res of
         Inl _ \<Rightarrow> lg_pending l' = lg_pending l
       | Inr _ \<Rightarrow> tx_id tx \<noteq> [] \<and> tx_id tx \<in> block_ids (lg_chain l) \<union> tx_id ` set (lg_pending l')
           \<and> lg_pending l' =
               (if tx_id tx \<in> block_ids (lg_chain l) \<union> tx_id ` set (lg_pending l)
                then lg_pending l else lg_pending l @ [tx]))
    \<and> length (lg_pending l') \<le> max (length (lg_pending l)) MAX_PENDING_TRANSACTIONS
    \<and> (distinct (map tx_id (lg_pending l)) \<longrightarrow> distinct (map tx_id (lg_pending l')))"
proof (cases "tx_id tx = []")
  case True
  with assms(3) show ?thesis by (auto simp: add_transaction_def)
next
  case False
  have hist: "history_ok E l" using assms(1) by (simp add: indexes_ok_def)
  obtain h where h: "cap_build_from_blocks E (lg_chain l) = Inr h" and ne: "lg_chain l \<noteq> []"
    using assms(2) by (auto simp: content_ok_def is_ok_iff)
  note ok1 = indexes_ok_folded [OF assms(1) h]
  show ?thesis
    using assms(3) False
    unfolding add_transaction_cases [OF hist ne h False] Let_def enqueue_cases [OF ok1]
    by (auto split: sum.splits if_splits)
qed

text \<open>The pool operations of the mining path.\<close>

lemma fold_restore:
  "lg_chain (fold restore_transaction txs l) = lg_chain l
   \<and> lg_ids (fold restore_transaction txs l) = lg_ids l
   \<and> lg_ids_len (fold restore_transaction txs l) = lg_ids_len l
   \<and> lg_history (fold restore_transaction txs l) = lg_history l
   \<and> lg_history_len (fold restore_transaction txs l) = lg_history_len l
   \<and> (\<exists>new. lg_pending (fold restore_transaction txs l) = lg_pending l @ new)
   \<and> tx_id ` set txs \<subseteq> tx_id ` set (lg_pending (fold restore_transaction txs l))
       \<union> (case lg_ids l of None \<Rightarrow> {} | Some ids \<Rightarrow> ids)"
proof (induction txs arbitrary: l)
  case (Cons tx txs)
  let ?l = "restore_transaction tx l"
  have keep: "lg_chain ?l = lg_chain l" "lg_ids ?l = lg_ids l" "lg_ids_len ?l = lg_ids_len l"
      "lg_history ?l = lg_history l" "lg_history_len ?l = lg_history_len l"
      "\<exists>new. lg_pending ?l = lg_pending l @ new"
    by (auto simp: restore_transaction_def)
  have own: "tx_id tx \<in> tx_id ` set (lg_pending ?l) \<union> (case lg_ids l of None \<Rightarrow> {} | Some ids \<Rightarrow> ids)"
    by (auto simp: restore_transaction_def split: option.splits)
  from Cons.IH [of ?l] keep own show ?case by (auto simp del: fold_Cons) (auto simp: image_Un)
qed simp


section \<open>The commit gate\<close>

lemma cap_build_snoc:
  "cap_build_from_blocks E bs = Inr h \<Longrightarrow> cap_validate_block E b h = (Inr u, h') \<Longrightarrow>
     cap_build_from_blocks E (bs @ [b]) = Inr h'"
  by (simp add: cap_build_from_blocks_def cap_replay_append)

lemma pol_build_snoc:
  "pol_build_from_blocks bs = Inr h \<Longrightarrow> fst (pol_validate_block b h) = Inr u \<Longrightarrow>
     is_ok (pol_build_from_blocks (bs @ [b]))"
  by (auto simp: pol_build_from_blocks_def pol_replay_append split: prod.splits)

lemma commit_stale:
  "last_opt (lg_chain l) = Some tip \<Longrightarrow> b_hash tip \<noteq> p \<Longrightarrow>
     commit_mined_block E b p l = (Inr False, fold restore_transaction (b_transactions b) l)"
  by (simp add: commit_mined_block_def)

lemma append_block_sel:
  "lg_chain (append_block b l) = lg_chain l @ [b]"
  "lg_history (append_block b l) = lg_history l"
  "lg_history_len (append_block b l) = Suc (length (lg_chain l))"
  "lg_pending (append_block b l) = lg_pending l"
  "lg_difficulty (append_block b l) = lg_difficulty l"
  by (simp_all add: append_block_def Let_def split: option.splits)

lemma history_ok_append_block:
  "cap_build_from_blocks E (lg_chain l @ [b]) = Inr h' \<Longrightarrow> lg_history l = Some h' \<Longrightarrow>
     history_ok E (append_block b l)"
  by (simp add: history_ok_def append_block_sel)

lemma ids_sound_append_block: "ids_sound l \<Longrightarrow> ids_sound (append_block b l)"
  by (auto simp: ids_sound_def append_block_def Let_def split: option.splits)

text \<open>
  The identifier index stays exact only if it was current: \<^verbatim>\<open>commit_mined_block\<close> adds the
  identifiers of the new block and marks the whole chain as indexed.
\<close>

lemma ids_ok_append_block:
  assumes "ids_ok l" "lg_ids l = None \<or> lg_ids_len l = length (lg_chain l)"
  shows "ids_ok (append_block b l)"
  using assms by (auto simp: ids_ok_def append_block_def Let_def split: option.splits)

lemma commit_mined_block_Inr:
  assumes "history_ok E l" "content_ok E l" "commit_mined_block E b p l = (Inr r, l')"
  shows "\<not> r \<and> l' = fold restore_transaction (b_transactions b) l
    \<or> r \<and> (\<exists>h'. cap_build_from_blocks E (lg_chain l @ [b]) = Inr h'
        \<and> is_ok (pol_build_from_blocks (lg_chain l @ [b]))
        \<and> b_hash (last (lg_chain l)) = p
        \<and> l' = append_block b (l\<lparr>lg_history_len := length (lg_chain l), lg_history := Some h'\<rparr>))"
proof -
  obtain h where h: "cap_build_from_blocks E (lg_chain l) = Inr h" and ne: "lg_chain l \<noteq> []"
    using assms(2) by (auto simp: content_ok_def is_ok_iff)
  have tip: "last_opt (lg_chain l) = Some (last (lg_chain l))" using ne by (simp add: last_opt_def)
  show ?thesis
  proof (cases "b_hash (last (lg_chain l)) = p")
    case False
    with assms(3) commit_stale [OF tip False, of E b] show ?thesis by simp
  next
    case True
    from assms(3) obtain h' policies where
      "cap_validate_block E b h = (Inr (), h')" "pol_build_from_blocks (lg_chain l) = Inr policies"
      "fst (pol_validate_block b policies) = Inr ()" "r"
      "l' = append_block b (l\<lparr>lg_history_len := length (lg_chain l), lg_history := Some h'\<rparr>)"
      unfolding commit_mined_block_def tip fold_capability_rebuild [OF assms(1) ne h]
      using True by (auto simp: Let_def split: prod.splits sum.splits)
    with True cap_build_snoc [OF h] pol_build_snoc show ?thesis by blast
  qed
qed


section \<open>Reachable ledgers\<close>

text \<open>
  The operations that change a ledger.  Peer blocks, whose content the node validates against its
  chain before, are appended only when \<open>peers\<close> holds; a block mined directly is one whose
  capability content replays; a commit that ends in an error is one of a block without capability
  activations, since the validation of others may leave its trace in the cached history.
\<close>

definition activation_free :: "block \<Rightarrow> bool" where
  "activation_free b = (\<not> list_ex (\<lambda>tx. case tx_kind tx of CapabilityActivation _ \<Rightarrow> True | _ \<Rightarrow> False) (b_transactions b))"

inductive ledger_step :: "'z env_scheme \<Rightarrow> bool \<Rightarrow> ledger \<Rightarrow> ledger \<Rightarrow> bool"
  for E :: "'z env_scheme" and peers :: bool where
  admit: "ledger_step E peers l (snd (add_transaction E tx l))"
| prepare: "ledger_step E peers l (snd (prepare_mining l))"
| restore: "ledger_step E peers l (restore_transaction tx l)"
| commit: "commit_mined_block E b p l = (Inr r, l') \<Longrightarrow> ledger_step E peers l l'"
| refuse: "commit_mined_block E b p l = (Inl e, l') \<Longrightarrow> activation_free b \<Longrightarrow> ledger_step E peers l l'"
| mine: "mine_pending_transactions E clock l k = Some (r, l', k') \<Longrightarrow> is_ok (cap_build_from_blocks E (lg_chain l')) \<Longrightarrow>
    ledger_step E peers l l'"
| replace: "ledger_step E peers l (snd (try_replace_chain E c l))"
| peer: "peers \<Longrightarrow> is_ok (cap_build_from_blocks E (lg_chain l @ [b])) \<Longrightarrow>
    ledger_step E peers l (snd (append_peer_block E b l))"

inductive_cases ledger_stepE: "ledger_step E peers l l'"

text \<open>The genesis block is intact and carries no transactions.\<close>

definition genesis_ok :: "'z env_scheme \<Rightarrow> ledger \<Rightarrow> bool" where
  "genesis_ok E l \<longleftrightarrow> lg_chain l \<noteq> [] \<and> is_valid E (hd (lg_chain l))
     \<and> b_transactions (hd (lg_chain l)) = []"

definition ledger_inv :: "'z env_scheme \<Rightarrow> ledger \<Rightarrow> bool" where
  "ledger_inv E l \<longleftrightarrow> genesis_ok E l \<and> content_ok E l \<and> history_ok E l \<and> ids_sound l"

lemma cap_validate_block_empty: "b_transactions b = [] \<Longrightarrow> cap_validate_block E b h = (Inr (), h)"
  by (simp add: cap_validate_block_def)

lemma check_candidate_replay:
  "check_candidate E d h (p # bs) \<Longrightarrow> is_ok (cap_replay E h bs)"
proof (induction bs arbitrary: h p)
  case (Cons b bs)
  then show ?case by (auto split: prod.splits sum.splits if_splits)
qed simp

lemma is_valid_hash_eq:
  assumes "ser_header_faithful E" "is_valid E a" "is_valid E b" "b_hash a = b_hash b"
  shows "header_of a = header_of b \<or> sha_collision E"
proof -
  have "sha256 E (str_bytes (ser_header E (header_of a))) =
      sha256 E (str_bytes (ser_header E (header_of b)))"
    using assms(2-4) by (simp add: is_valid_def calculate_hash_def)
  then have "str_bytes (ser_header E (header_of a)) = str_bytes (ser_header E (header_of b))
      \<or> sha_collision E"
    by (rule sha256_eqD)
  with assms(1) show ?thesis unfolding ser_header_faithful_def str_bytes_inj by metis
qed

lemma header_of_transactions: "header_of a = header_of b \<Longrightarrow> b_transactions a = b_transactions b"
  by (simp add: header_of_def)

lemma try_replace_chain_True:
  assumes "try_replace_chain E c l = (True, l')"
  shows "length (lg_chain l) < length c" "l' = reset_indexes (l\<lparr>lg_chain := c\<rparr>)"
    and "check_candidate E (lg_difficulty l) cap_default c"
    and "is_valid E (hd c)" "has_valid_pow (hd c) (lg_difficulty l)"
    and "lg_chain l \<noteq> [] \<Longrightarrow> b_hash (hd (lg_chain l)) = b_hash (hd c)"
  using assms by (auto simp: try_replace_chain_def split: if_splits list.splits)

lemma try_replace_chain_False:
  "try_replace_chain E c l = (False, l') \<Longrightarrow> l' = l"
  by (auto simp: try_replace_chain_def split: if_splits)

lemma try_replace_chain_inv:
  assumes "ser_header_faithful E" "\<not> sha_collision E" "genesis_ok E l"
    and "try_replace_chain E c l = (True, l')"
  shows "genesis_ok E l' \<and> content_ok E l' \<and> history_ok E l' \<and> ids_ok l'"
proof -
  note t = try_replace_chain_True [OF assms(4)]
  obtain g bs where c: "c = g # bs" using t(1) by (cases c) auto
  have "b_hash (hd (lg_chain l)) = b_hash g" using t(6) assms(3) c by (simp add: genesis_ok_def)
  then have "header_of (hd (lg_chain l)) = header_of g"
    using is_valid_hash_eq [OF assms(1), of "hd (lg_chain l)" g] assms(2,3) t(4) c
    by (simp add: genesis_ok_def)
  then have txs: "b_transactions g = []"
    using header_of_transactions [of "hd (lg_chain l)" g] assms(3) by (simp add: genesis_ok_def)
  have "is_ok (cap_build_from_blocks E c)"
    using check_candidate_replay [of E "lg_difficulty l" cap_default g bs] t(3) c
    by (simp add: cap_build_from_blocks_def cap_validate_block_empty [OF txs])
  with c txs t(2,4) show ?thesis
    by (simp add: genesis_ok_def content_ok_def index_defs reset_indexes_def)
qed

lemma inv_cong:
  assumes "lg_chain l' = lg_chain l" "lg_history l' = lg_history l"
    "lg_history_len l' = lg_history_len l" "lg_ids l' = lg_ids l" "lg_ids_len l' = lg_ids_len l"
  shows "genesis_ok E l' = genesis_ok E l \<and> content_ok E l' = content_ok E l
    \<and> history_ok E l' = history_ok E l \<and> ids_ok l' = ids_ok l \<and> ids_sound l' = ids_sound l"
  using assms
  by (simp add: genesis_ok_def content_ok_def history_ok_def ids_ok_def ids_sound_def
      cong: option.case_cong)

text \<open>The operations that only touch the pool.\<close>

lemma prepare_mining_sel:
  "lg_chain (snd (prepare_mining l)) = lg_chain l" "lg_history (snd (prepare_mining l)) = lg_history l"
  "lg_history_len (snd (prepare_mining l)) = lg_history_len l"
  "lg_ids (snd (prepare_mining l)) = lg_ids l" "lg_ids_len (snd (prepare_mining l)) = lg_ids_len l"
  by (simp_all add: prepare_mining_def Let_def split: option.splits)

lemma restore_sel:
  "lg_chain (restore_transaction tx l) = lg_chain l"
  "lg_history (restore_transaction tx l) = lg_history l"
  "lg_history_len (restore_transaction tx l) = lg_history_len l"
  "lg_ids (restore_transaction tx l) = lg_ids l"
  "lg_ids_len (restore_transaction tx l) = lg_ids_len l"
  by (simp_all add: restore_transaction_def)

lemma admit_inv:
  assumes "history_ok E l" "content_ok E l" "ids_sound l" "add_transaction E tx l = (res, l')"
  shows "lg_chain l' = lg_chain l \<and> history_ok E l' \<and> ids_sound l'"
proof (cases "tx_id tx = []")
  case True
  with assms show ?thesis by (auto simp: add_transaction_def)
next
  case False
  obtain h where h: "cap_build_from_blocks E (lg_chain l) = Inr h" and ne: "lg_chain l \<noteq> []"
    using assms(2) by (auto simp: content_ok_def is_ok_iff)
  let ?l1 = "l\<lparr>lg_history := Some h, lg_history_len := length (lg_chain l)\<rparr>"
  have h1: "history_ok E ?l1" using h by (simp add: history_ok_def)
  have i1: "ids_sound ?l1" using assms(3) by (simp add: ids_sound_def split: option.splits)
  have keep: "lg_chain (snd (enqueue tx m)) = lg_chain m \<and> lg_history (snd (enqueue tx m)) = lg_history m
      \<and> lg_history_len (snd (enqueue tx m)) = lg_history_len m" for m
    by (simp add: enqueue_def Let_def fold_committed_ids_def split: option.splits)
  have sound: "ids_sound (snd (enqueue tx m))" if "ids_sound m" for m
    using that block_ids_take_drop [of "lg_ids_len m" "lg_chain m"]
    by (auto simp: enqueue_def Let_def fold_committed_ids_def ids_sound_def split: option.splits if_splits)
  show ?thesis
    using assms(4) h1 i1 keep [of ?l1] sound [OF i1]
    unfolding add_transaction_cases [OF assms(1) ne h False] Let_def
    by (auto simp: history_ok_def split: sum.splits)
qed

lemma commit_inv:
  assumes "genesis_ok E l" "content_ok E l" "history_ok E l" "ids_sound l"
    and "commit_mined_block E b p l = (Inr r, l')"
  shows "genesis_ok E l' \<and> content_ok E l' \<and> history_ok E l' \<and> ids_sound l'"
proof -
  from commit_mined_block_Inr [OF assms(3,2,5)] consider
      "l' = fold restore_transaction (b_transactions b) l"
    | h' where "cap_build_from_blocks E (lg_chain l @ [b]) = Inr h'"
        "l' = append_block b (l\<lparr>lg_history_len := length (lg_chain l), lg_history := Some h'\<rparr>)"
    by blast
  then show ?thesis
  proof cases
    case 1
    with inv_cong [of l' l E] fold_restore [of "b_transactions b" l] assms(1-4) show ?thesis by simp
  next
    case 2
    have "ids_sound (l\<lparr>lg_history_len := length (lg_chain l), lg_history := Some h'\<rparr>)"
      using assms(4) by (simp add: ids_sound_def split: option.splits)
    then have "ids_sound l'" using 2(2) ids_sound_append_block by simp
    moreover have "history_ok E l'" unfolding 2(2) by (rule history_ok_append_block) (simp_all add: 2(1))
    ultimately show ?thesis using 2 assms(1)
      by (simp add: genesis_ok_def content_ok_def append_block_sel)
  qed
qed

lemma peer_inv:
  assumes "genesis_ok E l" "content_ok E l" "history_ok E l" "ids_sound l"
    and "is_ok (cap_build_from_blocks E (lg_chain l @ [b]))" "append_peer_block E b l = (r, l')"
  shows "genesis_ok E l' \<and> content_ok E l' \<and> history_ok E l' \<and> ids_sound l'"
proof (cases "l' = l")
  case False
  then obtain p where l': "l' = l\<lparr>lg_pending := p, lg_chain := lg_chain l @ [b]\<rparr>"
    using assms(6) unfolding append_peer_block_def by (metis prod.inject)
  have "history_ok E l'"
    using assms(3) by (cases "lg_history l") (simp_all add: history_ok_def l')
  moreover have "ids_sound l'"
    using assms(4) by (cases "lg_ids l") (auto simp: ids_sound_def l')
  ultimately show ?thesis using assms(1,5) by (simp add: genesis_ok_def content_ok_def l')
qed (use assms in simp)

lemma cap_validate_free: "activation_free b \<Longrightarrow> snd (cap_validate_block E b h) = h"
proof -
  have "snd (cap_validate_txs E S index txs h) = h"
    if "\<not> list_ex (\<lambda>tx. case tx_kind tx of CapabilityActivation _ \<Rightarrow> True | _ \<Rightarrow> False) txs" for S index txs
    using that by (induction txs) (auto split: transaction_kind.splits sum.splits)
  then show "activation_free b \<Longrightarrow> snd (cap_validate_block E b h) = h" by (simp add: activation_free_def cap_validate_block_def)
qed

lemma refuse_cases:
  assumes "content_ok E l" "history_ok E l" "commit_mined_block E b p l = (Inl e, l')" "activation_free b"
  obtains h where "cap_build_from_blocks E (lg_chain l) = Inr h"
    "l' = l\<lparr>lg_history := Some h, lg_history_len := length (lg_chain l)\<rparr>"
proof -
  obtain h where h: "cap_build_from_blocks E (lg_chain l) = Inr h" and ne: "lg_chain l \<noteq> []"
    using assms(1) by (auto simp: content_ok_def is_ok_iff)
  obtain r where v: "cap_validate_block E b h = (r, h)"
    using cap_validate_free [OF assms(4), of E h] by (cases "cap_validate_block E b h") simp
  have "l' = l\<lparr>lg_history := Some h, lg_history_len := length (lg_chain l)\<rparr>"
    using assms(3) ne
    by (auto simp: commit_mined_block_def last_opt_def fold_capability_rebuild [OF assms(2) ne h] v Let_def
        split: if_splits sum.splits)
  with h show thesis by (rule that)
qed

lemma mine_pending_cases:
  assumes "mine_pending_transactions E clock l k = Some (r, l', k')"
  obtains "l' = l" | n b where "l' = fold_committed_ids (l\<lparr>lg_pending := drop n (lg_pending l), lg_chain := lg_chain l @ [b]\<rparr>)"
  using assms by (auto simp: mine_pending_transactions_def Let_def split: option.splits)

lemma ids_sound_folded: "ids_sound l \<Longrightarrow> ids_sound (fold_committed_ids l)"
  using block_ids_take_drop [of "lg_ids_len l" "lg_chain l"]
  by (auto simp: fold_committed_ids_def Let_def ids_sound_def split: option.splits)

lemma mine_pending_inv:
  assumes "genesis_ok E l" "content_ok E l" "history_ok E l" "ids_sound l"
    and "mine_pending_transactions E clock l k = Some (r, l', k')" "is_ok (cap_build_from_blocks E (lg_chain l'))"
  shows "genesis_ok E l' \<and> content_ok E l' \<and> history_ok E l' \<and> ids_sound l'"
  using assms(5)
proof (cases rule: mine_pending_cases)
  case (2 n b)
  let ?l = "l\<lparr>lg_pending := drop n (lg_pending l), lg_chain := lg_chain l @ [b]\<rparr>"
  have f: "lg_chain (fold_committed_ids ?l) = lg_chain l @ [b]" "lg_history (fold_committed_ids ?l) = lg_history l"
    "lg_history_len (fold_committed_ids ?l) = lg_history_len l"
    by (simp_all add: fold_committed_ids_def Let_def split: option.split)
  have "ids_sound ?l" using assms(4) by (cases "lg_ids l") (auto simp: ids_sound_def)
  then have "ids_sound l'" unfolding 2 by (rule ids_sound_folded)
  moreover have "history_ok E l'"
    using assms(3) by (cases "lg_history l") (simp_all add: history_ok_def 2 f)
  ultimately show ?thesis using assms(1,6) by (simp add: genesis_ok_def content_ok_def 2 f)
qed (use assms in simp)

lemma ledger_step_inv:
  assumes "ser_header_faithful E" "\<not> sha_collision E" "ledger_inv E l" "ledger_step E peers l l'"
  shows "ledger_inv E l'"
proof -
  have inv: "genesis_ok E l" "content_ok E l" "history_ok E l" "ids_sound l"
    using assms(3) by (simp_all add: ledger_inv_def)
  from assms(4) show ?thesis
  proof cases
    case (admit tx)
    from admit_inv [OF inv(3,2,4), of tx "fst (add_transaction E tx l)" l'] admit inv
    show ?thesis by (simp add: ledger_inv_def genesis_ok_def content_ok_def)
  next
    case prepare
    with inv inv_cong [of "snd (prepare_mining l)" l E, OF prepare_mining_sel] show ?thesis by (simp add: ledger_inv_def)
  next
    case (restore tx)
    with inv inv_cong [of "restore_transaction tx l" l E, OF restore_sel] show ?thesis by (simp add: ledger_inv_def)
  next
    case (commit b p r)
    with commit_inv [OF inv] show ?thesis by (simp add: ledger_inv_def)
  next
    case (refuse b p e)
    obtain h where h: "cap_build_from_blocks E (lg_chain l) = Inr h"
      "l' = l\<lparr>lg_history := Some h, lg_history_len := length (lg_chain l)\<rparr>" by (rule refuse_cases [OF inv(2,3) refuse])
    then have "ids_sound l'" using inv(4) by (simp add: ids_sound_def split: option.splits)
    with inv(1,2) h show ?thesis by (simp add: ledger_inv_def genesis_ok_def content_ok_def history_ok_def)
  next
    case (mine clock k r k')
    with mine_pending_inv [OF inv] show ?thesis by (simp add: ledger_inv_def)
  next
    case (replace c)
    then show ?thesis
      using assms(3) try_replace_chain_inv [OF assms(1,2) inv(1), of c l'] ids_ok_sound
        try_replace_chain_False [of E c l l']
      by (cases "fst (try_replace_chain E c l)") (auto simp: ledger_inv_def prod_eq_iff)
  next
    case (peer b)
    with peer_inv [OF inv, of b "fst (append_peer_block E b l)" l'] show ?thesis
      by (simp add: ledger_inv_def)
  qed
qed

lemma ledger_new_inv:
  assumes "ledger_new E clock d k = Some (l, k')"
  shows "ledger_inv E l" "ids_ok l"
proof -
  obtain g where g: "mine E clock d (genesis_block E) k = Some (g, k')"
    and l: "l = \<lparr>lg_chain = [g], lg_pending = [], lg_difficulty = d, lg_history_len = 0,
      lg_history = None, lg_ids_len = 0, lg_ids = None\<rparr>"
    using assms by (auto simp: ledger_new_def)
  have "is_valid E g" "same_content g (genesis_block E)"
    using mine_loop_Some [OF g [unfolded mine_def]] by (auto simp: is_valid_def same_content_def)
  then have "is_valid E g" "b_transactions g = []"
    by (simp_all add: same_content_def genesis_block_def Let_def)
  then show "ledger_inv E l" "ids_ok l"
    by (simp_all add: l ledger_inv_def genesis_ok_def content_ok_def index_defs ids_sound_def
        cap_build_from_blocks_def cap_validate_block_empty)
qed










section \<open>Chain validity\<close>

lemma check_links_snoc:
  "bs \<noteq> [] \<Longrightarrow> check_links E d (bs @ [b]) = Inr u \<longleftrightarrow>
     check_links E d bs = Inr () \<and> chains_to E b (last bs) = Inr ()
     \<and> block_consensus_admissible b d"
proof (induction E d bs rule: check_links.induct)
  case (1 E d p b' bs)
  then show ?case by (auto simp: res_bind_Inr_iff)
qed (auto simp: res_bind_Inr_iff)

lemma validate_chain_Inr_iff:
  assumes "lg_chain l \<noteq> []"
  shows "validate_chain E l = Inr u \<longleftrightarrow>
    check_links E (lg_difficulty l) (lg_chain l) = Inr ()
    \<and> is_ok (cap_build_from_blocks E (lg_chain l))
    \<and> is_valid E (hd (lg_chain l)) \<and> has_valid_pow (hd (lg_chain l)) (lg_difficulty l)"
  using assms
  by (cases "lg_chain l") (auto simp: validate_chain_def res_simps is_ok_iff)

text \<open>
  C1. The mining pipeline extends a valid chain to a valid chain: when a block is built from
  \<^const>\<open>prepare_mining\<close>'s snapshot with any write set, mined, and accepted by the commit gate,
  the whole chain validates again, the block is at its tip, and the pool has lost exactly the
  drained prefix of at most \<^const>\<open>MAX_BLOCK_TRANSACTIONS\<close>.
\<close>

theorem mining_pipeline_valid:
  assumes "validate_chain E l = Inr ()" "history_ok E l" "lg_chain l \<noteq> []"
    and "prepare_mining l = (Inr (index, prev, txs, d), l1)"
    and "mine E clock d (with_write_set E now index txs prev ws) k = Some (b, k')"
    and "commit_mined_block E b prev l1 = (Inr True, l2)"
  shows "validate_chain E l2 = Inr () \<and> lg_chain l2 = lg_chain l @ [b]
    \<and> lg_pending l = txs @ lg_pending l2 \<and> length txs \<le> MAX_BLOCK_TRANSACTIONS
    \<and> b_transactions b = txs \<and> b_write_set b = ws"
proof -
  have ne1: "validate_chain E l = Inr ()" by (rule assms(1))
  note v = ne1 [unfolded validate_chain_Inr_iff [OF assms(3)]]
  have prep: "index = b_index (last (lg_chain l)) + 1" "prev = b_hash (last (lg_chain l))"
    "d = lg_difficulty l" "txs = take (length txs) (lg_pending l)"
    "length txs \<le> MAX_BLOCK_TRANSACTIONS" "l1 = l\<lparr>lg_pending := drop (length txs) (lg_pending l)\<rparr>"
    using assms(4) by (auto simp: prepare_mining_def Let_def last_opt_def split: if_splits)
  let ?b0 = "with_write_set E now index txs prev ws"
  have b0: "b_index ?b0 = index" "b_transactions ?b0 = txs" "b_write_set ?b0 = ws"
    "b_previous_hash ?b0 = prev" by (simp_all add: with_write_set_def Let_def)
  have b: "is_valid E b" "has_valid_pow b d" "same_content b ?b0"
    using mine_loop_Some [OF assms(5) [unfolded mine_def]]
    by (auto simp: is_valid_def same_content_def starts_with_zeros has_valid_pow_def)
  have link: "chains_to E b (last (lg_chain l)) = Inr ()"
    using b b0 prep(1,2) by (simp add: chains_to_def same_content_def)
  have h1: "history_ok E l1" "content_ok E l1"
    using assms(2,3) v by (simp_all add: prep(6) history_ok_def content_ok_def split: option.splits)
  have l1: "lg_chain l1 = lg_chain l" "lg_pending l1 = drop (length txs) (lg_pending l)"
    "lg_difficulty l1 = lg_difficulty l" by (simp_all add: prep(6))
  obtain h' where "cap_build_from_blocks E (lg_chain l @ [b]) = Inr h'"
      "l2 = append_block b (l1\<lparr>lg_history_len := length (lg_chain l), lg_history := Some h'\<rparr>)"
    using commit_mined_block_Inr [OF h1 assms(6)] unfolding l1 by auto
  moreover from this have l2: "lg_chain l2 = lg_chain l @ [b]" "lg_difficulty l2 = lg_difficulty l"
    "lg_pending l2 = lg_pending l1" by (simp_all add: append_block_sel l1)
  moreover have "validate_chain E l2 = Inr ()"
    using v link b(2) assms(3) calculation(1)
    by (simp add: validate_chain_Inr_iff l2 check_links_snoc block_consensus_admissible_def prep(3))
  moreover have "lg_pending l = txs @ lg_pending l2"
    using prep(4) by (metis append_take_drop_id calculation(5) l1(2))
  ultimately show ?thesis using b(3) b0 prep(5) by (simp add: same_content_def)
qed


section \<open>Tamper evidence\<close>

text \<open>Every block is intact and names its predecessor's hash.\<close>

definition linked :: "'z env_scheme \<Rightarrow> block list \<Rightarrow> bool" where
  "linked E bs \<longleftrightarrow> (\<forall>b \<in> set bs. is_valid E b)
     \<and> (\<forall>i. Suc i < length bs \<longrightarrow> b_previous_hash (bs ! Suc i) = b_hash (bs ! i))"

lemma linked_snoc:
  assumes "linked E (bs @ [b])"
  shows "linked E bs" "is_valid E b" "bs \<noteq> [] \<Longrightarrow> b_previous_hash b = b_hash (last bs)"
proof -
  show "linked E bs"
    using assms unfolding linked_def
    by (metis (no_types, lifting) Suc_lessD Un_iff length_append less_add_same_cancel1 nth_append
        order_less_le_trans set_append trans_less_add1)
  show "is_valid E b" using assms by (simp add: linked_def)
  assume ne: "bs \<noteq> []"
  then have i: "Suc (length bs - 1) < length (bs @ [b])" "Suc (length bs - 1) = length bs"
    by (simp_all add: Suc_pred')
  then have "b_previous_hash ((bs @ [b]) ! length bs) = b_hash ((bs @ [b]) ! (length bs - 1))"
    using assms unfolding linked_def by metis
  with ne show "b_previous_hash b = b_hash (last bs)"
    by (simp add: nth_append last_conv_nth)
qed

lemma check_links_linked:
  "check_links E d (g # bs) = Inr u \<Longrightarrow> is_valid E g \<Longrightarrow> linked E (g # bs)"
proof (induction bs arbitrary: g)
  case (Cons b bs)
  from Cons.prems(1) have c: "chains_to E b g = Inr ()" "check_links E d (b # bs) = Inr u"
    by (auto simp: res_bind_Inr_iff split: if_splits)
  from c(1) have b: "is_valid E b" "b_previous_hash b = b_hash g"
    by (auto simp: chains_to_def split: if_splits)
  from Cons.IH [OF c(2) b(1)] b(2) Cons.prems(2) show ?case
    by (auto simp: linked_def nth_Cons split: nat.splits)
qed (simp add: linked_def)

lemma linked_same_tip:
  assumes "ser_header_faithful E" "\<not> sha_collision E"
    and "linked E as" "linked E bs" "length as = length bs" "as \<noteq> []" "b_hash (last as) = b_hash (last bs)"
  shows "map header_of as = map header_of bs"
  using assms(3-)
proof (induction as arbitrary: bs rule: rev_induct)
  case (snoc a as)
  then obtain b bs' where bs: "bs = bs' @ [b]" by (cases bs rule: rev_cases) auto
  have len: "length as = length bs'" using snoc.prems(3) bs by simp
  note la = linked_snoc [OF snoc.prems(1)] and lb = linked_snoc [OF snoc.prems(2) [unfolded bs]]
  have h: "header_of a = header_of b"
    using is_valid_hash_eq [OF assms(1) la(2) lb(2)] assms(2) snoc.prems(5) bs by simp
  show ?case
  proof (cases "as = []")
    case True
    with len h bs show ?thesis by simp
  next
    case False
    have "bs' \<noteq> []" using False len by auto
    then have "b_hash (last as) = b_hash (last bs')"
      using la(3) lb(3) False h by (simp add: header_of_def)
    with snoc.IH [OF la(1) lb(1) len False] h bs show ?thesis by simp
  qed
qed simp

text \<open>
  C2. The chain is tamper evident: two validated chains of the same length with the same tip
  hash agree block by block on index, timestamp, transactions, write set, previous hash and
  nonce, unless SHA-256 has a collision.
\<close>

theorem chain_tamper_evident:
  assumes "ser_header_faithful E"
    and "validate_chain E l = Inr ()" "validate_chain E m = Inr ()"
    and "lg_chain l \<noteq> []" "length (lg_chain l) = length (lg_chain m)"
    and "b_hash (last (lg_chain l)) = b_hash (last (lg_chain m))"
  shows "map header_of (lg_chain l) = map header_of (lg_chain m) \<or> sha_collision E"
proof -
  have ne: "lg_chain m \<noteq> []" using assms(4,5) by auto
  have "linked E (lg_chain x)" if "validate_chain E x = Inr ()" "lg_chain x \<noteq> []" for x
    using that check_links_linked [of E "lg_difficulty x" "hd (lg_chain x)" "tl (lg_chain x)"]
    by (simp add: validate_chain_Inr_iff)
  with assms ne linked_same_tip [OF assms(1), of "lg_chain l" "lg_chain m"] show ?thesis by blast
qed

lemma check_candidate_links:
  "check_candidate E d h bs \<Longrightarrow> check_links E d bs = Inr ()"
  by (induction E d h bs rule: check_candidate.induct)
    (auto simp: res_bind_Inr_iff is_ok_unit_iff split: if_splits prod.splits sum.splits)

text \<open>
  C6. The longest-chain rule adopts only a strictly longer chain that validates in full and
  starts at the same genesis hash, and otherwise leaves the ledger untouched.
\<close>

theorem try_replace_chain_sound:
  assumes "ser_header_faithful E" "genesis_ok E l" "try_replace_chain E c l = (r, l')"
  shows "if r then lg_chain l' = c \<and> length (lg_chain l) < length c
        \<and> b_hash (hd (lg_chain l)) = b_hash (hd c)
        \<and> (validate_chain E l' = Inr () \<or> sha_collision E)
      else l' = l"
proof (cases r)
  case False
  with assms(3) show ?thesis by (simp add: try_replace_chain_False)
next
  case True
  then have rep: "try_replace_chain E c l = (True, l')" using assms(3) by simp
  note t = try_replace_chain_True [OF rep]
  have c: "lg_chain l' = c" "lg_difficulty l' = lg_difficulty l" "c \<noteq> []"
    using t(1,2) by (auto simp: reset_indexes_def)
  have "validate_chain E l' = Inr ()" if "\<not> sha_collision E"
    using try_replace_chain_inv [OF assms(1) that assms(2) rep] c t(3,4,5)
    by (auto simp: validate_chain_Inr_iff content_ok_def dest: check_candidate_links)
  with True c t(1,6) assms(2) show ?thesis by (auto simp: genesis_ok_def)
qed

text \<open>
  A stale block loses no transaction: when the tip has moved, the commit changes neither
  the chain nor the indexes, keeps the pool as a prefix, and every drained transaction is back
  in the pool unless its identifier is indexed as committed.
\<close>

theorem stale_commit_restores:
  assumes "lg_chain l \<noteq> []" "b_hash (last (lg_chain l)) \<noteq> prev"
  shows "\<exists>l'. commit_mined_block E b prev l = (Inr False, l')
    \<and> lg_chain l' = lg_chain l \<and> (\<exists>new. lg_pending l' = lg_pending l @ new)
    \<and> (\<forall>tx \<in> set (b_transactions b). tx_id tx \<in> tx_id ` set (lg_pending l')
        \<or> (case lg_ids l of None \<Rightarrow> False | Some ids \<Rightarrow> tx_id tx \<in> ids))"
proof -
  have "last_opt (lg_chain l) = Some (last (lg_chain l))" using assms(1) by (simp add: last_opt_def)
  from commit_stale [OF this assms(2), of E b] fold_restore [of "b_transactions b" l]
  show ?thesis by (auto split: option.splits)
qed


section \<open>An example run\<close>

text \<open>A ledger at difficulty 0, where every hash meets the target, and two transactions.\<close>

definition demo_ledger :: "'z env_scheme \<Rightarrow> ledger" where
  "demo_ledger E = \<lparr>lg_chain = [genesis_block E], lg_pending = [], lg_difficulty = 0,
     lg_history_len = 0, lg_history = None, lg_ids_len = 0, lg_ids = None\<rparr>"

definition demo_tx :: "string \<Rightarrow> transaction" where
  "demo_tx i = with_id i 0 (InventoryUpdate \<lparr>iu_product_id = ''p'', iu_owner_id = ''o'',
     iu_quantity_delta = 1, iu_reason = ''r''\<rparr>)"

lemma demo_tx_sel [simp]: "tx_id (demo_tx i) = i"
  "tx_kind (demo_tx i) = InventoryUpdate \<lparr>iu_product_id = ''p'', iu_owner_id = ''o'',
     iu_quantity_delta = 1, iu_reason = ''r''\<rparr>"
  by (simp_all add: demo_tx_def with_id_def)

lemma genesis_block_sel [simp]:
  "b_index (genesis_block E) = 0" "b_transactions (genesis_block E) = []"
  "is_valid E (genesis_block E)"
  by (simp_all add: genesis_block_def is_valid_def Let_def calculate_hash_def header_of_def)

lemma mine_zero: "mine E clock 0 b k = Some (b\<lparr>b_hash := calculate_hash E b\<rparr>, k)"
  unfolding mine_def by (subst mine_loop.simps) simp

lemma demo_new: "ledger_new E clock 0 k = Some (demo_ledger E, k)"
  by (simp add: ledger_new_def mine_zero demo_ledger_def genesis_block_def Let_def
      calculate_hash_def header_of_def)

lemma block_new_sel [simp]:
  "b_index (block_new E now i txs p) = i" "b_transactions (block_new E now i txs p) = txs"
  "b_previous_hash (block_new E now i txs p) = p" "b_write_set (block_new E now i txs p) = []"
  "b_certificate (block_new E now i txs p) = None" "is_valid E (block_new E now i txs p)"
  by (simp_all add: block_new_def with_write_set_def is_valid_def Let_def calculate_hash_def
      header_of_def)

definition demo_peer :: "'z env_scheme \<Rightarrow> block" where
  "demo_peer E = block_new E 5 1 [demo_tx ''b''] (b_hash (genesis_block E))"

definition demo_mined :: "'z env_scheme \<Rightarrow> block" where
  "demo_mined E = block_new E 6 2 [] (b_hash (demo_peer E))"

lemma cap_replay_demo:
  "cap_validate_block E (demo_peer E) h = (Inr (), h)"
  "cap_validate_block E (demo_mined E) h = (Inr (), h)"
  "cap_validate_block E (genesis_block E) h = (Inr (), h)"
  by (simp_all add: cap_validate_block_def demo_peer_def demo_mined_def)

lemma pol_replay_demo:
  "pol_validate_block (demo_peer E) h = (Inr (), h)"
  "pol_validate_block (demo_mined E) h = (Inr (), h)"
  "pol_validate_block (genesis_block E) h = (Inr (), h)"
  by (simp_all add: pol_validate_block_def pending_updates_def changed_keys_def update_of_def
      demo_peer_def demo_mined_def map_filter_simps list_ex_iff)

lemmas demo_simps = demo_ledger_def add_transaction_def fold_capability_def last_opt_def Let_def
  cap_replay_demo pol_replay_demo admit_kind_def enqueue_def fold_committed_ids_def block_ids_def
  MAX_PENDING_TRANSACTIONS_def

lemma demo_admit:
  "snd (add_transaction E (demo_tx ''a'') (demo_ledger E)) =
     (demo_ledger E)\<lparr>lg_pending := [demo_tx ''a''], lg_history_len := 1, lg_history := Some cap_default,
        lg_ids_len := 1, lg_ids := Some {}\<rparr>"
  by (simp add: demo_simps)

lemma demo_append:
  "append_peer_block E (demo_peer E) ((demo_ledger E)\<lparr>lg_pending := [demo_tx ''a''],
      lg_history_len := 1, lg_history := Some cap_default, lg_ids_len := 1, lg_ids := Some {}\<rparr>) =
   (True, \<lparr>lg_chain = [genesis_block E, demo_peer E], lg_pending = [demo_tx ''a''], lg_difficulty = 0,
      lg_history_len = 1, lg_history = Some cap_default, lg_ids_len = 1, lg_ids = Some {}\<rparr>)"
  by (simp add: append_peer_block_def demo_simps chains_to_def demo_peer_def)

lemma demo_commit:
  "commit_mined_block E (demo_mined E) (b_hash (demo_peer E))
     \<lparr>lg_chain = [genesis_block E, demo_peer E], lg_pending = [demo_tx ''a''], lg_difficulty = 0,
      lg_history_len = 1, lg_history = Some cap_default, lg_ids_len = 1, lg_ids = Some {}\<rparr> =
   (Inr True, \<lparr>lg_chain = [genesis_block E, demo_peer E, demo_mined E], lg_pending = [demo_tx ''a''],
      lg_difficulty = 0, lg_history_len = 3, lg_history = Some cap_default, lg_ids_len = 3,
      lg_ids = Some {}\<rparr>)"
  by (simp add: commit_mined_block_def append_block_def pol_build_from_blocks_def demo_simps)
    (simp add: demo_mined_def)

text \<open>
  C32. A transaction committed in a peer's block can be admitted again after the next local commit.
  Take any ledger with the invariant of the reachable ones whose identifier index has been built.
  \<^verbatim>\<open>append_peer_block\<close> pushes the peer's block, whose capability content replays, without indexing
  its identifiers, and
  \<^verbatim>\<open>commit_mined_block\<close> on top of it marks the whole chain as indexed after adding only its own
  block.  Every transaction of the peer's block that is in no other block, whose kind is admissible and
  for which the pool has room then passes the idempotency check and is queued for a second commit.
\<close>

theorem peer_transaction_readmitted:
  assumes "ledger_inv E l" "lg_ids l \<noteq> None"
    and "append_peer_block E pb l = (True, l1)" "is_ok (cap_build_from_blocks E (lg_chain l @ [pb]))"
    and "commit_mined_block E b (b_hash pb) l1 = (Inr True, l2)"
    and "tx \<in> set (b_transactions pb)" "tx_id tx \<noteq> []" "tx_id tx \<notin> block_ids (lg_chain l) \<union> block_ids [b]"
    and "admit_kind E (lg_history l2) (b_index b + 1) (tx_kind tx) = Inr ()"
    and "length (lg_pending l) < MAX_PENDING_TRANSACTIONS"
  shows "lg_chain l2 = lg_chain l @ [pb, b] \<and> tx_id tx \<in> block_ids (lg_chain l2)
    \<and> add_transaction E tx l2 = (Inr (), l2\<lparr>lg_pending := lg_pending l2 @ [tx]\<rparr>)"
proof -
  have inv: "genesis_ok E l" "content_ok E l" "history_ok E l" "ids_sound l"
    using assms(1) by (simp_all add: ledger_inv_def)
  obtain ids where ids: "lg_ids l = Some ids" "ids \<subseteq> block_ids (lg_chain l)"
    using assms(2) inv(4) by (auto simp: ids_sound_def)
  have l1: "l1 = l\<lparr>lg_pending := filter (\<lambda>t. tx_id t \<notin> tx_id ` set (b_transactions pb)) (lg_pending l),
      lg_chain := lg_chain l @ [pb]\<rparr>"
    using assms(3) by (auto simp: append_peer_block_def split: if_splits)
  have inv1: "content_ok E l1" "history_ok E l1" using peer_inv [OF inv assms(4,3)] by simp_all
  obtain h where l2: "l2 = append_block b (l1\<lparr>lg_history_len := length (lg_chain l1), lg_history := Some h\<rparr>)"
    using commit_mined_block_Inr [OF inv1(2,1) assms(5)] by blast
  then have sel: "lg_chain l2 = lg_chain l @ [pb, b]" "lg_history l2 = Some h" "lg_history_len l2 = length (lg_chain l2)"
    "lg_ids l2 = Some (ids \<union> block_ids [b])" "lg_ids_len l2 = length (lg_chain l2)" "lg_pending l2 = lg_pending l1"
    using ids(1) by (simp_all add: append_block_def Let_def l1)
  have fold: "fold_capability E l2 = (Inr (), l2)" "fold_committed_ids l2 = l2"
    using sel by (simp_all add: fold_capability_def fold_committed_ids_def Let_def block_ids_def)
  have "tx_id tx \<notin> ids \<union> block_ids [b]" using ids(2) assms(8) by auto
  moreover have "\<not> list_ex (\<lambda>t. tx_id t = tx_id tx) (lg_pending l2)"
    using imageI [OF assms(6), of tx_id] by (auto simp: sel(6) l1 list_ex_iff simp del: image_eqI)
  moreover have "length (lg_pending l2) < MAX_PENDING_TRANSACTIONS"
    by (rule order_le_less_trans [OF _ assms(10)]) (simp add: sel(6) l1)
  ultimately have "enqueue tx l2 = (Inr (), l2\<lparr>lg_pending := lg_pending l2 @ [tx]\<rparr>)"
    by (simp add: enqueue_def fold Let_def sel(4))
  then have "add_transaction E tx l2 = (Inr (), l2\<lparr>lg_pending := lg_pending l2 @ [tx]\<rparr>)"
    using assms(7,9) by (simp add: add_transaction_def fold last_opt_def sel(1) Let_def)
  with sel(1) assms(6) show ?thesis by (simp add: block_ids_def)
qed


section \<open>Witnesses\<close>

lemma validate_chain_pending [simp]:
  "validate_chain E (l\<lparr>lg_pending := p\<rparr>) = validate_chain E l"
  by (cases "lg_chain l") (simp_all add: validate_chain_def)

lemma demo_inv: "ledger_inv E (demo_ledger E)" "indexes_ok E (demo_ledger E)"
  "validate_chain E (demo_ledger E) = Inr ()"
proof -
  show "ledger_inv E (demo_ledger E)" "indexes_ok E (demo_ledger E)"
    using ledger_new_inv [OF demo_new [where E = E and clock = "\<lambda>_. 0" and k = 0]]
    by (simp_all add: ledger_inv_def indexes_ok_def)
  show "validate_chain E (demo_ledger E) = Inr ()"
    by (simp add: validate_chain_def demo_ledger_def cap_build_from_blocks_def cap_replay_demo
        has_valid_pow_def has_leading_zeros_def)
qed

theorem add_transaction_pool_witness:
  "lg_pending (snd (add_transaction sample_tx_env (demo_tx ''a'') (demo_ledger sample_tx_env))) =
     [demo_tx ''a'']
   \<and> fst (add_transaction sample_tx_env (demo_tx []) (demo_ledger sample_tx_env)) \<noteq> Inr ()"
proof -
  let ?l = "demo_ledger sample_tx_env"
  have ok: "indexes_ok sample_tx_env ?l" "content_ok sample_tx_env ?l"
    using demo_inv [of sample_tx_env] by (simp_all add: ledger_inv_def)
  have a: "add_transaction sample_tx_env (demo_tx ''a'') ?l =
      (Inr (), snd (add_transaction sample_tx_env (demo_tx ''a'') ?l))"
    by (simp add: demo_simps)
  have "lg_pending ?l = []" "block_ids (lg_chain ?l) = {}"
    by (simp_all add: demo_ledger_def block_ids_def)
  with add_transaction_pool [OF ok a] show ?thesis by (simp add: add_transaction_def)
qed



theorem peer_transaction_readmitted_witness:
  "\<exists>l2. lg_chain l2 = [genesis_block sample_tx_env, demo_peer sample_tx_env, demo_mined sample_tx_env]
     \<and> add_transaction sample_tx_env (demo_tx ''b'') l2 = (Inr (), l2\<lparr>lg_pending := [demo_tx ''a'', demo_tx ''b'']\<rparr>)"
proof -
  let ?E = sample_tx_env
  let ?l = "(demo_ledger ?E)\<lparr>lg_pending := [demo_tx ''a''], lg_history_len := 1, lg_history := Some cap_default,
    lg_ids_len := 1, lg_ids := Some {}\<rparr>"
  have "ledger_inv ?E ?l"
    using ledger_step_inv [OF sample_tx_env_faithful(1,4) demo_inv(1) ledger_step.admit [of ?E True _ "demo_tx ''a''"]]
    by (simp only: demo_admit)
  moreover have "is_ok (cap_build_from_blocks ?E (lg_chain ?l @ [demo_peer ?E]))"
    by (simp add: demo_ledger_def cap_build_from_blocks_def cap_replay_demo)
  moreover have "demo_tx ''b'' \<in> set (b_transactions (demo_peer ?E))" by (simp add: demo_peer_def)
  moreover have "tx_id (demo_tx ''b'') \<notin> block_ids (lg_chain ?l) \<union> block_ids [demo_mined ?E]"
    by (simp add: block_ids_def demo_ledger_def demo_mined_def)
  ultimately show ?thesis
    using peer_transaction_readmitted [OF _ _ demo_append _ demo_commit, of ?E "demo_tx ''b''"]
    by (intro exI [of _ "\<lparr>lg_chain = [genesis_block ?E, demo_peer ?E, demo_mined ?E], lg_pending = [demo_tx ''a''],
        lg_difficulty = 0, lg_history_len = 3, lg_history = Some cap_default, lg_ids_len = 3, lg_ids = Some {}\<rparr>"])
      (simp add: admit_kind_def MAX_PENDING_TRANSACTIONS_def demo_ledger_def)
qed


lemma demo_candidate:
  "try_replace_chain E [genesis_block E, demo_peer E] (demo_ledger E) =
     (True, (demo_ledger E)\<lparr>lg_chain := [genesis_block E, demo_peer E]\<rparr>)"
  by (simp add: try_replace_chain_def demo_ledger_def is_ok_def chains_to_def demo_peer_def
      block_consensus_admissible_def has_valid_pow_def has_leading_zeros_def reset_indexes_def
      cap_validate_block_def)

theorem try_replace_chain_sound_witness:
  "validate_chain sample_tx_env ((demo_ledger sample_tx_env)
     \<lparr>lg_chain := [genesis_block sample_tx_env, demo_peer sample_tx_env]\<rparr>) = Inr ()"
proof -
  have "genesis_ok sample_tx_env (demo_ledger sample_tx_env)"
    using demo_inv(1) [of sample_tx_env] by (simp add: ledger_inv_def)
  from try_replace_chain_sound [OF sample_tx_env_faithful(1) this demo_candidate]
  show ?thesis using sample_tx_env_faithful(4) by simp
qed

theorem chain_tamper_evident_witness:
  "map header_of (lg_chain (demo_ledger sample_tx_env)) =
     map header_of (lg_chain ((demo_ledger sample_tx_env)\<lparr>lg_pending := [demo_tx ''a'']\<rparr>))"
proof -
  let ?l = "demo_ledger sample_tx_env"
  have "validate_chain sample_tx_env (?l\<lparr>lg_pending := [demo_tx ''a'']\<rparr>) = Inr ()"
    using demo_inv(3) [of sample_tx_env] by simp
  from chain_tamper_evident [OF sample_tx_env_faithful(1) demo_inv(3) this]
  show ?thesis using sample_tx_env_faithful(4) by (simp add: demo_ledger_def)
qed

theorem stale_commit_restores_witness:
  "demo_tx ''b'' \<in> set (lg_pending (snd (commit_mined_block sample_tx_env (demo_peer sample_tx_env)
      (b_hash (genesis_block sample_tx_env) @ ''x'') (demo_ledger sample_tx_env))))"
proof -
  have "lg_chain (demo_ledger sample_tx_env) \<noteq> []"
    "b_hash (last (lg_chain (demo_ledger sample_tx_env))) \<noteq> b_hash (genesis_block sample_tx_env) @ ''x''"
    by (simp_all add: demo_ledger_def)
  from stale_commit_restores [OF this, of sample_tx_env "demo_peer sample_tx_env"]
  show ?thesis
    by (simp add: commit_mined_block_def demo_ledger_def last_opt_def demo_peer_def
        restore_transaction_def)
qed

theorem mining_pipeline_valid_witness:
  "validate_chain sample_tx_env ((demo_ledger sample_tx_env)
     \<lparr>lg_chain := [genesis_block sample_tx_env, demo_peer sample_tx_env], lg_history_len := 2,
      lg_history := Some cap_default\<rparr>) = Inr ()"
proof -
  let ?E = sample_tx_env
  let ?l = "(demo_ledger ?E)\<lparr>lg_pending := [demo_tx ''b'']\<rparr>"
  let ?l2 = "(demo_ledger ?E)\<lparr>lg_chain := [genesis_block ?E, demo_peer ?E], lg_history_len := 2,
      lg_history := Some cap_default\<rparr>"
  have 1: "validate_chain ?E ?l = Inr ()" by (simp add: demo_inv)
  have 1: "validate_chain ?E ?l = Inr ()" "history_ok ?E ?l" "lg_chain ?l \<noteq> []"
    using 1 by (simp_all add: history_ok_def demo_ledger_def)
  have 2: "prepare_mining ?l =
      (Inr (1, b_hash (genesis_block ?E), [demo_tx ''b''], 0), demo_ledger ?E)"
    by (simp add: prepare_mining_def demo_ledger_def last_opt_def MAX_BLOCK_TRANSACTIONS_def)
  have 3: "mine ?E (\<lambda>_. 9) 0 (with_write_set ?E 5 1 [demo_tx ''b''] (b_hash (genesis_block ?E)) []) 0 =
      Some (demo_peer ?E, 0)"
    by (simp add: mine_zero demo_peer_def block_new_def with_write_set_def calculate_hash_def
        header_of_def Let_def)
  have 4: "commit_mined_block ?E (demo_peer ?E) (b_hash (genesis_block ?E)) (demo_ledger ?E) = (Inr True, ?l2)"
    by (simp add: commit_mined_block_def append_block_def pol_build_from_blocks_def demo_simps)
  show ?thesis using mining_pipeline_valid [OF 1 2 3 4] by simp
qed

end
