(* ===== verification/Providers.thy ===== *)
theory Providers
  imports Ledger
begin

text \<open>
  \<^verbatim>\<open>glasschain-core/src/providers.rs\<close> and \<^verbatim>\<open>glasschain-storage/src/redb_backend.rs\<close>: the storage trait
  with its default commit, the in-memory store, the redb store, and the Proof-of-Work consensus
  provider.  The trait is the locale \<open>storage_contract\<close>; both stores interpret it.

  A \<^verbatim>\<open>HashMap\<close> whose iteration order is never observed and a redb table are ordered association
  lists.  The locks of the in-memory store serialize its operations, so each is one step.
\<close>

section \<open>The commit boundary\<close>

definition validate_tip_chain :: "block \<Rightarrow> block option \<Rightarrow> core_error + unit" where
  "validate_tip_chain b tip =
     (case tip of
        None \<Rightarrow> if b_index b \<noteq> 0 then Inl (chain_err NotGenesisOnEmptyStore) else Inr ()
      | Some t \<Rightarrow>
          if b_index b \<noteq> b_index t + 1 \<or> b_previous_hash b \<noteq> b_hash t
          then Inl (chain_err StaleTip) else Inr ())"

text \<open>\<^verbatim>\<open>HashMap::remove\<close>.\<close>

definition btree_remove :: "'k \<Rightarrow> ('k \<times> 'v) list \<Rightarrow> ('k \<times> 'v) list" where
  "btree_remove k es = filter (\<lambda>e. fst e \<noteq> k) es"

text \<open>\<^verbatim>\<open>keys().copied().max()\<close>.\<close>

definition max_key :: "('k::linorder \<times> 'v) list \<Rightarrow> 'k option" where
  "max_key es = (if es = [] then None else Some (Max (fst ` set es)))"


section \<open>The in-memory store\<close>

record mem_store =
  ms_blocks :: "(u64 \<times> block) list"
  ms_state :: "(string \<times> bytes) list"

definition mem_new :: mem_store where
  "mem_new = \<lparr>ms_blocks = [], ms_state = []\<rparr>"

definition mem_put_block :: "block \<Rightarrow> mem_store \<Rightarrow> (core_error + unit) \<times> mem_store" where
  "mem_put_block b s = (Inr (), s\<lparr>ms_blocks := btree_insert (b_index b) b (ms_blocks s)\<rparr>)"

definition mem_get_block :: "u64 \<Rightarrow> mem_store \<Rightarrow> core_error + block option" where
  "mem_get_block i s = Inr (map_of (ms_blocks s) i)"

definition mem_latest_block_index :: "mem_store \<Rightarrow> core_error + u64 option" where
  "mem_latest_block_index s = Inr (max_key (ms_blocks s))"

definition mem_put_state :: "string \<Rightarrow> bytes \<Rightarrow> mem_store \<Rightarrow> (core_error + unit) \<times> mem_store" where
  "mem_put_state k v s = (Inr (), s\<lparr>ms_state := btree_insert k v (ms_state s)\<rparr>)"

definition mem_get_state :: "string \<Rightarrow> mem_store \<Rightarrow> core_error + bytes option" where
  "mem_get_state k s = Inr (map_of (ms_state s) k)"

definition mem_delete_state :: "string \<Rightarrow> mem_store \<Rightarrow> (core_error + unit) \<times> mem_store" where
  "mem_delete_state k s = (Inr (), s\<lparr>ms_state := btree_remove k (ms_state s)\<rparr>)"

definition mem_list_state_keys :: "string \<Rightarrow> mem_store \<Rightarrow> core_error + string list" where
  "mem_list_state_keys prefix s =
     Inr (sort (filter (\<lambda>k. starts_with k prefix) (map fst (ms_state s))))"

text \<open>\<^verbatim>\<open>write.apply_to_cache(&mut state)\<close> on the store's table.\<close>

definition table_write :: "persistent_write \<Rightarrow> (string \<times> bytes) list \<Rightarrow> (string \<times> bytes) list" where
  "table_write w es =
     (case pw_op w of
        Set v \<Rightarrow> btree_insert (state_key w) v es
      | Delete \<Rightarrow> btree_remove (state_key w) es)"

definition mem_apply_block :: "block \<Rightarrow> mem_store \<Rightarrow> (core_error + unit) \<times> mem_store" where
  "mem_apply_block b s =
     (case (case max_key (ms_blocks s) of
          None \<Rightarrow> Inr None
        | Some i \<Rightarrow> (case map_of (ms_blocks s) i of
            None \<Rightarrow> Inl (Storage ''missing block'') | Some t \<Rightarrow> Inr (Some t))) of
        Inl e \<Rightarrow> (Inl e, s)
      | Inr tip \<Rightarrow>
          (case validate_tip_chain b tip of
             Inl e \<Rightarrow> (Inl e, s)
           | Inr _ \<Rightarrow> (Inr (), s\<lparr>ms_blocks := btree_insert (b_index b) b (ms_blocks s),
               ms_state := fold table_write (b_write_set b) (ms_state s)\<rparr>)))"


section \<open>The default commit of the trait\<close>

text \<open>
  \<^verbatim>\<open>StorageProvider::apply_block\<close>: the sequential fallback over any provider's operations, passed
  as arguments.
\<close>

fun default_writes ::
  "(string \<Rightarrow> bytes \<Rightarrow> 's \<Rightarrow> (core_error + unit) \<times> 's) \<Rightarrow> (string \<Rightarrow> 's \<Rightarrow> (core_error + unit) \<times> 's) \<Rightarrow>
     persistent_write list \<Rightarrow> 's \<Rightarrow> (core_error + unit) \<times> 's" where
  "default_writes put delete [] s = (Inr (), s)"
| "default_writes put delete (w # ws) s =
     (case (case pw_op w of Set v \<Rightarrow> put (state_key w) v s | Delete \<Rightarrow> delete (state_key w) s) of
        (Inl e, s') \<Rightarrow> (Inl e, s')
      | (Inr _, s') \<Rightarrow> default_writes put delete ws s')"

definition default_apply_block ::
  "('s \<Rightarrow> core_error + u64 option) \<Rightarrow> (u64 \<Rightarrow> 's \<Rightarrow> core_error + block option) \<Rightarrow>
   (block \<Rightarrow> 's \<Rightarrow> (core_error + unit) \<times> 's) \<Rightarrow>
   (string \<Rightarrow> bytes \<Rightarrow> 's \<Rightarrow> (core_error + unit) \<times> 's) \<Rightarrow> (string \<Rightarrow> 's \<Rightarrow> (core_error + unit) \<times> 's) \<Rightarrow>
   block \<Rightarrow> 's \<Rightarrow> (core_error + unit) \<times> 's" where
  "default_apply_block latest get put_block put delete b s =
     (case res_bind (latest s) (\<lambda>i. case i of
          None \<Rightarrow> Inr None
        | Some tip_index \<Rightarrow> res_bind (get tip_index s) (\<lambda>t. case t of
            None \<Rightarrow> Inl (Storage ''missing block'') | Some t \<Rightarrow> Inr (Some t))) of
        Inl e \<Rightarrow> (Inl e, s)
      | Inr tip \<Rightarrow>
          (case validate_tip_chain b tip of
             Inl e \<Rightarrow> (Inl e, s)
           | Inr _ \<Rightarrow>
               (case put_block b s of
                  (Inl e, s') \<Rightarrow> (Inl e, s')
                | (Inr _, s') \<Rightarrow> default_writes put delete (b_write_set b) s')))"


section \<open>The redb store\<close>

text \<open>
  redb is an external ACID store with one writer at a time: a write transaction that fails, or is
  dropped uncommitted, leaves the tables as they were.  \<open>redb_txn\<close> says whether an operation's
  transaction fails up to its first reads, or later up to its commit.  The block codec is
  \<^verbatim>\<open>serde_json\<close>'s.
\<close>

record block_codec =
  ser_block :: "block \<Rightarrow> bytes option"
  de_block :: "bytes \<Rightarrow> block option"

record redb_txn =
  txn_begin :: "string option"
  txn_commit :: "string option"

definition txn_ok :: redb_txn where
  "txn_ok = \<lparr>txn_begin = None, txn_commit = None\<rparr>"

record redb_store =
  rb_blocks :: "(u64 \<times> bytes) list"
  rb_state :: "(string \<times> bytes) list"

definition storage_err :: "string \<Rightarrow> core_error" where
  "storage_err m = Storage m"

definition redb_open :: redb_store where
  "redb_open = \<lparr>rb_blocks = [], rb_state = []\<rparr>"

text \<open>A step of a transaction that may fail.\<close>

definition txn_step :: "string option \<Rightarrow> 'a \<Rightarrow> core_error + 'a" where
  "txn_step fault x = (case fault of Some m \<Rightarrow> Inl (storage_err m) | None \<Rightarrow> Inr x)"

text \<open>A write transaction: its result and the tables it commits, or the tables as they were.\<close>

definition in_txn :: "core_error + redb_store \<Rightarrow> redb_store \<Rightarrow> (core_error + unit) \<times> redb_store" where
  "in_txn r s = (case r of Inl e \<Rightarrow> (Inl e, s) | Inr s' \<Rightarrow> (Inr (), s'))"

definition tip_in_txn :: "block_codec \<Rightarrow> redb_store \<Rightarrow> core_error + block option" where
  "tip_in_txn C s =
     (case last_opt (rb_blocks s) of
        Some (key, value) \<Rightarrow> res_bind (ok_or Serialization (de_block C value)) (\<lambda>b. Inr (Some b))
      | None \<Rightarrow> Inr None)"

definition redb_put_block ::
  "block_codec \<Rightarrow> redb_txn \<Rightarrow> block \<Rightarrow> redb_store \<Rightarrow> (core_error + unit) \<times> redb_store" where
  "redb_put_block C txn b s = in_txn
     (res_bind (ok_or Serialization (ser_block C b)) (\<lambda>value.
      res_bind (txn_step (txn_begin txn) s) (\<lambda>s.
        txn_step (txn_commit txn) (s\<lparr>rb_blocks := btree_insert (b_index b) value (rb_blocks s)\<rparr>)))) s"

definition redb_apply_block ::
  "block_codec \<Rightarrow> redb_txn \<Rightarrow> block \<Rightarrow> redb_store \<Rightarrow> (core_error + unit) \<times> redb_store" where
  "redb_apply_block C txn b s = in_txn
     (res_bind (ok_or Serialization (ser_block C b)) (\<lambda>value.
      res_bind (txn_step (txn_begin txn) s) (\<lambda>s.
      res_bind (tip_in_txn C s) (\<lambda>tip.
      res_bind (map_err (\<lambda>e. InvalidBlock (DoesNotChain e)) (validate_tip_chain b tip)) (\<lambda>_.
        txn_step (txn_commit txn)
          (s\<lparr>rb_state := fold table_write (b_write_set b) (rb_state s),
             rb_blocks := btree_insert (b_index b) value (rb_blocks s)\<rparr>)))))) s"

definition redb_get_block ::
  "block_codec \<Rightarrow> redb_txn \<Rightarrow> u64 \<Rightarrow> redb_store \<Rightarrow> core_error + block option" where
  "redb_get_block C txn i s =
     res_bind (txn_step (txn_begin txn) (map_of (rb_blocks s) i)) (\<lambda>v.
       case v of
         Some value \<Rightarrow> res_bind (ok_or Serialization (de_block C value)) (\<lambda>b. Inr (Some b))
       | None \<Rightarrow> Inr None)"

definition redb_latest_block_index :: "redb_txn \<Rightarrow> redb_store \<Rightarrow> core_error + u64 option" where
  "redb_latest_block_index txn s =
     txn_step (txn_begin txn) (map_option fst (last_opt (rb_blocks s)))"

definition redb_put_state ::
  "redb_txn \<Rightarrow> string \<Rightarrow> bytes \<Rightarrow> redb_store \<Rightarrow> (core_error + unit) \<times> redb_store" where
  "redb_put_state txn key value s = in_txn
     (res_bind (txn_step (txn_begin txn) s) (\<lambda>s.
       txn_step (txn_commit txn) (s\<lparr>rb_state := btree_insert key value (rb_state s)\<rparr>))) s"

definition redb_get_state :: "redb_txn \<Rightarrow> string \<Rightarrow> redb_store \<Rightarrow> core_error + bytes option" where
  "redb_get_state txn key s = txn_step (txn_begin txn) (map_of (rb_state s) key)"

definition redb_delete_state ::
  "redb_txn \<Rightarrow> string \<Rightarrow> redb_store \<Rightarrow> (core_error + unit) \<times> redb_store" where
  "redb_delete_state txn key s = in_txn
     (res_bind (txn_step (txn_begin txn) s) (\<lambda>s.
       txn_step (txn_commit txn) (s\<lparr>rb_state := btree_remove key (rb_state s)\<rparr>))) s"

text \<open>\<^verbatim>\<open>range(prefix..)\<close> with a break at the first key without the prefix.\<close>

fun scan_keys :: "string \<Rightarrow> string list \<Rightarrow> string list" where
  "scan_keys prefix [] = []"
| "scan_keys prefix (key # keys) =
     (if \<not> starts_with key prefix then [] else key # scan_keys prefix keys)"

definition redb_list_state_keys :: "redb_txn \<Rightarrow> string \<Rightarrow> redb_store \<Rightarrow> core_error + string list" where
  "redb_list_state_keys txn prefix s =
     txn_step (txn_begin txn)
       (scan_keys prefix (filter (\<lambda>k. prefix \<le> k) (map fst (rb_state s))))"


section \<open>Restart\<close>

text \<open>
  \<^verbatim>\<open>Node::restore_ledger\<close> of \<^verbatim>\<open>glasschain-network/src/node.rs\<close> over any provider: blocks
  \<^verbatim>\<open>0..=latest\<close> are read back and checked, and anything wrong falls back to a fresh ledger.
  \<open>certs_ok\<close> is the historical certificate check of a \<^verbatim>\<open>bft\<close> build, constantly true otherwise.
\<close>

definition read_chain ::
  "('s \<Rightarrow> core_error + u64 option) \<Rightarrow> (u64 \<Rightarrow> 's \<Rightarrow> core_error + block option) \<Rightarrow> 's \<Rightarrow>
     block list option" where
  "read_chain latest get s =
     (case latest s of
        Inr (Some latest_idx) \<Rightarrow>
          those (map (\<lambda>i. case get (of_nat i) s of Inr (Some b) \<Rightarrow> Some b | _ \<Rightarrow> None)
            [0..<Suc (unat latest_idx)])
      | _ \<Rightarrow> None)"

definition restore_ledger ::
  "'z env_scheme \<Rightarrow> (block list \<Rightarrow> bool) \<Rightarrow> ('s \<Rightarrow> core_error + u64 option) \<Rightarrow>
   (u64 \<Rightarrow> 's \<Rightarrow> core_error + block option) \<Rightarrow> clock \<Rightarrow> nat \<Rightarrow> 's \<Rightarrow> nat \<Rightarrow> (ledger \<times> nat) option" where
  "restore_ledger E certs_ok latest get clock difficulty s k =
     (case ledger_new E clock difficulty k of
        None \<Rightarrow> None
      | Some (l, k) \<Rightarrow>
          (case read_chain latest get s of
             Some (g # bs) \<Rightarrow>
               if is_valid E g \<and> b_previous_hash g = ''0''
                  \<and> is_ok (check_links E difficulty (g # bs)) \<and> certs_ok (g # bs)
               then Some (l\<lparr>lg_chain := g # bs\<rparr>, k) else Some (l, k)
           | _ \<Rightarrow> Some (l, k)))"


section \<open>The Proof-of-Work provider\<close>

definition pow_propose_block ::
  "'z env_scheme \<Rightarrow> clock \<Rightarrow> nat \<Rightarrow> u64 \<Rightarrow> transaction list \<Rightarrow> block \<Rightarrow> nat \<Rightarrow>
     (commit_notification \<times> nat) option" where
  "pow_propose_block E clock difficulty index txs previous k =
     (case mine E clock difficulty (block_new E (clock k) index txs (b_hash previous)) (k + 1) of
        None \<Rightarrow> None
      | Some (b, k) \<Rightarrow> Some (for_pow_block b, k))"

definition pow_validate_block :: "'z env_scheme \<Rightarrow> nat \<Rightarrow> block \<Rightarrow> block \<Rightarrow> core_error + unit" where
  "pow_validate_block E difficulty b previous =
     res_bind (chains_to E b previous) (\<lambda>_.
       if \<not> has_valid_pow b difficulty then Inl (chain_err PowMissed) else Inr ())"


section \<open>Tables\<close>

lemma map_of_btree_remove: "map_of (btree_remove k es) = (map_of es)(k := None)"
  by (induction es) (auto simp: btree_remove_def fun_eq_iff)

lemma btree_wf_remove [inv_intros]: "btree_wf es \<Longrightarrow> btree_wf (btree_remove k es)"
  unfolding btree_wf_def btree_remove_def by (induction es) auto

lemma map_of_table_write: "map_of (table_write w es) = apply_to_cache w (map_of es)"
  by (simp add: table_write_def apply_to_cache_def map_of_btree_insert map_of_btree_remove
      split: write_op.split)

lemma btree_wf_table_write [inv_intros]: "btree_wf es \<Longrightarrow> btree_wf (table_write w es)"
  by (auto simp: table_write_def intro: inv_intros split: write_op.split)

lemma table_writes:
  "map_of (fold table_write ws es) = apply_writes ws (map_of es)"
  "btree_wf es \<Longrightarrow> btree_wf (fold table_write ws es)"
  by (induction ws arbitrary: es)
    (auto simp: apply_writes_def map_of_table_write intro: btree_wf_table_write)

lemma max_key_last: "btree_wf es \<Longrightarrow> max_key es = map_option fst (last_opt es)"
proof (induction es rule: rev_induct)
  case (snoc e es)
  have "\<forall>x \<in> fst ` set es. x < fst e"
    using snoc.prems by (auto simp: btree_wf_def sorted_wrt_append)
  then have "Max (fst ` set (es @ [e])) = fst e"
    by (intro Max_eqI) auto
  then show ?case by (simp add: max_key_def last_opt_def)
qed (simp add: max_key_def last_opt_def)

lemma map_of_last:
  assumes "btree_wf es" "last_opt es = Some (k, v)"
  shows "map_of es k = Some v"
  using assms btree_wf_distinct [OF assms(1)]
  by (simp add: last_opt_def split: if_splits) (metis last_in_set)

text \<open>A fresh largest key goes to the end.\<close>

lemma btree_insert_end: "\<forall>x \<in> fst ` set es. x < k \<Longrightarrow> btree_insert k v es = es @ [(k, v)]"
  by (induction es) auto

text \<open>Updating every value commutes with insertion.\<close>

lemma btree_insert_map_values:
  "btree_insert k (f v) (map (\<lambda>(k, v). (k, f v)) es) = map (\<lambda>(k, v). (k, f v)) (btree_insert k v es)"
  by (induction es) auto

lemma those_map_Some: "those (map Some xs) = Some xs"
  by (induction xs) auto

subsection \<open>Prefix scans\<close>

lemma prefix_interval: "p \<le> k \<Longrightarrow> k \<le> p @ r \<Longrightarrow> starts_with k p"
proof (induction p arbitrary: k)
  case (Cons c p)
  then show ?case by (cases k) (auto simp: Cons_le_Cons)
qed simp

lemma prefix_le: "starts_with k p \<Longrightarrow> p \<le> k"
  by (induction k p rule: starts_with.induct) (auto simp: Cons_le_Cons)

lemma scan_keys_filter:
  "sorted_wrt (<) ks \<Longrightarrow> \<forall>k \<in> set ks. p \<le> k \<Longrightarrow> scan_keys p ks = filter (\<lambda>k. starts_with k p) ks"
proof (induction ks)
  case (Cons k ks)
  show ?case
  proof (cases "starts_with k p")
    case False
    have "\<not> starts_with k' p" if "k' \<in> set ks" for k'
    proof
      assume "starts_with k' p"
      then obtain r where "k' = p @ r" by (auto simp: starts_with_iff)
      with that Cons.prems have "k \<le> p @ r" "p \<le> k" by auto
      with False show False using prefix_interval by blast
    qed
    with False show ?thesis by (simp add: filter_False)
  qed (use Cons in auto)
qed simp

lemma range_scan:
  assumes "btree_wf es"
  shows "scan_keys p (filter (\<lambda>k. p \<le> k) (map fst es)) = filter (\<lambda>k. starts_with k p) (map fst es)"
proof -
  have "filter (\<lambda>k. starts_with k p) (filter (\<lambda>k. p \<le> k) ks) = filter (\<lambda>k. starts_with k p) ks" for ks
    by (auto simp: filter_filter intro!: filter_cong dest: prefix_le)
  moreover have "scan_keys p (filter (\<lambda>k. p \<le> k) (map fst es))
      = filter (\<lambda>k. starts_with k p) (filter (\<lambda>k. p \<le> k) (map fst es))"
    using assms by (intro scan_keys_filter) (auto simp: btree_wf_def intro: sorted_wrt_filter)
  ultimately show ?thesis by simp
qed


section \<open>The storage contract\<close>

definition consecutive :: "block list \<Rightarrow> bool" where
  "consecutive bs \<longleftrightarrow> (\<forall>i < length bs. b_index (bs ! i) = of_nat i
     \<and> (0 < i \<longrightarrow> b_previous_hash (bs ! i) = b_hash (bs ! (i - 1))))"

text \<open>Committing blocks one after the other, stopping at the first error.\<close>

fun apply_blocks ::
  "(block \<Rightarrow> 's \<Rightarrow> (core_error + unit) \<times> 's) \<Rightarrow> block list \<Rightarrow> 's \<Rightarrow> (core_error + unit) \<times> 's" where
  "apply_blocks ap [] s = (Inr (), s)"
| "apply_blocks ap (b # bs) s =
     (case ap b s of (Inl e, s') \<Rightarrow> (Inl e, s') | (Inr _, s') \<Rightarrow> apply_blocks ap bs s')"

lemma apply_blocks_append:
  "apply_blocks ap (xs @ ys) s =
     (case apply_blocks ap xs s of (Inl e, s') \<Rightarrow> (Inl e, s') | (Inr _, s') \<Rightarrow> apply_blocks ap ys s')"
  by (induction xs arbitrary: s) (auto split: prod.split sum.split)

lemma consecutive_snoc:
  "consecutive (bs @ [b]) \<longleftrightarrow> consecutive bs \<and> b_index b = of_nat (length bs)
     \<and> (bs \<noteq> [] \<longrightarrow> b_previous_hash b = b_hash (last bs))"
  by (auto simp: consecutive_def nth_append less_Suc_eq last_conv_nth)

lemma consecutive_keys:
  assumes "consecutive bs" "length bs \<le> 2 ^ 64"
  shows "distinct (map b_index bs)" "\<forall>b \<in> set bs. unat (b_index b) < length bs"
proof -
  have u: "unat (b_index (bs ! i)) = i" if "i < length bs" for i
    using assms that by (simp add: consecutive_def unat_of_nat)
  then show "distinct (map b_index bs)"
    by (metis (no_types, lifting) distinct_conv_nth length_map nth_map)
  show "\<forall>b \<in> set bs. unat (b_index b) < length bs"
    using u by (metis in_set_conv_nth)
qed

locale storage_contract =
  fixes s_apply :: "block \<Rightarrow> 's \<Rightarrow> (core_error + unit) \<times> 's"
    and s_get :: "u64 \<Rightarrow> 's \<Rightarrow> core_error + block option"
    and s_latest :: "'s \<Rightarrow> core_error + u64 option"
    and s_put_state :: "string \<Rightarrow> bytes \<Rightarrow> 's \<Rightarrow> (core_error + unit) \<times> 's"
    and s_get_state :: "string \<Rightarrow> 's \<Rightarrow> core_error + bytes option"
    and s_delete_state :: "string \<Rightarrow> 's \<Rightarrow> (core_error + unit) \<times> 's"
    and s_list :: "string \<Rightarrow> 's \<Rightarrow> core_error + string list"
    and s_inv :: "'s \<Rightarrow> bool"
    and s_blocks :: "'s \<Rightarrow> (u64 \<times> block) list"
    and s_state :: "'s \<Rightarrow> world_state"
    and storable :: "block \<Rightarrow> bool"
  assumes get_law: "s_inv s \<Longrightarrow> s_get i s = Inr (map_of (s_blocks s) i)"
    and latest_law: "s_inv s \<Longrightarrow> s_latest s = Inr (map_option fst (last_opt (s_blocks s)))"
    and get_state_law: "s_inv s \<Longrightarrow> s_get_state k s = Inr (s_state s k)"
    and list_law: "s_inv s \<Longrightarrow>
      s_list p s = Inr (sorted_list_of_set {k \<in> dom (s_state s). starts_with k p})"
    and put_state_law: "s_inv s \<Longrightarrow> \<exists>s'. s_put_state k v s = (Inr (), s') \<and> s_inv s'
      \<and> s_blocks s' = s_blocks s \<and> s_state s' = (s_state s)(k \<mapsto> v)"
    and delete_state_law: "s_inv s \<Longrightarrow> \<exists>s'. s_delete_state k s = (Inr (), s') \<and> s_inv s'
      \<and> s_blocks s' = s_blocks s \<and> s_state s' = (s_state s)(k := None)"
    and apply_law: "s_inv s \<Longrightarrow> storable b \<Longrightarrow>
      validate_tip_chain b (map_option snd (last_opt (s_blocks s))) = Inr () \<Longrightarrow>
      \<exists>s'. s_apply b s = (Inr (), s') \<and> s_inv s'
        \<and> s_blocks s' = btree_insert (b_index b) b (s_blocks s)
        \<and> s_state s' = apply_writes (b_write_set b) (s_state s)"
    and reject_law: "s_inv s \<Longrightarrow>
      validate_tip_chain b (map_option snd (last_opt (s_blocks s))) \<noteq> Inr () \<Longrightarrow>
      \<exists>e. s_apply b s = (Inl e, s)"
begin

lemma persist_chain:
  assumes "s_inv s" "s_blocks s = []" "consecutive bs" "\<forall>b \<in> set bs. storable b"
    and "length bs \<le> 2 ^ 64"
  shows "\<exists>s'. apply_blocks s_apply bs s = (Inr (), s') \<and> s_inv s'
    \<and> s_blocks s' = map (\<lambda>b. (b_index b, b)) bs
    \<and> s_state s' = apply_writes (concat (map b_write_set bs)) (s_state s)"
  using assms(3-)
proof (induction bs rule: rev_induct)
  case Nil
  then show ?case using assms(1,2) by (simp add: apply_writes_def)
next
  case (snoc b bs)
  then obtain s1 where s1: "apply_blocks s_apply bs s = (Inr (), s1)" "s_inv s1"
    "s_blocks s1 = map (\<lambda>b. (b_index b, b)) bs"
    "s_state s1 = apply_writes (concat (map b_write_set bs)) (s_state s)"
    by (auto simp: consecutive_snoc)
  note c = snoc.prems(1) [unfolded consecutive_snoc]
  have "validate_tip_chain b (map_option snd (last_opt (s_blocks s1))) = Inr ()"
    using c s1(3) by (cases bs rule: rev_cases)
      (auto simp: validate_tip_chain_def last_opt_def consecutive_snoc)
  from apply_law [OF s1(2) _ this] snoc.prems(2) obtain s2 where s2: "s_apply b s1 = (Inr (), s2)"
    "s_inv s2" "s_blocks s2 = btree_insert (b_index b) b (s_blocks s1)"
    "s_state s2 = apply_writes (b_write_set b) (s_state s1)" by auto
  have len: "length bs < 2 ^ 64" using snoc.prems(3) by simp
  then have "unat (b_index b) = length bs" using c by (simp add: unat_of_nat)
  then have "\<forall>x \<in> fst ` set (s_blocks s1). x < b_index b"
    using consecutive_keys(2) [of bs] c len by (auto simp: s1(3) word_less_nat_alt)
  from btree_insert_end [OF this] s2 s1 show ?case
    by (auto simp: apply_blocks_append apply_writes_def)
qed

lemma read_back:
  assumes "s_inv s" "s_blocks s = map (\<lambda>b. (b_index b, b)) bs" "consecutive bs" "bs \<noteq> []"
    and "length bs \<le> 2 ^ 64"
  shows "read_chain s_latest s_get s = Some bs"
proof -
  have idx: "b_index (bs ! i) = of_nat i" if "i < length bs" for i
    using assms(3) that by (simp add: consecutive_def)
  have "b_index (last bs) = of_nat (length bs - 1)" using assms(4) idx by (simp add: last_conv_nth)
  then have latest: "s_latest s = Inr (Some (of_nat (length bs - 1)))"
    using assms(1,2,4) by (simp add: latest_law last_opt_def last_map)
  have "unat (of_nat (length bs - 1) :: u64) = length bs - 1"
    using assms(4,5) by (simp add: unat_of_nat)
  then have upto: "Suc (unat (of_nat (length bs - 1) :: u64)) = length bs" using assms(4) by simp
  have "s_get (of_nat i) s = Inr (Some (bs ! i))" if "i < length bs" for i
  proof -
    have "distinct (map fst (s_blocks s))" "(of_nat i, bs ! i) \<in> set (s_blocks s)"
      using consecutive_keys(1) [OF assms(3,5)] that idx [OF that]
      by (auto simp: assms(2) comp_def intro: image_eqI [of _ _ "bs ! i"])
    then show ?thesis by (simp add: get_law [OF assms(1)])
  qed
  then have "map (\<lambda>i. case s_get (of_nat i) s of Inr (Some b) \<Rightarrow> Some b | _ \<Rightarrow> None) [0..<length bs]
      = map Some (map (\<lambda>i. bs ! i) [0..<length bs])"
    by simp
  also have "\<dots> = map Some bs" by (simp only: map_nth)
  finally have "those (map (\<lambda>i. case s_get (of_nat i) s of Inr (Some b) \<Rightarrow> Some b | _ \<Rightarrow> None)
      [0..<length bs]) = Some bs" by (simp only: those_map_Some)
  then show ?thesis by (simp only: read_chain_def latest sum.case option.case upto)
qed

end


subsection \<open>The in-memory store\<close>

definition mem_inv :: "mem_store \<Rightarrow> bool" where
  "mem_inv s \<longleftrightarrow> btree_wf (ms_blocks s) \<and> btree_wf (ms_state s)"

lemma filter_keys_sorted:
  assumes "btree_wf es"
  shows "filter P (map fst es) = sorted_list_of_set {k \<in> dom (map_of es). P k}"
proof (rule sorted_distinct_set_unique)
  show "sorted (filter P (map fst es))" "distinct (filter P (map fst es))"
    using assms by (simp_all add: btree_wf_def strict_sorted_iff sorted_wrt_filter)
  have "finite {k \<in> dom (map_of es). P k}" by (simp add: finite_dom_map_of)
  then show "sorted (sorted_list_of_set {k \<in> dom (map_of es). P k})"
    "distinct (sorted_list_of_set {k \<in> dom (map_of es). P k})"
    "set (filter P (map fst es)) = set (sorted_list_of_set {k \<in> dom (map_of es). P k})"
    by (auto simp: dom_map_of_conv_image_fst)
qed

lemma mem_apply_block_eq:
  assumes "mem_inv s"
  shows "mem_apply_block b s =
    (case validate_tip_chain b (map_option snd (last_opt (ms_blocks s))) of
       Inl e \<Rightarrow> (Inl e, s)
     | Inr _ \<Rightarrow> (Inr (), s\<lparr>ms_blocks := btree_insert (b_index b) b (ms_blocks s),
         ms_state := fold table_write (b_write_set b) (ms_state s)\<rparr>))"
  using assms max_key_last [of "ms_blocks s"] map_of_last [of "ms_blocks s"]
  by (cases "last_opt (ms_blocks s)") (auto simp: mem_apply_block_def mem_inv_def)

interpretation mem: storage_contract mem_apply_block mem_get_block mem_latest_block_index
  mem_put_state mem_get_state mem_delete_state mem_list_state_keys mem_inv ms_blocks
  "\<lambda>s. map_of (ms_state s)" "\<lambda>b. True"
proof unfold_locales
  fix s :: mem_store and i k p and v :: bytes and b
  assume inv: "mem_inv s"
  then have wf: "btree_wf (ms_blocks s)" "btree_wf (ms_state s)" by (simp_all add: mem_inv_def)
  show "mem_get_block i s = Inr (map_of (ms_blocks s) i)" by (simp add: mem_get_block_def)
  show "mem_latest_block_index s = Inr (map_option fst (last_opt (ms_blocks s)))"
    by (simp add: mem_latest_block_index_def max_key_last wf)
  show "mem_get_state k s = Inr (map_of (ms_state s) k)" by (simp add: mem_get_state_def)
  have "sorted (filter (\<lambda>k. starts_with k p) (map fst (ms_state s)))"
    using wf(2) by (simp add: btree_wf_def strict_sorted_iff sorted_wrt_filter)
  then show "mem_list_state_keys p s =
      Inr (sorted_list_of_set {k \<in> dom (map_of (ms_state s)). starts_with k p})"
    by (simp add: mem_list_state_keys_def sorted_sort_id filter_keys_sorted [OF wf(2), symmetric])
  show "\<exists>s'. mem_put_state k v s = (Inr (), s') \<and> mem_inv s' \<and> ms_blocks s' = ms_blocks s
      \<and> map_of (ms_state s') = (map_of (ms_state s))(k \<mapsto> v)"
    using wf by (simp add: mem_put_state_def mem_inv_def map_of_btree_insert btree_wf_insert)
  show "\<exists>s'. mem_delete_state k s = (Inr (), s') \<and> mem_inv s' \<and> ms_blocks s' = ms_blocks s
      \<and> map_of (ms_state s') = (map_of (ms_state s))(k := None)"
    using wf by (simp add: mem_delete_state_def mem_inv_def map_of_btree_remove btree_wf_remove)
  show "\<exists>e. mem_apply_block b s = (Inl e, s)"
    if "validate_tip_chain b (map_option snd (last_opt (ms_blocks s))) \<noteq> Inr ()"
    using that by (cases "validate_tip_chain b (map_option snd (last_opt (ms_blocks s)))")
      (auto simp: mem_apply_block_eq [OF inv])
  show "\<exists>s'. mem_apply_block b s = (Inr (), s') \<and> mem_inv s'
      \<and> ms_blocks s' = btree_insert (b_index b) b (ms_blocks s)
      \<and> map_of (ms_state s') = apply_writes (b_write_set b) (map_of (ms_state s))"
    if "validate_tip_chain b (map_option snd (last_opt (ms_blocks s))) = Inr ()"
    using wf that by (simp add: mem_apply_block_eq [OF inv] mem_inv_def table_writes btree_wf_insert)
qed

subsection \<open>The redb store\<close>

text \<open>What the store relies on of the codec: what it writes it reads back.\<close>

definition codec_faithful :: "block_codec \<Rightarrow> bool" where
  "codec_faithful C \<longleftrightarrow> (\<forall>b v. ser_block C b = Some v \<longrightarrow> de_block C v = Some b)"

definition redb_inv :: "block_codec \<Rightarrow> redb_store \<Rightarrow> bool" where
  "redb_inv C s \<longleftrightarrow> codec_faithful C \<and> btree_wf (rb_blocks s) \<and> btree_wf (rb_state s)
     \<and> (\<forall>v \<in> snd ` set (rb_blocks s). de_block C v \<noteq> None)"

definition stored_blocks :: "block_codec \<Rightarrow> redb_store \<Rightarrow> (u64 \<times> block) list" where
  "stored_blocks C s = map (\<lambda>(i, v). (i, the (de_block C v))) (rb_blocks s)"

lemma ball_subset: "A \<subseteq> B \<Longrightarrow> \<forall>x \<in> B. P x \<Longrightarrow> \<forall>x \<in> A. P x"
  by blast

lemma snd_btree_insert: "snd ` set (btree_insert k v es) \<subseteq> insert v (snd ` set es)"
  by (induction es) auto

lemma last_stored: "last_opt (stored_blocks C s) =
    map_option (\<lambda>(i, v). (i, the (de_block C v))) (last_opt (rb_blocks s))"
  by (simp add: stored_blocks_def last_opt_def last_map)

lemma tip_in_txn_stored:
  assumes "redb_inv C s"
  shows "tip_in_txn C s = Inr (map_option snd (last_opt (stored_blocks C s)))"
proof (cases "last_opt (rb_blocks s)")
  case (Some e)
  then have "e \<in> set (rb_blocks s)" by (auto simp: last_opt_def split: if_splits)
  with assms have "de_block C (snd e) \<noteq> None" by (auto simp: redb_inv_def)
  then show ?thesis by (cases e) (auto simp: tip_in_txn_def last_stored Some)
qed (simp add: tip_in_txn_def last_stored)

lemma redb_put_inv:
  assumes "redb_inv C s" "ser_block C b = Some v"
  shows "redb_inv C (s\<lparr>rb_state := fold table_write ws (rb_state s),
      rb_blocks := btree_insert (b_index b) v (rb_blocks s)\<rparr>)"
    "map (\<lambda>(i, v). (i, the (de_block C v))) (btree_insert (b_index b) v (rb_blocks s))
      = btree_insert (b_index b) b (stored_blocks C s)"
proof -
  have d: "de_block C v = Some b" using assms by (auto simp: redb_inv_def codec_faithful_def)
  then show "redb_inv C (s\<lparr>rb_state := fold table_write ws (rb_state s),
      rb_blocks := btree_insert (b_index b) v (rb_blocks s)\<rparr>)"
  proof -
    have "\<forall>v' \<in> insert v (snd ` set (rb_blocks s)). de_block C v' \<noteq> None"
      using assms(1) d by (simp add: redb_inv_def)
    then have "\<forall>v' \<in> snd ` set (btree_insert (b_index b) v (rb_blocks s)). de_block C v' \<noteq> None"
      using snd_btree_insert by (rule ball_subset [rotated])
    then show ?thesis using assms(1) by (simp add: redb_inv_def table_writes btree_wf_insert)
  qed
  show "map (\<lambda>(i, v). (i, the (de_block C v))) (btree_insert (b_index b) v (rb_blocks s))
      = btree_insert (b_index b) b (stored_blocks C s)"
    using btree_insert_map_values [of "b_index b" "\<lambda>v. the (de_block C v)" v "rb_blocks s"] d
    by (simp add: stored_blocks_def)
qed

interpretation redb: storage_contract "redb_apply_block C txn_ok" "redb_get_block C txn_ok"
  "redb_latest_block_index txn_ok" "redb_put_state txn_ok" "redb_get_state txn_ok"
  "redb_delete_state txn_ok" "redb_list_state_keys txn_ok" "redb_inv C" "stored_blocks C"
  "\<lambda>s. map_of (rb_state s)" "\<lambda>b. ser_block C b \<noteq> None" for C
proof unfold_locales
  fix s :: redb_store and i k p and v :: bytes and b
  assume inv: "redb_inv C s"
  then have wf: "btree_wf (rb_blocks s)" "btree_wf (rb_state s)"
    "\<forall>v \<in> snd ` set (rb_blocks s). de_block C v \<noteq> None" by (simp_all add: redb_inv_def)
  note step = txn_step_def txn_ok_def in_txn_def
  have "map_of (stored_blocks C s) i = map_option (\<lambda>v. the (de_block C v)) (map_of (rb_blocks s) i)"
    unfolding stored_blocks_def by (simp add: map_of_map)
  moreover have "de_block C v \<noteq> None" if "map_of (rb_blocks s) i = Some v" for v
    using wf(3) map_of_SomeD [OF that] by force
  ultimately show "redb_get_block C txn_ok i s = Inr (map_of (stored_blocks C s) i)"
    by (cases "map_of (rb_blocks s) i") (auto simp: redb_get_block_def step)
  show "redb_latest_block_index txn_ok s = Inr (map_option fst (last_opt (stored_blocks C s)))"
    by (cases "last_opt (rb_blocks s)") (auto simp: redb_latest_block_index_def step last_stored)
  show "redb_get_state txn_ok k s = Inr (map_of (rb_state s) k)"
    by (simp add: redb_get_state_def step)
  show "redb_list_state_keys txn_ok p s =
      Inr (sorted_list_of_set {k \<in> dom (map_of (rb_state s)). starts_with k p})"
    by (simp add: redb_list_state_keys_def step range_scan wf
        filter_keys_sorted [OF wf(2), symmetric])
  show "\<exists>s'. redb_put_state txn_ok k v s = (Inr (), s') \<and> redb_inv C s'
      \<and> stored_blocks C s' = stored_blocks C s \<and> map_of (rb_state s') = (map_of (rb_state s))(k \<mapsto> v)"
    using inv by (simp add: redb_put_state_def step redb_inv_def map_of_btree_insert btree_wf_insert
        stored_blocks_def)
  show "\<exists>s'. redb_delete_state txn_ok k s = (Inr (), s') \<and> redb_inv C s'
      \<and> stored_blocks C s' = stored_blocks C s \<and> map_of (rb_state s') = (map_of (rb_state s))(k := None)"
    using inv by (simp add: redb_delete_state_def step redb_inv_def map_of_btree_remove
        btree_wf_remove stored_blocks_def)
  show "\<exists>e. redb_apply_block C txn_ok b s = (Inl e, s)"
    if "validate_tip_chain b (map_option snd (last_opt (stored_blocks C s))) \<noteq> Inr ()"
    using that by (cases "ser_block C b";
        cases "validate_tip_chain b (map_option snd (last_opt (stored_blocks C s)))")
      (auto simp: redb_apply_block_def step tip_in_txn_stored inv)
  show "\<exists>s'. redb_apply_block C txn_ok b s = (Inr (), s') \<and> redb_inv C s'
      \<and> stored_blocks C s' = btree_insert (b_index b) b (stored_blocks C s)
      \<and> map_of (rb_state s') = apply_writes (b_write_set b) (map_of (rb_state s))"
    if "ser_block C b \<noteq> None"
      "validate_tip_chain b (map_option snd (last_opt (stored_blocks C s))) = Inr ()"
    using that(2) redb_put_inv [OF inv] that(1)
    by (auto simp: redb_apply_block_def step tip_in_txn_stored inv table_writes stored_blocks_def)
qed


section \<open>The properties of the stores\<close>

definition redb_abs :: "block_codec \<Rightarrow> redb_store \<Rightarrow> mem_store" where
  "redb_abs C s = \<lparr>ms_blocks = stored_blocks C s, ms_state = rb_state s\<rparr>"

lemma keys_stored: "map fst (stored_blocks C s) = map fst (rb_blocks s)"
  by (simp add: stored_blocks_def case_prod_unfold)

lemma mem_inv_abs: "redb_inv C s \<Longrightarrow> mem_inv (redb_abs C s)"
  by (simp only: redb_inv_def mem_inv_def redb_abs_def btree_wf_def keys_stored mem_store.simps)

text \<open>
  C10. The redb store refines the in-memory store, operation by operation, while the database has no
  fault: on a well-formed database whose codec reads back what it writes, every read returns the
  in-memory answer (the prefix scan of a key range included); every write of the state and every write or
  commit of a block the codec can write has the same outcome, leads to the corresponding store and
  leaves the database well-formed; and so is a new database, which is the empty store.
\<close>

theorem redb_refines_mem:
  assumes inv: "redb_inv C s" and ser: "ser_block C b = Some w"
  shows "redb_get_block C txn_ok i s = mem_get_block i (redb_abs C s)
    \<and> redb_latest_block_index txn_ok s = mem_latest_block_index (redb_abs C s)
    \<and> redb_get_state txn_ok k s = mem_get_state k (redb_abs C s)
    \<and> redb_list_state_keys txn_ok p s = mem_list_state_keys p (redb_abs C s)
    \<and> map_prod id (redb_abs C) (redb_put_block C txn_ok b s) = mem_put_block b (redb_abs C s)
    \<and> map_prod id (redb_abs C) (redb_put_state txn_ok k v s) = mem_put_state k v (redb_abs C s)
    \<and> map_prod id (redb_abs C) (redb_delete_state txn_ok k s) = mem_delete_state k (redb_abs C s)
    \<and> map_prod is_ok (redb_abs C) (redb_apply_block C txn_ok b s)
      = map_prod is_ok id (mem_apply_block b (redb_abs C s))
    \<and> redb_inv C (snd (redb_put_block C txn_ok b s)) \<and> redb_inv C (snd (redb_put_state txn_ok k v s))
    \<and> redb_inv C (snd (redb_delete_state txn_ok k s)) \<and> redb_inv C (snd (redb_apply_block C txn_ok b s))
    \<and> redb_inv C redb_open \<and> redb_abs C redb_open = mem_new"
proof (intro conjI)
  note minv = mem_inv_abs [OF inv]
  note step = txn_step_def txn_ok_def in_txn_def
  have sel: "ms_blocks (redb_abs C s) = stored_blocks C s" "ms_state (redb_abs C s) = rb_state s"
    by (simp_all add: redb_abs_def)
  show "redb_get_block C txn_ok i s = mem_get_block i (redb_abs C s)"
    by (simp only: redb.get_law [OF inv] mem.get_law [OF minv] sel)
  show "redb_latest_block_index txn_ok s = mem_latest_block_index (redb_abs C s)"
    by (simp only: redb.latest_law [OF inv] mem.latest_law [OF minv] sel)
  show "redb_get_state txn_ok k s = mem_get_state k (redb_abs C s)"
    by (simp only: redb.get_state_law [OF inv] mem.get_state_law [OF minv] sel)
  show "redb_list_state_keys txn_ok p s = mem_list_state_keys p (redb_abs C s)"
    by (simp only: redb.list_law [OF inv] mem.list_law [OF minv] sel)
  show "map_prod id (redb_abs C) (redb_put_state txn_ok k v s) = mem_put_state k v (redb_abs C s)"
    by (simp add: redb_put_state_def mem_put_state_def step redb_abs_def stored_blocks_def)
  show "map_prod id (redb_abs C) (redb_delete_state txn_ok k s) = mem_delete_state k (redb_abs C s)"
    by (simp add: redb_delete_state_def mem_delete_state_def step redb_abs_def stored_blocks_def)
  show "map_prod is_ok (redb_abs C) (redb_apply_block C txn_ok b s)
      = map_prod is_ok id (mem_apply_block b (redb_abs C s))"
    using redb_put_inv(2) [OF inv ser]
    unfolding mem_apply_block_eq [OF minv] sel
    by (cases "validate_tip_chain b (map_option snd (last_opt (stored_blocks C s)))")
      (simp_all add: redb_apply_block_def step ser tip_in_txn_stored [OF inv] redb_abs_def
        stored_blocks_def)
  show "redb_inv C (snd (redb_apply_block C txn_ok b s))"
    using redb_put_inv(1) [OF inv ser] inv
    by (cases "validate_tip_chain b (map_option snd (last_opt (stored_blocks C s)))")
      (simp_all add: redb_apply_block_def step ser tip_in_txn_stored [OF inv])
  show "map_prod id (redb_abs C) (redb_put_block C txn_ok b s) = mem_put_block b (redb_abs C s)"
    using redb_put_inv(2) [OF inv ser]
    by (simp add: redb_put_block_def mem_put_block_def step ser redb_abs_def stored_blocks_def)
  show "redb_inv C (snd (redb_put_block C txn_ok b s))"
    using redb_put_inv(1) [OF inv ser, where ws = "[]"] by (simp add: redb_put_block_def step ser)
  show "redb_inv C (snd (redb_put_state txn_ok k v s))" "redb_inv C (snd (redb_delete_state txn_ok k s))"
    using redb.put_state_law [OF inv, of k v] redb.delete_state_law [OF inv, of k] by auto
  show "redb_inv C redb_open" using inv by (simp add: redb_inv_def redb_open_def)
  show "redb_abs C redb_open = mem_new"
    by (simp add: redb_abs_def redb_open_def stored_blocks_def mem_new_def)
qed

text \<open>
  C19. A redb commit is all or nothing, wherever its transaction fails: an error leaves the
  database as it was, and success means that the block chains to the stored tip, that it was
  added, and that its whole write set was applied.
\<close>

theorem redb_apply_atomic:
  assumes "redb_inv C s"
  shows "case redb_apply_block C txn b s of
      (Inl e, s') \<Rightarrow> s' = s
    | (Inr _, s') \<Rightarrow>
        validate_tip_chain b (map_option snd (last_opt (stored_blocks C s))) = Inr ()
        \<and> stored_blocks C s' = btree_insert (b_index b) b (stored_blocks C s)
        \<and> map_of (rb_state s') = apply_writes (b_write_set b) (map_of (rb_state s))
        \<and> redb_inv C s'"
proof (cases "redb_apply_block C txn b s")
  case (Pair r s')
  show ?thesis
  proof (cases r)
    case (Inl e)
    with Pair show ?thesis by (auto simp: redb_apply_block_def in_txn_def split: sum.splits)
  next
    case (Inr u)
    with Pair obtain v where v: "ser_block C b = Some v"
      "validate_tip_chain b (map_option snd (last_opt (stored_blocks C s))) = Inr ()"
      "s' = s\<lparr>rb_state := fold table_write (b_write_set b) (rb_state s),
         rb_blocks := btree_insert (b_index b) v (rb_blocks s)\<rparr>"
      by (auto simp: redb_apply_block_def in_txn_def tip_in_txn_stored [OF assms] res_simps
          txn_step_def split: sum.splits option.splits)
    with Pair Inr redb_put_inv [OF assms v(1)] show ?thesis
      by (simp add: stored_blocks_def table_writes)
  qed
qed

text \<open>
  The sequential default commit of the storage trait, run over the in-memory operations,
  has exactly the effect and the result of the in-memory store's own atomic commit.
\<close>

theorem default_apply_block_mem:
  assumes "mem_inv s"
  shows "default_apply_block mem_latest_block_index mem_get_block mem_put_block mem_put_state
    mem_delete_state b s = mem_apply_block b s"
proof -
  have writes: "default_writes mem_put_state mem_delete_state ws t
      = (Inr (), t\<lparr>ms_state := fold table_write ws (ms_state t)\<rparr>)" for ws t
    by (induction ws arbitrary: t)
      (auto simp: mem_put_state_def mem_delete_state_def table_write_def split: write_op.split)
  show ?thesis
    using mem.latest_law [OF assms] mem.get_law [OF assms] map_of_last [of "ms_blocks s"] assms
    by (cases "last_opt (ms_blocks s)")
      (auto simp: default_apply_block_def mem_apply_block_eq [OF assms] mem_put_block_def writes
        mem_inv_def split: sum.split)
qed


section \<open>Restart\<close>

lemma check_links_consecutive:
  "check_links E d bs = Inr u \<Longrightarrow> bs \<noteq> [] \<Longrightarrow> b_index (hd bs) = 0 \<Longrightarrow> consecutive bs"
proof (induction bs rule: rev_induct)
  case (snoc b bs)
  show ?case
  proof (cases "bs = []")
    case True
    with snoc.prems show ?thesis by (simp add: consecutive_def)
  next
    case False
    with snoc.prems have c: "check_links E d bs = Inr ()" "chains_to E b (last bs) = Inr ()"
      by (auto simp: check_links_snoc)
    with snoc False have con: "consecutive bs" by (auto simp: hd_append)
    then have "b_index (last bs) = of_nat (length bs - 1)"
      using False by (simp add: consecutive_def last_conv_nth)
    moreover have "of_nat (length bs - 1) + 1 = (of_nat (length bs) :: u64)"
      using False by (metis Suc_pred' length_greater_0_conv of_nat_Suc add.commute)
    ultimately show ?thesis using c(2) con
      by (auto simp: consecutive_snoc chains_to_def split: if_splits)
  qed
qed simp

text \<open>
  A restart loses nothing: committing a validated chain block by block to a new redb database
  succeeds and leaves the world state that the chain's write sets define, and restoring a ledger
  from that database gives back exactly that chain.
\<close>

theorem redb_restart:
  assumes "codec_faithful C" "\<forall>b \<in> set (lg_chain l). ser_block C b \<noteq> None"
    and "validate_chain E l = Inr ()" "lg_chain l \<noteq> []" "length (lg_chain l) \<le> 2 ^ 64"
    and "b_index (hd (lg_chain l)) = 0" "b_previous_hash (hd (lg_chain l)) = ''0''"
    and "certs_ok (lg_chain l)" "ledger_new E clock (lg_difficulty l) k = Some (l0, k')"
  shows "\<exists>s. apply_blocks (redb_apply_block C txn_ok) (lg_chain l) redb_open = (Inr (), s)
    \<and> map_of (rb_state s) = apply_writes (concat (map b_write_set (lg_chain l))) Map.empty
    \<and> restore_ledger E certs_ok (redb_latest_block_index txn_ok) (redb_get_block C txn_ok) clock
        (lg_difficulty l) s k = Some (l0\<lparr>lg_chain := lg_chain l\<rparr>, k')"
proof -
  note v = assms(3) [unfolded validate_chain_Inr_iff [OF assms(4)]]
  have con: "consecutive (lg_chain l)" using check_links_consecutive v assms(4,6) by blast
  have open_inv: "redb_inv C redb_open" "stored_blocks C redb_open = []"
    using assms(1) by (simp_all add: redb_inv_def redb_open_def stored_blocks_def)
  from redb.persist_chain [OF open_inv con assms(2,5)] obtain s where
    s: "apply_blocks (redb_apply_block C txn_ok) (lg_chain l) redb_open = (Inr (), s)"
    "redb_inv C s" "stored_blocks C s = map (\<lambda>b. (b_index b, b)) (lg_chain l)"
    "map_of (rb_state s) = apply_writes (concat (map b_write_set (lg_chain l))) Map.empty"
    by (auto simp: redb_open_def)
  obtain g bs where chain: "lg_chain l = g # bs" using assms(4) by (cases "lg_chain l") auto
  have "read_chain (redb_latest_block_index txn_ok) (redb_get_block C txn_ok) s = Some (g # bs)"
    using redb.read_back [OF s(2,3) con assms(4,5)] chain by simp
  with s v assms(7-9) show ?thesis by (simp add: restore_ledger_def chain)
qed


section \<open>The consensus contract\<close>

locale consensus_contract =
  fixes propose :: "u64 \<Rightarrow> transaction list \<Rightarrow> block \<Rightarrow> 'w \<Rightarrow> (commit_notification \<times> 'w) option"
    and validate :: "block \<Rightarrow> block \<Rightarrow> core_error + unit"
  assumes validate_links: "validate b p = Inr () \<Longrightarrow>
      b_previous_hash b = b_hash p \<and> b_index b = b_index p + 1"
    and propose_valid: "propose (b_index p + 1) txs p w = Some (n, w') \<Longrightarrow>
      validate (cn_block n) p = Inr () \<and> cn_validate n = Inr () \<and> b_transactions (cn_block n) = txs"
begin

lemma proposal_extends_tip:
  "propose (b_index p + 1) txs p w = Some (n, w') \<Longrightarrow> validate_tip_chain (cn_block n) (Some p) = Inr ()"
  using propose_valid validate_links by (fastforce simp: validate_tip_chain_def)

end

interpretation pow: consensus_contract "pow_propose_block E clock d" "pow_validate_block E d"
  for E clock d
proof unfold_locales
  fix b p :: block and txs n and w w' :: nat
  show "b_previous_hash b = b_hash p \<and> b_index b = b_index p + 1"
    if "pow_validate_block E d b p = Inr ()"
    using that by (auto simp: pow_validate_block_def res_simps chains_to_def split: if_splits)
  assume "pow_propose_block E clock d (b_index p + 1) txs p w = Some (n, w')"
  then obtain b' where b': "n = for_pow_block b'"
    "mine E clock d (block_new E (clock w) (b_index p + 1) txs (b_hash p)) (w + 1) = Some (b', w')"
    by (auto simp: pow_propose_block_def split: option.splits)
  have "is_valid E b'" "has_valid_pow b' d"
    "same_content b' (block_new E (clock w) (b_index p + 1) txs (b_hash p))"
    using mine_loop_Some [OF b'(2) [unfolded mine_def]]
    by (auto simp: is_valid_def same_content_def starts_with_zeros has_valid_pow_def)
  then show "pow_validate_block E d (cn_block n) p = Inr () \<and> cn_validate n = Inr ()
      \<and> b_transactions (cn_block n) = txs"
    using cn_validate_for_pow_block [of b']
    by (simp add: b'(1) pow_validate_block_def chains_to_def same_content_def for_pow_block_def)
qed

text \<open>
  What the Proof-of-Work provider proposes on the stored tip, its own validation accepts, its
  notification's certificate is accepted, and the in-memory store commits it with its
  transactions.
\<close>

theorem pow_proposal_commits:
  assumes "mem_inv s" "last_opt (ms_blocks s) = Some (i, tip)"
    and "pow_propose_block E clock d (b_index tip + 1) txs tip k = Some (n, k')"
  shows "pow_validate_block E d (cn_block n) tip = Inr () \<and> cn_validate n = Inr ()
    \<and> (\<exists>s'. mem_apply_block (cn_block n) s = (Inr (), s') \<and> mem_inv s'
        \<and> map_of (ms_blocks s') (b_index tip + 1) = Some (cn_block n)
        \<and> b_transactions (cn_block n) = txs)"
proof -
  note p = pow.propose_valid [OF assms(3)] and t = pow.proposal_extends_tip [OF assms(3)]
  from p have idx: "b_index (cn_block n) = b_index tip + 1" using pow.validate_links by blast
  from mem.apply_law [of s "cn_block n"] assms(1,2) t obtain s' where
    "mem_apply_block (cn_block n) s = (Inr (), s')" "mem_inv s'"
    "ms_blocks s' = btree_insert (b_index (cn_block n)) (cn_block n) (ms_blocks s)" by auto
  with p idx show ?thesis by (simp add: map_of_btree_insert)
qed


section \<open>Instances\<close>

text \<open>A codec that can write one block.\<close>

definition one_codec :: "block \<Rightarrow> block_codec" where
  "one_codec g = \<lparr>ser_block = (\<lambda>b. if b = g then Some [1] else None),
     de_block = (\<lambda>v. if v = [1] then Some g else None)\<rparr>"

definition genesis_redb :: redb_store where
  "genesis_redb = \<lparr>rb_blocks = [(0, [1])], rb_state = [(''ws:a:b:c'', [7])]\<rparr>"

definition genesis_mem :: mem_store where
  "genesis_mem = \<lparr>ms_blocks = [(0, genesis_block sample_tx_env)], ms_state = []\<rparr>"

lemma one_codec_faithful: "codec_faithful (one_codec g)"
  by (auto simp: codec_faithful_def one_codec_def)

lemma genesis_redb_inv: "redb_inv (one_codec g) genesis_redb"
  using one_codec_faithful by (simp add: redb_inv_def genesis_redb_def one_codec_def btree_wf_def)

theorem redb_refines_mem_witness:
  "redb_list_state_keys txn_ok ''ws:'' genesis_redb
   = mem_list_state_keys ''ws:'' (redb_abs (one_codec (genesis_block sample_tx_env)) genesis_redb)"
  using redb_refines_mem [OF genesis_redb_inv, of "genesis_block sample_tx_env"
      "genesis_block sample_tx_env" "[1]"]
  by (simp add: one_codec_def)

theorem redb_apply_atomic_witness:
  "snd (redb_apply_block (one_codec (genesis_block sample_tx_env)) txn_ok
     (genesis_block sample_tx_env) genesis_redb) = genesis_redb"
  using redb_apply_atomic [OF genesis_redb_inv [of "genesis_block sample_tx_env"],
      where txn = txn_ok and b = "genesis_block sample_tx_env"]
  by (simp add: redb_apply_block_def in_txn_def one_codec_def txn_step_def txn_ok_def tip_in_txn_def
      genesis_redb_def last_opt_def validate_tip_chain_def)

theorem default_apply_block_mem_witness:
  "default_apply_block mem_latest_block_index mem_get_block mem_put_block mem_put_state
     mem_delete_state (demo_peer sample_tx_env) genesis_mem
   = (Inr (), genesis_mem\<lparr>ms_blocks := [(0, genesis_block sample_tx_env), (1, demo_peer sample_tx_env)]\<rparr>)"
proof -
  have inv: "mem_inv genesis_mem" by (simp add: mem_inv_def genesis_mem_def btree_wf_def)
  show ?thesis
    unfolding default_apply_block_mem [OF inv] mem_apply_block_eq [OF inv]
    by (simp add: genesis_mem_def last_opt_def validate_tip_chain_def demo_peer_def)
qed

theorem redb_restart_witness:
  "\<exists>s. apply_blocks (redb_apply_block (one_codec (genesis_block sample_tx_env)) txn_ok)
       [genesis_block sample_tx_env] redb_open = (Inr (), s)
     \<and> restore_ledger sample_tx_env (\<lambda>_. True) (redb_latest_block_index txn_ok)
       (redb_get_block (one_codec (genesis_block sample_tx_env)) txn_ok) (\<lambda>_. 9) 0 s 0
       = Some (demo_ledger sample_tx_env, 0)"
proof -
  let ?E = sample_tx_env
  have chain: "lg_chain (demo_ledger ?E) = [genesis_block ?E]" "lg_difficulty (demo_ledger ?E) = 0"
    by (simp_all add: demo_ledger_def)
  have "(demo_ledger ?E)\<lparr>lg_chain := [genesis_block ?E]\<rparr> = demo_ledger ?E"
    by (simp add: demo_ledger_def)
  then show ?thesis
    using redb_restart [OF one_codec_faithful, of "demo_ledger ?E" "genesis_block ?E" ?E "\<lambda>_. True"
        "\<lambda>_. 9" 0 "demo_ledger ?E" 0] demo_inv(3) [of ?E] demo_new [of ?E]
    by (auto simp: chain one_codec_def genesis_block_def Let_def)
qed

theorem pow_proposal_commits_witness:
  "pow_validate_block sample_tx_env 0 (block_new sample_tx_env 9 1 [demo_tx ''a'']
     (b_hash (genesis_block sample_tx_env))) (genesis_block sample_tx_env) = Inr ()"
proof -
  let ?E = sample_tx_env
  let ?b = "block_new ?E 9 1 [demo_tx ''a''] (b_hash (genesis_block ?E))"
  have 1: "mem_inv genesis_mem" "last_opt (ms_blocks genesis_mem) = Some (0, genesis_block ?E)"
    by (simp_all add: mem_inv_def genesis_mem_def btree_wf_def last_opt_def)
  have "?b\<lparr>b_hash := calculate_hash ?E ?b\<rparr> = ?b"
    using block_new_sel(6) [of ?E 9 1] by (simp add: is_valid_def block_new_def with_write_set_def Let_def)
  then have 2: "pow_propose_block ?E (\<lambda>_. 9) 0 (b_index (genesis_block ?E) + 1) [demo_tx ''a'']
      (genesis_block ?E) 0 = Some (for_pow_block ?b, 1)"
    by (simp add: pow_propose_block_def mine_zero)
  show ?thesis using pow_proposal_commits [OF 1 2] by (simp add: for_pow_block_def)
qed

end
