(* ===== verification/Bft.thy ===== *)
theory Bft
  imports Providers Possession
begin

text \<open>
  \<^verbatim>\<open>glasschain-core/src/bft.rs\<close>: quorum and signer-bitmap arithmetic, the validator set, votes,
  vote aggregation, quorum-certificate verification and equivocation proofs.

  The BLS12-381 crates are a record of functions over abstract key and group types.  A
  \<^verbatim>\<open>usize\<close> is a natural number; the one multiplication that could exceed 64 bits saturates as in
  the code.  The length casts of the signed messages cannot fail on strings shorter than
  \<open>2 ^ 32\<close> bytes; the statements about messages name that bound.
\<close>

unbundle bit_operations_syntax

section \<open>Quorum and bitmap arithmetic\<close>

definition quorum_threshold :: "nat \<Rightarrow> nat" where
  "quorum_threshold validator_count = min (validator_count * 2) (2 ^ 64 - 1) div 3 + 1"

definition bitmap_len :: "nat \<Rightarrow> nat" where
  "bitmap_len validator_count =
     (if validator_count mod 8 = 0 then validator_count div 8 else validator_count div 8 + 1)"

definition bitmap_byte :: "nat \<Rightarrow> nat" where
  "bitmap_byte index = index div 8"

definition bitmap_mask :: "nat \<Rightarrow> u8" where
  "bitmap_mask index = push_bit (index mod 8) 1"

definition meets_quorum :: "nat \<Rightarrow> nat \<Rightarrow> bool" where
  "meets_quorum signers validator_count = (signers \<ge> quorum_threshold validator_count)"

definition bitmap_contains :: "bytes \<Rightarrow> nat \<Rightarrow> bool" where
  "bitmap_contains bitmap index = ((bitmap ! bitmap_byte index) AND bitmap_mask index \<noteq> 0)"

text \<open>\<^verbatim>\<open>signers_bitmap[bitmap_byte(index)] |= bitmap_mask(index)\<close>.\<close>

definition bitmap_set :: "bytes \<Rightarrow> nat \<Rightarrow> bytes" where
  "bitmap_set bitmap index =
     bitmap[bitmap_byte index := (bitmap ! bitmap_byte index) OR bitmap_mask index]"

text \<open>The two nested loops of \<^verbatim>\<open>expand_signers\<close>.\<close>

fun expand_byte :: "u8 \<Rightarrow> nat \<Rightarrow> nat list \<Rightarrow> nat list" where
  "expand_byte value byte [] = []"
| "expand_byte value byte (k # ks) =
     (if value AND push_bit k 1 \<noteq> 0 then [byte * 8 + k] else []) @ expand_byte value byte ks"

fun expand_from :: "nat \<Rightarrow> bytes \<Rightarrow> nat list" where
  "expand_from byte [] = []"
| "expand_from byte (value # bitmap) = expand_byte value byte [0..<8] @ expand_from (Suc byte) bitmap"

definition expand_signers :: "bytes \<Rightarrow> nat list" where
  "expand_signers bitmap = expand_from 0 bitmap"

definition signers_in_range :: "nat list \<Rightarrow> nat \<Rightarrow> bool" where
  "signers_in_range signers validator_count = list_all (\<lambda>i. i < validator_count) signers"

definition bitmap_too_large :: "nat \<Rightarrow> bool" where
  "bitmap_too_large n = (n > (2 ^ 64 - 1) div 8)"


section \<open>BLS12-381\<close>

text \<open>
  \<^verbatim>\<open>bls_signatures\<close> (keys, signatures, aggregation, hashing to the curve) and \<^verbatim>\<open>blstrs\<close> (the
  groups and the pairing).
\<close>

record ('sk, 'g1, 'g2, 'gt) bls =
  pk_of :: "'sk \<Rightarrow> 'g1"
  pk_bytes :: "'g1 \<Rightarrow> bytes"
  pk_from :: "bytes \<Rightarrow> 'g1 option"
  sig_bytes :: "'g2 \<Rightarrow> bytes"
  sig_from :: "bytes \<Rightarrow> 'g2 option"
  bls_sign :: "'sk \<Rightarrow> bytes \<Rightarrow> 'g2"
  bls_verify :: "'g1 \<Rightarrow> 'g2 \<Rightarrow> bytes \<Rightarrow> bool"
  bls_aggregate :: "'g2 list \<Rightarrow> 'g2 option"
  bls_hash :: "bytes \<Rightarrow> 'g2"
  g1_identity :: 'g1
  g1_add :: "'g1 \<Rightarrow> 'g1 \<Rightarrow> 'g1"
  g1_neg_generator :: 'g1
  g1_from_compressed :: "bytes \<Rightarrow> 'g1 option"
  g2_from_compressed :: "bytes \<Rightarrow> 'g2 option"
  g2_to_compressed :: "'g2 \<Rightarrow> bytes"
  pairing :: "'g1 \<Rightarrow> 'g2 \<Rightarrow> 'gt"
  gt_add :: "'gt \<Rightarrow> 'gt \<Rightarrow> 'gt"
  gt_identity :: 'gt

fun sum_keys :: "('sk, 'g1, 'g2, 'gt) bls \<Rightarrow> 'g1 \<Rightarrow> bytes list \<Rightarrow> 'g1 option" where
  "sum_keys B acc [] = Some acc"
| "sum_keys B acc (key # keys) =
     (case g1_from_compressed B key of
        None \<Rightarrow> None
      | Some pk \<Rightarrow> sum_keys B (g1_add B acc pk) keys)"

definition verify_same_message_multisig ::
  "('sk, 'g1, 'g2, 'gt) bls \<Rightarrow> 'g2 \<Rightarrow> bytes list \<Rightarrow> 'g2 \<Rightarrow> bool" where
  "verify_same_message_multisig B aggregate public_keys hash =
     (case sum_keys B (g1_identity B) public_keys of
        None \<Rightarrow> False
      | Some signer_keys \<Rightarrow>
          if length (sig_bytes B aggregate) \<noteq> 96 then False
          else case g2_from_compressed B (sig_bytes B aggregate) of
            None \<Rightarrow> False
          | Some signature \<Rightarrow>
              (case g2_from_compressed B (g2_to_compressed B hash) of
                 None \<Rightarrow> False
               | Some hash \<Rightarrow>
                   gt_add B (pairing B (g1_neg_generator B) signature)
                     (pairing B signer_keys hash) = gt_identity B))"


section \<open>Votes\<close>

datatype vote_phase = Prevote | Precommit

definition phase_tag :: "vote_phase \<Rightarrow> u8" where
  "phase_tag p = (case p of Prevote \<Rightarrow> 0 | Precommit \<Rightarrow> 1)"

record bft_vote =
  bv_height :: u64
  bv_round :: u32
  bv_phase :: vote_phase
  bv_block_hash :: string
  bv_chain_id :: string
  bv_public_key :: bytes
  bv_signature :: bytes
  bv_context_signature :: bytes
  bv_algorithm :: signature_algorithm

text \<open>\<^verbatim>\<open>u64::to_be_bytes\<close>, and a field behind its 32-bit length.\<close>

definition to_be_bytes64 :: "u64 \<Rightarrow> bytes" where
  "to_be_bytes64 w = map (\<lambda>i. of_nat (unat w div 256 ^ i)) [7, 6, 5, 4, 3, 2, 1, 0]"

definition prefixed :: "bytes \<Rightarrow> bytes" where
  "prefixed f = to_be_bytes (of_nat (length f)) @ f"

definition vote_message :: "string \<Rightarrow> bytes" where
  "vote_message block_hash = str_bytes ''glasschain-bft-vote:'' @ prefixed (str_bytes block_hash)"

definition context_message :: "string \<Rightarrow> u64 \<Rightarrow> u32 \<Rightarrow> vote_phase \<Rightarrow> string \<Rightarrow> bytes" where
  "context_message chain_id height rnd phase block_hash =
     str_bytes ''glasschain-bft-vote-ctx:'' @ prefixed (str_bytes chain_id)
     @ to_be_bytes64 height @ to_be_bytes rnd @ [phase_tag phase]
     @ prefixed (str_bytes block_hash)"

definition sign_vote_with ::
  "('sk, 'g1, 'g2, 'gt) bls \<Rightarrow> string \<Rightarrow> u64 \<Rightarrow> u32 \<Rightarrow> vote_phase \<Rightarrow> string \<Rightarrow> 'sk \<Rightarrow> bft_vote" where
  "sign_vote_with B chain_id height rnd phase block_hash signing_key =
     \<lparr>bv_height = height, bv_round = rnd, bv_phase = phase, bv_block_hash = block_hash,
      bv_chain_id = chain_id, bv_public_key = pk_bytes B (pk_of B signing_key),
      bv_signature = sig_bytes B (bls_sign B signing_key (vote_message block_hash)),
      bv_context_signature = sig_bytes B (bls_sign B signing_key
        (context_message chain_id height rnd phase block_hash)),
      bv_algorithm = Bls12381\<rparr>"

definition vote_verify :: "('sk, 'g1, 'g2, 'gt) bls \<Rightarrow> bft_vote \<Rightarrow> core_error + unit" where
  "vote_verify B v =
     (if bv_algorithm v \<noteq> Bls12381 then Inl (vote_err VoteAlgorithm)
      else if bv_context_signature v = [] then Inl (vote_err NoContextSignature)
      else res_bind (ok_or (vote_err VoteKeyInvalid) (pk_from B (bv_public_key v))) (\<lambda>public.
        res_bind (ok_or (vote_err VoteInvalid) (sig_from B (bv_signature v))) (\<lambda>signature.
        if \<not> bls_verify B public signature (vote_message (bv_block_hash v))
        then Inl (vote_err VoteRejected)
        else res_bind (ok_or (vote_err ContextInvalid) (sig_from B (bv_context_signature v)))
          (\<lambda>context.
            if \<not> bls_verify B public context (context_message (bv_chain_id v) (bv_height v)
                 (bv_round v) (bv_phase v) (bv_block_hash v))
            then Inl (vote_err ContextRejected) else Inr ()))))"


section \<open>The validator set and its certificates\<close>

record validator_info =
  vi_name :: string
  vi_public_key :: bytes
  vi_pop :: bytes

definition pop_message :: "'z crypto_scheme \<Rightarrow> validator_info \<Rightarrow> string" where
  "pop_message E v = ''glasschain-bls-pop:'' @ hex_encode E (vi_public_key v)"

record 'sk bft_provider =
  bp_validators :: "validator_info list"
  bp_signing_key :: 'sk

definition check_validator ::
  "'z crypto_scheme \<Rightarrow> ('sk, 'g1, 'g2, 'gt) bls \<Rightarrow> validator_info \<Rightarrow> core_error + unit" where
  "check_validator E B v =
     (if length (vi_public_key v) \<noteq> 48 then Inl (bft_err KeyLength)
      else res_bind (ok_or (bft_err KeyInvalid) (pk_from B (vi_public_key v))) (\<lambda>public.
        res_bind (ok_or (bft_err PopInvalid) (sig_from B (vi_pop v))) (\<lambda>pop.
          if \<not> bls_verify B public pop (str_bytes (pop_message E v))
          then Inl (bft_err PopRejected) else Inr ())))"

definition bft_new ::
  "'z crypto_scheme \<Rightarrow> ('sk, 'g1, 'g2, 'gt) bls \<Rightarrow> validator_info list \<Rightarrow> 'sk \<Rightarrow>
     core_error + 'sk bft_provider" where
  "bft_new E B validators signing_key =
     res_bind (try_all (check_validator E B) validators) (\<lambda>_.
       Inr \<lparr>bp_validators = validators, bp_signing_key = signing_key\<rparr>)"

definition bft_public_key :: "('sk, 'g1, 'g2, 'gt) bls \<Rightarrow> 'sk bft_provider \<Rightarrow> bytes" where
  "bft_public_key B P = pk_bytes B (pk_of B (bp_signing_key P))"

definition validator_count :: "'sk bft_provider \<Rightarrow> nat" where
  "validator_count P = length (bp_validators P)"

definition quorum :: "'sk bft_provider \<Rightarrow> nat" where
  "quorum P = quorum_threshold (validator_count P)"

definition local_index :: "('sk, 'g1, 'g2, 'gt) bls \<Rightarrow> 'sk bft_provider \<Rightarrow> nat option" where
  "local_index B P = position (\<lambda>v. vi_public_key v = bft_public_key B P) (bp_validators P)"

definition attest ::
  "'z env_scheme \<Rightarrow> ('sk, 'g1, 'g2, 'gt) bls \<Rightarrow> 'sk bft_provider \<Rightarrow> block \<Rightarrow> commit_notification" where
  "attest E B P b =
     (let b = b\<lparr>b_hash := calculate_hash E b\<rparr>;
          signature = bls_sign B (bp_signing_key P) (vote_message (b_hash b));
          empty = replicate (bitmap_len (validator_count P)) 0;
          bitmap = (case local_index B P of None \<Rightarrow> empty | Some i \<Rightarrow> bitmap_set empty i)
      in \<lparr>cn_block = b, cn_certificate =
           \<lparr>qc_block_index = b_index b, qc_block_hash = b_hash b, qc_signers_bitmap = bitmap,
            qc_aggregate_signature = sig_bytes B signature, qc_algorithm = Bls12381\<rparr>\<rparr>)"

definition sign_vote ::
  "('sk, 'g1, 'g2, 'gt) bls \<Rightarrow> 'sk bft_provider \<Rightarrow> string \<Rightarrow> u64 \<Rightarrow> u32 \<Rightarrow> vote_phase \<Rightarrow> string \<Rightarrow> bft_vote" where
  "sign_vote B P chain_id height rnd phase block_hash =
     sign_vote_with B chain_id height rnd phase block_hash (bp_signing_key P)"

definition verify_vote ::
  "('sk, 'g1, 'g2, 'gt) bls \<Rightarrow> 'sk bft_provider \<Rightarrow> bft_vote \<Rightarrow> core_error + nat" where
  "verify_vote B P v =
     res_bind (vote_verify B v) (\<lambda>_. ok_or (bft_err VoterOutsideSet)
       (position (\<lambda>i. vi_public_key i = bv_public_key v) (bp_validators P)))"

text \<open>One turn of the loop of \<^verbatim>\<open>aggregate_votes\<close>: the bitmap and the distinct voters' signatures.\<close>

definition aggregate_step ::
  "('sk, 'g1, 'g2, 'gt) bls \<Rightarrow> 'sk bft_provider \<Rightarrow> bytes \<times> 'g2 list \<Rightarrow> bft_vote \<Rightarrow>
     core_error + bytes \<times> 'g2 list" where
  "aggregate_step B P st v =
     (case st of (bitmap, signatures) \<Rightarrow>
        res_bind (verify_vote B P v) (\<lambda>index.
          if \<not> bitmap_contains bitmap index
          then res_bind (ok_or (bft_err VoteSignatureInvalid) (sig_from B (bv_signature v)))
            (\<lambda>s. Inr (bitmap_set bitmap index, signatures @ [s]))
          else Inr (bitmap, signatures)))"

definition aggregate_votes ::
  "('sk, 'g1, 'g2, 'gt) bls \<Rightarrow> 'sk bft_provider \<Rightarrow> bft_vote list \<Rightarrow> core_error + bytes \<times> bytes" where
  "aggregate_votes B P votes =
     res_bind (try_fold (aggregate_step B P)
       (replicate (bitmap_len (validator_count P)) 0, []) votes) (\<lambda>(bitmap, signatures).
     res_bind (ok_or (bft_err AggregationFailed) (bls_aggregate B signatures)) (\<lambda>aggregate.
       Inr (bitmap, sig_bytes B aggregate)))"

definition verify_certificate ::
  "('sk, 'g1, 'g2, 'gt) bls \<Rightarrow> 'sk bft_provider \<Rightarrow> quorum_certificate \<Rightarrow> block \<Rightarrow> core_error + unit" where
  "verify_certificate B P c b =
     res_bind (qc_validate c b) (\<lambda>_.
     if is_degenerate c then Inl (bft_err DegenerateCertificate)
     else if bitmap_too_large (length (qc_signers_bitmap c)) then Inl (bft_err BitmapTooLarge)
     else let signer_bits = expand_signers (qc_signers_bitmap c) in
       if \<not> meets_quorum (length signer_bits) (validator_count P) then Inl (bft_err QuorumMissed)
       else if \<not> signers_in_range signer_bits (validator_count P)
       then Inl (bft_err BitmapOutsideSet)
       else
         let public_keys = map (\<lambda>i. vi_public_key (bp_validators P ! i))
             (filter (\<lambda>i. i < validator_count P) signer_bits)
         in res_bind (ok_or (bft_err AggregateInvalid) (sig_from B (qc_aggregate_signature c)))
           (\<lambda>aggregate.
             if \<not> verify_same_message_multisig B aggregate public_keys
                  (bls_hash B (vote_message (b_hash b)))
             then Inl (bft_err AggregateRejected) else Inr ()))"


section \<open>The consensus provider\<close>

definition bft_propose_block ::
  "'z env_scheme \<Rightarrow> ('sk, 'g1, 'g2, 'gt) bls \<Rightarrow> 'sk bft_provider \<Rightarrow> u64 \<Rightarrow> u64 \<Rightarrow> transaction list \<Rightarrow>
     block \<Rightarrow> core_error + commit_notification" where
  "bft_propose_block E B P now index txs previous =
     (let n = attest E B P (with_write_set E now index txs (b_hash previous) [])
      in res_bind (cn_validate n) (\<lambda>_. Inr n))"

definition bft_validate_block :: "'z env_scheme \<Rightarrow> block \<Rightarrow> block \<Rightarrow> core_error + unit" where
  "bft_validate_block E b previous =
     map_err (\<lambda>e. InvalidBlock (DoesNotChain e)) (chains_to E b previous)"


section \<open>Equivocation proofs\<close>

record equivocation_proof =
  ep_height :: u64
  ep_round :: u32
  ep_phase :: vote_phase
  ep_public_key :: bytes
  ep_first_vote :: bft_vote
  ep_second_vote :: bft_vote

definition proof_context_ok :: "equivocation_proof \<Rightarrow> bft_vote \<Rightarrow> bool" where
  "proof_context_ok p v =
     (\<not> (bv_height v \<noteq> ep_height p \<or> bv_round v \<noteq> ep_round p \<or> bv_phase v \<noteq> ep_phase p
        \<or> bv_public_key v \<noteq> ep_public_key p))"

definition proof_verify :: "('sk, 'g1, 'g2, 'gt) bls \<Rightarrow> equivocation_proof \<Rightarrow> core_error + unit" where
  "proof_verify B p =
     res_bind (vote_verify B (ep_first_vote p)) (\<lambda>_.
     res_bind (vote_verify B (ep_second_vote p)) (\<lambda>_.
     if bv_block_hash (ep_first_vote p) = bv_block_hash (ep_second_vote p)
     then Inl (vote_err EquivocationSameHash)
     else res_bind (try_all (\<lambda>v. if \<not> proof_context_ok p v
         then Inl (vote_err EquivocationContext) else Inr ())
         [ep_first_vote p, ep_second_vote p]) (\<lambda>_.
       if bv_chain_id (ep_first_vote p) \<noteq> bv_chain_id (ep_second_vote p)
       then Inl (vote_err EquivocationChains) else Inr ())))"


section \<open>Arithmetic\<close>

lemma quorum_threshold_bounds:
  "1 \<le> quorum_threshold n" "0 < n \<Longrightarrow> quorum_threshold n \<le> n"
proof -
  show "1 \<le> quorum_threshold n" by (simp add: quorum_threshold_def)
  assume "0 < n"
  have "min (n * 2) (2 ^ 64 - 1) div 3 \<le> (n * 2) div 3" by (rule div_le_mono) simp
  also have "\<dots> + 1 \<le> n" using \<open>0 < n\<close> by presburger
  finally show "quorum_threshold n \<le> n" by (simp add: quorum_threshold_def)
qed

lemma quorum_threshold_supermajority:
  assumes "n \<le> (2 ^ 64 - 1) div 2"
  shows "2 * n < 3 * quorum_threshold n"
proof -
  have "n * 2 \<le> 2 ^ 64 - 1" using assms by simp
  then have "quorum_threshold n = n * 2 div 3 + 1" by (simp add: quorum_threshold_def min_def)
  then show ?thesis by simp
qed

lemma bitmap_byte_less: "i < n \<Longrightarrow> bitmap_byte i < bitmap_len n"
  by (auto simp: bitmap_byte_def bitmap_len_def)

lemma bitmap_len_le: "bitmap_len n \<le> n"
proof (cases "n mod 8 = 0")
  case False
  then have "0 < n" by (cases n) auto
  then have "n div 8 < n" by simp
  with False show ?thesis by (simp add: bitmap_len_def)
qed (simp add: bitmap_len_def)

lemma bitmap_contains_bit: "bitmap_contains bm i \<longleftrightarrow> bit (bm ! (i div 8)) (i mod 8)"
  by (simp add: bitmap_contains_def bitmap_byte_def bitmap_mask_def bit_iff_and_push_bit_not_eq_0)

lemma length_bitmap_set [simp]: "length (bitmap_set bm i) = length bm"
  by (simp add: bitmap_set_def)

lemma bitmap_contains_set:
  assumes "bitmap_byte i < length bm"
  shows "bitmap_contains (bitmap_set bm i) j \<longleftrightarrow> j = i \<or> bitmap_contains bm j"
proof (cases "j div 8 = i div 8")
  case True
  have eq: "j mod 8 = i mod 8 \<longleftrightarrow> j = i" using True by (metis div_mult_mod_eq)
  have "bit (bitmap_mask i) (j mod 8) \<longleftrightarrow> j = i"
    unfolding bitmap_mask_def eq [symmetric]
    by (auto simp: bit_push_bit_iff bit_1_iff simp del: push_bit_of_1)
  with True assms show ?thesis
    by (auto simp: bitmap_contains_bit bitmap_set_def bitmap_byte_def bit_or_iff)
next
  case False
  then show ?thesis using assms
    by (auto simp: bitmap_contains_bit bitmap_set_def bitmap_byte_def)
qed

lemma bitmap_contains_zero: "bitmap_byte i < k \<Longrightarrow> \<not> bitmap_contains (replicate k 0) i"
  by (simp add: bitmap_contains_bit bitmap_byte_def)

subsection \<open>Expanding a bitmap\<close>

lemma expand_byte_filter:
  "expand_byte v byte ks = map (\<lambda>k. byte * 8 + k) (filter (\<lambda>k. bit v k) ks)"
  by (induction ks) (auto simp: bit_iff_and_push_bit_not_eq_0)

lemma upt_split8: "[0..<8 * Suc n] = [0..<8] @ map ((+) 8) [0..<8 * n]"
proof -
  have "[0..<8 * Suc n] = [0..<8] @ [8..<8 + 8 * n]"
    using upt_add_eq_append [of 0 8 "8 * n"] by simp
  also have "[8..<8 + 8 * n] = map (\<lambda>i. i + 8) [0..<8 * n]"
    using map_add_upt [of 8 "8 * n"] by (simp add: add.commute [of 8])
  also have "\<dots> = map ((+) 8) [0..<8 * n]" by (simp add: add.commute)
  finally show ?thesis .
qed

lemma expand_from_filter:
  "expand_from byte bm = map (\<lambda>i. byte * 8 + i) (filter (bitmap_contains bm) [0..<8 * length bm])"
proof (induction bm arbitrary: byte)
  case (Cons v bm)
  have low: "filter (bitmap_contains (v # bm)) [0..<8] = filter (\<lambda>k. bit v k) [0..<8]"
    by (rule filter_cong) (auto simp: bitmap_contains_bit)
  have high: "bitmap_contains (v # bm) (8 + i) = bitmap_contains bm i" for i
    by (simp add: bitmap_contains_bit)
  have "filter (bitmap_contains (v # bm)) [0..<8 * length (v # bm)] =
      filter (\<lambda>k. bit v k) [0..<8] @ map ((+) 8) (filter (bitmap_contains bm) [0..<8 * length bm])"
    unfolding list.size(4) One_nat_def add_Suc_right add_0_right upt_split8
    by (simp only: filter_append low filter_map comp_def high)
  then show ?case
    by (simp only: expand_from.simps Cons.IH expand_byte_filter map_append map_map comp_def)
      (simp add: algebra_simps)
qed simp

lemma expand_signers_filter:
  "expand_signers bm = filter (bitmap_contains bm) [0..<8 * length bm]"
  by (simp add: expand_signers_def expand_from_filter)

definition signer_set :: "bytes \<Rightarrow> nat set" where
  "signer_set bm = {i. i < 8 * length bm \<and> bitmap_contains bm i}"

lemma expand_signers_set:
  "set (expand_signers bm) = signer_set bm" "distinct (expand_signers bm)"
  "sorted_wrt (<) (expand_signers bm)" "length (expand_signers bm) = card (signer_set bm)"
proof -
  show s: "set (expand_signers bm) = signer_set bm" and d: "distinct (expand_signers bm)"
    by (auto simp: expand_signers_filter signer_set_def)
  show "sorted_wrt (<) (expand_signers bm)"
    by (simp add: expand_signers_filter sorted_wrt_filter)
  show "length (expand_signers bm) = card (signer_set bm)"
    using distinct_card [OF d] s by simp
qed


section \<open>Certificates\<close>

lemma verify_certificate_Inr:
  assumes "verify_certificate B P c b = Inr ()"
  shows "qc_block_index c = b_index b" "qc_block_hash c = b_hash b" "\<not> is_degenerate c"
    and "signer_set (qc_signers_bitmap c) \<subseteq> {..<validator_count P}"
    and "quorum P \<le> card (signer_set (qc_signers_bitmap c))"
    and "\<exists>a. sig_from B (qc_aggregate_signature c) = Some a
      \<and> verify_same_message_multisig B a
          (map (\<lambda>i. vi_public_key (bp_validators P ! i)) (expand_signers (qc_signers_bitmap c)))
          (bls_hash B (vote_message (b_hash b)))"
proof -
  let ?s = "expand_signers (qc_signers_bitmap c)"
  from assms have *: "qc_validate c b = Inr ()" "\<not> is_degenerate c"
    "meets_quorum (length ?s) (validator_count P)" "signers_in_range ?s (validator_count P)"
    "\<exists>a. sig_from B (qc_aggregate_signature c) = Some a
      \<and> verify_same_message_multisig B a
          (map (\<lambda>i. vi_public_key (bp_validators P ! i)) (filter (\<lambda>i. i < validator_count P) ?s))
          (bls_hash B (vote_message (b_hash b)))"
    by (auto simp: verify_certificate_def res_simps Let_def split: if_splits)
  from *(1) show "qc_block_index c = b_index b" "qc_block_hash c = b_hash b"
    by (simp_all add: qc_validate_Inr_iff)
  show "\<not> is_degenerate c" by (rule *(2))
  have range: "\<forall>i \<in> set ?s. i < validator_count P" using *(4) by (simp add: signers_in_range_def list_all_iff)
  then show "signer_set (qc_signers_bitmap c) \<subseteq> {..<validator_count P}"
    by (auto simp: expand_signers_set(1))
  show "quorum P \<le> card (signer_set (qc_signers_bitmap c))"
    using *(3) by (simp add: meets_quorum_def quorum_def expand_signers_set(4))
  have "filter (\<lambda>i. i < validator_count P) ?s = ?s" using range by (simp add: filter_id_conv)
  with *(5) show "\<exists>a. sig_from B (qc_aggregate_signature c) = Some a
      \<and> verify_same_message_multisig B a (map (\<lambda>i. vi_public_key (bp_validators P ! i)) ?s)
          (bls_hash B (vote_message (b_hash b)))" by simp
qed

text \<open>A certificate whose form is right stands or falls with its aggregate signature.\<close>

lemma verify_certificate_form:
  assumes "qc_block_index c = b_index b" "qc_block_hash c = b_hash b" "qc_algorithm c = Bls12381"
    and "qc_signers_bitmap c \<noteq> []" "qc_aggregate_signature c \<noteq> []"
    and "\<not> bitmap_too_large (length (qc_signers_bitmap c))"
    and "quorum P \<le> length (expand_signers (qc_signers_bitmap c))"
    and "\<forall>i \<in> set (expand_signers (qc_signers_bitmap c)). i < validator_count P"
    and "sig_from B (qc_aggregate_signature c) = Some a"
  shows "verify_certificate B P c b = (if verify_same_message_multisig B a
      (map (\<lambda>i. vi_public_key (bp_validators P ! i)) (expand_signers (qc_signers_bitmap c)))
      (bls_hash B (vote_message (b_hash b))) then Inr () else Inl (bft_err AggregateRejected))"
proof -
  have "qc_validate c b = Inr ()" using assms(1-3,5) by (simp add: qc_validate_Inr_iff)
  moreover have "filter (\<lambda>i. i < validator_count P) (expand_signers (qc_signers_bitmap c))
      = expand_signers (qc_signers_bitmap c)" using assms(8) by (simp add: filter_id_conv)
  moreover have "signers_in_range (expand_signers (qc_signers_bitmap c)) (validator_count P)"
    using assms(8) by (simp add: signers_in_range_def list_all_iff)
  ultimately show ?thesis
    using assms(4,6,7,9)
    by (simp add: verify_certificate_def is_degenerate_def meets_quorum_def quorum_def)
qed

lemmas verify_certificate_intro = trans [OF verify_certificate_form if_P]

text \<open>
  C4. Quorum intersection: two certificates that verify against the same validator set, for
  whatever two blocks, name more than a third of the validators in common.  With fewer than a
  third of them faulty, a correct validator signed both.
\<close>

theorem certificates_intersect:
  assumes "verify_certificate B P c b = Inr ()" "verify_certificate B P c' b' = Inr ()"
    and "validator_count P \<le> (2 ^ 64 - 1) div 2"
  shows "validator_count P <
    3 * card (signer_set (qc_signers_bitmap c) \<inter> signer_set (qc_signers_bitmap c'))"
proof -
  let ?A = "signer_set (qc_signers_bitmap c)" and ?B = "signer_set (qc_signers_bitmap c')"
  note v = verify_certificate_Inr [OF assms(1)] and v' = verify_certificate_Inr [OF assms(2)]
  have fin: "finite ?A" "finite ?B" using v(4) v'(4) finite_subset by blast+
  have "card (?A \<union> ?B) \<le> card {..<validator_count P}"
    using v(4) v'(4) by (intro card_mono) auto
  moreover have "card (?A \<union> ?B) + card (?A \<inter> ?B) = card ?A + card ?B"
    using card_Un_Int [OF fin] by simp
  ultimately show ?thesis
    using v(5) v'(5) quorum_threshold_supermajority [OF assms(3)] by (simp add: quorum_def)
qed


section \<open>Aggregation\<close>

text \<open>
  What the certificates rely on of the BLS crates: encodings are read back, signatures verify
  under their own key, and the pairing is additive in its first argument and over aggregation.
\<close>

definition gt_sum :: "('sk, 'g1, 'g2, 'gt) bls \<Rightarrow> 'gt list \<Rightarrow> 'gt" where
  "gt_sum B xs = fold (gt_add B) xs (gt_identity B)"

definition gt_laws :: "('sk, 'g1, 'g2, 'gt) bls \<Rightarrow> bool" where
  "gt_laws B \<longleftrightarrow>
     (\<forall>a b c. gt_add B (gt_add B a b) c = gt_add B a (gt_add B b c))
     \<and> (\<forall>a b. gt_add B a b = gt_add B b a) \<and> (\<forall>a. gt_add B (gt_identity B) a = a)"

definition encoding_laws :: "('sk, 'g1, 'g2, 'gt) bls \<Rightarrow> bool" where
  "encoding_laws B \<longleftrightarrow>
     (\<forall>k. pk_from B (pk_bytes B k) = Some k \<and> g1_from_compressed B (pk_bytes B k) = Some k)
     \<and> (\<forall>s. sig_from B (sig_bytes B s) = Some s \<and> g2_from_compressed B (sig_bytes B s) = Some s
          \<and> length (sig_bytes B s) = 96)
     \<and> (\<forall>h. g2_from_compressed B (g2_to_compressed B h) = Some h)"

definition pairing_laws :: "('sk, 'g1, 'g2, 'gt) bls \<Rightarrow> bool" where
  "pairing_laws B \<longleftrightarrow>
     (\<forall>a b h. pairing B (g1_add B a b) h = gt_add B (pairing B a h) (pairing B b h))
     \<and> (\<forall>h. pairing B (g1_identity B) h = gt_identity B)
     \<and> (\<forall>ss. ss \<noteq> [] \<longrightarrow> (\<exists>a. bls_aggregate B ss = Some a
          \<and> pairing B (g1_neg_generator B) a = gt_sum B (map (pairing B (g1_neg_generator B)) ss)))
     \<and> (\<forall>k m. gt_add B (pairing B (g1_neg_generator B) (bls_sign B k m))
          (pairing B (pk_of B k) (bls_hash B m)) = gt_identity B)
     \<and> (\<forall>k m. bls_verify B (pk_of B k) (bls_sign B k m) m)"

definition bls_laws :: "('sk, 'g1, 'g2, 'gt) bls \<Rightarrow> bool" where
  "bls_laws B \<longleftrightarrow> gt_laws B \<and> encoding_laws B \<and> pairing_laws B"

lemma gt_add_simps:
  assumes "gt_laws B"
  shows "gt_add B (gt_add B a b) c = gt_add B a (gt_add B b c)" "gt_add B a b = gt_add B b a"
    "gt_add B (gt_identity B) a = a" "gt_add B a (gt_identity B) = a"
    "gt_add B a (gt_add B b c) = gt_add B b (gt_add B a c)"
  using assms unfolding gt_laws_def by metis+

lemma gt_sum_acc:
  assumes "gt_laws B"
  shows "fold (gt_add B) xs (gt_add B a y) = gt_add B a (fold (gt_add B) xs y)"
proof (induction xs arbitrary: y)
  case (Cons x xs)
  have "gt_add B x (gt_add B a y) = gt_add B a (gt_add B x y)" by (rule gt_add_simps(5) [OF assms])
  then show ?case using Cons.IH [of "gt_add B x y"] by simp
qed simp

lemma gt_sum_simps:
  assumes "gt_laws B"
  shows "gt_sum B [] = gt_identity B" "gt_sum B (x # xs) = gt_add B x (gt_sum B xs)"
  using gt_sum_acc [OF assms, of xs x "gt_identity B"]
  by (simp_all add: gt_sum_def gt_add_simps(4) [OF assms])

lemma gt_sum_permute:
  assumes "gt_laws B" "mset xs = mset ys"
  shows "gt_sum B xs = gt_sum B ys"
  unfolding gt_sum_def
  by (subst fold_multiset_equiv [OF _ assms(2)]) (auto simp: gt_add_simps(5) [OF assms(1)])

lemma gt_sum_pointwise:
  assumes "gt_laws B"
  shows "gt_add B (gt_sum B (map f xs)) (gt_sum B (map g xs)) = gt_sum B (map (\<lambda>x. gt_add B (f x) (g x)) xs)"
proof (induction xs)
  case (Cons x xs)
  have swap: "gt_add B (gt_add B a b) (gt_add B c d) = gt_add B (gt_add B a c) (gt_add B b d)" for a b c d
    unfolding gt_add_simps(1) [OF assms] gt_add_simps(5) [OF assms, of b c d] ..
  show ?case unfolding list.map gt_sum_simps [OF assms] swap Cons.IH ..
qed (simp add: gt_sum_simps [OF assms] gt_add_simps(3) [OF assms])

lemma gt_sum_identity:
  assumes "gt_laws B"
  shows "gt_sum B (map (\<lambda>_. gt_identity B) xs) = gt_identity B"
  by (induction xs) (simp_all add: gt_sum_simps [OF assms] gt_add_simps(3) [OF assms])

lemma sum_keys_pairing:
  assumes "gt_laws B" "pairing_laws B" "\<forall>k \<in> set keys. g1_from_compressed B (f k) = Some (d k)"
  shows "\<exists>s. sum_keys B acc (map f keys) = Some s
    \<and> pairing B s h = gt_add B (pairing B acc h) (gt_sum B (map (\<lambda>k. pairing B (d k) h) keys))"
  using assms(3)
proof (induction keys arbitrary: acc)
  case Nil
  then show ?case by (simp add: gt_sum_simps gt_add_simps assms(1))
next
  case (Cons k keys)
  then obtain s where "sum_keys B (g1_add B acc (d k)) (map f keys) = Some s"
    "pairing B s h = gt_add B (pairing B (g1_add B acc (d k)) h)
      (gt_sum B (map (\<lambda>k. pairing B (d k) h) keys))" by fastforce
  moreover have "pairing B (g1_add B acc (d k)) h = gt_add B (pairing B acc h) (pairing B (d k) h)"
    using assms(2) by (simp add: pairing_laws_def)
  ultimately show ?case
    using Cons.prems by (simp add: gt_sum_simps [OF assms(1)] gt_add_simps(1) [OF assms(1)])
qed

lemma aggregate_pairing:
  assumes "pairing_laws B" "ss \<noteq> []"
  shows "\<exists>a. bls_aggregate B ss = Some a"
    and "bls_aggregate B ss = Some a \<Longrightarrow> pairing B (g1_neg_generator B) a
      = gt_sum B (map (pairing B (g1_neg_generator B)) ss)"
proof -
  have "\<forall>ss. ss \<noteq> [] \<longrightarrow> (\<exists>a. bls_aggregate B ss = Some a
      \<and> pairing B (g1_neg_generator B) a = gt_sum B (map (pairing B (g1_neg_generator B)) ss))"
    using assms(1) unfolding pairing_laws_def by (elim conjE)
  with assms(2) obtain a' where "bls_aggregate B ss = Some a'"
    "pairing B (g1_neg_generator B) a' = gt_sum B (map (pairing B (g1_neg_generator B)) ss)"
    by blast
  then show "\<exists>a. bls_aggregate B ss = Some a"
    and "bls_aggregate B ss = Some a \<Longrightarrow> pairing B (g1_neg_generator B) a
      = gt_sum B (map (pairing B (g1_neg_generator B)) ss)" by simp_all
qed

text \<open>
  The multisignature check over one signature per key, in any order and each on a message of its own:
  it accepts when the signatures' mismatches with the checked message cancel.
\<close>

definition sig_mismatch :: "('sk, 'g1, 'g2, 'gt) bls \<Rightarrow> 'sk \<Rightarrow> bytes \<Rightarrow> bytes \<Rightarrow> 'gt" where
  "sig_mismatch B sk m' m = gt_add B (pairing B (g1_neg_generator B) (bls_sign B sk m')) (pairing B (pk_of B sk) (bls_hash B m))"

lemma sig_mismatch_none: "bls_laws B \<Longrightarrow> sig_mismatch B sk m m = gt_identity B"
  by (simp add: sig_mismatch_def bls_laws_def pairing_laws_def)

lemma sig_mismatch_identity:
  assumes "bls_laws B" "sig_mismatch B sk m' m = gt_identity B"
  shows "pairing B (pk_of B sk) (bls_hash B m) = pairing B (pk_of B sk) (bls_hash B m')"
proof -
  have gt: "gt_laws B" using assms(1) by (simp add: bls_laws_def)
  let ?s = "pairing B (g1_neg_generator B) (bls_sign B sk m')" and ?e = "\<lambda>m. pairing B (pk_of B sk) (bls_hash B m)"
  have "gt_add B ?s (?e m) = gt_identity B" "gt_add B ?s (?e m') = gt_identity B"
    using assms(2) sig_mismatch_none [OF assms(1), of sk m'] by (simp_all add: sig_mismatch_def)
  then show ?thesis by (metis gt_add_simps(1-3) [OF gt])
qed

lemma multisig_iff:
  assumes "bls_laws B" "ix \<noteq> []" "mset bits = mset ix"
    and "\<forall>i \<in> set ix. key i = pk_bytes B (pk_of B (sk i))"
    and "bls_aggregate B (map (\<lambda>i. bls_sign B (sk i) (ms i)) ix) = Some a"
  shows "verify_same_message_multisig B a (map key bits) (bls_hash B m) \<longleftrightarrow>
    gt_sum B (map (\<lambda>i. sig_mismatch B (sk i) (ms i) m) ix) = gt_identity B"
proof -
  note laws = assms(1) [unfolded bls_laws_def]
  then have gt: "gt_laws B" and enc: "encoding_laws B" and pair: "pairing_laws B" by auto
  let ?h = "bls_hash B m" and ?n = "g1_neg_generator B"
  have "set bits = set ix" using assms(3) by (rule mset_eq_setD)
  then have "\<forall>i \<in> set bits. g1_from_compressed B (key i) = Some (pk_of B (sk i))"
    using assms(4) enc by (simp add: encoding_laws_def)
  from sum_keys_pairing [OF gt pair this, of "g1_identity B" ?h] obtain s where
    s: "sum_keys B (g1_identity B) (map key bits) = Some s"
    "pairing B s ?h = gt_sum B (map (\<lambda>i. pairing B (pk_of B (sk i)) ?h) bits)"
    using pair by (auto simp: pairing_laws_def gt_add_simps(3) [OF gt])
  have "gt_sum B (map (\<lambda>i. pairing B (pk_of B (sk i)) ?h) bits)
      = gt_sum B (map (\<lambda>i. pairing B (pk_of B (sk i)) ?h) ix)"
    by (rule gt_sum_permute [OF gt]) (simp only: mset_map assms(3))
  moreover have "pairing B ?n a = gt_sum B (map (\<lambda>i. pairing B ?n (bls_sign B (sk i) (ms i))) ix)"
  proof -
    have "map (\<lambda>i. bls_sign B (sk i) (ms i)) ix \<noteq> []" using assms(2) by simp
    from aggregate_pairing(2) [OF pair this] assms(5) show ?thesis by (simp add: comp_def)
  qed
  ultimately have "gt_add B (pairing B ?n a) (pairing B s ?h) = gt_sum B (map (\<lambda>i. sig_mismatch B (sk i) (ms i) m) ix)"
    by (simp only: s(2) gt_sum_pointwise [OF gt] sig_mismatch_def)
  then show ?thesis using enc s(1) by (simp add: verify_same_message_multisig_def encoding_laws_def)
qed

lemma gt_sum_all_identity:
  assumes "gt_laws B" "\<forall>x \<in> set xs. f x = gt_identity B"
  shows "gt_sum B (map f xs) = gt_identity B"
  using gt_sum_identity [OF assms(1), of xs] assms(2) by (metis (no_types, lifting) map_cong)

lemma gt_sum_one_deviates:
  assumes "gt_laws B" "distinct xs" "j \<in> set xs" "\<forall>x \<in> set xs - {j}. f x = gt_identity B"
  shows "gt_sum B (map f xs) = f j"
proof -
  have "mset xs = mset (j # remove1 j xs)" using assms(3) by simp
  then have "gt_sum B (map f xs) = gt_sum B (map f (j # remove1 j xs))"
    by (intro gt_sum_permute [OF assms(1)]) (simp only: mset_map)
  moreover have "gt_sum B (map f (remove1 j xs)) = gt_identity B"
    using assms(2,4) by (intro gt_sum_all_identity [OF assms(1)]) simp
  ultimately show ?thesis by (simp add: gt_sum_simps(2) [OF assms(1)] gt_add_simps(4) [OF assms(1)])
qed

text \<open>Signed votes of one context verify.\<close>

lemma vote_verify_signed:
  assumes "bls_laws B"
  shows "vote_verify B (sign_vote_with B cid h r ph hash sk) = Inr ()"
proof -
  have "sig_bytes B x \<noteq> []" for x
    using assms by (auto simp: bls_laws_def encoding_laws_def dest!: spec [of _ x])
  then show ?thesis
    using assms by (simp add: vote_verify_def sign_vote_with_def bls_laws_def encoding_laws_def
        pairing_laws_def)
qed


text \<open>A vote for a block hash by a member of the set, in whatever context.\<close>

definition vote_for ::
  "('sk, 'g1, 'g2, 'gt) bls \<Rightarrow> 'sk bft_provider \<Rightarrow> string \<Rightarrow> bft_vote \<Rightarrow> bool" where
  "vote_for B P hash v \<longleftrightarrow> (\<exists>cid h r ph sk. v = sign_vote_with B cid h r ph hash sk
     \<and> pk_bytes B (pk_of B sk) \<in> vi_public_key ` set (bp_validators P))"

lemma vote_forI:
  "pk_bytes B (pk_of B sk) \<in> vi_public_key ` set (bp_validators P) \<Longrightarrow>
     vote_for B P hash (sign_vote_with B cid h r ph hash sk)"
  unfolding vote_for_def by blast

lemma verify_vote_Inr:
  "verify_vote B P v = Inr i \<Longrightarrow>
     vote_verify B v = Inr () \<and> i < validator_count P \<and> vi_public_key (bp_validators P ! i) = bv_public_key v
     \<and> position (\<lambda>w. vi_public_key w = bv_public_key v) (bp_validators P) = Some i"
  by (auto simp: verify_vote_def res_simps validator_count_def dest!: position_SomeD)

lemma verify_vote_signed:
  assumes "bls_laws B" "vote_for B P hash v"
  shows "\<exists>i sk. verify_vote B P v = Inr i \<and> bv_public_key v = pk_bytes B (pk_of B sk)
    \<and> sig_from B (bv_signature v) = Some (bls_sign B sk (vote_message hash))"
proof -
  from assms(2) obtain cid h r ph sk where v: "v = sign_vote_with B cid h r ph hash sk"
    "pk_bytes B (pk_of B sk) \<in> vi_public_key ` set (bp_validators P)" by (auto simp: vote_for_def)
  then have "position (\<lambda>i. vi_public_key i = bv_public_key v) (bp_validators P) \<noteq> None"
    by (auto simp: position_None_iff sign_vote_with_def)
  then obtain i where "verify_vote B P v = Inr i"
    using vote_verify_signed [OF assms(1)] v(1) by (auto simp: verify_vote_def)
  moreover have "sig_from B (bv_signature v) = Some (bls_sign B sk (vote_message hash))"
    using assms(1) v(1) by (simp add: sign_vote_with_def bls_laws_def encoding_laws_def)
  ultimately show ?thesis using v(1) by (auto simp: sign_vote_with_def)
qed

text \<open>The state of the aggregation when each key votes for one hash, given by \<open>hash\<close>.\<close>

definition aggregated ::
  "('sk, 'g1, 'g2, 'gt) bls \<Rightarrow> 'sk bft_provider \<Rightarrow> (bytes \<Rightarrow> string) \<Rightarrow> bft_vote list \<Rightarrow> bytes \<times> 'g2 list \<Rightarrow> bool" where
  "aggregated B P hash vs st \<longleftrightarrow>
     (case st of (bm, sigs) \<Rightarrow> length bm = bitmap_len (validator_count P)
       \<and> (\<exists>ix sk. distinct (map (\<lambda>i. vi_public_key (bp_validators P ! i)) ix) \<and> signer_set bm = set ix
          \<and> (\<forall>i \<in> set ix. position (\<lambda>v. vi_public_key v = vi_public_key (bp_validators P ! i)) (bp_validators P) = Some i
            \<and> i < validator_count P \<and> vi_public_key (bp_validators P ! i) = pk_bytes B (pk_of B (sk i)))
          \<and> sigs = map (\<lambda>i. bls_sign B (sk i) (vote_message (hash (vi_public_key (bp_validators P ! i))))) ix
          \<and> (\<lambda>i. vi_public_key (bp_validators P ! i)) ` set ix = bv_public_key ` set vs))"

lemma signer_set_insert:
  assumes "i < n" "length bm = bitmap_len n"
  shows "signer_set (bitmap_set bm i) = insert i (signer_set bm)"
proof -
  have b: "bitmap_byte i < length bm" using bitmap_byte_less [OF assms(1)] assms(2) by simp
  then have "i < 8 * length bm" by (auto simp: bitmap_byte_def)
  with bitmap_contains_set [OF b] show ?thesis by (auto simp: signer_set_def)
qed

lemma signer_set_contains: "i < n \<Longrightarrow> length bm = bitmap_len n \<Longrightarrow> bitmap_contains bm i \<longleftrightarrow> i \<in> signer_set bm"
  using bitmap_byte_less [of i n] by (auto simp: signer_set_def bitmap_byte_def)

lemma aggregate_step_aggregated:
  assumes "bls_laws B" "vote_for B P (hash (bv_public_key v)) v" "aggregated B P hash vs st"
  shows "\<exists>st'. aggregate_step B P st v = Inr st' \<and> aggregated B P hash (vs @ [v]) st'"
proof -
  obtain bm sigs where st: "st = (bm, sigs)" by (cases st)
  let ?key = "\<lambda>i. vi_public_key (bp_validators P ! i)"
  from assms(3) obtain ix sk where inv: "length bm = bitmap_len (validator_count P)" "distinct (map ?key ix)"
    "signer_set bm = set ix" "\<forall>i \<in> set ix. position (\<lambda>v. vi_public_key v = ?key i) (bp_validators P) = Some i
      \<and> i < validator_count P \<and> ?key i = pk_bytes B (pk_of B (sk i))"
    "sigs = map (\<lambda>i. bls_sign B (sk i) (vote_message (hash (?key i)))) ix" "?key ` set ix = bv_public_key ` set vs"
    unfolding aggregated_def st prod.case by blast
  from verify_vote_signed [OF assms(1,2)] obtain i k where v: "verify_vote B P v = Inr i"
    "bv_public_key v = pk_bytes B (pk_of B k)"
    "sig_from B (bv_signature v) = Some (bls_sign B k (vote_message (hash (bv_public_key v))))" by auto
  note i = verify_vote_Inr [OF v(1)]
  have mem: "bitmap_contains bm i \<longleftrightarrow> i \<in> set ix"
    using signer_set_contains [of i "validator_count P" bm] i inv(1,3) by simp
  show ?thesis
  proof (cases "i \<in> set ix")
    case True
    then have "aggregate_step B P st v = Inr st"
      using v(1) mem by (simp add: aggregate_step_def st)
    moreover have "?key i \<in> ?key ` set ix" using True by (rule imageI)
    then have "?key ` set ix = bv_public_key ` set (vs @ [v])" using i inv(6) by auto
    with inv(1-5) have "aggregated B P hash (vs @ [v]) st"
      unfolding aggregated_def st prod.case by blast
    ultimately show ?thesis by blast
  next
    case False
    then have "aggregate_step B P st v = Inr (bitmap_set bm i, sigs @ [bls_sign B k (vote_message (hash (bv_public_key v)))])"
      using v mem by (simp add: aggregate_step_def st)
    moreover have "aggregated B P hash (vs @ [v]) (bitmap_set bm i, sigs @ [bls_sign B k (vote_message (hash (bv_public_key v)))])"
    proof -
      have "?key i \<notin> ?key ` set ix"
      proof
        assume "?key i \<in> ?key ` set ix"
        then obtain j where "j \<in> set ix" "?key i = ?key j" by auto
        with inv(4) i False show False by (metis option.inject)
      qed
      then have "signer_set (bitmap_set bm i) = set (ix @ [i])" "distinct (map ?key (ix @ [i]))"
        using signer_set_insert [of i "validator_count P" bm] i inv(1-3) by auto
      moreover have "\<forall>j \<in> set (ix @ [i]). position (\<lambda>v. vi_public_key v = ?key j) (bp_validators P) = Some j
          \<and> j < validator_count P \<and> ?key j = pk_bytes B (pk_of B ((sk(i := k)) j))"
        using i v(2) inv(4) by auto
      moreover have "sigs @ [bls_sign B k (vote_message (hash (bv_public_key v)))]
          = map (\<lambda>j. bls_sign B ((sk(i := k)) j) (vote_message (hash (?key j)))) (ix @ [i])"
        using False inv(5) i by auto
      moreover have "?key ` set (ix @ [i]) = bv_public_key ` set (vs @ [v])" using i inv(6) by auto
      ultimately show ?thesis using inv(1) unfolding aggregated_def prod.case length_bitmap_set by blast
    qed
    ultimately show ?thesis by blast
  qed
qed

lemma aggregate_fold:
  assumes "bls_laws B" "\<forall>v \<in> set vs. vote_for B P (hash (bv_public_key v)) v"
  shows "\<exists>st. try_fold (aggregate_step B P) (replicate (bitmap_len (validator_count P)) 0, []) vs = Inr st
    \<and> aggregated B P hash vs st"
  using assms(2)
proof (induction vs rule: rev_induct)
  case Nil
  have "signer_set (replicate k 0) = {}" for k
    using bitmap_contains_zero [of _ k] by (auto simp: signer_set_def bitmap_byte_def)
  then show ?case by (simp add: aggregated_def)
next
  case (snoc v vs)
  then obtain st where "try_fold (aggregate_step B P) (replicate (bitmap_len (validator_count P)) 0, []) vs = Inr st"
    "aggregated B P hash vs st" by auto
  with aggregate_step_aggregated [OF assms(1), of P hash v vs st] snoc.prems show ?case
    by (auto simp: try_fold_append)
qed

text \<open>What the votes aggregate to and what becomes of it, when each key votes for one hash.\<close>

lemma aggregate_verdict:
  assumes "bls_laws B" "\<forall>v \<in> set votes. vote_for B P (hash (bv_public_key v)) v"
    and "quorum P \<le> card (bv_public_key ` set votes)"
    and "validator_count P < 2 ^ 61"
  obtains bitmap aggregate ix sk where "aggregate_votes B P votes = Inr (bitmap, aggregate)"
    "distinct (map (\<lambda>i. vi_public_key (bp_validators P ! i)) ix)"
    "\<forall>i \<in> set ix. vi_public_key (bp_validators P ! i) = pk_bytes B (pk_of B (sk i))"
    "(\<lambda>i. vi_public_key (bp_validators P ! i)) ` set ix = bv_public_key ` set votes"
    "verify_certificate B P \<lparr>qc_block_index = b_index b, qc_block_hash = b_hash b,
        qc_signers_bitmap = bitmap, qc_aggregate_signature = aggregate, qc_algorithm = Bls12381\<rparr> b
      = (if gt_sum B (map (\<lambda>i. sig_mismatch B (sk i) (vote_message (hash (vi_public_key (bp_validators P ! i))))
          (vote_message (b_hash b))) ix) = gt_identity B then Inr () else Inl (bft_err AggregateRejected))"
proof -
  let ?key = "\<lambda>i. vi_public_key (bp_validators P ! i)" and ?m = "vote_message (b_hash b)"
  let ?ms = "\<lambda>i. vote_message (hash (?key i))"
  from aggregate_fold [OF assms(1,2)] obtain bm ix sk where
    fold: "try_fold (aggregate_step B P) (replicate (bitmap_len (validator_count P)) 0, []) votes
      = Inr (bm, map (\<lambda>i. bls_sign B (sk i) (?ms i)) ix)"
    and len: "length bm = bitmap_len (validator_count P)" and dk: "distinct (map ?key ix)" and sx: "signer_set bm = set ix"
      "\<forall>i \<in> set ix. i < validator_count P \<and> ?key i = pk_bytes B (pk_of B (sk i))"
      "?key ` set ix = bv_public_key ` set votes"
    unfolding aggregated_def by (clarsimp split: prod.splits)
  have "distinct ix" using dk by (simp add: distinct_map)
  note ix = this sx
  have pair: "pairing_laws B" and enc: "encoding_laws B" using assms(1) by (simp_all add: bls_laws_def)
  have "card (?key ` set ix) \<le> card (set ix)" by (rule card_image_le) simp
  then have quorum: "quorum P \<le> length ix" using assms(3) distinct_card [OF ix(1)] unfolding ix(4) by linarith
  have "1 \<le> quorum P" unfolding quorum_def by (rule quorum_threshold_bounds(1))
  with quorum have ne: "ix \<noteq> []" by auto
  then have "map (\<lambda>i. bls_sign B (sk i) (?ms i)) ix \<noteq> []" by simp
  from aggregate_pairing(1) [OF pair this] obtain a where
    a: "bls_aggregate B (map (\<lambda>i. bls_sign B (sk i) (?ms i)) ix) = Some a" ..
  let ?bits = "expand_signers bm"
  have bits: "set ?bits = set ix" "length ?bits = length ix"
    using expand_signers_set(1,4) [of bm] ix(2) distinct_card [OF ix(1)] by simp_all
  have "mset ?bits = mset ix"
    using bits(1) ix(1) expand_signers_set(2) [of bm] by (simp add: set_eq_iff_mset_eq_distinct)
  then have multi: "verify_same_message_multisig B a (map ?key ?bits) (bls_hash B ?m) \<longleftrightarrow>
      gt_sum B (map (\<lambda>i. sig_mismatch B (sk i) (?ms i) ?m) ix) = gt_identity B"
    by (rule multisig_iff [OF assms(1) ne _ _ a]) (use ix(3) in blast)
  have small: "\<not> bitmap_too_large (length bm)"
  proof -
    have "length bm \<le> validator_count P" unfolding len by (rule bitmap_len_le)
    moreover have "(2 ^ 64 - 1) div 8 = (2305843009213693951 :: nat)"
      "2 ^ 61 = (2305843009213693952 :: nat)" by simp_all
    ultimately show ?thesis using assms(4) unfolding bitmap_too_large_def by linarith
  qed
  have sig: "sig_bytes B a \<noteq> []" "sig_from B (sig_bytes B a) = Some a"
    using enc by (auto simp: encoding_laws_def dest!: spec [of _ a])
  have bm: "bm \<noteq> []"
  proof
    assume "bm = []"
    then have "signer_set bm = {}" by (simp add: signer_set_def)
    with ix(2) ne show False by simp
  qed
  have range: "\<forall>i \<in> set ?bits. i < validator_count P" unfolding bits(1) using ix(3) by blast
  have reached: "quorum P \<le> length ?bits" using quorum bits(2) by simp
  have "verify_certificate B P \<lparr>qc_block_index = b_index b, qc_block_hash = b_hash b,
      qc_signers_bitmap = bm, qc_aggregate_signature = sig_bytes B a, qc_algorithm = Bls12381\<rparr> b =
      (if verify_same_message_multisig B a (map ?key ?bits) (bls_hash B ?m) then Inr () else Inl (bft_err AggregateRejected))"
    by (subst verify_certificate_form [where a = a], unfold quorum_certificate.simps)
      (fact refl small sig bm range reached)+
  moreover have "aggregate_votes B P votes = Inr (bm, sig_bytes B a)"
    by (simp add: aggregate_votes_def fold a)
  moreover have "\<forall>i \<in> set ix. ?key i = pk_bytes B (pk_of B (sk i))" using ix(3) by blast
  ultimately show thesis using that [of bm "sig_bytes B a" ix sk] dk ix(4) multi by simp
qed

lemma aggregate_complete:
  assumes "bls_laws B" "\<forall>v \<in> set votes. vote_for B P (b_hash b) v"
    and "quorum P \<le> card (bv_public_key ` set votes)"
    and "validator_count P < 2 ^ 61"
  shows "\<exists>bitmap aggregate. aggregate_votes B P votes = Inr (bitmap, aggregate)
    \<and> verify_certificate B P \<lparr>qc_block_index = b_index b, qc_block_hash = b_hash b,
        qc_signers_bitmap = bitmap, qc_aggregate_signature = aggregate, qc_algorithm = Bls12381\<rparr> b
      = Inr ()"
proof -
  have gt: "gt_laws B" using assms(1) by (simp add: bls_laws_def)
  obtain bitmap aggregate ix sk where agg: "aggregate_votes B P votes = Inr (bitmap, aggregate)"
    and "distinct (map (\<lambda>i. vi_public_key (bp_validators P ! i)) ix)"
    and "\<forall>i \<in> set ix. vi_public_key (bp_validators P ! i) = pk_bytes B (pk_of B (sk i))"
    and "(\<lambda>i. vi_public_key (bp_validators P ! i)) ` set ix = bv_public_key ` set votes"
    and v: "verify_certificate B P \<lparr>qc_block_index = b_index b, qc_block_hash = b_hash b,
        qc_signers_bitmap = bitmap, qc_aggregate_signature = aggregate, qc_algorithm = Bls12381\<rparr> b
      = (if gt_sum B (map (\<lambda>i. sig_mismatch B (sk i) (vote_message (b_hash b)) (vote_message (b_hash b))) ix) = gt_identity B
         then Inr () else Inl (bft_err AggregateRejected))"
    by (rule aggregate_verdict [where hash = "\<lambda>_. b_hash b" and b = b, OF assms])
  show ?thesis using agg v gt_sum_identity [OF gt] by (simp add: sig_mismatch_none [OF assms(1)])
qed

text \<open>One key that voted for another hash makes the aggregate fail.\<close>

lemma aggregate_spoiled:
  assumes "bls_laws B" "\<forall>v \<in> set votes. vote_for B P (if bv_public_key v = pk_bytes B pk then x else b_hash b) v"
    and "quorum P \<le> card (bv_public_key ` set votes)" "validator_count P < 2 ^ 61"
    and "pk_bytes B pk \<in> bv_public_key ` set votes"
    and "pairing B pk (bls_hash B (vote_message x)) \<noteq> pairing B pk (bls_hash B (vote_message (b_hash b)))"
  shows "\<exists>bitmap aggregate. aggregate_votes B P votes = Inr (bitmap, aggregate)
    \<and> verify_certificate B P \<lparr>qc_block_index = b_index b, qc_block_hash = b_hash b,
        qc_signers_bitmap = bitmap, qc_aggregate_signature = aggregate, qc_algorithm = Bls12381\<rparr> b
      = Inl (bft_err AggregateRejected)"
proof -
  have gt: "gt_laws B" and enc: "encoding_laws B" using assms(1) by (simp_all add: bls_laws_def)
  let ?key = "\<lambda>i. vi_public_key (bp_validators P ! i)" and ?m = "vote_message (b_hash b)"
  let ?hash = "\<lambda>k. if k = pk_bytes B pk then x else b_hash b"
  obtain bitmap aggregate ix sk where agg: "aggregate_votes B P votes = Inr (bitmap, aggregate)"
    and ix: "distinct (map ?key ix)" "\<forall>i \<in> set ix. ?key i = pk_bytes B (pk_of B (sk i))" "?key ` set ix = bv_public_key ` set votes"
    and verdict: "verify_certificate B P \<lparr>qc_block_index = b_index b, qc_block_hash = b_hash b,
        qc_signers_bitmap = bitmap, qc_aggregate_signature = aggregate, qc_algorithm = Bls12381\<rparr> b
      = (if gt_sum B (map (\<lambda>i. sig_mismatch B (sk i) (vote_message (?hash (?key i))) ?m) ix) = gt_identity B
         then Inr () else Inl (bft_err AggregateRejected))"
    by (rule aggregate_verdict [where hash = ?hash and b = b, OF assms(1-4)])
  have "pk_bytes B pk \<in> ?key ` set ix" unfolding ix(3) by (rule assms(5))
  then obtain j where j: "j \<in> set ix" "?key j = pk_bytes B pk" by (auto simp: image_iff)
  have "pk_bytes B (pk_of B (sk j)) = pk_bytes B pk" using ix(2) j by simp
  then have "pk_from B (pk_bytes B (pk_of B (sk j))) = pk_from B (pk_bytes B pk)" by (rule arg_cong)
  then have pk: "pk_of B (sk j) = pk" using enc by (simp add: encoding_laws_def)
  have "sig_mismatch B (sk i) (vote_message (?hash (?key i))) ?m = gt_identity B" if "i \<in> set ix - {j}" for i
  proof -
    have "?key i \<noteq> ?key j" using ix(1) that j(1) by (auto simp: distinct_map inj_on_def)
    with j(2) show ?thesis by (simp add: sig_mismatch_none [OF assms(1)])
  qed
  then have "gt_sum B (map (\<lambda>i. sig_mismatch B (sk i) (vote_message (?hash (?key i))) ?m) ix) = sig_mismatch B (sk j) (vote_message x) ?m"
    using gt_sum_one_deviates [OF gt _ j(1), of "\<lambda>i. sig_mismatch B (sk i) (vote_message (?hash (?key i))) ?m"] ix(1) j(2)
    by (simp add: distinct_map)
  moreover have "sig_mismatch B (sk j) (vote_message x) ?m \<noteq> gt_identity B"
    using sig_mismatch_identity [OF assms(1), of "sk j" "vote_message x" ?m] assms(6) pk by metis
  ultimately show ?thesis using agg verdict by simp
qed

text \<open>
  C21. Aggregation round trip: votes for one block hash by members of the set, with at least a
  quorum of distinct keys among them, aggregate to a bitmap and a signature whose certificate
  verifies for that block; duplicates and the order of the votes make no difference.
\<close>

theorem aggregated_certificate_verifies:
  assumes "bls_laws B" "\<forall>v \<in> set votes. vote_for B P (b_hash b) v"
    and "quorum P \<le> card (bv_public_key ` set votes)"
    and "validator_count P < 2 ^ 61"
  shows "\<exists>bitmap aggregate. aggregate_votes B P votes = Inr (bitmap, aggregate)
    \<and> verify_certificate B P \<lparr>qc_block_index = b_index b, qc_block_hash = b_hash b,
        qc_signers_bitmap = bitmap, qc_aggregate_signature = aggregate, qc_algorithm = Bls12381\<rparr> b
      = Inr ()"
  by (rule aggregate_complete [OF assms])


section \<open>The provider meets the consensus contract\<close>

definition bft_proposals ::
  "'z env_scheme \<Rightarrow> ('sk, 'g1, 'g2, 'gt) bls \<Rightarrow> 'sk bft_provider \<Rightarrow> clock \<Rightarrow> u64 \<Rightarrow> transaction list \<Rightarrow>
     block \<Rightarrow> nat \<Rightarrow> (commit_notification \<times> nat) option" where
  "bft_proposals E B P clock index txs previous k =
     (case bft_propose_block E B P (clock k) index txs previous of
        Inl _ \<Rightarrow> None | Inr n \<Rightarrow> Some (n, k + 1))"

interpretation bft: consensus_contract "bft_proposals E B P clock" "bft_validate_block E"
  for E B P clock
proof unfold_locales
  fix b p :: block and txs n and w w' :: nat
  show "b_previous_hash b = b_hash p \<and> b_index b = b_index p + 1"
    if "bft_validate_block E b p = Inr ()"
    using that by (auto simp: bft_validate_block_def res_simps chains_to_def split: if_splits)
  assume "bft_proposals E B P clock (b_index p + 1) txs p w = Some (n, w')"
  then have "cn_validate n = Inr ()"
    "n = attest E B P (with_write_set E (clock w) (b_index p + 1) txs (b_hash p) [])"
    by (auto simp: bft_proposals_def bft_propose_block_def Let_def res_simps split: sum.splits)
  then show "bft_validate_block E (cn_block n) p = Inr () \<and> cn_validate n = Inr ()
      \<and> b_transactions (cn_block n) = txs"
    by (simp add: bft_validate_block_def chains_to_def attest_def with_write_set_def is_valid_def
        calculate_hash_def header_of_def Let_def)
qed


section \<open>Signed messages\<close>

lemma be_bytes_inj:
  fixes n m :: nat
  assumes "map (\<lambda>i. of_nat (n div 256 ^ i) :: u8) (rev [0..<k]) = map (\<lambda>i. of_nat (m div 256 ^ i)) (rev [0..<k])"
    and "n < 256 ^ k" "m < 256 ^ k"
  shows "n = m"
proof (rule base256_inj)
  show "\<forall>j < k. n div 256 ^ j mod 256 = m div 256 ^ j mod 256"
    using assms(1) by (simp add: of_nat_u8_eq)
  show "n div 256 ^ k = m div 256 ^ k" using assms(2,3) by simp
qed

lemma to_be_bytes64_inj:
  assumes "to_be_bytes64 v = to_be_bytes64 w"
  shows "v = w"
proof -
  have "[7, 6, 5, 4, 3, 2, 1, 0] = rev [0..<8]" by (simp add: upt_rec)
  with assms have "map (\<lambda>i. of_nat (unat v div 256 ^ i) :: u8) (rev [0..<8])
      = map (\<lambda>i. of_nat (unat w div 256 ^ i)) (rev [0..<8])"
    unfolding to_be_bytes64_def by (simp only:)
  moreover have "unat x < 256 ^ 8" for x :: u64
    using unsigned_less [of x, where 'a = nat] by simp
  ultimately have "unat v = unat w" by (intro be_bytes_inj [of _ 8])
  then show "v = w" by (simp only: word_unat_eq_iff)
qed

lemma length_to_be_bytes64 [simp]: "length (to_be_bytes64 w) = 8"
  by (simp add: to_be_bytes64_def)

lemma phase_tag_inj [simp]: "phase_tag p = phase_tag q \<longleftrightarrow> p = q"
  by (simp add: phase_tag_def split: vote_phase.splits)

lemma prefixed_inj:
  "length f < 2 ^ 32 \<Longrightarrow> length g < 2 ^ 32 \<Longrightarrow> prefixed f @ r = prefixed g @ s \<Longrightarrow> f = g \<and> r = s"
  using field_inj [of f g r s] by (simp add: prefixed_def)

lemma vote_message_inj:
  assumes "length x < 2 ^ 32" "length y < 2 ^ 32" "vote_message x = vote_message y"
  shows "x = y"
  using prefixed_inj [of "str_bytes x" "str_bytes y" "[]" "[]"] assms
  by (simp add: vote_message_def)

lemma context_message_inj:
  assumes "length c < 2 ^ 32" "length c' < 2 ^ 32" "length x < 2 ^ 32" "length x' < 2 ^ 32"
    and "context_message c h r p x = context_message c' h' r' p' x'"
  shows "c = c' \<and> h = h' \<and> r = r' \<and> p = p' \<and> x = x'"
proof -
  from assms(5) have "prefixed (str_bytes c) @ to_be_bytes64 h @ to_be_bytes r @ [phase_tag p]
        @ prefixed (str_bytes x) = prefixed (str_bytes c') @ to_be_bytes64 h' @ to_be_bytes r'
        @ [phase_tag p'] @ prefixed (str_bytes x')"
    by (simp add: context_message_def)
  from prefixed_inj [OF _ _ this] assms(1,2)
  have 1: "c = c'" "to_be_bytes64 h @ to_be_bytes r @ [phase_tag p] @ prefixed (str_bytes x)
      = to_be_bytes64 h' @ to_be_bytes r' @ [phase_tag p'] @ prefixed (str_bytes x')" by simp_all
  then have 2: "h = h'" "r = r'" "p = p'" "prefixed (str_bytes x) = prefixed (str_bytes x')"
    using to_be_bytes64_inj to_be_bytes_inj by auto
  with prefixed_inj [of "str_bytes x" "str_bytes x'" "[]" "[]"] assms(3,4) 1(1) show ?thesis by simp
qed

lemma vote_verify_Inr:
  assumes "vote_verify B v = Inr ()"
  obtains pk s c where "pk_from B (bv_public_key v) = Some pk"
    "sig_from B (bv_signature v) = Some s" "bls_verify B pk s (vote_message (bv_block_hash v))"
    "sig_from B (bv_context_signature v) = Some c"
    "bls_verify B pk c (context_message (bv_chain_id v) (bv_height v) (bv_round v) (bv_phase v)
      (bv_block_hash v))"
  using assms by (auto simp: vote_verify_def res_simps split: if_splits)

lemma proof_verify_Inr_iff:
  "proof_verify B p = Inr () \<longleftrightarrow>
     vote_verify B (ep_first_vote p) = Inr () \<and> vote_verify B (ep_second_vote p) = Inr ()
     \<and> bv_block_hash (ep_first_vote p) \<noteq> bv_block_hash (ep_second_vote p)
     \<and> proof_context_ok p (ep_first_vote p) \<and> proof_context_ok p (ep_second_vote p)
     \<and> bv_chain_id (ep_first_vote p) = bv_chain_id (ep_second_vote p)"
  by (auto simp: proof_verify_def res_simps split: if_splits)

text \<open>
  Equivocation proofs are accountable: an accepted proof exhibits, under the accused key, two
  signatures over two different context envelopes of one chain, height, round and phase.  A
  validator that signs at most one envelope per context cannot be accused.
\<close>

theorem equivocation_accountable:
  assumes "proof_verify B p = Inr ()"
    and "length (bv_chain_id (ep_first_vote p)) < 2 ^ 32"
    and "length (bv_block_hash (ep_first_vote p)) < 2 ^ 32"
    and "length (bv_block_hash (ep_second_vote p)) < 2 ^ 32"
  shows "\<exists>pk chain x y s t. pk_from B (ep_public_key p) = Some pk
    \<and> context_message chain (ep_height p) (ep_round p) (ep_phase p) x
      \<noteq> context_message chain (ep_height p) (ep_round p) (ep_phase p) y
    \<and> bls_verify B pk s (context_message chain (ep_height p) (ep_round p) (ep_phase p) x)
    \<and> bls_verify B pk t (context_message chain (ep_height p) (ep_round p) (ep_phase p) y)"
proof -
  let ?v = "ep_first_vote p" and ?w = "ep_second_vote p"
  note pv = assms(1) [unfolded proof_verify_Inr_iff]
  from pv have ctx: "bv_height ?v = ep_height p" "bv_round ?v = ep_round p" "bv_phase ?v = ep_phase p"
    "bv_public_key ?v = ep_public_key p" "bv_height ?w = ep_height p" "bv_round ?w = ep_round p"
    "bv_phase ?w = ep_phase p" "bv_public_key ?w = ep_public_key p"
    by (simp_all add: proof_context_ok_def)
  from pv obtain pk s where v: "pk_from B (ep_public_key p) = Some pk"
    "bls_verify B pk s (context_message (bv_chain_id ?v) (ep_height p) (ep_round p) (ep_phase p)
      (bv_block_hash ?v))" by (metis vote_verify_Inr ctx(1-4))
  from pv v(1) obtain t where w: "bls_verify B pk t (context_message (bv_chain_id ?v) (ep_height p)
      (ep_round p) (ep_phase p) (bv_block_hash ?w))" by (metis vote_verify_Inr ctx(5-8) option.inject)
  have "context_message (bv_chain_id ?v) (ep_height p) (ep_round p) (ep_phase p) (bv_block_hash ?v)
      \<noteq> context_message (bv_chain_id ?v) (ep_height p) (ep_round p) (ep_phase p) (bv_block_hash ?w)"
    using pv context_message_inj [OF assms(2,2,3,4)] by blast
  with v w show ?thesis by blast
qed


section \<open>Instances\<close>

text \<open>
  A signature scheme over bytes that satisfies the laws: keys multiply, and the pairing is the
  product.
\<close>

definition byte_bls :: "(u8, u8, u8, u8) bls" where
  "byte_bls = \<lparr>pk_of = (\<lambda>k. k), pk_bytes = (\<lambda>k. k # replicate 47 0),
     pk_from = (\<lambda>bs. case bs of k # _ \<Rightarrow> Some k | [] \<Rightarrow> None),
     sig_bytes = (\<lambda>s. s # replicate 95 0),
     sig_from = (\<lambda>bs. case bs of s # _ \<Rightarrow> Some s | [] \<Rightarrow> None),
     bls_sign = (\<lambda>k m. k * sum_list m), bls_verify = (\<lambda>k s m. s = k * sum_list m),
     bls_aggregate = (\<lambda>ss. if ss = [] then None else Some (sum_list ss)),
     bls_hash = sum_list, g1_identity = 0, g1_add = (+), g1_neg_generator = - 1,
     g1_from_compressed = (\<lambda>bs. case bs of k # _ \<Rightarrow> Some k | [] \<Rightarrow> None),
     g2_from_compressed = (\<lambda>bs. case bs of s # _ \<Rightarrow> Some s | [] \<Rightarrow> None),
     g2_to_compressed = (\<lambda>s. s # replicate 95 0), pairing = (*), gt_add = (+), gt_identity = 0\<rparr>"

lemma byte_bls_sel [simp]:
  "pk_of byte_bls k = k" "pk_bytes byte_bls k = k # replicate 47 0"
  "pk_from byte_bls bs = (case bs of k # _ \<Rightarrow> Some k | [] \<Rightarrow> None)"
  "sig_bytes byte_bls s = s # replicate 95 0"
  "sig_from byte_bls bs = (case bs of s # _ \<Rightarrow> Some s | [] \<Rightarrow> None)"
  "bls_sign byte_bls k m = k * sum_list m" "bls_verify byte_bls k s m = (s = k * sum_list m)"
  "bls_aggregate byte_bls ss = (if ss = [] then None else Some (sum_list ss))"
  "bls_hash byte_bls m = sum_list m" "g1_identity byte_bls = 0" "g1_add byte_bls k l = k + l"
  "g1_neg_generator byte_bls = - 1"
  "g1_from_compressed byte_bls bs = (case bs of k # _ \<Rightarrow> Some k | [] \<Rightarrow> None)"
  "g2_from_compressed byte_bls bs = (case bs of s # _ \<Rightarrow> Some s | [] \<Rightarrow> None)"
  "g2_to_compressed byte_bls s = s # replicate 95 0" "pairing byte_bls k s = k * s"
  "gt_add byte_bls k s = k + s" "gt_identity byte_bls = 0"
  by (simp_all add: byte_bls_def)

lemma byte_bls_laws: "bls_laws byte_bls"
proof -
  have gt: "gt_laws byte_bls" by (simp add: gt_laws_def algebra_simps)
  have "gt_sum byte_bls (map (pairing byte_bls (- 1)) ss) = - sum_list ss" for ss
    by (induction ss) (simp_all add: gt_sum_simps [OF gt])
  then have "pairing_laws byte_bls" by (simp add: pairing_laws_def algebra_simps)
  with gt show ?thesis by (simp add: bls_laws_def encoding_laws_def)
qed

definition byte_validator :: "u8 \<Rightarrow> validator_info" where
  "byte_validator k = \<lparr>vi_name = ''v'', vi_public_key = pk_bytes byte_bls k,
     vi_pop = sig_bytes byte_bls 0\<rparr>"

definition byte_provider :: "u8 list \<Rightarrow> u8 bft_provider" where
  "byte_provider ks = \<lparr>bp_validators = map byte_validator ks, bp_signing_key = hd ks\<rparr>"

definition byte_certificate :: "block \<Rightarrow> u8 \<Rightarrow> u8 \<Rightarrow> quorum_certificate" where
  "byte_certificate b bitmap key = \<lparr>qc_block_index = b_index b, qc_block_hash = b_hash b,
     qc_signers_bitmap = [bitmap],
     qc_aggregate_signature = sig_bytes byte_bls (key * sum_list (vote_message (b_hash b))),
     qc_algorithm = Bls12381\<rparr>"

lemma byte_certificate_verifies:
  "verify_certificate byte_bls (byte_provider [1, 2, 3, 4]) (byte_certificate b 7 6) b = Inr ()"
  "verify_certificate byte_bls (byte_provider [1, 2, 3, 4]) (byte_certificate b 14 9) b = Inr ()"
proof -
  have e: "expand_signers [7] = [0, 1, 2]" "expand_signers [14] = [1, 2, 3]" by code_simp+
  have q: "quorum (byte_provider [1, 2, 3, 4]) = 3" "validator_count (byte_provider [1, 2, 3, 4]) = 4"
    by (simp_all add: quorum_def validator_count_def byte_provider_def quorum_threshold_def)
  have m: "verify_same_message_multisig byte_bls (6 * h)
      (map (\<lambda>i. vi_public_key (bp_validators (byte_provider [1, 2, 3, 4]) ! i)) [0, 1, 2]) h"
    "verify_same_message_multisig byte_bls (9 * h)
      (map (\<lambda>i. vi_public_key (bp_validators (byte_provider [1, 2, 3, 4]) ! i)) [1, 2, 3]) h" for h
    by (simp_all add: verify_same_message_multisig_def byte_provider_def byte_validator_def)
  show "verify_certificate byte_bls (byte_provider [1, 2, 3, 4]) (byte_certificate b 7 6) b = Inr ()"
    by (rule verify_certificate_intro [where a = "6 * sum_list (vote_message (b_hash b))"])
      (simp_all add: byte_certificate_def e q m bitmap_too_large_def
        del: list.map One_nat_def)
  show "verify_certificate byte_bls (byte_provider [1, 2, 3, 4]) (byte_certificate b 14 9) b = Inr ()"
    by (rule verify_certificate_intro [where a = "9 * sum_list (vote_message (b_hash b))"])
      (simp_all add: byte_certificate_def e q m bitmap_too_large_def
        del: list.map One_nat_def)
qed

theorem certificates_intersect_witness:
  "4 < 3 * card (signer_set [7 :: u8] \<inter> signer_set [14])"
proof -
  have "validator_count (byte_provider [1, 2, 3, 4]) = 4"
    by (simp add: validator_count_def byte_provider_def)
  with certificates_intersect [OF byte_certificate_verifies [of pow_block]] show ?thesis
    by (simp add: byte_certificate_def)
qed

definition byte_votes :: "string \<Rightarrow> bft_vote list" where
  "byte_votes hash = map (sign_vote_with byte_bls ''c'' 1 0 Precommit hash) [3, 1, 1, 2]"

theorem aggregated_certificate_verifies_witness:
  "\<exists>bitmap aggregate. aggregate_votes byte_bls (byte_provider [1, 2, 3, 4]) (byte_votes (b_hash pow_block))
     = Inr (bitmap, aggregate)
   \<and> verify_certificate byte_bls (byte_provider [1, 2, 3, 4]) \<lparr>qc_block_index = b_index pow_block,
       qc_block_hash = b_hash pow_block, qc_signers_bitmap = bitmap,
       qc_aggregate_signature = aggregate, qc_algorithm = Bls12381\<rparr> pow_block = Inr ()"
proof (rule aggregated_certificate_verifies [OF byte_bls_laws])
  let ?P = "byte_provider [1, 2, 3, 4]"
  have "vi_public_key ` set (bp_validators ?P) = pk_bytes byte_bls ` {1, 2, 3, 4}"
    by (simp add: byte_provider_def byte_validator_def)
  then show "\<forall>v \<in> set (byte_votes (b_hash pow_block)). vote_for byte_bls ?P (b_hash pow_block) v"
    by (auto simp: byte_votes_def intro!: vote_forI)
  have "bv_public_key ` set (byte_votes h) = pk_bytes byte_bls ` {1, 2, 3}" for h
    by (auto simp: byte_votes_def sign_vote_with_def)
  moreover have "inj_on (pk_bytes byte_bls) {1, 2, 3}" by (auto simp: inj_on_def)
  ultimately have "card (bv_public_key ` set (byte_votes h)) = card {1, 2, 3 :: u8}" for h
    by (simp add: card_image)
  then show "quorum ?P \<le> card (bv_public_key ` set (byte_votes (b_hash pow_block)))"
    by (simp add: quorum_def validator_count_def byte_provider_def quorum_threshold_def)
  show "validator_count ?P < 2 ^ 61" by (simp add: validator_count_def byte_provider_def)
qed

text \<open>One key voting for two hashes in one context.\<close>

definition byte_equivocation :: equivocation_proof where
  "byte_equivocation = \<lparr>ep_height = 1, ep_round = 0, ep_phase = Prevote,
     ep_public_key = pk_bytes byte_bls 3,
     ep_first_vote = sign_vote_with byte_bls ''c'' 1 0 Prevote ''a'' 3,
     ep_second_vote = sign_vote_with byte_bls ''c'' 1 0 Prevote ''b'' 3\<rparr>"

theorem equivocation_accountable_witness:
  "\<exists>chain x y. context_message chain 1 0 Prevote x \<noteq> context_message chain 1 0 Prevote y"
proof -
  have "proof_verify byte_bls byte_equivocation = Inr ()"
    unfolding proof_verify_Inr_iff
    by (simp add: byte_equivocation_def proof_context_ok_def vote_verify_signed [OF byte_bls_laws])
      (simp add: sign_vote_with_def)
  from equivocation_accountable [OF this] show ?thesis
    by (force simp: byte_equivocation_def sign_vote_with_def)
qed

end
