(* ===== verification/Rounds.thy ===== *)
theory Rounds
  imports Bft
begin

text \<open>
  The BFT rounds: \<^verbatim>\<open>glasschain-core/src/rounds.rs\<close> (proposer rotation and the receipt decision
  table), \<^verbatim>\<open>glasschain-network/src/rounds.rs\<close> (round state and the vote-receipt journal), and the
  round handlers and driver of \<^verbatim>\<open>glasschain-network/src/node.rs\<close>.

  A handler runs under the node's state lock, so it is one step on the fields of \<^verbatim>\<open>NodeState\<close> it
  reads and writes; what it sends is part of its result.  The chain always has its genesis block,
  whose hash is the chain id.  JSON parsing, base64 and the hasher of
  the validator cache are parameters.
\<close>

section \<open>Rotation and receipts\<close>

definition proposer_slot :: "u64 \<Rightarrow> u32 \<Rightarrow> nat \<Rightarrow> nat" where
  "proposer_slot height rnd num_validators =
     (let slots = max num_validators 1 in (unat height mod slots + unat rnd mod slots) mod slots)"

definition proposer_index :: "'sk bft_provider \<Rightarrow> u64 \<Rightarrow> u32 \<Rightarrow> nat" where
  "proposer_index P height rnd = proposer_slot height rnd (validator_count P)"

datatype receipt_action = ReceiptInsert | ReceiptDuplicate | ReceiptEquivocation

definition receipt_action :: "bool \<Rightarrow> bool \<Rightarrow> receipt_action" where
  "receipt_action existing same_hash =
     (if \<not> existing then ReceiptInsert
      else if same_hash then ReceiptDuplicate else ReceiptEquivocation)"

definition should_retain :: "u64 \<Rightarrow> u64 \<Rightarrow> bool" where
  "should_retain receipt_height retire_below = (receipt_height \<ge> retire_below)"

definition MAX_ROUNDS :: nat where
  "MAX_ROUNDS = 4"

definition VOTE_CHANNEL_CAP :: nat where
  "VOTE_CHANNEL_CAP = 1024"

definition VOTE_RECEIPT_CAP :: nat where
  "VOTE_RECEIPT_CAP = 8192"

record bft_round =
  br_height :: u64
  br_round :: u32
  br_locked :: "string option"
  br_proposal :: "block option"

definition round_new :: "u64 \<Rightarrow> bft_round" where
  "round_new height = \<lparr>br_height = height, br_round = 0, br_locked = None, br_proposal = None\<rparr>"

definition phase_message_hash :: "bft_round \<Rightarrow> string option" where
  "phase_message_hash r = map_option b_hash (br_proposal r)"

text \<open>The journal: one vote per height, round, phase and key.\<close>

type_synonym receipt_key = "u64 \<times> u32 \<times> vote_phase \<times> bytes"
type_synonym vote_receipts = "(receipt_key \<times> bft_vote) list"

definition receipt_key :: "bft_vote \<Rightarrow> receipt_key" where
  "receipt_key v = (bv_height v, bv_round v, bv_phase v, bv_public_key v)"

definition retain_from :: "u64 \<Rightarrow> vote_receipts \<Rightarrow> vote_receipts" where
  "retain_from height seen = filter (\<lambda>((h, _, _, _), _). should_retain h height) seen"

definition retire_below :: "u64 \<Rightarrow> vote_receipts \<Rightarrow> nat \<times> vote_receipts" where
  "retire_below height seen =
     (let kept = retain_from height seen in (length seen - length kept, kept))"

definition evict_stale :: "u64 \<Rightarrow> vote_receipts \<Rightarrow> bool \<times> vote_receipts" where
  "evict_stale height seen =
     (let kept = retain_from height seen in (length kept < length seen, kept))"

definition receipt_record :: "bft_vote \<Rightarrow> vote_receipts \<Rightarrow> equivocation_proof option \<times> vote_receipts" where
  "receipt_record v seen =
     (let existing = map_of seen (receipt_key v);
          same_hash = (case existing of None \<Rightarrow> False | Some f \<Rightarrow> bv_block_hash f = bv_block_hash v)
      in case receipt_action (existing \<noteq> None) same_hash of
        ReceiptEquivocation \<Rightarrow>
          (map_option (\<lambda>f. \<lparr>ep_height = bv_height v, ep_round = bv_round v, ep_phase = bv_phase v,
             ep_public_key = bv_public_key v, ep_first_vote = f, ep_second_vote = v\<rparr>) existing, seen)
      | ReceiptDuplicate \<Rightarrow> (None, seen)
      | ReceiptInsert \<Rightarrow>
          if length seen \<ge> VOTE_RECEIPT_CAP
          then case evict_stale (bv_height v) seen of
              (False, seen) \<Rightarrow> (None, seen)
            | (True, seen) \<Rightarrow> (None, seen @ [(receipt_key v, v)])
          else (None, seen @ [(receipt_key v, v)]))"


section \<open>The validator registry\<close>

record registry_env =
  de_json :: "bytes \<Rightarrow> json option"
  base64_decode :: "string \<Rightarrow> bytes option"
  entries_hash :: "(string \<times> bytes \<times> bytes) list \<Rightarrow> u64"

definition strip_prefix :: "string \<Rightarrow> string \<Rightarrow> string option" where
  "strip_prefix s p = (if starts_with s p then Some (drop (length p) s) else None)"

definition json_get :: "json \<Rightarrow> string \<Rightarrow> json option" where
  "json_get v k = Option.bind (as_object v) (\<lambda>m. map_of m k)"

definition registry_prefix :: string where
  "registry_prefix = ''ws:governance:validator-registry:''"

text \<open>A base64 field of a registry descriptor.\<close>

definition descriptor_bytes :: "registry_env \<Rightarrow> json \<Rightarrow> string \<Rightarrow> bytes option" where
  "descriptor_bytes R d k = Option.bind (Option.bind (json_get d k) as_str) (base64_decode R)"

definition registry_entry ::
  "registry_env \<Rightarrow> string \<times> bytes \<Rightarrow> (string \<times> bytes \<times> bytes) option" where
  "registry_entry R kv =
     Option.bind (strip_prefix (fst kv) registry_prefix) (\<lambda>name.
     Option.bind (de_json R (snd kv)) (\<lambda>d.
     Option.bind (descriptor_bytes R d ''public_key'') (\<lambda>public_key.
     Option.bind (descriptor_bytes R d ''pop'') (\<lambda>pop.
       Some (name, public_key, pop)))))"

record 'sk bft_state =
  bs_round :: "bft_round option"
  bs_receipts :: vote_receipts
  bs_equivocations :: "equivocation_proof list"
  bs_vote_tx :: "bft_vote list option"
  bs_consensus :: "'sk bft_provider option"
  bs_validator_cache :: "(u64 \<times> 'sk bft_provider) option"
  bs_world_state :: "(string \<times> bytes) list"
  bs_capability_history :: "capability_history option"

definition registry_entries :: "registry_env \<Rightarrow> (string \<times> bytes) list \<Rightarrow> (string \<times> bytes \<times> bytes) list" where
  "registry_entries R ws = sort (List.map_filter (registry_entry R) ws)"

definition entry_validator :: "string \<times> bytes \<times> bytes \<Rightarrow> validator_info" where
  "entry_validator e =
     (case e of (name, public_key, pop) \<Rightarrow>
        \<lparr>vi_name = name, vi_public_key = public_key, vi_pop = pop\<rparr>)"

definition derive_validator_provider ::
  "'z crypto_scheme \<Rightarrow> ('sk, 'g1, 'g2, 'gt) bls \<Rightarrow> registry_env \<Rightarrow> 'sk bft_state \<Rightarrow>
     'sk bft_provider option \<times> 'sk bft_state" where
  "derive_validator_provider E B R s =
     (let entries = registry_entries R (bs_world_state s)
      in case bs_consensus s of
        None \<Rightarrow> (None, s)
      | Some attached \<Rightarrow>
          let content_hash = entries_hash R entries;
              hit = Option.bind (bs_validator_cache s)
                (\<lambda>(cached_hash, cached). if cached_hash = content_hash then Some cached else None)
          in case hit of
            Some cached \<Rightarrow> (Some cached, s)
          | None \<Rightarrow>
              if entries = [] then (Some attached, s)
              else (case bft_new E B (map entry_validator entries) (bp_signing_key attached) of
                Inl _ \<Rightarrow> (None, s)
              | Inr P \<Rightarrow> (Some P, s\<lparr>bs_validator_cache := Some (content_hash, P)\<rparr>)))"


section \<open>Certificates of an adopted chain\<close>

text \<open>
  \<^verbatim>\<open>verify_chain_certificates\<close>.  The registry is a \<^verbatim>\<open>BTreeMap\<close> by name, \<open>sets\<close> the provider of each
  change with the height it takes effect from; \<open>verifier_key\<close> takes no part in verification.
\<close>

definition registry_descriptor :: "registry_env \<Rightarrow> string \<Rightarrow> bytes \<Rightarrow> core_error + validator_info" where
  "registry_descriptor R name value =
     res_bind (ok_or (bft_err RegistryCorrupt) (de_json R value)) (\<lambda>d.
     res_bind (ok_or (bft_err RegistryNoKey) (descriptor_bytes R d ''public_key'')) (\<lambda>public_key.
     res_bind (ok_or (bft_err RegistryNoPop) (descriptor_bytes R d ''pop'')) (\<lambda>pop.
       Inr \<lparr>vi_name = name, vi_public_key = public_key, vi_pop = pop\<rparr>)))"

type_synonym validator_registry = "(string \<times> validator_info) list"

definition registry_write ::
  "registry_env \<Rightarrow> validator_registry \<times> bool \<Rightarrow> persistent_write \<Rightarrow> core_error + validator_registry \<times> bool" where
  "registry_write R st w =
     (case strip_prefix (state_key w) registry_prefix of
        None \<Rightarrow> Inr st
      | Some name \<Rightarrow>
          (case pw_op w of
             Set value \<Rightarrow> res_bind (registry_descriptor R name value) (\<lambda>v.
               Inr (btree_insert name v (fst st), True))
           | Delete \<Rightarrow> Inr (btree_remove name (fst st), True)))"

definition effective_validators ::
  "'sk bft_provider option \<Rightarrow> (u64 \<times> 'sk bft_provider) list \<Rightarrow> u64 \<Rightarrow> 'sk bft_provider option" where
  "effective_validators bootstrap sets height =
     (case find (\<lambda>(start, _). start \<le> height) (rev sets) of
        Some (_, P) \<Rightarrow> Some P | None \<Rightarrow> bootstrap)"

definition verify_block_certificate ::
  "('sk, 'g1, 'g2, 'gt) bls \<Rightarrow> 'sk bft_provider option \<Rightarrow> block \<Rightarrow> core_error + unit" where
  "verify_block_certificate B effective b =
     (case b_certificate b of
        None \<Rightarrow> Inr ()
      | Some c \<Rightarrow>
          if is_degenerate c then Inr ()
          else res_bind (ok_or (bft_err NoRecoverableSet) effective) (\<lambda>P. verify_certificate B P c b))"

definition apply_registry_block ::
  "'z crypto_scheme \<Rightarrow> ('sk, 'g1, 'g2, 'gt) bls \<Rightarrow> registry_env \<Rightarrow> 'sk \<Rightarrow> block \<Rightarrow>
   validator_registry \<times> (u64 \<times> 'sk bft_provider) list \<Rightarrow>
   core_error + validator_registry \<times> (u64 \<times> 'sk bft_provider) list" where
  "apply_registry_block E B R verifier_key b st =
     res_bind (try_fold (registry_write R) (fst st, False) (b_write_set b)) (\<lambda>(registry, changed).
       if \<not> changed then Inr (registry, snd st)
       else res_bind (map_err (\<lambda>e. InvalidBlock (HistoricalSetInvalid e))
           (bft_new E B (map snd registry) verifier_key)) (\<lambda>snapshot.
         Inr (registry, snd st @ [(b_index b + 1, snapshot)])))"

fun check_chain_certificates ::
  "'z crypto_scheme \<Rightarrow> ('sk, 'g1, 'g2, 'gt) bls \<Rightarrow> registry_env \<Rightarrow> 'sk \<Rightarrow> 'sk bft_provider option \<Rightarrow>
   validator_registry \<times> (u64 \<times> 'sk bft_provider) list \<Rightarrow> block list \<Rightarrow> core_error + unit" where
  "check_chain_certificates E B R vk bootstrap st [] = Inr ()"
| "check_chain_certificates E B R vk bootstrap st (b # bs) =
     res_bind (verify_block_certificate B (effective_validators bootstrap (snd st) (b_index b)) b) (\<lambda>_.
     res_bind (apply_registry_block E B R vk b st) (\<lambda>st'.
       check_chain_certificates E B R vk bootstrap st' bs))"

definition verify_chain_certificates ::
  "'z crypto_scheme \<Rightarrow> ('sk, 'g1, 'g2, 'gt) bls \<Rightarrow> registry_env \<Rightarrow> 'sk \<Rightarrow> block list \<Rightarrow>
   'sk bft_provider option \<Rightarrow> core_error + unit" where
  "verify_chain_certificates E B R verifier_key chain bootstrap =
     check_chain_certificates E B R verifier_key bootstrap ([], []) chain"


section \<open>Message handlers\<close>

datatype bft_message =
    Proposal block u32
  | Vote bft_vote
  | PrecommitRequest block u32 quorum_certificate

text \<open>The lock a validator holds at a height.\<close>

definition locked_at :: "'sk bft_state \<Rightarrow> u64 \<Rightarrow> string option" where
  "locked_at s height =
     (case bs_round s of
        Some r \<Rightarrow> if br_height r = height then br_locked r else None
      | None \<Rightarrow> None)"

text \<open>The candidate extends the tip and passes the capability rules on a scratch history.\<close>

definition valid_candidate ::
  "'z env_scheme \<Rightarrow> block list \<Rightarrow> capability_history option \<Rightarrow> block \<Rightarrow> bool" where
  "valid_candidate E chain capability_history b \<longleftrightarrow>
     (case last_opt chain of Some previous \<Rightarrow> is_ok (chains_to E b previous) | None \<Rightarrow> False)
     \<and> is_ok (fst (cap_validate_block E b
          (case capability_history of Some h \<Rightarrow> h | None \<Rightarrow> cap_default)))"

definition handle_proposal ::
  "'z env_scheme \<Rightarrow> ('sk, 'g1, 'g2, 'gt) bls \<Rightarrow> registry_env \<Rightarrow> block list \<Rightarrow> block \<Rightarrow> u32 \<Rightarrow>
     'sk bft_state \<Rightarrow> bft_message list \<times> 'sk bft_state" where
  "handle_proposal E B R chain b rnd s =
     (let round_state = (case bs_round s of
            Some existing \<Rightarrow> if br_height existing = b_index b then existing else round_new (b_index b)
          | None \<Rightarrow> round_new (b_index b));
          round_state = round_state\<lparr>br_round := rnd\<rparr>;
          locked_elsewhere = (case br_locked round_state of
              Some locked \<Rightarrow> locked \<noteq> b_hash b | None \<Rightarrow> False);
          (provider, s) =
            (if \<not> locked_elsewhere \<and> valid_candidate E chain (bs_capability_history s) b
             then derive_validator_provider E B R s else (None, s))
      in case provider of
        Some P \<Rightarrow>
          ([Vote (sign_vote B P (b_hash (hd chain)) (b_index b) rnd Prevote (b_hash b))],
           s\<lparr>bs_round := Some (round_state\<lparr>br_proposal := Some b\<rparr>)\<rparr>)
      | None \<Rightarrow> ([], s\<lparr>bs_round := Some round_state\<rparr>))"

text \<open>
  The journal a verified vote is recorded in: the heights below the previous one are retired.  The
  proof \<open>handle_vote\<close> returns is the one the node also persists and announces.
\<close>

definition retired :: "bft_vote \<Rightarrow> vote_receipts \<Rightarrow> vote_receipts" where
  "retired v seen = (if bv_height v > 1 then snd (retire_below (bv_height v - 1) seen) else seen)"

definition handle_vote ::
  "'z crypto_scheme \<Rightarrow> ('sk, 'g1, 'g2, 'gt) bls \<Rightarrow> registry_env \<Rightarrow> bft_vote \<Rightarrow> 'sk bft_state \<Rightarrow>
     equivocation_proof option \<times> 'sk bft_state" where
  "handle_vote E B R v s =
     (case derive_validator_provider E B R s of
        (None, s) \<Rightarrow> (None, s)
      | (Some P, s) \<Rightarrow>
          if \<not> is_ok (verify_vote B P v) then (None, s)
          else
            let (found, seen) = receipt_record v (retired v (bs_receipts s));
                detected = (case found of
                    Some p \<Rightarrow> if is_ok (proof_verify B p) then Some p else None
                  | None \<Rightarrow> None);
                queue = (case bs_vote_tx s of
                    None \<Rightarrow> None
                  | Some q \<Rightarrow> Some (if length q < VOTE_CHANNEL_CAP then q @ [v] else q))
            in (detected, s\<lparr>bs_receipts := seen,
                  bs_equivocations := bs_equivocations s
                    @ (case detected of Some p \<Rightarrow> [p] | None \<Rightarrow> []),
                  bs_vote_tx := queue\<rparr>))"

definition handle_precommit ::
  "'z crypto_scheme \<Rightarrow> ('sk, 'g1, 'g2, 'gt) bls \<Rightarrow> registry_env \<Rightarrow> block list \<Rightarrow> block \<Rightarrow> u32 \<Rightarrow>
     quorum_certificate \<Rightarrow> 'sk bft_state \<Rightarrow> bft_message list \<times> 'sk bft_state" where
  "handle_precommit E B R chain b rnd prevote_certificate s =
     (case bs_round s of
        None \<Rightarrow> ([], s)
      | Some round_state \<Rightarrow>
          if br_height round_state \<noteq> b_index b \<or> br_round round_state \<noteq> rnd then ([], s)
          else case derive_validator_provider E B R s of
            (None, s) \<Rightarrow> ([], s)
          | (Some P, s) \<Rightarrow>
              if \<not> is_ok (verify_certificate B P prevote_certificate b) then ([], s)
              else ([Vote (sign_vote B P (b_hash (hd chain)) (b_index b) rnd Precommit (b_hash b))],
                s\<lparr>bs_round := Some (round_state\<lparr>br_locked := Some (b_hash b)\<rparr>)\<rparr>))"

text \<open>The dispatch of the three messages.\<close>

definition handle_bft ::
  "'z env_scheme \<Rightarrow> ('sk, 'g1, 'g2, 'gt) bls \<Rightarrow> registry_env \<Rightarrow> block list \<Rightarrow> bft_message \<Rightarrow>
     'sk bft_state \<Rightarrow> bft_message list \<times> 'sk bft_state" where
  "handle_bft E B R chain m s =
     (case m of
        Proposal b rnd \<Rightarrow> handle_proposal E B R chain b rnd s
      | Vote v \<Rightarrow> ([], snd (handle_vote E B R v s))
      | PrecommitRequest b rnd c \<Rightarrow> handle_precommit E B R chain b rnd c s)"


section \<open>The round driver\<close>

text \<open>
  \<^verbatim>\<open>collect_phase_votes\<close>: the batches are the votes drained from the channel before the deadline,
  in order.  The filter drops votes of another context and of voters already seen or already in
  the batch; the verified rest is collected until the quorum is reached.
\<close>

fun retain_batch ::
  "bft_vote \<Rightarrow> bytes set \<Rightarrow> bytes set \<Rightarrow> bft_vote list \<Rightarrow> bft_vote list" where
  "retain_batch seed seen batch_voters [] = []"
| "retain_batch seed seen batch_voters (v # vs) =
     (if bv_height v = bv_height seed \<and> bv_round v = bv_round seed \<and> bv_phase v = bv_phase seed
         \<and> bv_public_key v \<notin> seen \<and> bv_public_key v \<notin> batch_voters
      then v # retain_batch seed seen (insert (bv_public_key v) batch_voters) vs
      else retain_batch seed seen batch_voters vs)"

text \<open>One batch: \<^const>\<open>True\<close> when the quorum was reached in it.\<close>

fun collect_batch ::
  "('sk, 'g1, 'g2, 'gt) bls \<Rightarrow> 'sk bft_provider \<Rightarrow> nat \<Rightarrow> bft_vote list \<Rightarrow> bytes set \<times> bft_vote list \<Rightarrow>
     bool \<times> bytes set \<times> bft_vote list" where
  "collect_batch B P q [] (seen, collected) = (False, seen, collected)"
| "collect_batch B P q (v # vs) (seen, collected) =
     (if \<not> is_ok (verify_vote B P v) then collect_batch B P q vs (seen, collected)
      else let seen = insert (bv_public_key v) seen; collected = collected @ [v]
           in if length collected = q then (True, seen, collected)
              else collect_batch B P q vs (seen, collected))"

fun collect_batches ::
  "('sk, 'g1, 'g2, 'gt) bls \<Rightarrow> 'sk bft_provider \<Rightarrow> bft_vote \<Rightarrow> nat \<Rightarrow> bft_vote list list \<Rightarrow>
     bytes set \<times> bft_vote list \<Rightarrow> bft_vote list" where
  "collect_batches B P seed q [] st = snd st"
| "collect_batches B P seed q (batch # batches) st =
     (case collect_batch B P q (retain_batch seed (fst st) {} batch) st of
        (True, _, collected) \<Rightarrow> collected
      | (False, st') \<Rightarrow> collect_batches B P seed q batches st')"

definition collect_phase_votes ::
  "('sk, 'g1, 'g2, 'gt) bls \<Rightarrow> 'sk bft_provider \<Rightarrow> bft_vote \<Rightarrow> nat \<Rightarrow> bft_vote list list \<Rightarrow> bft_vote list" where
  "collect_phase_votes B P seed q batches =
     collect_batches B P seed q batches
       (if is_ok (verify_vote B P seed) then ({bv_public_key seed}, [seed]) else ({}, []))"

definition round_certificate :: "block \<Rightarrow> bytes \<Rightarrow> bytes \<Rightarrow> quorum_certificate" where
  "round_certificate b bitmap aggregate =
     \<lparr>qc_block_index = b_index b, qc_block_hash = b_hash b, qc_signers_bitmap = bitmap,
      qc_aggregate_signature = aggregate, qc_algorithm = Bls12381\<rparr>"

definition register_round :: "block \<Rightarrow> u32 \<Rightarrow> bool \<Rightarrow> 'sk bft_state \<Rightarrow> 'sk bft_state" where
  "register_round b rnd is_leader s =
     s\<lparr>bs_round := Some \<lparr>br_height = b_index b, br_round = rnd, br_locked = locked_at s (b_index b),
         br_proposal = (if is_leader then Some b else None)\<rparr>,
       bs_vote_tx := Some []\<rparr>"

text \<open>
  \<^verbatim>\<open>run_vote_round\<close>.  \<open>votes r\<close> are the batches that arrive in the two phases of round \<open>r\<close>, and
  \<open>env r\<close> is what the handlers do to the state before that round starts.  When the driver returns,
  its receiver is dropped and a sender left behind drops every vote, as no sender does.
\<close>

function vote_rounds ::
  "'z crypto_scheme \<Rightarrow> ('sk, 'g1, 'g2, 'gt) bls \<Rightarrow> registry_env \<Rightarrow> string \<Rightarrow>
   (nat \<Rightarrow> 'sk bft_state \<Rightarrow> 'sk bft_state) \<Rightarrow> (nat \<Rightarrow> bft_vote list list \<times> bft_vote list list) \<Rightarrow>
   block \<Rightarrow> nat \<Rightarrow> 'sk bft_state \<Rightarrow>
   (core_error + commit_notification) \<times> bft_message list \<times> 'sk bft_state" where
  "vote_rounds E B R genesis_hash env votes b rnd s =
     (case derive_validator_provider E B R (env rnd s) of
        (None, s) \<Rightarrow> (Inl (InvalidTransaction BftNoValidatorSet), [], s)
      | (Some P, s) \<Rightarrow>
        (case local_index B P of
           None \<Rightarrow> (Inl (InvalidTransaction BftNotInSet), [], s)
         | Some index \<Rightarrow>
           let is_leader = (proposer_index P (b_index b) (of_nat rnd) = index);
               s = register_round b (of_nat rnd) is_leader s
           in if \<not> is_leader
              then (Inl (InvalidTransaction BftNotLeader), [], s\<lparr>bs_vote_tx := None\<rparr>)
              else
                let seed = sign_vote B P genesis_hash (b_index b) (of_nat rnd) Prevote (b_hash b);
                    prevotes = collect_phase_votes B P seed (quorum P) (fst (votes rnd));
                    proposal = Proposal b (of_nat rnd)
                in if length prevotes < quorum P
                   then if rnd + 1 \<ge> MAX_ROUNDS
                        then (Inl (InvalidTransaction BftPrevoteTimeout), [proposal],
                          s\<lparr>bs_vote_tx := None\<rparr>)
                        else case vote_rounds E B R genesis_hash env votes b (rnd + 1) s of
                          (r, out, s) \<Rightarrow> (r, proposal # out, s)
                   else case aggregate_votes B P prevotes of
                     Inl e \<Rightarrow> (Inl e, [proposal], s\<lparr>bs_vote_tx := None\<rparr>)
                   | Inr (prevote_bitmap, prevote_aggregate) \<Rightarrow>
                       let request = PrecommitRequest b (of_nat rnd)
                             (round_certificate b prevote_bitmap prevote_aggregate);
                           seed = sign_vote B P genesis_hash (b_index b) (of_nat rnd) Precommit (b_hash b);
                           precommits = collect_phase_votes B P seed (quorum P) (snd (votes rnd));
                           s = s\<lparr>bs_vote_tx := None\<rparr>
                       in if length precommits < quorum P
                          then if rnd + 1 \<ge> MAX_ROUNDS
                               then (Inl (InvalidTransaction BftPrecommitTimeout), [proposal, request], s)
                               else case vote_rounds E B R genesis_hash env votes b (rnd + 1) s of
                                 (r, out, s) \<Rightarrow> (r, proposal # request # out, s)
                          else case aggregate_votes B P precommits of
                            Inl e \<Rightarrow> (Inl e, [proposal, request], s)
                          | Inr (bitmap, aggregate) \<Rightarrow>
                              let certificate = round_certificate b bitmap aggregate
                              in (Inr \<lparr>cn_block = b\<lparr>b_certificate := Some certificate\<rparr>,
                                   cn_certificate = certificate\<rparr>, [proposal, request], s)))"
  by pat_completeness auto

termination
  by (relation "measure (\<lambda>(_, _, _, _, _, _, _, rnd, _). MAX_ROUNDS - rnd)") auto

declare vote_rounds.simps [simp del]

definition run_vote_round ::
  "'z env_scheme \<Rightarrow> ('sk, 'g1, 'g2, 'gt) bls \<Rightarrow> registry_env \<Rightarrow> string \<Rightarrow>
   (nat \<Rightarrow> 'sk bft_state \<Rightarrow> 'sk bft_state) \<Rightarrow> (nat \<Rightarrow> bft_vote list list \<times> bft_vote list list) \<Rightarrow>
   block \<Rightarrow> 'sk bft_state \<Rightarrow>
   (core_error + commit_notification) \<times> bft_message list \<times> 'sk bft_state" where
  "run_vote_round E B R genesis_hash env votes b s =
     vote_rounds E B R genesis_hash env votes (b\<lparr>b_hash := calculate_hash E b\<rparr>) 0 s"

section \<open>The vote journal\<close>

definition journal_wf :: "vote_receipts \<Rightarrow> bool" where
  "journal_wf seen \<longleftrightarrow> distinct (map fst seen) \<and> (\<forall>e \<in> set seen. fst e = receipt_key (snd e))
     \<and> length seen \<le> VOTE_RECEIPT_CAP"

lemma retain_from_subset: "set (retain_from h seen) \<subseteq> set seen" "length (retain_from h seen) \<le> length seen"
  by (auto simp: retain_from_def)

lemma retain_from_full: "length seen \<le> length (retain_from h seen) \<Longrightarrow> retain_from h seen = seen"
proof (rule ccontr)
  assume len: "length seen \<le> length (retain_from h seen)" and ne: "retain_from h seen \<noteq> seen"
  from ne obtain e where "e \<in> set seen" "\<not> (case e of ((h', _, _, _), _) \<Rightarrow> should_retain h' h)"
    unfolding retain_from_def filter_id_conv by blast
  then have "length (filter (\<lambda>((h', _, _, _), _). should_retain h' h) seen) < length seen"
    by - (erule length_filter_less, simp split: prod.splits)
  with len show False by (simp add: retain_from_def)
qed

lemma journal_wf_retain: "journal_wf seen \<Longrightarrow> journal_wf (retain_from h seen)"
  by (auto simp: journal_wf_def retain_from_def distinct_map_filter intro: order_trans [OF length_filter_le])

lemma journal_lookup:
  assumes "journal_wf seen" "map_of seen k = Some f"
  shows "receipt_key f = k" "f \<in> snd ` set seen"
  using map_of_SomeD [OF assms(2)] assms(1) by (force simp: journal_wf_def)+

lemma journal_wf_insert:
  assumes "journal_wf seen" "map_of seen (receipt_key v) = None" "length seen < VOTE_RECEIPT_CAP"
  shows "journal_wf (seen @ [(receipt_key v, v)])"
  using assms by (auto simp: journal_wf_def map_of_eq_None_iff)

text \<open>The four outcomes of recording a vote.\<close>

lemma receipt_record_cases:
  assumes "receipt_record v seen = (r, seen')"
  obtains (equivocation) f where "map_of seen (receipt_key v) = Some f" "bv_block_hash f \<noteq> bv_block_hash v"
      "r = Some \<lparr>ep_height = bv_height v, ep_round = bv_round v, ep_phase = bv_phase v,
         ep_public_key = bv_public_key v, ep_first_vote = f, ep_second_vote = v\<rparr>" "seen' = seen"
  | (duplicate) f where "map_of seen (receipt_key v) = Some f" "bv_block_hash f = bv_block_hash v"
      "r = None" "seen' = seen"
  | (full) "map_of seen (receipt_key v) = None" "r = None" "length seen \<ge> VOTE_RECEIPT_CAP"
      "retain_from (bv_height v) seen = seen" "seen' = seen"
  | (inserted) base where "map_of seen (receipt_key v) = None" "r = None"
      "base = seen \<and> length seen < VOTE_RECEIPT_CAP
        \<or> base = retain_from (bv_height v) seen \<and> length base < length seen"
      "seen' = base @ [(receipt_key v, v)]"
proof (cases "map_of seen (receipt_key v)")
  case None
  let ?kept = "retain_from (bv_height v) seen"
  have ins: "receipt_record v seen = (if length seen \<ge> VOTE_RECEIPT_CAP \<and> \<not> length ?kept < length seen
      then (None, ?kept)
      else (None, (if length seen \<ge> VOTE_RECEIPT_CAP then ?kept else seen) @ [(receipt_key v, v)]))"
    using None by (simp add: receipt_record_def receipt_action_def evict_stale_def Let_def)
  show thesis
  proof (cases "length seen \<ge> VOTE_RECEIPT_CAP \<and> \<not> length ?kept < length seen")
    case True
    then have "?kept = seen" by (intro retain_from_full) simp
    with True ins assms None show thesis by (intro full) auto
  next
    case False
    with ins assms None show thesis by (intro inserted) (auto simp: not_le)
  qed
next
  case (Some f)
  show thesis
  proof (cases "bv_block_hash f = bv_block_hash v")
    case True
    with Some assms show thesis
      by (intro duplicate [of f]) (simp_all add: receipt_record_def receipt_action_def)
  next
    case False
    with Some assms show thesis
      by (intro equivocation [of f]) (simp_all add: receipt_record_def receipt_action_def)
  qed
qed

lemma receipt_record_wf:
  assumes "journal_wf seen" "receipt_record v seen = (r, seen')"
  shows "journal_wf seen'"
  using assms(2)
proof (cases rule: receipt_record_cases)
  case (inserted base)
  have "map_of base (receipt_key v) = None"
    using inserted(1,3) retain_from_subset(1) [of "bv_height v" seen] by (auto simp: map_of_eq_None_iff)
  moreover have "length base < VOTE_RECEIPT_CAP" "journal_wf base"
    using assms(1) inserted(3) journal_wf_retain [of seen "bv_height v"] by (auto simp: journal_wf_def)
  ultimately show ?thesis unfolding inserted(4) by (intro journal_wf_insert)
qed (use assms(1) in simp_all)

lemma receipt_record_members:
  assumes "receipt_record v seen = (r, seen')"
  shows "snd ` set seen' \<subseteq> insert v (snd ` set seen)"
  using assms
proof (cases rule: receipt_record_cases)
  case (inserted base)
  then show ?thesis using retain_from_subset(1) [of "bv_height v" seen] by auto
qed auto


section \<open>Reachable node states\<close>

text \<open>
  A node starts with no round and an empty journal; then messages arrive in any order with any
  content, blocks are committed, a provider is attached, and the driver registers a round, drains
  its channel and drops it.
\<close>

inductive bft_reachable ::
  "'z env_scheme \<Rightarrow> ('sk, 'g1, 'g2, 'gt) bls \<Rightarrow> registry_env \<Rightarrow> 'sk bft_state \<Rightarrow> bool"
  for E B R where
  start: "bs_round s = None \<Longrightarrow> bs_receipts s = [] \<Longrightarrow> bs_equivocations s = [] \<Longrightarrow> bs_vote_tx s = None \<Longrightarrow>
    bft_reachable E B R s"
| message: "bft_reachable E B R s \<Longrightarrow> handle_bft E B R chain m s = (out, s') \<Longrightarrow> bft_reachable E B R s'"
| committed: "bft_reachable E B R s \<Longrightarrow>
    bft_reachable E B R (s\<lparr>bs_world_state := ws, bs_capability_history := ch\<rparr>)"
| attached: "bft_reachable E B R s \<Longrightarrow> bft_reachable E B R (s\<lparr>bs_consensus := Some P\<rparr>)"
| registered: "bft_reachable E B R s \<Longrightarrow> bft_reachable E B R (register_round b rnd leader s)"
| drained: "bft_reachable E B R s \<Longrightarrow> bs_vote_tx s = Some q \<Longrightarrow>
    bft_reachable E B R (s\<lparr>bs_vote_tx := Some (drop k q)\<rparr>)"
| dropped: "bft_reachable E B R s \<Longrightarrow> bft_reachable E B R (s\<lparr>bs_vote_tx := None\<rparr>)"

definition bft_inv :: "('sk, 'g1, 'g2, 'gt) bls \<Rightarrow> 'sk bft_state \<Rightarrow> bool" where
  "bft_inv B s \<longleftrightarrow> journal_wf (bs_receipts s)
     \<and> (\<forall>e \<in> set (bs_receipts s). vote_verify B (snd e) = Inr ())
     \<and> (\<forall>p \<in> set (bs_equivocations s). proof_verify B p = Inr ())
     \<and> (case bs_vote_tx s of None \<Rightarrow> True | Some q \<Rightarrow> length q \<le> VOTE_CHANNEL_CAP)"

lemma derive_frame:
  assumes "derive_validator_provider E B R s = (p, s')"
  obtains c where "s' = s\<lparr>bs_validator_cache := c\<rparr>"
proof -
  have "s' = s\<lparr>bs_validator_cache := bs_validator_cache s\<rparr> \<or> (\<exists>c. s' = s\<lparr>bs_validator_cache := c\<rparr>)"
    using assms by (auto simp: derive_validator_provider_def Let_def split: option.splits sum.splits if_splits)
  with that show thesis by blast
qed

lemma handle_proposal_frame:
  assumes "handle_proposal E B R chain b rnd s = (out, s')"
  obtains c r where "s' = s\<lparr>bs_validator_cache := c, bs_round := r\<rparr>"
proof -
  obtain p t where d: "derive_validator_provider E B R s = (p, t)" by fastforce
  from derive_frame [OF d] obtain c where t: "t = s\<lparr>bs_validator_cache := c\<rparr>" .
  have "(\<exists>r. s' = s\<lparr>bs_validator_cache := c, bs_round := r\<rparr>)
      \<or> (\<exists>r. s' = s\<lparr>bs_validator_cache := bs_validator_cache s, bs_round := r\<rparr>)"
    using assms d t by (auto simp: handle_proposal_def Let_def split: option.splits if_splits)
  with that show thesis by blast
qed

lemma handle_precommit_frame:
  assumes "handle_precommit E B R chain b rnd qc s = (out, s')"
  obtains c r where "s' = s\<lparr>bs_validator_cache := c, bs_round := r\<rparr>"
proof -
  obtain p t where d: "derive_validator_provider E B R s = (p, t)" by fastforce
  from derive_frame [OF d] obtain c where t: "t = s\<lparr>bs_validator_cache := c\<rparr>" .
  have "s' = s\<lparr>bs_validator_cache := bs_validator_cache s, bs_round := bs_round s\<rparr>
      \<or> s' = s\<lparr>bs_validator_cache := c, bs_round := bs_round s\<rparr>
      \<or> (\<exists>r. s' = s\<lparr>bs_validator_cache := c, bs_round := r\<rparr>)"
    using assms d t by (auto simp: handle_precommit_def split: option.splits if_splits)
  with that show thesis by blast
qed

lemma handle_vote_cases:
  assumes "handle_vote E B R v s = (found, s')"
  obtains (ignored) c where "found = None" "s' = s\<lparr>bs_validator_cache := c\<rparr>"
  | (counted) c P i r seen q where "fst (derive_validator_provider E B R s) = Some P" "verify_vote B P v = Inr i"
      "receipt_record v (retired v (bs_receipts s)) = (r, seen)"
      "found = (case r of Some p \<Rightarrow> if is_ok (proof_verify B p) then Some p else None | None \<Rightarrow> None)"
      "s' = s\<lparr>bs_validator_cache := c, bs_receipts := seen,
         bs_equivocations := bs_equivocations s @ (case found of Some p \<Rightarrow> [p] | None \<Rightarrow> []), bs_vote_tx := q\<rparr>"
      "q = (case bs_vote_tx s of None \<Rightarrow> None
         | Some q \<Rightarrow> Some (if length q < VOTE_CHANNEL_CAP then q @ [v] else q))"
proof -
  obtain p t where d: "derive_validator_provider E B R s = (p, t)" by fastforce
  from derive_frame [OF d] obtain c where t: "t = s\<lparr>bs_validator_cache := c\<rparr>" .
  show thesis
  proof (cases p)
    case None
    with assms d t ignored [of c] show thesis by (simp add: handle_vote_def)
  next
    case (Some P)
    show thesis
    proof (cases "verify_vote B P v")
      case (Inl e)
      with Some assms d t ignored [of c] show thesis by (simp add: handle_vote_def)
    next
      case (Inr i)
      obtain r seen where rec: "receipt_record v (retired v (bs_receipts s)) = (r, seen)" by fastforce
      let ?f = "case r of Some p \<Rightarrow> if is_ok (proof_verify B p) then Some p else None | None \<Rightarrow> None"
      let ?s = "s\<lparr>bs_validator_cache := c, bs_receipts := seen,
          bs_equivocations := bs_equivocations s @ (case ?f of Some p \<Rightarrow> [p] | None \<Rightarrow> []),
          bs_vote_tx := (case bs_vote_tx s of None \<Rightarrow> None
            | Some q \<Rightarrow> Some (if length q < VOTE_CHANNEL_CAP then q @ [v] else q))\<rparr>"
      have "handle_vote E B R v s = (?f, ?s)"
        using Inr by (simp add: handle_vote_def d Some t rec Let_def)
      from trans [OF assms [symmetric] this] have *: "found = ?f" "s' = ?s" by (simp_all only: prod.inject)
      show thesis
        by (rule counted [OF _ Inr rec *(1) _ refl]) (simp add: d Some, simp only: *)
    qed
  qed
qed

lemma handle_vote_inv:
  assumes "bft_inv B s" "handle_vote E B R v s = (found, s')"
  shows "bft_inv B s'"
  using assms(2)
proof (cases rule: handle_vote_cases)
  case (ignored c)
  with assms(1) show ?thesis by (simp add: bft_inv_def)
next
  case (counted c P i r seen q)
  have v: "vote_verify B v = Inr ()" using verify_vote_Inr [OF counted(2)] by simp
  have "journal_wf (retired v (bs_receipts s))" "set (retired v (bs_receipts s)) \<subseteq> set (bs_receipts s)"
    using assms(1) retain_from_subset(1) by (auto simp: retired_def retire_below_def Let_def bft_inv_def intro: journal_wf_retain)
  with receipt_record_wf [OF _ counted(3)] receipt_record_members [OF counted(3)] v assms(1)
  have "journal_wf seen" "\<forall>e \<in> set seen. vote_verify B (snd e) = Inr ()"
    unfolding bft_inv_def by (blast, fastforce)
  moreover have "\<forall>p. found = Some p \<longrightarrow> proof_verify B p = Inr ()"
    unfolding counted(4) by (auto simp: is_ok_def split: option.splits if_splits sum.splits)
  ultimately show ?thesis
    using assms(1) by (auto simp: bft_inv_def counted(5,6) split: option.splits)
qed

lemma bft_reachable_inv: "bft_reachable E B R s \<Longrightarrow> bft_inv B s"
proof (induction rule: bft_reachable.induct)
  case (message s chain m out s')
  show ?case
  proof (cases m)
    case (Proposal b rnd)
    with message(2) have "handle_proposal E B R chain b rnd s = (out, s')" by (simp add: handle_bft_def)
    then show ?thesis by (rule handle_proposal_frame) (use message.IH in \<open>simp add: bft_inv_def\<close>)
  next
    case (Vote v)
    with message(2) have "handle_vote E B R v s = (fst (handle_vote E B R v s), s')"
      by (auto simp: handle_bft_def prod_eq_iff)
    then show ?thesis by (rule handle_vote_inv [OF message.IH])
  next
    case (PrecommitRequest b rnd c)
    with message(2) have "handle_precommit E B R chain b rnd c s = (out, s')" by (simp add: handle_bft_def)
    then show ?thesis by (rule handle_precommit_frame) (use message.IH in \<open>simp add: bft_inv_def\<close>)
  qed
next
  case (drained s q k)
  then show ?case by (auto simp: bft_inv_def)
qed (simp_all add: bft_inv_def register_round_def journal_wf_def)

text \<open>
  Recorded evidence is sound and the journal is bounded: in every reachable state of a node,
  whatever messages arrived, each recorded equivocation proof verifies, each receipt is a verified
  vote under its own key, one per height, round, phase and key, and the journal and the vote
  channel stay within their caps.
\<close>

theorem recorded_evidence_verifies:
  assumes "bft_reachable E B R s"
  shows "(\<forall>p \<in> set (bs_equivocations s). proof_verify B p = Inr ())
    \<and> (\<forall>(k, v) \<in> set (bs_receipts s). k = receipt_key v \<and> vote_verify B v = Inr ())
    \<and> distinct (map fst (bs_receipts s)) \<and> length (bs_receipts s) \<le> VOTE_RECEIPT_CAP
    \<and> (\<forall>q. bs_vote_tx s = Some q \<longrightarrow> length q \<le> VOTE_CHANNEL_CAP)"
  using bft_reachable_inv [OF assms] by (auto simp: bft_inv_def journal_wf_def)

lemma retired_lookup:
  "map_of (retired v seen) (receipt_key v) = map_of seen (receipt_key v)"
proof -
  have keep: "map_of (retain_from h seen) (receipt_key v) = map_of seen (receipt_key v)"
    if "bv_height v \<ge> h" for h and seen :: vote_receipts
    using that by (induction seen) (auto simp: retain_from_def should_retain_def receipt_key_def)
  have "bv_height v - 1 \<le> bv_height v" if "1 < bv_height v"
    using that by unat_arith
  with keep show ?thesis by (simp add: retired_def retire_below_def Let_def)
qed

text \<open>
  Detection is exact: on a vote that verifies against the derived set, a node in a reachable
  state records evidence exactly when the journal already holds a vote of the same height, round,
  phase and key for another block hash on the same chain, and the evidence carries the two votes.
  The chain is not part of the journal's key: a first vote that names another chain leaves every
  later conflict of that voter in that context unrecorded.
\<close>

theorem evidence_exact:
  assumes "bft_reachable E B R s" "fst (derive_validator_provider E B R s) = Some P"
    and "is_ok (verify_vote B P w)"
  shows "fst (handle_vote E B R w s) = Some p \<longleftrightarrow>
    (\<exists>v. map_of (bs_receipts s) (receipt_key w) = Some v \<and> bv_block_hash v \<noteq> bv_block_hash w
       \<and> bv_chain_id v = bv_chain_id w
       \<and> p = \<lparr>ep_height = bv_height w, ep_round = bv_round w, ep_phase = bv_phase w,
           ep_public_key = bv_public_key w, ep_first_vote = v, ep_second_vote = w\<rparr>)"
proof -
  note inv = bft_reachable_inv [OF assms(1)]
  let ?J = "retired w (bs_receipts s)"
  obtain r seen where rec: "receipt_record w ?J = (r, seen)" by fastforce
  obtain t where d: "derive_validator_provider E B R s = (Some P, t)"
    using assms(2) by (cases "derive_validator_provider E B R s") simp
  from derive_frame [OF d] obtain c where t: "t = s\<lparr>bs_validator_cache := c\<rparr>" .
  have found: "fst (handle_vote E B R w s)
      = (case r of Some p \<Rightarrow> if is_ok (proof_verify B p) then Some p else None | None \<Rightarrow> None)"
    using assms(3) by (simp add: handle_vote_def d t rec Let_def)
  have w: "vote_verify B w = Inr ()"
    using assms(3) by (auto simp: is_ok_def dest: verify_vote_Inr split: sum.splits)
  have ok: "is_ok (proof_verify B \<lparr>ep_height = bv_height w, ep_round = bv_round w, ep_phase = bv_phase w,
      ep_public_key = bv_public_key w, ep_first_vote = v, ep_second_vote = w\<rparr>)
      \<longleftrightarrow> bv_chain_id v = bv_chain_id w"
    if "map_of (bs_receipts s) (receipt_key w) = Some v" "bv_block_hash v \<noteq> bv_block_hash w" for v
  proof -
    have "receipt_key v = receipt_key w" "vote_verify B v = Inr ()"
      using that(1) inv journal_lookup [of "bs_receipts s" "receipt_key w" v] by (auto simp: bft_inv_def)
    then show ?thesis
      using that(2) w by (auto simp: is_ok_iff proof_verify_Inr_iff proof_context_ok_def receipt_key_def)
  qed
  show ?thesis using rec
  proof (cases rule: receipt_record_cases)
    case (equivocation f)
    with ok [of f] show ?thesis by (auto simp: found retired_lookup)
  qed (auto simp: found retired_lookup)
qed


section \<open>Locks\<close>

text \<open>What \<^const>\<open>handle_proposal\<close> and \<^const>\<open>handle_precommit\<close> answer and what they leave of the locks.\<close>

lemma handle_proposal_lock:
  assumes "handle_proposal E B R chain b rnd s = (out, s')"
  shows "locked_at s' height = (if height = b_index b then locked_at s height else None)"
proof -
  obtain p t where d: "derive_validator_provider E B R s = (p, t)" by fastforce
  from assms show ?thesis
    by (auto simp: handle_proposal_def locked_at_def round_new_def Let_def d
        split: option.splits if_splits)
qed

lemma handle_proposal_answer:
  assumes "derive_validator_provider E B R s = (Some P, t)"
  shows "fst (handle_proposal E B R chain b rnd s) =
    (if locked_at s (b_index b) \<in> {None, Some (b_hash b)}
        \<and> valid_candidate E chain (bs_capability_history s) b
     then [Vote (sign_vote B P (b_hash (hd chain)) (b_index b) rnd Prevote (b_hash b))] else [])"
  using assms by (auto simp: handle_proposal_def locked_at_def round_new_def Let_def split: option.splits)



lemma sign_vote_sel [simp]:
  "bv_phase (sign_vote B P cid h r ph x) = ph" "bv_block_hash (sign_vote B P cid h r ph x) = x"
  "bv_height (sign_vote B P cid h r ph x) = h" "bv_round (sign_vote B P cid h r ph x) = r"
  "bv_chain_id (sign_vote B P cid h r ph x) = cid"
  "bv_public_key (sign_vote B P cid h r ph x) = bft_public_key B P"
  by (simp_all add: sign_vote_def sign_vote_with_def bft_public_key_def)


text \<open>The derived set stays the same until a block changes the registry.\<close>

lemma derive_stable:
  assumes "derive_validator_provider E B R s = (Some P, t)"
  shows "derive_validator_provider E B R (s\<lparr>bs_round := r\<rparr>) = (Some P, t\<lparr>bs_round := r\<rparr>)"
    and "derive_validator_provider E B R (t\<lparr>bs_round := r\<rparr>) = (Some P, t\<lparr>bs_round := r\<rparr>)"
proof -
  obtain A where A: "bs_consensus s = Some A"
    using assms by (cases "bs_consensus s") (auto simp: derive_validator_provider_def)
  let ?hit = "Option.bind (bs_validator_cache s)
    (\<lambda>(h, c). if h = entries_hash R (registry_entries R (bs_world_state s)) then Some c else None)"
  show "derive_validator_provider E B R (s\<lparr>bs_round := r\<rparr>) = (Some P, t\<lparr>bs_round := r\<rparr>)"
    and "derive_validator_provider E B R (t\<lparr>bs_round := r\<rparr>) = (Some P, t\<lparr>bs_round := r\<rparr>)"
    using assms A by (cases ?hit; auto simp: derive_validator_provider_def Let_def split: if_splits sum.splits)+
qed

lemma handle_proposal_derive:
  assumes "derive_validator_provider E B R s = (Some P, t)" "handle_proposal E B R chain b rnd s = (out, s')"
  obtains t' where "derive_validator_provider E B R s' = (Some P, t')"
    "bs_capability_history s' = bs_capability_history s"
proof -
  from derive_frame [OF assms(1)] obtain c where t: "t = s\<lparr>bs_validator_cache := c\<rparr>" .
  have "\<exists>r. s' = s\<lparr>bs_round := r\<rparr> \<or> s' = t\<lparr>bs_round := r\<rparr>"
    using assms by (auto simp: handle_proposal_def Let_def split: if_splits)
  with that derive_stable [OF assms(1)] t show thesis by fastforce
qed

lemma signed_conflict_verifies:
  assumes "bls_laws B" "x \<noteq> y"
  shows "proof_verify B \<lparr>ep_height = h, ep_round = r, ep_phase = ph, ep_public_key = bft_public_key B P,
    ep_first_vote = sign_vote B P cid h r ph x, ep_second_vote = sign_vote B P cid h r ph y\<rparr> = Inr ()"
  using assms vote_verify_signed [OF assms(1)]
  by (simp add: proof_verify_Inr_iff proof_context_ok_def) (simp add: sign_vote_def)

text \<open>
  C33. A correct validator can be made to incriminate itself: it keeps no record of what it
  prevoted, so of two proposals for one height and round that extend the tip, it prevotes both,
  and its two votes are an equivocation proof that verifies.
\<close>

theorem prevotes_conflict:
  assumes "bls_laws B" "derive_validator_provider E B R s = (Some P, t)"
    and "locked_at s (b_index b) = None" "b_index b' = b_index b" "b_hash b' \<noteq> b_hash b"
    and "valid_candidate E chain (bs_capability_history s) b"
    and "valid_candidate E chain (bs_capability_history s) b'"
  shows "\<exists>v w s'. fst (handle_proposal E B R chain b rnd s) = [Vote v]
    \<and> snd (handle_proposal E B R chain b rnd s) = s'
    \<and> fst (handle_proposal E B R chain b' rnd s') = [Vote w]
    \<and> proof_verify B \<lparr>ep_height = b_index b, ep_round = rnd, ep_phase = Prevote,
        ep_public_key = bft_public_key B P, ep_first_vote = v, ep_second_vote = w\<rparr> = Inr ()"
proof -
  obtain out s' where h: "handle_proposal E B R chain b rnd s = (out, s')" by fastforce
  from handle_proposal_derive [OF assms(2) h] obtain t' where
    d: "derive_validator_provider E B R s' = (Some P, t')"
    "bs_capability_history s' = bs_capability_history s" .
  let ?vote = "\<lambda>x. sign_vote B P (b_hash (hd chain)) (b_index b) rnd Prevote x"
  have "locked_at s' (b_index b') = None" using handle_proposal_lock [OF h] assms(3,4) by simp
  then have "fst (handle_proposal E B R chain b' rnd s') = [Vote (?vote (b_hash b'))]"
    using handle_proposal_answer [OF d(1)] assms(4,7) d(2) by simp
  moreover have "fst (handle_proposal E B R chain b rnd s) = [Vote (?vote (b_hash b))]"
    using handle_proposal_answer [OF assms(2)] assms(3,6) by simp
  moreover have "snd (handle_proposal E B R chain b rnd s) = s'" by (simp add: h)
  ultimately show ?thesis using signed_conflict_verifies [OF assms(1) assms(5) [symmetric]] by blast
qed

text \<open>
  C34. A lock does not survive a message for another height: a validator locked on one block
  prevotes a conflicting block at the same height after any proposal, valid or not, whose block
  names another height.
\<close>

theorem foreign_proposal_unlocks:
  assumes "locked_at s height = Some x" "b_index b0 \<noteq> height" "b_index b = height" "b_hash b \<noteq> x"
    and "derive_validator_provider E B R s = (Some P, t)"
    and "valid_candidate E chain (bs_capability_history s) b"
  shows "fst (handle_proposal E B R chain b rnd s) = []
    \<and> fst (handle_proposal E B R chain b rnd (snd (handle_proposal E B R chain b0 rnd0 s)))
      = [Vote (sign_vote B P (b_hash (hd chain)) height rnd Prevote (b_hash b))]"
proof -
  obtain out s' where h: "handle_proposal E B R chain b0 rnd0 s = (out, s')" by fastforce
  from handle_proposal_derive [OF assms(5) h] obtain t' where
    d: "derive_validator_provider E B R s' = (Some P, t')"
    "bs_capability_history s' = bs_capability_history s" .
  have "locked_at s' height = None" using handle_proposal_lock [OF h] assms(2) by simp
  with handle_proposal_answer [OF assms(5)] handle_proposal_answer [OF d(1)] assms(1,3,4,6) d(2) h
  show ?thesis by simp
qed


section \<open>Certificates of an adopted chain\<close>

text \<open>The registry after a run of blocks, and whether any of them changed it.\<close>

definition registry_after :: "registry_env \<Rightarrow> block list \<Rightarrow> core_error + validator_registry \<times> bool" where
  "registry_after R bs = try_fold (registry_write R) ([], False) (concat (map b_write_set bs))"

definition governs ::
  "'z crypto_scheme \<Rightarrow> ('sk, 'g1, 'g2, 'gt) bls \<Rightarrow> registry_env \<Rightarrow> 'sk \<Rightarrow> 'sk bft_provider option \<Rightarrow> block list \<Rightarrow>
     'sk bft_provider \<Rightarrow> bool" where
  "governs E B R vk bootstrap pre P \<longleftrightarrow>
     (\<exists>registry changed. registry_after R pre = Inr (registry, changed)
        \<and> (if changed then bft_new E B (map snd registry) vk = Inr P else bootstrap = Some P))"

lemma registry_write_flag:
  "registry_write R (reg, True) w = map_sum id (\<lambda>st. (fst st, True)) (registry_write R (reg, f) w)"
  by (auto simp: registry_write_def res_bind_def split: option.splits write_op.splits sum.splits)

lemma registry_fold_flag:
  "try_fold (registry_write R) (reg, True) ws
     = map_sum id (\<lambda>st. (fst st, True)) (try_fold (registry_write R) (reg, f) ws)"
proof (induction ws arbitrary: reg f)
  case (Cons w ws)
  show ?case
  proof (cases "registry_write R (reg, f) w")
    case (Inr st)
    obtain reg' f' where st: "st = (reg', f')" by (cases st)
    show ?thesis using Inr Cons.IH [of reg' f'] by (simp add: registry_write_flag [of R reg w f] st)
  qed (simp add: registry_write_flag [of R reg w f])
qed simp

lemma registry_fold_unchanged:
  "try_fold (registry_write R) st ws = Inr st' \<Longrightarrow> \<not> snd st' \<Longrightarrow> st' = st"
proof (induction ws arbitrary: st)
  case (Cons w ws)
  from Cons.prems(1) obtain t where t: "registry_write R st w = Inr t" "try_fold (registry_write R) t ws = Inr st'"
    by (auto simp: res_simps)
  from Cons.IH [OF t(2) Cons.prems(2)] Cons.prems(2) t(1) show ?case
    by (auto simp: registry_write_def res_simps split: option.splits write_op.splits)
qed simp

text \<open>The loop state stands for the registry of the blocks seen so far.\<close>

definition snapshots ::
  "'z crypto_scheme \<Rightarrow> ('sk, 'g1, 'g2, 'gt) bls \<Rightarrow> registry_env \<Rightarrow> 'sk \<Rightarrow> block list \<Rightarrow>
     validator_registry \<times> (u64 \<times> 'sk bft_provider) list \<Rightarrow> bool" where
  "snapshots E B R vk pre st \<longleftrightarrow>
     registry_after R pre = Inr (fst st, snd st \<noteq> [])
     \<and> (snd st \<noteq> [] \<longrightarrow> bft_new E B (map snd (fst st)) vk = Inr (snd (last (snd st)))
          \<and> fst (last (snd st)) \<le> of_nat (length pre))"

lemma snapshots_governs:
  assumes "snapshots E B R vk pre st" "effective_validators bootstrap (snd st) (of_nat (length pre)) = Some P"
  shows "governs E B R vk bootstrap pre P"
proof (cases "snd st = []")
  case True
  have "registry_after R pre = Inr (fst st, False)" using assms(1) True by (simp add: snapshots_def)
  moreover have "bootstrap = Some P" using assms(2) True by (simp add: effective_validators_def)
  ultimately show ?thesis unfolding governs_def by auto
next
  case False
  then obtain sets h Q where sets: "snd st = sets @ [(h, Q)]" by (cases "snd st" rule: rev_cases) auto
  have st: "registry_after R pre = Inr (fst st, True)" "bft_new E B (map snd (fst st)) vk = Inr Q"
    "h \<le> of_nat (length pre)" using assms(1) unfolding snapshots_def sets by simp_all
  then have "Q = P" using assms(2) unfolding effective_validators_def sets by simp
  with st show ?thesis unfolding governs_def by auto
qed

lemma snapshots_step:
  assumes "snapshots E B R vk pre st" "apply_registry_block E B R vk b st = Inr st'"
    and "b_index b = of_nat (length pre)" "length pre + 1 < 2 ^ 64"
  shows "snapshots E B R vk (pre @ [b]) st'"
proof -
  obtain reg sets where st: "st = (reg, sets)" by (cases st)
  from assms(2) obtain reg' changed where
    f: "try_fold (registry_write R) (reg, False) (b_write_set b) = Inr (reg', changed)"
    and st': "st' = (reg', sets) \<and> \<not> changed
      \<or> changed \<and> (\<exists>P. bft_new E B (map snd reg') vk = Inr P \<and> st' = (reg', sets @ [(b_index b + 1, P)]))"
    by (auto simp: apply_registry_block_def st res_simps map_err_def split: if_splits sum.splits)
  have flag: "try_fold (registry_write R) (reg, sets \<noteq> []) (b_write_set b) = Inr (reg', sets \<noteq> [] \<or> changed)"
    using f registry_fold_flag [of R reg "b_write_set b" False] by (cases "sets = []") simp_all
  then have after: "registry_after R (pre @ [b]) = Inr (reg', sets \<noteq> [] \<or> changed)"
    using assms(1) by (simp add: snapshots_def registry_after_def try_fold_append st)
  have small: "of_nat (length pre) \<le> (of_nat (length (pre @ [b])) :: u64)"
    using assms(4) by (simp add: word_le_nat_alt unat_of_nat del: of_nat_Suc)
  show ?thesis
  proof (cases changed)
    case True
    with st' after assms(3) show ?thesis by (auto simp: snapshots_def add.commute)
  next
    case False
    then have st'': "st' = (reg', sets)" using st' by simp
    have "reg' = reg" using registry_fold_unchanged [OF f] False by simp
    with False after assms(1) small show ?thesis
      by (auto simp: snapshots_def st st'')
  qed
qed

lemma check_chain_certificates_governed:
  assumes "check_chain_certificates E B R vk bootstrap st bs = Inr ()" "snapshots E B R vk pre st"
    and "\<forall>i < length bs. b_index (bs ! i) = of_nat (length pre + i)" "length pre + length bs < 2 ^ 64"
    and "k < length bs" "b_certificate (bs ! k) = Some c" "\<not> is_degenerate c"
  shows "\<exists>P. governs E B R vk bootstrap (pre @ take k bs) P \<and> verify_certificate B P c (bs ! k) = Inr ()"
  using assms
proof (induction bs arbitrary: st pre k)
  case (Cons b bs)
  from Cons.prems(1) obtain st' where
    v: "verify_block_certificate B (effective_validators bootstrap (snd st) (b_index b)) b = Inr ()"
    and st': "apply_registry_block E B R vk b st = Inr st'"
      "check_chain_certificates E B R vk bootstrap st' bs = Inr ()" by (auto simp: res_simps)
  have b: "b_index b = of_nat (length pre)" using Cons.prems(3) by force
  show ?case
  proof (cases k)
    case 0
    with v Cons.prems(6,7) obtain P where "effective_validators bootstrap (snd st) (of_nat (length pre)) = Some P"
      "verify_certificate B P c b = Inr ()"
      by (auto simp: verify_block_certificate_def res_simps b)
    with snapshots_governs [OF Cons.prems(2)] 0 show ?thesis by auto
  next
    case (Suc j)
    have "snapshots E B R vk (pre @ [b]) st'"
      by (rule snapshots_step [OF Cons.prems(2) st'(1) b]) (use Cons.prems(4) in simp)
    moreover have "\<forall>i < length bs. b_index (bs ! i) = of_nat (length (pre @ [b]) + i)"
      using Cons.prems(3) by (metis Suc_less_eq add_Suc_right add_Suc_shift length_Cons length_append_singleton nth_Cons_Suc)
    ultimately show ?thesis
      using Cons.IH [OF st'(2), of "pre @ [b]" j] Cons.prems(4-7) Suc by simp
  qed
qed simp

text \<open>
  C5. Adopted certificates were issued by the set in force: when a chain with consecutive heights
  passes, every non-degenerate certificate in it verifies for its block against the validators that
  the registry writes of the earlier blocks define, each with a verified proof of possession, and
  against the bootstrap set when no earlier block changed the registry.
\<close>

theorem chain_certificates_governed:
  assumes "verify_chain_certificates E B R vk chain bootstrap = Inr ()"
    and "\<forall>i < length chain. b_index (chain ! i) = of_nat i" "length chain < 2 ^ 64"
    and "k < length chain" "b_certificate (chain ! k) = Some c" "\<not> is_degenerate c"
  shows "\<exists>registry changed P. registry_after R (take k chain) = Inr (registry, changed)
    \<and> (if changed then bp_validators P = map snd registry
          \<and> (\<forall>v \<in> set (map snd registry). check_validator E B v = Inr ())
        else bootstrap = Some P)
    \<and> verify_certificate B P c (chain ! k) = Inr ()"
proof -
  have "snapshots E B R vk [] ([], [])" by (simp add: snapshots_def registry_after_def)
  from check_chain_certificates_governed [OF assms(1) [unfolded verify_chain_certificates_def] this _ _ assms(4-6)]
  obtain P where "governs E B R vk bootstrap (take k chain) P" "verify_certificate B P c (chain ! k) = Inr ()"
    using assms(2,3) by auto
  moreover have "bp_validators P = vs \<and> (\<forall>v \<in> set vs. check_validator E B v = Inr ())"
    if "bft_new E B vs vk = Inr P" for vs
    using that by (auto simp: bft_new_def res_simps)
  ultimately show ?thesis unfolding governs_def by (metis (no_types))
qed


section \<open>Collecting votes\<close>

definition in_context :: "bft_vote \<Rightarrow> bft_vote \<Rightarrow> bool" where
  "in_context seed v \<longleftrightarrow> bv_height v = bv_height seed \<and> bv_round v = bv_round seed \<and> bv_phase v = bv_phase seed"

lemma retain_batch_props:
  "set (retain_batch seed seen bv vs) \<subseteq> {v \<in> set vs. in_context seed v \<and> bv_public_key v \<notin> seen \<union> bv}"
  "distinct (map bv_public_key (retain_batch seed seen bv vs))"
  "bv_public_key ` set (retain_batch seed seen bv vs) = bv_public_key ` {v \<in> set vs. in_context seed v} - seen - bv"
proof (induction vs arbitrary: bv)
  case (Cons v vs)
  { case 1 show ?case using Cons.IH(1) [of bv] Cons.IH(1) [of "insert (bv_public_key v) bv"]
      by (auto simp: in_context_def) }
  { case 2 show ?case using Cons.IH(2) [of bv] Cons.IH(2) [of "insert (bv_public_key v) bv"]
      Cons.IH(1) [of "insert (bv_public_key v) bv"] by auto }
  { case 3 show ?case using Cons.IH(3) [of bv] Cons.IH(3) [of "insert (bv_public_key v) bv"]
      by (auto simp: in_context_def) }
qed simp_all

text \<open>What the collector holds: one verified vote of the phase per voter seen.\<close>

definition collector ::
  "('sk, 'g1, 'g2, 'gt) bls \<Rightarrow> 'sk bft_provider \<Rightarrow> bft_vote \<Rightarrow> bytes set \<times> bft_vote list \<Rightarrow> bool" where
  "collector B P seed st \<longleftrightarrow> fst st = bv_public_key ` set (snd st) \<and> distinct (map bv_public_key (snd st))
     \<and> (\<forall>v \<in> set (snd st). in_context seed v \<and> is_ok (verify_vote B P v))"

lemma collect_batch_collector:
  assumes "collect_batch B P q vs st = (full, st')" "collector B P seed st" "distinct (map bv_public_key vs)"
    and "\<forall>v \<in> set vs. in_context seed v \<and> bv_public_key v \<notin> fst st"
  shows "collector B P seed st' \<and> set (snd st') \<subseteq> set (snd st) \<union> set vs
    \<and> (full \<longrightarrow> length (snd st') = q)
    \<and> (\<not> full \<longrightarrow> set (snd st') = set (snd st) \<union> {v \<in> set vs. is_ok (verify_vote B P v)})"
  using assms
proof (induction vs arbitrary: st)
  case Nil
  then show ?case by (cases st) auto
next
  case (Cons v vs)
  obtain seen collected where st: "st = (seen, collected)" by (cases st)
  let ?st = "(insert (bv_public_key v) seen, collected @ [v])"
  show ?case
  proof (cases "is_ok (verify_vote B P v)")
    case False
    with Cons.prems Cons.IH [of st] show ?thesis by (auto simp: st)
  next
    case ok: True
    have inv: "collector B P seed ?st"
      using Cons.prems(2,4) ok by (auto simp: collector_def st)
    show ?thesis
    proof (cases "length (collected @ [v]) = q")
      case True
      with Cons.prems(1) ok have "full" "st' = ?st" by (simp_all add: st)
      with inv True show ?thesis by (auto simp: st)
    next
      case False
      with Cons.prems(1) ok have "collect_batch B P q vs ?st = (full, st')" by (simp add: st)
      moreover have "\<forall>w \<in> set vs. in_context seed w \<and> bv_public_key w \<notin> fst ?st" "distinct (map bv_public_key vs)"
        using Cons.prems(3,4) by (auto simp: st image_iff)
      ultimately show ?thesis using Cons.IH [OF _ inv] ok by (auto simp: st)
    qed
  qed
qed

lemma collect_batches_collector:
  assumes "collector B P seed st"
  shows "\<exists>keys. collector B P seed (keys, collect_batches B P seed q batches st)
    \<and> set (collect_batches B P seed q batches st) \<subseteq> set (snd st) \<union> set (concat batches)
    \<and> (length (collect_batches B P seed q batches st) = q
       \<or> ((\<forall>v \<in> set (concat batches). in_context seed v \<longrightarrow> is_ok (verify_vote B P v)) \<longrightarrow>
         fst st \<union> bv_public_key ` {v \<in> set (concat batches). in_context seed v} \<subseteq> keys))"
  using assms
proof (induction batches arbitrary: st)
  case Nil
  then show ?case by (cases st) auto
next
  case (Cons batch batches)
  let ?r = "retain_batch seed (fst st) {} batch"
  obtain full st' where c: "collect_batch B P q ?r st = (full, st')" using prod.exhaust by blast
  note r = retain_batch_props [of seed "fst st" "{}" batch]
  from collect_batch_collector [OF c Cons.prems r(2)] r(1)
  have s: "collector B P seed st'" "set (snd st') \<subseteq> set (snd st) \<union> set ?r" "full \<longrightarrow> length (snd st') = q"
    "\<not> full \<longrightarrow> set (snd st') = set (snd st) \<union> {v \<in> set ?r. is_ok (verify_vote B P v)}" by blast+
  show ?case
  proof (cases full)
    case True
    then have eq: "collect_batches B P seed q (batch # batches) st = snd st'" using c by (cases st') simp
    have "set (snd st') \<subseteq> set (snd st) \<union> set (concat (batch # batches))" using s(2) r(1) by auto
    with True s(1,3) show ?thesis unfolding eq by (intro exI [of _ "fst st'"]) simp
  next
    case False
    then have eq: "collect_batches B P seed q (batch # batches) st = collect_batches B P seed q batches st'"
      using c by (cases st') simp
    from Cons.IH [OF s(1)] obtain keys where k:
      "collector B P seed (keys, collect_batches B P seed q batches st')"
      "set (collect_batches B P seed q batches st') \<subseteq> set (snd st') \<union> set (concat batches)"
      "length (collect_batches B P seed q batches st') = q
       \<or> ((\<forall>v \<in> set (concat batches). in_context seed v \<longrightarrow> is_ok (verify_vote B P v)) \<longrightarrow>
         fst st' \<union> bv_public_key ` {v \<in> set (concat batches). in_context seed v} \<subseteq> keys)" by blast
    have step: "fst st \<union> bv_public_key ` {v \<in> set batch. in_context seed v} \<subseteq> fst st'"
      if "\<forall>v \<in> set batch. in_context seed v \<longrightarrow> is_ok (verify_vote B P v)"
    proof -
      have "{v \<in> set ?r. is_ok (verify_vote B P v)} = set ?r" using that r(1) by blast
      then have "set (snd st') = set (snd st) \<union> set ?r" using s(4) False by simp
      then have "fst st' = fst st \<union> bv_public_key ` set ?r"
        using s(1) Cons.prems by (simp add: collector_def image_Un)
      then show ?thesis unfolding r(3) by blast
    qed
    have "set (collect_batches B P seed q batches st') \<subseteq> set (snd st) \<union> set (concat (batch # batches))"
      using k(2) s(2) r(1) by auto
    moreover have "fst st \<union> bv_public_key ` {v \<in> set (concat (batch # batches)). in_context seed v} \<subseteq> keys"
      if "\<forall>v \<in> set (concat (batch # batches)). in_context seed v \<longrightarrow> is_ok (verify_vote B P v)"
        "length (collect_batches B P seed q batches st') \<noteq> q"
    proof -
      have "{v \<in> set (concat (batch # batches)). in_context seed v}
          = {v \<in> set batch. in_context seed v} \<union> {v \<in> set (concat batches). in_context seed v}" by auto
      then show ?thesis using step k(3) that by (simp add: image_Un) blast
    qed
    ultimately show ?thesis unfolding eq using k(1) by blast
  qed
qed

lemma collect_phase_votes_sound:
  fixes B :: "('sk, 'g1, 'g2, 'gt) bls"
  assumes vs_def: "vs = collect_phase_votes B P seed q batches"
  shows "distinct (map bv_public_key vs)" "set vs \<subseteq> insert seed (set (concat batches))"
    and "v \<in> set vs \<Longrightarrow> in_context seed v \<and> is_ok (verify_vote B P v)"
proof -
  let ?st = "if is_ok (verify_vote B P seed) then ({bv_public_key seed}, [seed]) else ({}, [])"
  have "collector B P seed ?st" by (simp add: collector_def in_context_def)
  from collect_batches_collector [OF this, of q batches] obtain keys where
    "collector B P seed (keys, vs)" "set vs \<subseteq> set (snd ?st) \<union> set (concat batches)"
    unfolding vs_def collect_phase_votes_def by blast
  then show "distinct (map bv_public_key vs)" "set vs \<subseteq> insert seed (set (concat batches))"
    "v \<in> set vs \<Longrightarrow> in_context seed v \<and> is_ok (verify_vote B P v)"
    by (auto simp: collector_def split: if_splits)
qed

lemma collect_phase_votes_complete:
  fixes B :: "('sk, 'g1, 'g2, 'gt) bls"
  assumes "\<forall>v \<in> insert seed (set (concat batches)). in_context seed v \<longrightarrow> is_ok (verify_vote B P v)"
    and "q \<le> card (bv_public_key ` {v \<in> insert seed (set (concat batches)). in_context seed v})"
  shows "q \<le> length (collect_phase_votes B P seed q batches)"
proof -
  let ?vs = "collect_phase_votes B P seed q batches"
  have "in_context seed seed" by (simp add: in_context_def)
  with assms(1) have seed: "is_ok (verify_vote B P seed)" by simp
  then have "collector B P seed ({bv_public_key seed}, [seed])"
    by (simp add: collector_def in_context_def)
  from collect_batches_collector [OF this, of q batches] obtain keys where
    k: "collector B P seed (keys, ?vs)" "length ?vs = q \<or>
      {bv_public_key seed} \<union> bv_public_key ` {v \<in> set (concat batches). in_context seed v} \<subseteq> keys"
    using assms(1) seed unfolding collect_phase_votes_def by auto
  have "{v \<in> insert seed (set (concat batches)). in_context seed v}
      = insert seed {v \<in> set (concat batches). in_context seed v}" by (auto simp: in_context_def)
  then have "bv_public_key ` {v \<in> insert seed (set (concat batches)). in_context seed v}
      = {bv_public_key seed} \<union> bv_public_key ` {v \<in> set (concat batches). in_context seed v}" by simp
  moreover have "keys = bv_public_key ` set ?vs" using k(1) by (simp add: collector_def)
  ultimately have "length ?vs = q \<or> q \<le> card (bv_public_key ` set ?vs)"
    using k(2) assms(2) by (metis List.finite_set card_mono finite_imageI order_trans)
  moreover have "card (bv_public_key ` set ?vs) \<le> length ?vs"
    by (rule order_trans [OF card_image_le card_length]) simp
  ultimately show ?thesis by linarith
qed


section \<open>The rounds of one height\<close>

lemma proposer_slot_rotation:
  assumes "0 < n"
  shows "proposer_slot h r n = (unat h + unat r) mod n" "proposer_slot h r n < n"
proof -
  have "max n 1 = n" using assms by simp
  then show "proposer_slot h r n = (unat h + unat r) mod n" "proposer_slot h r n < n"
    using assms by (simp_all add: proposer_slot_def mod_add_eq Let_def del: max_Suc_Suc)
qed

lemma proposer_slot_moves: "2 \<le> n \<Longrightarrow> proposer_slot h 0 n \<noteq> proposer_slot h 1 n"
proof
  assume "2 \<le> n" "proposer_slot h 0 n = proposer_slot h 1 n"
  then have "unat h mod n = Suc (unat h) mod n" by (simp add: proposer_slot_rotation)
  then show False using \<open>2 \<le> n\<close> by (simp add: mod_Suc split: if_splits)
qed

lemma vote_rounds_follower:
  assumes "derive_validator_provider E B R (env rnd s) = (Some P, s1)" "local_index B P = Some i"
    and "proposer_index P (b_index b) (of_nat rnd) \<noteq> i"
  shows "vote_rounds E B R cid env votes b rnd s = (Inl (InvalidTransaction BftNotLeader), [],
    (register_round b (of_nat rnd) False s1)\<lparr>bs_vote_tx := None\<rparr>)"
  by (subst vote_rounds.simps) (use assms in \<open>simp add: Let_def\<close>)

lemma vote_rounds_leader:
  assumes "derive_validator_provider E B R (env rnd s) = (Some P, s1)" "local_index B P = Some i"
    and "proposer_index P (b_index b) (of_nat rnd) = i"
    and s2_def: "s2 = register_round b (of_nat rnd) True s1"
    and pre_def: "pre = collect_phase_votes B P
    (sign_vote B P cid (b_index b) (of_nat rnd) Prevote (b_hash b)) (quorum P) (fst (votes rnd))"
    and com_def: "com = collect_phase_votes B P
    (sign_vote B P cid (b_index b) (of_nat rnd) Precommit (b_hash b)) (quorum P) (snd (votes rnd))"
  shows "vote_rounds E B R cid env votes b rnd s =
    (if length pre < quorum P
     then if rnd + 1 \<ge> MAX_ROUNDS
          then (Inl (InvalidTransaction BftPrevoteTimeout), [Proposal b (of_nat rnd)], s2\<lparr>bs_vote_tx := None\<rparr>)
          else case vote_rounds E B R cid env votes b (rnd + 1) s2 of
            (r, out, s) \<Rightarrow> (r, Proposal b (of_nat rnd) # out, s)
     else case aggregate_votes B P pre of
       Inl e \<Rightarrow> (Inl e, [Proposal b (of_nat rnd)], s2\<lparr>bs_vote_tx := None\<rparr>)
     | Inr (pbm, pagg) \<Rightarrow>
         let request = PrecommitRequest b (of_nat rnd) (round_certificate b pbm pagg)
         in if length com < quorum P
            then if rnd + 1 \<ge> MAX_ROUNDS
                 then (Inl (InvalidTransaction BftPrecommitTimeout), [Proposal b (of_nat rnd), request],
                   s2\<lparr>bs_vote_tx := None\<rparr>)
                 else case vote_rounds E B R cid env votes b (rnd + 1) (s2\<lparr>bs_vote_tx := None\<rparr>) of
                   (r, out, s) \<Rightarrow> (r, Proposal b (of_nat rnd) # request # out, s)
            else case aggregate_votes B P com of
              Inl e \<Rightarrow> (Inl e, [Proposal b (of_nat rnd), request], s2\<lparr>bs_vote_tx := None\<rparr>)
            | Inr (bm, agg) \<Rightarrow>
                (Inr \<lparr>cn_block = b\<lparr>b_certificate := Some (round_certificate b bm agg)\<rparr>,
                   cn_certificate = round_certificate b bm agg\<rparr>, [Proposal b (of_nat rnd), request],
                 s2\<lparr>bs_vote_tx := None\<rparr>))"
  by (subst vote_rounds.simps)
    (unfold assms(1-3) s2_def pre_def com_def Let_def option.case prod.case simp_thms
      not_True_eq_False if_False, simp)

lemma aggregate_votes_Inl:
  assumes "aggregate_votes B P vs = Inl e"
  shows "\<exists>x. e = InvalidBlock x"
proof -
  have "\<exists>x. e = InvalidBlock x" if "aggregate_step B P st v = Inl e" for st v e
    using that by (auto simp: aggregate_step_def verify_vote_def vote_verify_def res_bind_def ok_or_def
        split: prod.splits sum.splits option.splits if_splits)
  then have "\<exists>x. e = InvalidBlock x" if "try_fold (aggregate_step B P) st vs = Inl e" for st
    using that by (induction vs arbitrary: st) (auto simp: res_bind_def split: sum.splits)
  with assms show ?thesis
    by (auto simp: aggregate_votes_def res_bind_def ok_or_def split: sum.splits option.splits)
qed

text \<open>
  C35. There is no view change: with two or more validators and a set that stays the same, a driver
  commits only when its node is the proposer of round 0, and then in round 0; when the prevotes or the
  precommits of that round miss the quorum, the next round has another proposer and the driver returns the
  follower error, so no later round is ever proposed and no timeout is ever reported.
\<close>

theorem no_view_change:
  assumes "\<forall>r s. fst (derive_validator_provider E B R (env r s)) = Some P" "2 \<le> validator_count P"
    and "run_vote_round E B R cid env votes b s = (result, out, s')"
    and "collected = (\<lambda>phase batches. collect_phase_votes B P
      (sign_vote B P cid (b_index b) 0 phase (calculate_hash E b)) (quorum P) batches)"
  shows "(is_ok result \<longrightarrow> local_index B P = Some (proposer_index P (b_index b) 0) \<and> length out = 2
      \<and> quorum P \<le> length (collected Prevote (fst (votes 0))) \<and> quorum P \<le> length (collected Precommit (snd (votes 0))))
    \<and> (\<forall>rnd b'. Proposal b' rnd \<in> set out \<longrightarrow> rnd = 0)
    \<and> result \<noteq> Inl (InvalidTransaction BftPrevoteTimeout)
    \<and> result \<noteq> Inl (InvalidTransaction BftPrecommitTimeout)
    \<and> (local_index B P = Some (proposer_index P (b_index b) 0)
        \<and> (length (collected Prevote (fst (votes 0))) < quorum P
          \<or> is_ok (aggregate_votes B P (collected Prevote (fst (votes 0))))
            \<and> length (collected Precommit (snd (votes 0))) < quorum P) \<longrightarrow>
         result = Inl (InvalidTransaction BftNotLeader))"
proof -
  have derive: "\<exists>s1. derive_validator_provider E B R (env r s) = (Some P, s1)" for r s
    using assms(1) by (metis prod.collapse)
  let ?b = "b\<lparr>b_hash := calculate_hash E b\<rparr>"
  let ?run = "vote_rounds E B R cid env votes ?b 0 s"
  let ?pre = "collected Prevote (fst (votes 0))" and ?com = "collected Precommit (snd (votes 0))"
  have run: "?run = (result, out, s')" using assms(3) by (simp add: run_vote_round_def)
  obtain s1 where d: "derive_validator_provider E B R (env 0 s) = (Some P, s1)" using derive by blast
  show ?thesis
  proof (cases "local_index B P")
    case None
    then have "?run = (Inl (InvalidTransaction BftNotInSet), [], s1)"
      by (subst vote_rounds.simps) (simp add: d)
    with run None show ?thesis by auto
  next
    case (Some i)
    show ?thesis
    proof (cases "proposer_index P (b_index b) 0 = i")
      case False
      then have "result = Inl (InvalidTransaction BftNotLeader) \<and> out = []"
        using vote_rounds_follower [where env = env and rnd = 0 and s = s, OF d Some, of ?b cid votes] run by simp
      then show ?thesis by simp
    next
      case True
      have other: "proposer_index P (b_index ?b) (of_nat (0 + 1)) \<noteq> i"
        using proposer_slot_moves [OF assms(2), of "b_index b"] True by (auto simp: proposer_index_def)
      have follows: "\<exists>s2. vote_rounds E B R cid env votes ?b 1 s = (Inl (InvalidTransaction BftNotLeader), [], s2)" for s
      proof -
        obtain s3 where "derive_validator_provider E B R (env (0 + 1) s) = (Some P, s3)" using derive by blast
        from vote_rounds_follower [where env = env, OF this Some other] show ?thesis by simp
      qed
      define s2 where "s2 = register_round ?b (of_nat 0) True s1"
      obtain t1 where t1: "vote_rounds E B R cid env votes ?b 1 s2 = (Inl (InvalidTransaction BftNotLeader), [], t1)"
        using follows by blast
      obtain t2 where t2: "vote_rounds E B R cid env votes ?b 1 (s2\<lparr>bs_vote_tx := None\<rparr>)
          = (Inl (InvalidTransaction BftNotLeader), [], t2)"
        using follows by blast
      have "proposer_index P (b_index ?b) (of_nat 0) = i" using True by simp
      note lead = vote_rounds_leader [where env = env and rnd = 0 and s = s and b = ?b and cid = cid and votes = votes,
          OF d Some this s2_def refl refl]
      have "?pre = collect_phase_votes B P (sign_vote B P cid (b_index ?b) (of_nat 0) Prevote (b_hash ?b)) (quorum P) (fst (votes 0))"
        "?com = collect_phase_votes B P (sign_vote B P cid (b_index ?b) (of_nat 0) Precommit (b_hash ?b)) (quorum P) (snd (votes 0))"
        by (simp_all add: assms(4))
      note run' = run [unfolded lead [folded this]]
      have max: "\<not> 0 + 1 \<ge> MAX_ROUNDS" by (simp add: MAX_ROUNDS_def)
      show ?thesis
      proof (cases "length ?pre < quorum P")
        case pre: True
        then have "result = Inl (InvalidTransaction BftNotLeader)" "out = [Proposal ?b 0]"
          using run' max t1 by auto
        then show ?thesis by simp
      next
        case pre: False
        show ?thesis
        proof (cases "aggregate_votes B P ?pre")
          case (Inl e)
          with aggregate_votes_Inl [OF Inl] run' pre show ?thesis by (auto simp: is_ok_def)
        next
          case agg: (Inr a)
          obtain bm sg where a: "a = (bm, sg)" by (cases a)
          show ?thesis
          proof (cases "length ?com < quorum P")
            case True
            then have "result = Inl (InvalidTransaction BftNotLeader)" "set out \<subseteq> {Proposal ?b 0, PrecommitRequest ?b 0 (round_certificate ?b bm sg)}"
              using run' pre max t2 agg a by (auto simp: Let_def)
            then show ?thesis by auto
          next
            case com: False
            show ?thesis
            proof (cases "aggregate_votes B P ?com")
              case (Inl e)
              with aggregate_votes_Inl [OF Inl] run' pre agg a com show ?thesis by (auto simp: is_ok_def Let_def)
            next
              case (Inr c)
              obtain bm' sg' where "c = (bm', sg')" by (cases c)
              with Inr run' pre agg a com Some True show ?thesis by (auto simp: Let_def)
            qed
          qed
        qed
      qed
    qed
  qed
qed

lemma verify_certificate_cong:
  assumes "b_index b = b_index b'" "b_hash b = b_hash b'"
  shows "verify_certificate B P c b = verify_certificate B P c b'"
  unfolding verify_certificate_def qc_validate_def assms ..

text \<open>The keys that vote for a block in one phase of a round, the driver's own included.\<close>

definition phase_voters ::
  "('sk, 'g1, 'g2, 'gt) bls \<Rightarrow> 'sk bft_provider \<Rightarrow> u64 \<Rightarrow> u32 \<Rightarrow> vote_phase \<Rightarrow> bft_vote list list \<Rightarrow> bytes set" where
  "phase_voters B P height rnd phase batches = insert (bft_public_key B P) (bv_public_key `
     {v \<in> set (concat batches). bv_height v = height \<and> bv_round v = rnd \<and> bv_phase v = phase})"

text \<open>
  A phase in which every vote of the context is a member's, each key voting for the one hash that
  \<open>hash\<close> gives: the collector ends with a quorum of them.
\<close>

definition phase_votes :: "u64 \<Rightarrow> u32 \<Rightarrow> vote_phase \<Rightarrow> bft_vote list list \<Rightarrow> bft_vote set" where
  "phase_votes height rnd phase batches =
     {v \<in> set (concat batches). bv_height v = height \<and> bv_round v = rnd \<and> bv_phase v = phase}"

lemma phase_collects:
  assumes "bls_laws B" "local_index B P = Some i" "hash (bft_public_key B P) = b_hash b"
    and "\<forall>v \<in> phase_votes (b_index b) rnd phase batches. vote_for B P (hash (bv_public_key v)) v"
    and "quorum P \<le> card (phase_voters B P (b_index b) rnd phase batches)"
    and vs: "vs = collect_phase_votes B P (sign_vote B P cid (b_index b) rnd phase (b_hash b)) (quorum P) batches"
  shows "quorum P \<le> length vs" "length vs = card (bv_public_key ` set vs)"
    "bv_public_key ` set vs \<subseteq> phase_voters B P (b_index b) rnd phase batches"
    "\<forall>v \<in> set vs. vote_for B P (hash (bv_public_key v)) v"
proof -
  let ?seed = "sign_vote B P cid (b_index b) rnd phase (b_hash b)"
  have ctx: "{v \<in> insert ?seed (set (concat batches)). in_context ?seed v} = insert ?seed (phase_votes (b_index b) rnd phase batches)"
    by (auto simp: in_context_def phase_votes_def)
  then have keys: "bv_public_key ` {v \<in> insert ?seed (set (concat batches)). in_context ?seed v}
      = phase_voters B P (b_index b) rnd phase batches" by (simp add: phase_voters_def phase_votes_def)
  have "bft_public_key B P \<in> vi_public_key ` set (bp_validators P)"
    using position_SomeD [OF assms(2) [unfolded local_index_def]] by (metis image_eqI nth_mem)
  then have "vote_for B P (b_hash b) ?seed"
    unfolding sign_vote_def bft_public_key_def by (rule vote_forI)
  moreover have "bv_public_key ?seed = bft_public_key B P" by (simp add: sign_vote_def sign_vote_with_def bft_public_key_def)
  ultimately have all: "\<forall>v \<in> insert ?seed (phase_votes (b_index b) rnd phase batches). vote_for B P (hash (bv_public_key v)) v"
    using assms(3,4) by simp
  then have "\<forall>v \<in> insert ?seed (phase_votes (b_index b) rnd phase batches). is_ok (verify_vote B P v)"
    using verify_vote_signed [OF assms(1)] unfolding is_ok_iff by blast
  then have "\<forall>v \<in> insert ?seed (set (concat batches)). in_context ?seed v \<longrightarrow> is_ok (verify_vote B P v)"
    using ctx by blast
  from collect_phase_votes_complete [OF this] assms(5) show "quorum P \<le> length vs" unfolding vs keys by simp
  show "length vs = card (bv_public_key ` set vs)"
    using distinct_card [OF collect_phase_votes_sound(1) [OF vs]] by simp
  have sub: "set vs \<subseteq> {v \<in> insert ?seed (set (concat batches)). in_context ?seed v}"
    using collect_phase_votes_sound(2,3) [OF vs] by blast
  from image_mono [OF this, of bv_public_key] show "bv_public_key ` set vs \<subseteq> phase_voters B P (b_index b) rnd phase batches"
    by (simp only: keys)
  show "\<forall>v \<in> set vs. vote_for B P (hash (bv_public_key v)) v" using sub all unfolding ctx by blast
qed

lemma phase_certifies:
  assumes "bls_laws B" "local_index B P = Some i"
    and "\<forall>v \<in> phase_votes (b_index b) rnd phase batches. vote_for B P (b_hash b) v"
    and "quorum P \<le> card (phase_voters B P (b_index b) rnd phase batches)" "validator_count P < 2 ^ 61"
    and vs: "vs = collect_phase_votes B P (sign_vote B P cid (b_index b) rnd phase (b_hash b)) (quorum P) batches"
  shows "quorum P \<le> length vs \<and> (\<exists>bitmap aggregate. aggregate_votes B P vs = Inr (bitmap, aggregate)
    \<and> verify_certificate B P (round_certificate b bitmap aggregate) b = Inr ())"
proof -
  note c = phase_collects [where hash = "\<lambda>_. b_hash b", OF assms(1,2) refl assms(3,4) vs]
  show ?thesis
    using aggregate_complete [OF assms(1) c(4) _ assms(5)] c(1,2) by (simp add: round_certificate_def)
qed

text \<open>
  C15. A round with an honest quorum commits: when the node is the proposer of round 0 in a set of less than
  \<open>2 ^ 61\<close> members, every vote that arrives for this height, round and phase is signed for the proposed block by a member of the
  set, and in each phase at least a quorum of the members vote, the driver broadcasts the proposal and
  a prevote certificate that verifies, and returns the block with a commit certificate that verifies
  for it.
\<close>

theorem round_commits:
  fixes E :: "'z env_scheme" and B :: "('sk, 'g1, 'g2, 'gt) bls"
  assumes "bls_laws B" "derive_validator_provider E B R (env 0 s) = (Some P, s1)"
    and "local_index B P = Some (proposer_index P (b_index b) 0)" "validator_count P < 2 ^ 61"
    and "\<forall>v \<in> phase_votes (b_index b) 0 Prevote (fst (votes 0)) \<union> phase_votes (b_index b) 0 Precommit (snd (votes 0)).
      vote_for B P (calculate_hash E b) v"
    and "quorum P \<le> card (phase_voters B P (b_index b) 0 Prevote (fst (votes 0)))"
    and "quorum P \<le> card (phase_voters B P (b_index b) 0 Precommit (snd (votes 0)))"
  shows "\<exists>c notification s'. run_vote_round E B R cid env votes b s
      = (Inr notification, [Proposal (b\<lparr>b_hash := calculate_hash E b\<rparr>) 0,
          PrecommitRequest (b\<lparr>b_hash := calculate_hash E b\<rparr>) 0 c], s')
    \<and> verify_certificate B P c (b\<lparr>b_hash := calculate_hash E b\<rparr>) = Inr ()
    \<and> cn_block notification = b\<lparr>b_hash := calculate_hash E b, b_certificate := Some (cn_certificate notification)\<rparr>
    \<and> verify_certificate B P (cn_certificate notification) (cn_block notification) = Inr ()"
proof -
  let ?b = "b\<lparr>b_hash := calculate_hash E b\<rparr>"
  let ?pre = "collect_phase_votes B P (sign_vote B P cid (b_index ?b) (of_nat 0) Prevote (b_hash ?b)) (quorum P) (fst (votes 0))"
  let ?com = "collect_phase_votes B P (sign_vote B P cid (b_index ?b) (of_nat 0) Precommit (b_hash ?b)) (quorum P) (snd (votes 0))"
  have "quorum P \<le> length ?pre \<and> (\<exists>bitmap aggregate. aggregate_votes B P ?pre = Inr (bitmap, aggregate)
      \<and> verify_certificate B P (round_certificate ?b bitmap aggregate) ?b = Inr ())"
    by (rule phase_certifies [OF assms(1,3) _ _ assms(4) refl]) (use assms(5,6) in simp_all)
  then obtain pb pa where pre: "quorum P \<le> length ?pre" "aggregate_votes B P ?pre = Inr (pb, pa)"
    "verify_certificate B P (round_certificate ?b pb pa) ?b = Inr ()" by blast
  have "quorum P \<le> length ?com \<and> (\<exists>bitmap aggregate. aggregate_votes B P ?com = Inr (bitmap, aggregate)
      \<and> verify_certificate B P (round_certificate ?b bitmap aggregate) ?b = Inr ())"
    by (rule phase_certifies [OF assms(1,3) _ _ assms(4) refl]) (use assms(5,7) in simp_all)
  then obtain cb ca where com: "quorum P \<le> length ?com" "aggregate_votes B P ?com = Inr (cb, ca)"
    "verify_certificate B P (round_certificate ?b cb ca) ?b = Inr ()" by blast
  have "verify_certificate B P c (?b\<lparr>b_certificate := x\<rparr>) = verify_certificate B P c ?b" for c x
    by (rule verify_certificate_cong) simp_all
  moreover have "proposer_index P (b_index ?b) (of_nat 0) = proposer_index P (b_index b) 0" by simp
  ultimately show ?thesis
    using vote_rounds_leader [where env = env and rnd = 0 and s = s and b = ?b, OF assms(2,3) _ refl refl refl, of cid votes]
      pre com unfolding run_vote_round_def by (simp add: Let_def not_less [symmetric])
qed


text \<open>
  C36. One vote for another hash spoils the certificate: the collector does not compare the votes'
  block hashes.  When the node is the proposer of round 0 in a set of less than \<open>2 ^ 61\<close> members
  and the prevotes are those of an honest quorum, but of exactly a quorum of precommitting members one, other than the node itself, signs
  another hash that its key's pairing tells apart from the proposed one, the foreign precommit is
  counted towards the quorum and aggregated, and the driver returns the block with a commit
  certificate that its own set rejects.
\<close>

theorem foreign_vote_spoils_certificate:
  fixes E :: "'z env_scheme" and B :: "('sk, 'g1, 'g2, 'gt) bls"
  assumes "bls_laws B" "derive_validator_provider E B R (env 0 s) = (Some P, s1)"
    and "local_index B P = Some (proposer_index P (b_index b) 0)" "validator_count P < 2 ^ 61"
    and "\<forall>v \<in> phase_votes (b_index b) 0 Prevote (fst (votes 0)). vote_for B P (calculate_hash E b) v"
    and "quorum P \<le> card (phase_voters B P (b_index b) 0 Prevote (fst (votes 0)))"
    and "\<forall>v \<in> phase_votes (b_index b) 0 Precommit (snd (votes 0)).
      vote_for B P (if bv_public_key v = pk_bytes B pk then x else calculate_hash E b) v"
    and "card (phase_voters B P (b_index b) 0 Precommit (snd (votes 0))) = quorum P"
    and "pk_bytes B pk \<in> phase_voters B P (b_index b) 0 Precommit (snd (votes 0))" "pk_bytes B pk \<noteq> bft_public_key B P"
    and "pairing B pk (bls_hash B (vote_message x)) \<noteq> pairing B pk (bls_hash B (vote_message (calculate_hash E b)))"
  shows "\<exists>notification out s'. run_vote_round E B R cid env votes b s = (Inr notification, out, s')
    \<and> cn_block notification = b\<lparr>b_hash := calculate_hash E b, b_certificate := Some (cn_certificate notification)\<rparr>
    \<and> verify_certificate B P (cn_certificate notification) (cn_block notification) = Inl (bft_err AggregateRejected)"
proof -
  let ?b = "b\<lparr>b_hash := calculate_hash E b\<rparr>"
  let ?pre = "collect_phase_votes B P (sign_vote B P cid (b_index ?b) (of_nat 0) Prevote (b_hash ?b)) (quorum P) (fst (votes 0))"
  let ?com = "collect_phase_votes B P (sign_vote B P cid (b_index ?b) (of_nat 0) Precommit (b_hash ?b)) (quorum P) (snd (votes 0))"
  let ?hash = "\<lambda>k. if k = pk_bytes B pk then x else b_hash ?b"
  let ?voters = "phase_voters B P (b_index b) 0 Precommit (snd (votes 0))"
  have "quorum P \<le> length ?pre \<and> (\<exists>bitmap aggregate. aggregate_votes B P ?pre = Inr (bitmap, aggregate)
      \<and> verify_certificate B P (round_certificate ?b bitmap aggregate) ?b = Inr ())"
    by (rule phase_certifies [OF assms(1,3) _ _ assms(4) refl]) (use assms(5,6) in simp_all)
  then obtain pb pa where pre: "quorum P \<le> length ?pre" "aggregate_votes B P ?pre = Inr (pb, pa)" by blast
  have "?hash (bft_public_key B P) = b_hash ?b" "\<forall>v \<in> phase_votes (b_index ?b) (of_nat 0) Precommit (snd (votes 0)).
      vote_for B P (?hash (bv_public_key v)) v" "quorum P \<le> card (phase_voters B P (b_index ?b) (of_nat 0) Precommit (snd (votes 0)))"
    using assms(7,8,10) by auto
  note c = phase_collects [where hash = ?hash and cid = cid, OF assms(1,3) this refl]
  have "bv_public_key ` set ?com = ?voters"
  proof (rule card_subset_eq)
    show "finite ?voters" by (simp add: phase_voters_def)
    show "bv_public_key ` set ?com \<subseteq> ?voters" using c(3) by simp
    then have "card (bv_public_key ` set ?com) \<le> card ?voters" by (rule card_mono [OF \<open>finite ?voters\<close>])
    then show "card (bv_public_key ` set ?com) = card ?voters" using c(1,2) assms(8) by linarith
  qed
  then have "pk_bytes B pk \<in> bv_public_key ` set ?com" using assms(9) by simp
  from aggregate_spoiled [OF assms(1) c(4) _ assms(4) this] c(1,2) assms(11) obtain cb ca where
    com: "aggregate_votes B P ?com = Inr (cb, ca)"
      "verify_certificate B P (round_certificate ?b cb ca) ?b = Inl (bft_err AggregateRejected)"
    by (auto simp: round_certificate_def)
  have "verify_certificate B P c (?b\<lparr>b_certificate := y\<rparr>) = verify_certificate B P c ?b" for c y
    by (rule verify_certificate_cong) simp_all
  moreover have "proposer_index P (b_index ?b) (of_nat 0) = proposer_index P (b_index b) 0" by simp
  ultimately show ?thesis
    using vote_rounds_leader [where env = env and rnd = 0 and s = s and b = ?b, OF assms(2,3) _ refl refl refl, of cid votes]
      pre com c(1) unfolding run_vote_round_def by (simp add: Let_def not_less [symmetric])
qed


section \<open>Instances\<close>

text \<open>
  A node of the four-member set over bytes, with no registry entry on chain, a chain of one block,
  and two candidates for height 1 that differ in the nonce.
\<close>

definition no_registry :: registry_env where
  "no_registry = \<lparr>de_json = (\<lambda>_. None), base64_decode = (\<lambda>_. None), entries_hash = (\<lambda>_. 0)\<rparr>"

definition byte_set :: "u8 bft_provider" where
  "byte_set = byte_provider [1, 2, 3, 4]"

definition byte_node :: "u8 bft_state" where
  "byte_node = \<lparr>bs_round = None, bs_receipts = [], bs_equivocations = [], bs_vote_tx = None,
     bs_consensus = Some byte_set, bs_validator_cache = None, bs_world_state = [],
     bs_capability_history = None\<rparr>"

definition byte_chain :: "block list" where
  "byte_chain = [pow_block]"

definition byte_candidate :: "u64 \<Rightarrow> block" where
  "byte_candidate nonce =
     (let b = (block_new pow_env 7 1 [] (b_hash pow_block))\<lparr>b_nonce := nonce\<rparr>
      in b\<lparr>b_hash := calculate_hash pow_env b\<rparr>)"

lemma byte_candidate_sel [simp]:
  "b_index (byte_candidate n) = 1" "b_hash (byte_candidate n) = (if n = 1 then ''0'' else ''1'')"
  "b_nonce (byte_candidate n) = n" "b_write_set (byte_candidate n) = []"
  by (simp_all add: byte_candidate_def pow_env_hash block_new_def with_write_set_def Let_def)

lemma byte_candidate_valid [simp]: "valid_candidate pow_env byte_chain h (byte_candidate n)"
  by (simp add: valid_candidate_def byte_chain_def chains_to_def is_valid_def byte_candidate_def pow_env_hash
      block_new_def with_write_set_def Let_def pow_block_def cap_validate_block_def last_opt_def)

lemma byte_derive [simp]:
  "bs_world_state s = [] \<Longrightarrow> bs_validator_cache s = None \<Longrightarrow> bs_consensus s = Some P \<Longrightarrow>
     derive_validator_provider E B no_registry s = (Some P, s)"
  by (simp add: derive_validator_provider_def registry_entries_def map_filter_simps)

lemma byte_node_sel [simp]:
  "bs_round byte_node = None" "bs_receipts byte_node = []" "bs_equivocations byte_node = []"
  "bs_vote_tx byte_node = None" "bs_consensus byte_node = Some byte_set"
  "bs_validator_cache byte_node = None" "bs_world_state byte_node = []"
  "bs_capability_history byte_node = None"
  by (simp_all add: byte_node_def)

lemma byte_set_keys: "vi_public_key ` set (bp_validators byte_set) = pk_bytes byte_bls ` {1, 2, 3, 4}"
  by (simp add: byte_set_def byte_provider_def byte_validator_def)

lemma byte_set_sel [simp]:
  "validator_count byte_set = 4" "quorum byte_set = 3" "bp_signing_key byte_set = 1"
  "local_index byte_bls byte_set = Some 0" "bft_public_key byte_bls byte_set = 1 # replicate 47 0"
  by (simp_all add: byte_set_def byte_provider_def byte_validator_def validator_count_def quorum_def
      quorum_threshold_def local_index_def bft_public_key_def)

lemma byte_set_vote:
  "k \<in> {1, 2, 3, 4} \<Longrightarrow> vote_for byte_bls byte_set x (sign_vote_with byte_bls cid h r ph x k)"
  by (rule vote_forI) (auto simp: byte_set_keys)

lemma byte_set_verify:
  "k \<in> {1, 2, 3, 4} \<Longrightarrow> is_ok (verify_vote byte_bls byte_set (sign_vote_with byte_bls cid h r ph x k))"
  using verify_vote_signed [OF byte_bls_laws byte_set_vote] unfolding is_ok_iff by blast

text \<open>The node after the first and after the second vote of the equivocating member.\<close>

definition byte_witnessed :: "bft_message list \<Rightarrow> u8 bft_state" where
  "byte_witnessed ms = fold (\<lambda>m s. snd (handle_bft pow_env byte_bls no_registry byte_chain m s)) ms byte_node"

lemma byte_witnessed_reachable: "bft_reachable pow_env byte_bls no_registry (byte_witnessed ms)"
proof (induction ms rule: rev_induct)
  case Nil
  show ?case by (auto simp: byte_witnessed_def intro: bft_reachable.start)
next
  case (snoc m ms)
  then show ?case by (auto simp: byte_witnessed_def intro: bft_reachable.message [OF _ prod.collapse [symmetric]])
qed

lemma byte_first_vote:
  "byte_witnessed [Vote (sign_vote_with byte_bls ''c'' 1 0 Prevote ''a'' 3)] = byte_node\<lparr>bs_receipts :=
     [(receipt_key (sign_vote_with byte_bls ''c'' 1 0 Prevote ''a'' 3),
       sign_vote_with byte_bls ''c'' 1 0 Prevote ''a'' 3)]\<rparr>"
  by (simp add: byte_witnessed_def handle_bft_def handle_vote_def byte_set_verify retired_def receipt_record_def
      receipt_action_def VOTE_RECEIPT_CAP_def) (simp add: sign_vote_with_def)

lemma byte_second_vote:
  "bs_equivocations (byte_witnessed [Vote (sign_vote_with byte_bls ''c'' 1 0 Prevote ''a'' 3),
     Vote (sign_vote_with byte_bls ''c'' 1 0 Prevote ''b'' 3)]) = [byte_equivocation]"
proof -
  let ?v = "sign_vote_with byte_bls ''c'' 1 0 Prevote ''a'' 3" and ?w = "sign_vote_with byte_bls ''c'' 1 0 Prevote ''b'' 3"
  have two: "byte_witnessed [Vote ?v, Vote ?w]
      = snd (handle_bft pow_env byte_bls no_registry byte_chain (Vote ?w) (byte_witnessed [Vote ?v]))"
    by (simp add: byte_witnessed_def)
  have key: "receipt_key ?w = receipt_key ?v" "bv_block_hash ?v \<noteq> bv_block_hash ?w" "bv_height ?w = 1"
    by (simp_all add: receipt_key_def sign_vote_with_def)
  have "is_ok (proof_verify byte_bls byte_equivocation)"
    unfolding is_ok_unit_iff proof_verify_Inr_iff
    by (simp add: byte_equivocation_def proof_context_ok_def vote_verify_signed [OF byte_bls_laws])
      (simp add: sign_vote_with_def)
  moreover have "byte_equivocation = \<lparr>ep_height = bv_height ?w, ep_round = bv_round ?w, ep_phase = bv_phase ?w,
      ep_public_key = bv_public_key ?w, ep_first_vote = ?v, ep_second_vote = ?w\<rparr>"
    by (simp add: byte_equivocation_def sign_vote_with_def)
  ultimately show ?thesis
    unfolding two byte_first_vote
    by (simp add: handle_bft_def handle_vote_def byte_set_verify retired_def receipt_record_def receipt_action_def key
        del: One_nat_def)
qed

theorem recorded_evidence_verifies_witness:
  "proof_verify byte_bls byte_equivocation = Inr ()
   \<and> bs_equivocations (byte_witnessed [Vote (sign_vote_with byte_bls ''c'' 1 0 Prevote ''a'' 3),
       Vote (sign_vote_with byte_bls ''c'' 1 0 Prevote ''b'' 3)]) = [byte_equivocation]"
  using recorded_evidence_verifies [OF byte_witnessed_reachable [of "[Vote (sign_vote_with byte_bls ''c'' 1 0 Prevote ''a'' 3),
    Vote (sign_vote_with byte_bls ''c'' 1 0 Prevote ''b'' 3)]"]]
  unfolding byte_second_vote by simp

theorem evidence_exact_witness:
  "fst (handle_vote pow_env byte_bls no_registry (sign_vote_with byte_bls ''c'' 1 0 Prevote ''b'' 3)
     (byte_witnessed [Vote (sign_vote_with byte_bls ''c'' 1 0 Prevote ''a'' 3)])) = Some byte_equivocation"
proof -
  let ?v = "sign_vote_with byte_bls ''c'' 1 0 Prevote ''a'' 3" and ?w = "sign_vote_with byte_bls ''c'' 1 0 Prevote ''b'' 3"
  have d: "fst (derive_validator_provider pow_env byte_bls no_registry (byte_witnessed [Vote ?v])) = Some byte_set"
    by (simp add: byte_first_vote)
  have "map_of (bs_receipts (byte_witnessed [Vote ?v])) (receipt_key ?w) = Some ?v"
    by (simp add: byte_first_vote receipt_key_def) (simp add: sign_vote_with_def)
  moreover have "bv_block_hash ?v \<noteq> bv_block_hash ?w" "bv_chain_id ?v = bv_chain_id ?w"
    "byte_equivocation = \<lparr>ep_height = bv_height ?w, ep_round = bv_round ?w, ep_phase = bv_phase ?w,
      ep_public_key = bv_public_key ?w, ep_first_vote = ?v, ep_second_vote = ?w\<rparr>"
    by (simp_all add: byte_equivocation_def sign_vote_with_def)
  ultimately show ?thesis
    using evidence_exact [OF byte_witnessed_reachable d byte_set_verify, of 3 "''c''" 1 0 Prevote "''b''" byte_equivocation]
    by blast
qed


theorem prevotes_conflict_witness:
  "\<exists>v w s'. fst (handle_proposal pow_env byte_bls no_registry byte_chain (byte_candidate 0) 0 byte_node) = [Vote v]
    \<and> snd (handle_proposal pow_env byte_bls no_registry byte_chain (byte_candidate 0) 0 byte_node) = s'
    \<and> fst (handle_proposal pow_env byte_bls no_registry byte_chain (byte_candidate 1) 0 s') = [Vote w]
    \<and> proof_verify byte_bls \<lparr>ep_height = b_index (byte_candidate 0), ep_round = 0, ep_phase = Prevote,
        ep_public_key = bft_public_key byte_bls byte_set, ep_first_vote = v, ep_second_vote = w\<rparr> = Inr ()"
  by (rule prevotes_conflict [OF byte_bls_laws byte_derive]) (simp_all add: locked_at_def)

theorem foreign_proposal_unlocks_witness:
  "fst (handle_proposal pow_env byte_bls no_registry byte_chain (byte_candidate 1) 1
      (byte_node\<lparr>bs_round := Some ((round_new 1)\<lparr>br_locked := Some ''1''\<rparr>)\<rparr>)) = []
   \<and> fst (handle_proposal pow_env byte_bls no_registry byte_chain (byte_candidate 1) 1
      (snd (handle_proposal pow_env byte_bls no_registry byte_chain pow_block 0
        (byte_node\<lparr>bs_round := Some ((round_new 1)\<lparr>br_locked := Some ''1''\<rparr>)\<rparr>))))
     = [Vote (sign_vote byte_bls byte_set (b_hash (hd byte_chain)) 1 1 Prevote (b_hash (byte_candidate 1)))]"
  by (rule foreign_proposal_unlocks [where x = "''1''", OF _ _ _ _ byte_derive])
    (simp_all add: locked_at_def round_new_def pow_block_def block_new_def with_write_set_def Let_def)

text \<open>A chain whose block 1 carries a certificate of the bootstrap set.\<close>

definition certified_chain :: "block list" where
  "certified_chain =
     [pow_block, (byte_candidate 0)\<lparr>b_certificate := Some (byte_certificate (byte_candidate 0) 7 6)\<rparr>]"

theorem chain_certificates_governed_witness:
  "\<exists>P registry. registry_after no_registry (take 1 certified_chain) = Inr (registry, False) \<and> Some byte_set = Some P
     \<and> verify_certificate byte_bls P (byte_certificate (byte_candidate 0) 7 6) (certified_chain ! 1) = Inr ()"
proof -
  let ?c = "byte_certificate (byte_candidate 0) 7 6"
  have pow: "b_index pow_block = 0" "b_certificate pow_block = None" "b_write_set pow_block = []"
    by (simp_all add: pow_block_def block_new_def with_write_set_def Let_def)
  have nd: "\<not> is_degenerate ?c" by (simp add: is_degenerate_def byte_certificate_def)
  have "verify_certificate byte_bls byte_set ?c (certified_chain ! 1) = Inr ()"
    using byte_certificate_verifies(1) [of "byte_candidate 0"]
    by (subst verify_certificate_cong [of _ "byte_candidate 0"]) (simp_all add: certified_chain_def byte_set_def)
  then have "verify_chain_certificates pow_env byte_bls no_registry 0 certified_chain (Some byte_set) = Inr ()"
    by (simp add: verify_chain_certificates_def certified_chain_def verify_block_certificate_def pow nd
        effective_validators_def apply_registry_block_def)
  moreover have "\<forall>i < length certified_chain. b_index (certified_chain ! i) = of_nat i"
    by (auto simp: certified_chain_def pow less_Suc_eq)
  ultimately have "\<exists>registry changed P. registry_after no_registry (take 1 certified_chain) = Inr (registry, changed)
    \<and> (if changed then bp_validators P = map snd registry
          \<and> (\<forall>v \<in> set (map snd registry). check_validator pow_env byte_bls v = Inr ())
        else Some byte_set = Some P)
    \<and> verify_certificate byte_bls P ?c (certified_chain ! 1) = Inr ()"
    by (rule chain_certificates_governed) (simp_all add: certified_chain_def nd)
  moreover have "registry_after no_registry (take 1 certified_chain) = Inr ([], False)"
    by (simp add: registry_after_def certified_chain_def pow)
  ultimately show ?thesis by auto
qed

theorem no_view_change_witness:
  "fst (run_vote_round pow_env byte_bls no_registry ''c'' (\<lambda>_ _. byte_node) (\<lambda>_. ([], [])) pow_block byte_node)
     = Inl (InvalidTransaction BftNotLeader)"
proof -
  have "\<forall>r s. fst (derive_validator_provider pow_env byte_bls no_registry ((\<lambda>_ _. byte_node) r s)) = Some byte_set"
    by simp
  moreover obtain result out s' where run: "run_vote_round pow_env byte_bls no_registry ''c'' (\<lambda>_ _. byte_node)
      (\<lambda>_. ([], [])) pow_block byte_node = (result, out, s')" by (rule prod_cases3)
  moreover have "b_index pow_block = 0" by (simp add: pow_block_def block_new_def with_write_set_def Let_def)
  then have "local_index byte_bls byte_set = Some (proposer_index byte_set (b_index pow_block) 0)"
    by (simp add: proposer_index_def proposer_slot_def)
  moreover have "length (collect_phase_votes byte_bls byte_set v q []) \<le> 1" for v q by (simp add: collect_phase_votes_def)
  then have "length (collect_phase_votes byte_bls byte_set v q []) < quorum byte_set" for v q
    by (rule order_le_less_trans) simp
  ultimately show ?thesis using no_view_change [OF _ _ run refl] by simp
qed

text \<open>Members 2 and 3 vote for the block in both phases, in one batch each.\<close>

definition byte_round_votes :: "string \<Rightarrow> nat \<Rightarrow> bft_vote list list \<times> bft_vote list list" where
  "byte_round_votes x r =
     ([map (sign_vote_with byte_bls ''c'' 0 0 Prevote x) [2, 3]],
      [map (sign_vote_with byte_bls ''c'' 0 0 Precommit x) [3, 2]])"

lemma card_byte_keys: "card {1 # replicate 47 0, 2 # replicate 47 0, 3 # replicate 47 (0 :: u8)} = 3"
  by simp

theorem round_commits_witness:
  "\<exists>c notification s'. run_vote_round pow_env byte_bls no_registry ''c'' (\<lambda>_ s. s) (byte_round_votes ''1'') pow_block byte_node
      = (Inr notification, [Proposal (pow_block\<lparr>b_hash := ''1''\<rparr>) 0, PrecommitRequest (pow_block\<lparr>b_hash := ''1''\<rparr>) 0 c], s')
    \<and> verify_certificate byte_bls byte_set c (pow_block\<lparr>b_hash := ''1''\<rparr>) = Inr ()
    \<and> verify_certificate byte_bls byte_set (cn_certificate notification) (cn_block notification) = Inr ()"
proof -
  have pow: "b_index pow_block = 0" "calculate_hash pow_env pow_block = ''1''"
    by (simp_all add: pow_block_def block_new_def with_write_set_def Let_def pow_env_hash)
  have d: "derive_validator_provider pow_env byte_bls no_registry ((\<lambda>_ s. s) 0 byte_node) = (Some byte_set, byte_node)"
    by simp
  have votes: "\<forall>v \<in> phase_votes (b_index pow_block) 0 Prevote (fst (byte_round_votes ''1'' 0))
      \<union> phase_votes (b_index pow_block) 0 Precommit (snd (byte_round_votes ''1'' 0)). vote_for byte_bls byte_set (calculate_hash pow_env pow_block) v"
    unfolding pow(2) by (auto simp: phase_votes_def byte_round_votes_def intro!: byte_set_vote)
  have sets: "phase_voters byte_bls byte_set 0 0 Prevote (fst (byte_round_votes ''1'' 0))
      = {1 # replicate 47 0, 2 # replicate 47 0, 3 # replicate 47 0}"
    "phase_voters byte_bls byte_set 0 0 Precommit (snd (byte_round_votes ''1'' 0))
      = {1 # replicate 47 0, 2 # replicate 47 0, 3 # replicate 47 0}"
    unfolding phase_voters_def set_filter [symmetric]
    by (auto simp: byte_round_votes_def sign_vote_with_def)
  from round_commits [where env = "\<lambda>_ s. s" and votes = "byte_round_votes ''1''" and cid = "''c''", OF byte_bls_laws d _ _ votes]
  show ?thesis by (simp add: pow sets card_byte_keys proposer_index_def proposer_slot_def Let_def) blast
qed

text \<open>Member 3 precommits another hash.\<close>

definition byte_spoiled_votes :: "nat \<Rightarrow> bft_vote list list \<times> bft_vote list list" where
  "byte_spoiled_votes r = (fst (byte_round_votes ''1'' r),
     [[sign_vote_with byte_bls ''c'' 0 0 Precommit ''1'' 2, sign_vote_with byte_bls ''c'' 0 0 Precommit ''x'' 3]])"

theorem foreign_vote_spoils_certificate_witness:
  "\<exists>notification out s'. run_vote_round pow_env byte_bls no_registry ''c'' (\<lambda>_ s. s) byte_spoiled_votes pow_block byte_node
      = (Inr notification, out, s')
    \<and> verify_certificate byte_bls byte_set (cn_certificate notification) (cn_block notification)
      = Inl (bft_err AggregateRejected)"
proof -
  have pow: "b_index pow_block = 0" "calculate_hash pow_env pow_block = ''1''"
    by (simp_all add: pow_block_def block_new_def with_write_set_def Let_def pow_env_hash)
  have d: "derive_validator_provider pow_env byte_bls no_registry ((\<lambda>_ s. s) 0 byte_node) = (Some byte_set, byte_node)"
    by simp
  have pre: "\<forall>v \<in> phase_votes (b_index pow_block) 0 Prevote (fst (byte_spoiled_votes 0)).
      vote_for byte_bls byte_set (calculate_hash pow_env pow_block) v"
    unfolding pow(2) by (auto simp: phase_votes_def byte_spoiled_votes_def byte_round_votes_def intro!: byte_set_vote)
  have com: "\<forall>v \<in> phase_votes (b_index pow_block) 0 Precommit (snd (byte_spoiled_votes 0)).
      vote_for byte_bls byte_set (if bv_public_key v = pk_bytes byte_bls 3 then ''x'' else calculate_hash pow_env pow_block) v"
  proof -
    have "phase_votes 0 0 Precommit (snd (byte_spoiled_votes 0))
        \<subseteq> {sign_vote_with byte_bls ''c'' 0 0 Precommit ''1'' 2, sign_vote_with byte_bls ''c'' 0 0 Precommit ''x'' 3}"
      by (auto simp: phase_votes_def byte_spoiled_votes_def)
    moreover have "bv_public_key (sign_vote_with byte_bls ''c'' 0 0 Precommit ''1'' 2) \<noteq> pk_bytes byte_bls 3"
      "bv_public_key (sign_vote_with byte_bls ''c'' 0 0 Precommit ''x'' 3) = pk_bytes byte_bls 3"
      by (simp_all add: sign_vote_with_def)
    moreover have "vote_for byte_bls byte_set ''1'' (sign_vote_with byte_bls ''c'' 0 0 Precommit ''1'' 2)"
      "vote_for byte_bls byte_set ''x'' (sign_vote_with byte_bls ''c'' 0 0 Precommit ''x'' 3)"
      by (rule byte_set_vote; simp)+
    ultimately show ?thesis unfolding pow by auto
  qed
  have sets: "phase_voters byte_bls byte_set 0 0 Prevote (fst (byte_spoiled_votes 0))
      = {1 # replicate 47 0, 2 # replicate 47 0, 3 # replicate 47 0}"
    "phase_voters byte_bls byte_set 0 0 Precommit (snd (byte_spoiled_votes 0))
      = {1 # replicate 47 0, 2 # replicate 47 0, 3 # replicate 47 0}"
    unfolding phase_voters_def set_filter [symmetric]
    by (auto simp: byte_spoiled_votes_def byte_round_votes_def sign_vote_with_def)
  have sums: "3 * sum_list (vote_message ''x'') \<noteq> 3 * sum_list (vote_message ''1'')"
  proof -
    have one: "sum_list (vote_message [c])
        = sum_list (str_bytes ''glasschain-bft-vote:'' @ to_be_bytes 1) + of_char c" for c
      by (simp add: vote_message_def prefixed_def str_bytes_def)
    have "(of_char CHR ''1'' :: u8) = 49" "(of_char CHR ''x'' :: u8) = 120" by code_simp+
    then show ?thesis by (simp only: one) (simp only: distrib_left, simp)
  qed
  from foreign_vote_spoils_certificate [where env = "\<lambda>_ s. s" and votes = byte_spoiled_votes and cid = "''c''" and pk = 3
      and x = "''x''", OF byte_bls_laws d _ _ pre _ com]
  show ?thesis using sums by (simp add: pow sets card_byte_keys proposer_index_def proposer_slot_def Let_def) blast
qed

end
