(* ===== verification/Contracts.thy ===== *)
theory Contracts
  imports Block
begin

text \<open>
  \<^verbatim>\<open>glasschain-contracts\<close>: purchase contracts (\<^verbatim>\<open>contract.rs\<close>), the WASM approval gate
  (\<^verbatim>\<open>approval_gate.rs\<close>) and the engine that evaluates supply offers and is rebuilt from the chain
  (\<^verbatim>\<open>engine.rs\<close>).

  The execution provider is a function, base64 and the JSON of an offer are parameters, the clock is
  a stream whose position is threaded.  Quantities are \<^verbatim>\<open>u64\<close> words; \<open>+\<close> wraps as in a release build.
\<close>

section \<open>Contracts\<close>

datatype contract_error =
    NotFound string
  | AlreadyExists string
  | Inactive string
  | ConditionsNotMet string
  | Core core_error

datatype contract_status = Active | Paused | Fulfilled | Cancelled

record contract =
  ct_definition :: smart_contract_def
  ct_status :: contract_status
  ct_quantity_purchased :: u64
  ct_execution_count :: u32

definition contract_new :: "smart_contract_def \<Rightarrow> contract" where
  "contract_new d =
     \<lparr>ct_definition = d, ct_status = Active, ct_quantity_purchased = 0, ct_execution_count = 0\<rparr>"

definition is_active_contract :: "contract \<Rightarrow> bool" where
  "is_active_contract c = (ct_status c = Active)"

definition conditions :: "contract \<Rightarrow> purchase_conditions" where
  "conditions c = sc_conditions (ct_definition c)"

definition contract_id :: "contract \<Rightarrow> string" where
  "contract_id c = sc_contract_id (ct_definition c)"


section \<open>The approval gate\<close>

record execution_limits =
  fuel_limit :: u64
  operation_gas_limit :: u64

type_synonym executor =
  "string \<Rightarrow> bytes \<Rightarrow> world_state \<Rightarrow> execution_limits \<Rightarrow> core_error + execution_result"

datatype approval_gate_policy = ContractEvaluation | InventoryTriggerPolicy

definition gate_limits :: "approval_gate_policy \<Rightarrow> execution_limits" where
  "gate_limits p =
     (case p of
        ContractEvaluation \<Rightarrow> \<lparr>fuel_limit = 50000, operation_gas_limit = 50000\<rparr>
      | InventoryTriggerPolicy \<Rightarrow> \<lparr>fuel_limit = 100000, operation_gas_limit = 100000\<rparr>)"

datatype gate_denial =
    InvalidPayload string
  | StatePreparation string
  | Execution core_error
  | MissingApproval

datatype gate_decision = Approved | Denied gate_denial

text \<open>The base64 decoder and \<^verbatim>\<open>serde_json::to_vec\<close> of an offer.\<close>

record gate_env =
  base64_standard :: "string \<Rightarrow> string + bytes"
  offer_json :: "supply_offer \<Rightarrow> string + bytes"

definition approves :: "execution_result \<Rightarrow> bool" where
  "approves r = list_ex (\<lambda>(key, value). key = ''approve'' \<and> value = str_bytes ''1'') (ephemeral r)"

definition gate_evaluate ::
  "gate_env \<Rightarrow> executor \<Rightarrow> approval_gate_policy \<Rightarrow> string \<Rightarrow> string \<Rightarrow> string + world_state \<Rightarrow> gate_decision" where
  "gate_evaluate G exec policy execution_id wasm_code_b64 initial_state =
     (case base64_standard G wasm_code_b64 of
        Inl e \<Rightarrow> Denied (InvalidPayload e)
      | Inr wasm \<Rightarrow>
          (case initial_state of
             Inl e \<Rightarrow> Denied (StatePreparation e)
           | Inr st \<Rightarrow>
               (case exec execution_id wasm st (gate_limits policy) of
                  Inl e \<Rightarrow> Denied (Execution e)
                | Inr r \<Rightarrow> if approves r then Approved else Denied MissingApproval)))"


section \<open>The engine\<close>

record engine =
  en_contracts :: "(string \<times> contract) list"
  en_executor :: "executor option"

definition engine_new :: engine where
  "engine_new = \<lparr>en_contracts = [], en_executor = None\<rparr>"

definition set_executor :: "executor \<Rightarrow> engine \<Rightarrow> engine" where
  "set_executor x e = e\<lparr>en_executor := Some x\<rparr>"

definition register_contract :: "smart_contract_def \<Rightarrow> engine \<Rightarrow> (contract_error + unit) \<times> engine" where
  "register_contract d e =
     (if sc_contract_id d \<in> fst ` set (en_contracts e) then (Inl (AlreadyExists (sc_contract_id d)), e)
      else (Inr (), e\<lparr>en_contracts := btree_insert (sc_contract_id d) (contract_new d) (en_contracts e)\<rparr>))"

definition get_contract :: "string \<Rightarrow> engine \<Rightarrow> contract option" where
  "get_contract i e = map_of (en_contracts e) i"

definition offer_matches :: "contract \<Rightarrow> supply_offer \<Rightarrow> bool" where
  "offer_matches c offer =
     (let cond = conditions c
      in if sc_product_id (ct_definition c) \<noteq> so_product_id offer \<or> pc_currency cond \<noteq> so_currency offer then False
         else if so_price_per_unit offer > pc_max_price_per_unit cond then False
         else if so_lead_time_days offer > pc_max_lead_time_days cond then False
         else if so_quantity_available offer < pc_min_quantity cond then False
         else (case pc_preferred_seller_id cond of None \<Rightarrow> True | Some s \<Rightarrow> s = so_seller_id offer))"

record purchase_plan =
  pp_purchase_order :: transaction
  pp_execution :: transaction
  pp_quantity :: u64
  pp_total_price :: u64

text \<open>The two transactions read the clock once each, at \<open>k\<close> and \<open>k + 1\<close>.\<close>

definition prepare_purchase ::
  "clock \<Rightarrow> nat \<Rightarrow> contract \<Rightarrow> supply_offer \<Rightarrow> string \<Rightarrow> purchase_plan option" where
  "prepare_purchase clock k c offer offer_tx_id =
     (let cond = conditions c;
          remaining_budget = sat_sub (pc_max_quantity cond) (ct_quantity_purchased c)
      in if remaining_budget = 0 then None
         else
           let quantity = min (min remaining_budget (so_quantity_available offer)) (pc_max_quantity cond);
               total_price = sat_mul quantity (so_price_per_unit offer);
               purchase_order = with_id (''po:'' @ contract_id c @ ''-'' @ offer_tx_id) (clock k)
                 (PurchaseOrder \<lparr>po_product_id = so_product_id offer, po_buyer_id = sc_buyer_id (ct_definition c),
                    po_seller_id = so_seller_id offer, po_quantity = quantity,
                    po_agreed_price_per_unit = so_price_per_unit offer, po_currency = so_currency offer,
                    po_contract_id = Some (contract_id c)\<rparr>);
               execution = with_id (''exec:'' @ contract_id c @ ''-'' @ offer_tx_id) (clock (k + 1))
                 (ContractExecution \<lparr>ce_contract_id = contract_id c, ce_purchase_order_tx_id = tx_id purchase_order,
                    ce_buyer_id = sc_buyer_id (ct_definition c), ce_seller_id = so_seller_id offer,
                    ce_product_id = so_product_id offer, ce_quantity = quantity, ce_total_price = total_price,
                    ce_currency = so_currency offer\<rparr>)
           in Some \<lparr>pp_purchase_order = purchase_order, pp_execution = execution, pp_quantity = quantity,
                pp_total_price = total_price\<rparr>)"

text \<open>The bookkeeping of a purchase, shared by \<^verbatim>\<open>apply_purchase\<close> and the replay.\<close>

definition add_purchase :: "u64 \<Rightarrow> contract \<Rightarrow> contract" where
  "add_purchase quantity c =
     (let c = c\<lparr>ct_quantity_purchased := ct_quantity_purchased c + quantity,
                ct_execution_count := ct_execution_count c + 1\<rparr>
      in if ct_quantity_purchased c \<ge> pc_max_quantity (conditions c) then c\<lparr>ct_status := Fulfilled\<rparr> else c)"

definition apply_purchase :: "purchase_plan \<Rightarrow> contract \<Rightarrow> contract \<times> transaction list" where
  "apply_purchase plan c = (add_purchase (pp_quantity plan) c, [pp_purchase_order plan, pp_execution plan])"

text \<open>\<^verbatim>\<open>get_mut(id).ok_or(NotFound)\<close> followed by an update.\<close>

definition update_contract ::
  "string \<Rightarrow> (contract \<Rightarrow> contract_error + contract) \<Rightarrow> engine \<Rightarrow> (contract_error + unit) \<times> engine" where
  "update_contract i f e =
     (case map_of (en_contracts e) i of
        None \<Rightarrow> (Inl (NotFound i), e)
      | Some c \<Rightarrow>
          (case f c of
             Inl err \<Rightarrow> (Inl err, e)
           | Inr c' \<Rightarrow> (Inr (), e\<lparr>en_contracts := btree_insert i c' (en_contracts e)\<rparr>)))"

definition cancel_contract :: "string \<Rightarrow> engine \<Rightarrow> (contract_error + unit) \<times> engine" where
  "cancel_contract i = update_contract i (\<lambda>c. Inr (c\<lparr>ct_status := Cancelled\<rparr>))"

definition pause_contract :: "string \<Rightarrow> engine \<Rightarrow> (contract_error + unit) \<times> engine" where
  "pause_contract i = update_contract i (\<lambda>c.
     if \<not> is_active_contract c then Inl (Inactive i) else Inr (c\<lparr>ct_status := Paused\<rparr>))"

definition resume_contract :: "string \<Rightarrow> engine \<Rightarrow> (contract_error + unit) \<times> engine" where
  "resume_contract i = update_contract i (\<lambda>c.
     Inr (if ct_status c = Paused then c\<lparr>ct_status := Active\<rparr> else c))"

text \<open>The WASM gate of a contract: passed when it has no code or no executor is attached.\<close>

definition wasm_gate :: "gate_env \<Rightarrow> executor option \<Rightarrow> supply_offer \<Rightarrow> string \<Rightarrow> contract \<Rightarrow> gate_decision" where
  "wasm_gate G executor offer offer_tx_id c =
     (case (sc_wasm_code_b64 (ct_definition c), executor) of
        (Some wasm, Some exec) \<Rightarrow>
          gate_evaluate G exec ContractEvaluation (''wasm:'' @ contract_id c @ '':'' @ offer_tx_id) wasm
            (map_sum id (\<lambda>json. [''offer'' \<mapsto> json]) (offer_json G offer))
      | _ \<Rightarrow> Approved)"

text \<open>The body of the loop of \<^verbatim>\<open>evaluate_supply_offer\<close>.\<close>

definition evaluate_contract ::
  "gate_env \<Rightarrow> clock \<Rightarrow> executor option \<Rightarrow> supply_offer \<Rightarrow> string \<Rightarrow> nat \<Rightarrow> contract \<Rightarrow>
     contract \<times> transaction list \<times> nat" where
  "evaluate_contract G clock executor offer offer_tx_id k c =
     (if \<not> is_active_contract c then (c, [], k)
      else if wasm_gate G executor offer offer_tx_id c \<noteq> Approved then (c, [], k)
      else if \<not> offer_matches c offer then (c, [], k)
      else if \<not> pc_auto_execute (conditions c) then (c, [], k)
      else (case prepare_purchase clock k c offer offer_tx_id of
          None \<Rightarrow> (c\<lparr>ct_status := Fulfilled\<rparr>, [], k)
        | Some plan \<Rightarrow> (case apply_purchase plan c of (c', txs) \<Rightarrow> (c', txs, k + 2))))"

fun evaluate_all ::
  "gate_env \<Rightarrow> clock \<Rightarrow> executor option \<Rightarrow> supply_offer \<Rightarrow> string \<Rightarrow> nat \<Rightarrow> (string \<times> contract) list \<Rightarrow>
     (string \<times> contract) list \<times> transaction list \<times> nat" where
  "evaluate_all G clock executor offer offer_tx_id k [] = ([], [], k)"
| "evaluate_all G clock executor offer offer_tx_id k ((i, c) # cs) =
     (case evaluate_contract G clock executor offer offer_tx_id k c of
        (c', txs, k') \<Rightarrow>
          (case evaluate_all G clock executor offer offer_tx_id k' cs of
             (cs', txs', k'') \<Rightarrow> ((i, c') # cs', txs @ txs', k'')))"

definition evaluate_supply_offer ::
  "gate_env \<Rightarrow> clock \<Rightarrow> nat \<Rightarrow> supply_offer \<Rightarrow> string \<Rightarrow> engine \<Rightarrow> transaction list \<times> engine \<times> nat" where
  "evaluate_supply_offer G clock k offer offer_tx_id e =
     (case evaluate_all G clock (en_executor e) offer offer_tx_id k (en_contracts e) of
        (cs, txs, k') \<Rightarrow> (txs, e\<lparr>en_contracts := cs\<rparr>, k'))"

definition load_from_ledger :: "smart_contract_def \<Rightarrow> engine \<Rightarrow> engine" where
  "load_from_ledger d e =
     (if sc_contract_id d \<notin> fst ` set (en_contracts e)
      then e\<lparr>en_contracts := btree_insert (sc_contract_id d) (contract_new d) (en_contracts e)\<rparr> else e)"

text \<open>The two passes of \<^verbatim>\<open>rebuild_from_chain\<close>, one transaction at a time.\<close>

definition replay_creation :: "transaction \<Rightarrow> engine \<Rightarrow> engine" where
  "replay_creation t e = (case tx_kind t of ContractCreation d \<Rightarrow> load_from_ledger d e | _ \<Rightarrow> e)"

definition replay_execution :: "transaction \<Rightarrow> engine \<Rightarrow> engine" where
  "replay_execution t e =
     (case tx_kind t of
        ContractExecution x \<Rightarrow>
          (case map_of (en_contracts e) (ce_contract_id x) of
             None \<Rightarrow> e
           | Some c \<Rightarrow> e\<lparr>en_contracts := btree_insert (ce_contract_id x) (add_purchase (ce_quantity x) c) (en_contracts e)\<rparr>)
      | _ \<Rightarrow> e)"

definition rebuild_from_chain :: "block list \<Rightarrow> engine" where
  "rebuild_from_chain chain =
     (let txs = concat (map b_transactions chain)
      in fold replay_execution txs (fold replay_creation txs engine_new))"


section \<open>Purchases\<close>

lemma unat_bound: "unat w < 2 ^ LENGTH('a)" for w :: "'a::len word"
  by (rule unsigned_less)

lemma prepare_purchase_Some:
  assumes "prepare_purchase clock k c offer i = Some plan"
  shows "unat (pp_quantity plan) \<le> unat (pc_max_quantity (conditions c)) - unat (ct_quantity_purchased c)"
    and "pp_quantity plan \<le> so_quantity_available offer"
    and "\<exists>x. tx_kind (pp_execution plan) = ContractExecution x \<and> ce_contract_id x = contract_id c
      \<and> ce_quantity x = pp_quantity plan"
    and "\<exists>p. tx_kind (pp_purchase_order plan) = PurchaseOrder p"
proof -
  let ?r = "sat_sub (pc_max_quantity (conditions c)) (ct_quantity_purchased c)"
  from assms have q: "pp_quantity plan = min (min ?r (so_quantity_available offer)) (pc_max_quantity (conditions c))"
    by (auto simp: prepare_purchase_def Let_def split: if_splits)
  then have "pp_quantity plan \<le> ?r" by (simp add: min_le_iff_disj)
  then show "unat (pp_quantity plan) \<le> unat (pc_max_quantity (conditions c)) - unat (ct_quantity_purchased c)"
    by (simp add: word_le_nat_alt)
  show "pp_quantity plan \<le> so_quantity_available offer" using q by (simp add: min_le_iff_disj)
  from assms show "\<exists>x. tx_kind (pp_execution plan) = ContractExecution x \<and> ce_contract_id x = contract_id c
      \<and> ce_quantity x = pp_quantity plan" "\<exists>p. tx_kind (pp_purchase_order plan) = PurchaseOrder p"
    by (auto simp: prepare_purchase_def with_id_def Let_def split: if_splits)
qed

lemma prepare_purchase_None:
  "prepare_purchase clock k c offer i = None \<longleftrightarrow>
     unat (pc_max_quantity (conditions c)) \<le> unat (ct_quantity_purchased c)"
  by (simp add: prepare_purchase_def Let_def unat_eq_0 [symmetric] del: unat_eq_0)

lemma evaluate_contract_cases:
  assumes "evaluate_contract G clock x offer i k c = (c', txs, k')"
  obtains (passed) "c' = c" "txs = []"
  | (closed) "is_active_contract c" "unat (pc_max_quantity (conditions c)) \<le> unat (ct_quantity_purchased c)"
      "c' = c\<lparr>ct_status := Fulfilled\<rparr>" "txs = []"
  | (bought) plan where "is_active_contract c" "wasm_gate G x offer i c = Approved" "offer_matches c offer"
      "pc_auto_execute (conditions c)" "prepare_purchase clock k c offer i = Some plan"
      "c' = add_purchase (pp_quantity plan) c" "txs = [pp_purchase_order plan, pp_execution plan]"
proof (cases "is_active_contract c \<and> wasm_gate G x offer i c = Approved \<and> offer_matches c offer
    \<and> pc_auto_execute (conditions c)")
  case False
  then have "evaluate_contract G clock x offer i k c = (c, [], k)" by (auto simp: evaluate_contract_def)
  with assms show thesis by (intro passed) simp_all
next
  case go: True
  show thesis
  proof (cases "prepare_purchase clock k c offer i")
    case None
    with go assms show thesis
      by (intro closed) (simp_all add: evaluate_contract_def prepare_purchase_None [THEN iffD1])
  next
    case (Some plan)
    with go assms show thesis
      by (intro bought [of plan]) (simp_all add: evaluate_contract_def apply_purchase_def)
  qed
qed

lemma add_purchase_sel [simp]:
  "conditions (add_purchase q c) = conditions c" "contract_id (add_purchase q c) = contract_id c"
  "ct_definition (add_purchase q c) = ct_definition c"
  "ct_quantity_purchased (add_purchase q c) = ct_quantity_purchased c + q"
  "ct_status (add_purchase q c)
     = (if pc_max_quantity (conditions c) \<le> ct_quantity_purchased c + q then Fulfilled else ct_status c)"
  by (simp_all add: add_purchase_def Let_def conditions_def contract_id_def)

text \<open>
  A contract of the engine under its own id: within its budget, and open only below it (a budget of
  zero is closed by the first offer that matches).
\<close>

definition contract_ok :: "string \<Rightarrow> contract \<Rightarrow> bool" where
  "contract_ok i c \<longleftrightarrow> contract_id c = i
     \<and> unat (ct_quantity_purchased c) \<le> unat (pc_max_quantity (conditions c))
     \<and> (ct_status c \<in> {Active, Paused} \<longrightarrow>
          ct_quantity_purchased c < pc_max_quantity (conditions c) \<or> pc_max_quantity (conditions c) = 0)"

definition engine_ok :: "engine \<Rightarrow> bool" where
  "engine_ok e \<longleftrightarrow> btree_wf (en_contracts e) \<and> (\<forall>(i, c) \<in> set (en_contracts e). contract_ok i c)"

text \<open>The quantity the execution records among some transactions report for a contract.\<close>

definition executed_quantity :: "string \<Rightarrow> transaction list \<Rightarrow> nat" where
  "executed_quantity i txs = sum_list (map (\<lambda>t. case tx_kind t of
     ContractExecution x \<Rightarrow> if ce_contract_id x = i then unat (ce_quantity x) else 0 | _ \<Rightarrow> 0) txs)"

lemma executed_quantity_simps [simp]:
  "executed_quantity i [] = 0"
  "executed_quantity i (txs @ txs') = executed_quantity i txs + executed_quantity i txs'"
  by (simp_all add: executed_quantity_def)

lemma evaluate_contract_exact:
  assumes "evaluate_contract G clock x offer j k c = (c', txs, k')" "contract_ok i c"
  shows "contract_ok i c'"
    and "unat (ct_quantity_purchased c') = unat (ct_quantity_purchased c) + executed_quantity i txs"
    and "i' \<noteq> i \<Longrightarrow> executed_quantity i' txs = 0" and "ct_definition c' = ct_definition c"
    and "0 < executed_quantity i txs \<Longrightarrow> ct_quantity_purchased c' = pc_max_quantity (conditions c) \<Longrightarrow> ct_status c' = Fulfilled"
proof -
  show "ct_status c' = Fulfilled" if "0 < executed_quantity i txs" "ct_quantity_purchased c' = pc_max_quantity (conditions c)"
    using assms(1)
  proof (cases rule: evaluate_contract_cases)
    case (bought plan)
    with that(2) have "pc_max_quantity (conditions c) \<le> ct_quantity_purchased c + pp_quantity plan" by simp
    then show ?thesis by (simp add: bought(6))
  qed (use that(1) in \<open>simp_all add: executed_quantity_def\<close>)
  have *: "contract_ok i c' \<and> unat (ct_quantity_purchased c') = unat (ct_quantity_purchased c) + executed_quantity i txs
      \<and> (i' \<noteq> i \<longrightarrow> executed_quantity i' txs = 0) \<and> ct_definition c' = ct_definition c" for i'
    using assms(1)
  proof (cases rule: evaluate_contract_cases)
    case passed
    with assms(2) show ?thesis by simp
  next
    case closed
    with assms(2) show ?thesis by (simp add: contract_ok_def contract_id_def conditions_def)
  next
    case (bought plan)
    let ?q = "pp_quantity plan" and ?m = "pc_max_quantity (conditions c)"
    obtain y p where y: "tx_kind (pp_execution plan) = ContractExecution y" "ce_contract_id y = contract_id c"
      "ce_quantity y = ?q" "tx_kind (pp_purchase_order plan) = PurchaseOrder p"
      using prepare_purchase_Some(3,4) [OF bought(5)] by blast
    have id: "contract_id c = i" and le: "unat (ct_quantity_purchased c) \<le> unat ?m"
      using assms(2) by (simp_all add: contract_ok_def)
    have sum: "unat (ct_quantity_purchased c) + unat ?q \<le> unat ?m"
      using prepare_purchase_Some(1) [OF bought(5)] le by linarith
    then have "unat (ct_quantity_purchased c) + unat ?q < 2 ^ 64"
      using unat_bound [of ?m] by simp
    then have exact: "unat (ct_quantity_purchased c + ?q) = unat (ct_quantity_purchased c) + unat ?q"
      by (simp add: unat_add_lem [THEN iffD1])
    have "executed_quantity i' txs = (if i' = i then unat ?q else 0)" for i'
      using y id by (simp add: bought(7) executed_quantity_def)
    moreover have "contract_ok i c'"
      using assms(2) sum exact
      by (auto simp: contract_ok_def bought(6) word_le_nat_alt not_le word_less_nat_alt)
    ultimately show ?thesis by (simp add: bought(6) exact)
  qed
  then show "contract_ok i c'"
    and "unat (ct_quantity_purchased c') = unat (ct_quantity_purchased c) + executed_quantity i txs"
    and "ct_definition c' = ct_definition c" by blast+
  show "i' \<noteq> i \<Longrightarrow> executed_quantity i' txs = 0" using * by blast
qed

lemma evaluate_all_exact:
  assumes "evaluate_all G clock x offer j k cs = (cs', txs, k')"
    and "\<forall>(i, c) \<in> set cs. contract_ok i c" "distinct (map fst cs)"
  shows "map fst cs' = map fst cs \<and> (\<forall>(i, c) \<in> set cs'. contract_ok i c)
    \<and> (\<forall>i. i \<notin> fst ` set cs \<longrightarrow> executed_quantity i txs = 0)
    \<and> (\<forall>i c. map_of cs i = Some c \<longrightarrow> (\<exists>c'. map_of cs' i = Some c' \<and> ct_definition c' = ct_definition c
         \<and> unat (ct_quantity_purchased c') = unat (ct_quantity_purchased c) + executed_quantity i txs
         \<and> (0 < executed_quantity i txs \<and> ct_quantity_purchased c' = pc_max_quantity (conditions c) \<longrightarrow> ct_status c' = Fulfilled)))"
  using assms
proof (induction cs arbitrary: k cs' txs k')
  case (Cons e cs)
  obtain i c where e: "e = (i, c)" by (cases e)
  obtain c1 t1 k1 where 1: "evaluate_contract G clock x offer j k c = (c1, t1, k1)" by (rule prod_cases3)
  obtain cs2 t2 k2 where 2: "evaluate_all G clock x offer j k1 cs = (cs2, t2, k2)" by (rule prod_cases3)
  have out: "cs' = (i, c1) # cs2" "txs = t1 @ t2" using Cons.prems(1) by (simp_all add: e 1 2)
  have ok: "contract_ok i c" using Cons.prems(2) by (simp add: e)
  note one = evaluate_contract_exact [OF 1 ok]
  have ih: "map fst cs2 = map fst cs" "\<forall>(i, c) \<in> set cs2. contract_ok i c"
    "\<forall>i. i \<notin> fst ` set cs \<longrightarrow> executed_quantity i t2 = 0"
    "\<forall>i c. map_of cs i = Some c \<longrightarrow> (\<exists>c'. map_of cs2 i = Some c' \<and> ct_definition c' = ct_definition c
         \<and> unat (ct_quantity_purchased c') = unat (ct_quantity_purchased c) + executed_quantity i t2
         \<and> (0 < executed_quantity i t2 \<and> ct_quantity_purchased c' = pc_max_quantity (conditions c) \<longrightarrow> ct_status c' = Fulfilled))"
    using Cons.IH [OF 2] Cons.prems(2,3) by auto
  have fresh: "i \<notin> fst ` set cs" using Cons.prems(3) by (auto simp: e)
  show ?case
  proof (intro conjI allI impI)
    fix i' c' assume l: "map_of (e # cs) i' = Some c'"
    show "\<exists>d. map_of cs' i' = Some d \<and> ct_definition d = ct_definition c'
        \<and> unat (ct_quantity_purchased d) = unat (ct_quantity_purchased c') + executed_quantity i' txs
        \<and> (0 < executed_quantity i' txs \<and> ct_quantity_purchased d = pc_max_quantity (conditions c') \<longrightarrow> ct_status d = Fulfilled)"
    proof (cases "i' = i")
      case True
      with l one(2,4,5) ih(3) fresh show ?thesis by (simp add: e out)
    next
      case False
      with l ih(4) one(3) show ?thesis by (simp add: e out)
    qed
  qed (use one ih fresh in \<open>auto simp: e out\<close>)
qed simp


section \<open>Reachable engines\<close>

inductive engine_reachable :: "gate_env \<Rightarrow> clock \<Rightarrow> engine \<Rightarrow> bool" for G clock where
  new: "engine_reachable G clock engine_new"
| attach: "engine_reachable G clock e \<Longrightarrow> engine_reachable G clock (set_executor x e)"
| register: "engine_reachable G clock e \<Longrightarrow> engine_reachable G clock (snd (register_contract d e))"
| load: "engine_reachable G clock e \<Longrightarrow> engine_reachable G clock (load_from_ledger d e)"
| cancel: "engine_reachable G clock e \<Longrightarrow> engine_reachable G clock (snd (cancel_contract i e))"
| pause: "engine_reachable G clock e \<Longrightarrow> engine_reachable G clock (snd (pause_contract i e))"
| resume: "engine_reachable G clock e \<Longrightarrow> engine_reachable G clock (snd (resume_contract i e))"
| offer: "engine_reachable G clock e \<Longrightarrow> evaluate_supply_offer G clock k off j e = (txs, e', k') \<Longrightarrow>
    engine_reachable G clock e'"

lemma set_btree_insert: "set (btree_insert i c cs) \<subseteq> insert (i, c) (set cs)"
  by (induction cs) auto

lemma engine_ok_insert:
  assumes "engine_ok e" "contract_ok i c"
  shows "engine_ok (e\<lparr>en_contracts := btree_insert i c (en_contracts e)\<rparr>)"
  using assms set_btree_insert [of i c "en_contracts e"] by (force simp: engine_ok_def intro: btree_wf_insert)

lemma engine_ok_update:
  assumes "engine_ok e" "\<And>c c'. contract_ok i c \<Longrightarrow> f c = Inr c' \<Longrightarrow> contract_ok i c'"
  shows "engine_ok (snd (update_contract i f e))"
proof (cases "map_of (en_contracts e) i")
  case (Some c)
  then have "contract_ok i c" using assms(1) map_of_SomeD [of "en_contracts e" i c] by (auto simp: engine_ok_def)
  with assms Some show ?thesis
    by (cases "f c") (simp_all add: update_contract_def engine_ok_insert)
qed (use assms(1) in \<open>simp add: update_contract_def\<close>)

lemma contract_ok_new: "contract_ok (sc_contract_id d) (contract_new d)"
  by (simp add: contract_ok_def contract_new_def contract_id_def word_less_nat_alt unat_eq_0 [symmetric] del: unat_eq_0) arith

lemma contract_ok_status:
  assumes "contract_ok i c" "st \<in> {Active, Paused} \<Longrightarrow> ct_status c \<in> {Active, Paused}"
  shows "contract_ok i (c\<lparr>ct_status := st\<rparr>)"
  using assms by (auto simp: contract_ok_def contract_id_def conditions_def)

lemma engine_reachable_ok: "engine_reachable G clock e \<Longrightarrow> engine_ok e"
proof (induction rule: engine_reachable.induct)
  case (offer e k off j txs e' k')
  obtain cs t kk where ev: "evaluate_all G clock (en_executor e) off j k (en_contracts e) = (cs, t, kk)"
    by (rule prod_cases3)
  with offer(2) have e': "e' = e\<lparr>en_contracts := cs\<rparr>" by (simp add: evaluate_supply_offer_def)
  from offer.IH have "\<forall>(i, c) \<in> set (en_contracts e). contract_ok i c" "distinct (map fst (en_contracts e))"
    by (simp_all add: engine_ok_def btree_wf_distinct)
  from evaluate_all_exact [OF ev this] offer.IH show ?case by (simp add: e' engine_ok_def btree_wf_def)
next
  case new
  show ?case by (simp add: engine_ok_def engine_new_def)
next
  case (attach e x)
  then show ?case by (simp add: engine_ok_def set_executor_def)
qed (auto simp: register_contract_def load_from_ledger_def cancel_contract_def
    pause_contract_def resume_contract_def is_active_contract_def
    intro!: engine_ok_insert engine_ok_update contract_ok_new contract_ok_status split: if_splits)

text \<open>
  C11. Budgets are kept exactly: in every engine reached from a new one by attaching an executor,
  registering, loading, pausing, resuming and cancelling contracts and evaluating offers (an engine
  rebuilt from a chain, or one whose contracts are changed from outside, is not among them), a contract
  has bought at most its maximum quantity, and when a positive maximum is reached the contract is
  fulfilled or cancelled.  An evaluation raises its purchased quantity by exactly what the execution
  records it emits report, with no wrap-around, and leaves it fulfilled when that reaches the maximum.
\<close>

theorem purchases_within_budget:
  assumes "engine_reachable G clock e" "get_contract i e = Some c"
    and "evaluate_supply_offer G clock k offer offer_tx_id e = (txs, e', k')"
  shows "unat (ct_quantity_purchased c) \<le> unat (pc_max_quantity (conditions c))
    \<and> (ct_quantity_purchased c = pc_max_quantity (conditions c) \<and> pc_max_quantity (conditions c) \<noteq> 0 \<longrightarrow>
        ct_status c \<in> {Fulfilled, Cancelled})
    \<and> (\<exists>c'. get_contract i e' = Some c' \<and> ct_definition c' = ct_definition c
         \<and> unat (ct_quantity_purchased c') = unat (ct_quantity_purchased c) + executed_quantity i txs
         \<and> unat (ct_quantity_purchased c') \<le> unat (pc_max_quantity (conditions c))
         \<and> (0 < executed_quantity i txs \<and> ct_quantity_purchased c' = pc_max_quantity (conditions c) \<longrightarrow>
              ct_status c' = Fulfilled))"
proof -
  note ok = engine_reachable_ok [OF assms(1)]
  obtain cs t kk where ev: "evaluate_all G clock (en_executor e) offer offer_tx_id k (en_contracts e) = (cs, t, kk)"
    by (rule prod_cases3)
  with assms(3) have e': "e' = e\<lparr>en_contracts := cs\<rparr>" "txs = t" by (simp_all add: evaluate_supply_offer_def)
  have wf: "\<forall>(i, c) \<in> set (en_contracts e). contract_ok i c" "distinct (map fst (en_contracts e))"
    using ok by (simp_all add: engine_ok_def btree_wf_distinct)
  have c: "contract_ok i c" using assms(2) map_of_SomeD [of "en_contracts e" i c] wf(1) by (auto simp: get_contract_def)
  then have st: "ct_quantity_purchased c = pc_max_quantity (conditions c) \<and> pc_max_quantity (conditions c) \<noteq> 0 \<longrightarrow>
      ct_status c \<in> {Fulfilled, Cancelled}"
    by (cases "ct_status c") (auto simp: contract_ok_def)
  have all: "\<forall>(i, c) \<in> set cs. contract_ok i c" using evaluate_all_exact [OF ev wf] by (elim conjE)
  obtain c' where c': "map_of cs i = Some c'" "ct_definition c' = ct_definition c"
    "unat (ct_quantity_purchased c') = unat (ct_quantity_purchased c) + executed_quantity i t"
    "0 < executed_quantity i t \<and> ct_quantity_purchased c' = pc_max_quantity (conditions c) \<longrightarrow> ct_status c' = Fulfilled"
    using evaluate_all_exact [OF ev wf] assms(2) unfolding get_contract_def by blast
  have "contract_ok i c'" using map_of_SomeD [OF c'(1)] all by auto
  with c st c' show ?thesis by (simp add: get_contract_def e' contract_ok_def conditions_def)
qed


section \<open>Rebuilding\<close>

text \<open>The transactions that are contract creations and contract executions.\<close>

definition creations :: "transaction list \<Rightarrow> smart_contract_def list" where
  "creations txs = List.map_filter (\<lambda>t. case tx_kind t of ContractCreation d \<Rightarrow> Some d | _ \<Rightarrow> None) txs"

definition executions :: "transaction list \<Rightarrow> contract_execution list" where
  "executions txs = List.map_filter (\<lambda>t. case tx_kind t of ContractExecution x \<Rightarrow> Some x | _ \<Rightarrow> None) txs"

definition replay :: "contract_execution \<Rightarrow> (string \<times> contract) list \<Rightarrow> (string \<times> contract) list" where
  "replay x cs =
     (case map_of cs (ce_contract_id x) of
        None \<Rightarrow> cs
      | Some c \<Rightarrow> btree_insert (ce_contract_id x) (add_purchase (ce_quantity x) c) cs)"

lemma fold_replay_creation: "fold replay_creation txs e = fold load_from_ledger (creations txs) e"
  by (induction txs arbitrary: e)
    (auto simp: replay_creation_def creations_def map_filter_simps split: transaction_kind.splits)

lemma fold_replay_execution:
  "fold replay_execution txs e = e\<lparr>en_contracts := fold replay (executions txs) (en_contracts e)\<rparr>"
proof (induction txs arbitrary: e)
  case (Cons t txs)
  then show ?case
    by (cases "tx_kind t")
      (auto simp: replay_execution_def executions_def map_filter_simps replay_def split: option.splits)
qed (simp add: executions_def map_filter_simps)

lemma btree_insert_present:
  "btree_wf (pre @ (i, c) # post) \<Longrightarrow> btree_insert i c' (pre @ (i, c) # post) = pre @ (i, c') # post"
  by (induction pre) (auto simp: btree_wf_def)

lemma executions_append [simp]: "executions (xs @ ys) = executions xs @ executions ys"
  by (simp add: executions_def map_filter_def)

text \<open>Replaying the executions an evaluation emits gives the contracts the evaluation leaves.\<close>

lemma replay_evaluation:
  assumes "evaluate_all G clock x offer j k cs = (cs', txs, k')" "btree_wf (pre @ cs)"
    and "\<forall>(i, c) \<in> set cs. contract_ok i c \<and> pc_max_quantity (conditions c) \<noteq> 0"
  shows "fold replay (executions txs) (pre @ cs) = pre @ cs'"
  using assms
proof (induction cs arbitrary: pre k cs' txs k')
  case Nil
  then show ?case by (simp add: executions_def map_filter_simps)
next
  case (Cons e cs)
  obtain i c where e: "e = (i, c)" by (cases e)
  obtain c1 t1 k1 where 1: "evaluate_contract G clock x offer j k c = (c1, t1, k1)" by (rule prod_cases3)
  obtain cs2 t2 k2 where 2: "evaluate_all G clock x offer j k1 cs = (cs2, t2, k2)" by (rule prod_cases3)
  have out: "cs' = (i, c1) # cs2" "txs = t1 @ t2" using Cons.prems(1) by (simp_all add: e 1 2)
  have ok: "contract_ok i c" "pc_max_quantity (conditions c) \<noteq> 0" using Cons.prems(3) by (auto simp: e)
  have head: "fold replay (executions t1) (pre @ (i, c) # cs) = pre @ (i, c1) # cs"
    using 1
  proof (cases rule: evaluate_contract_cases)
    case passed
    then show ?thesis by (simp add: executions_def map_filter_simps)
  next
    case closed
    with ok show ?thesis by (auto simp: contract_ok_def is_active_contract_def word_less_nat_alt)
  next
    case (bought plan)
    have "executions t1 = [y]" if "tx_kind (pp_execution plan) = ContractExecution y" for y
      using that prepare_purchase_Some(4) [OF bought(5)] by (auto simp: executions_def map_filter_simps bought(7))
    then obtain y where y: "executions t1 = [y]" "ce_contract_id y = i" "ce_quantity y = pp_quantity plan"
      using prepare_purchase_Some(3) [OF bought(5)] ok(1) by (auto simp: contract_ok_def)
    have "distinct (map fst (pre @ (i, c) # cs))" using Cons.prems(2) by (intro btree_wf_distinct) (simp add: e)
    then have "map_of (pre @ (i, c) # cs) i = Some c" by (rule map_of_is_SomeI) simp
    with y Cons.prems(2) show ?thesis by (simp add: replay_def btree_insert_present e bought(6))
  qed
  have "btree_wf ((pre @ [(i, c1)]) @ cs)" using Cons.prems(2) by (simp add: btree_wf_def e)
  from Cons.IH [OF 2 this] Cons.prems(3) head show ?case by (simp add: out e)
qed

definition load :: "smart_contract_def \<Rightarrow> (string \<times> contract) list \<Rightarrow> (string \<times> contract) list" where
  "load d cs =
     (if sc_contract_id d \<notin> fst ` set cs then btree_insert (sc_contract_id d) (contract_new d) cs else cs)"

lemma load_from_ledger_load: "load_from_ledger d e = e\<lparr>en_contracts := load d (en_contracts e)\<rparr>"
  by (simp add: load_from_ledger_def load_def)

lemma fold_load_from_ledger: "fold load_from_ledger ds e = e\<lparr>en_contracts := fold load ds (en_contracts e)\<rparr>"
  by (induction ds arbitrary: e) (simp_all add: load_from_ledger_load)

lemma keys_replay [simp]: "fst ` set (replay x cs) = fst ` set cs"
  by (auto simp: replay_def keys_btree_insert dest: map_of_Some_in_keys split: option.splits)

lemma btree_wf_replay: "btree_wf cs \<Longrightarrow> btree_wf (replay x cs)"
  by (simp add: replay_def btree_wf_insert split: option.splits)

lemma btree_wf_load: "btree_wf cs \<Longrightarrow> btree_wf (load d cs)"
  by (simp add: load_def btree_wf_insert)

lemma keys_fold_replay [simp]: "fst ` set (fold replay xs cs) = fst ` set cs"
  by (induction xs arbitrary: cs) simp_all

lemma replay_load_commute:
  assumes "btree_wf cs" "ce_contract_id x \<in> fst ` set cs"
  shows "replay x (load d cs) = load d (replay x cs)"
proof (cases "sc_contract_id d \<in> fst ` set cs")
  case True
  then show ?thesis by (simp add: load_def)
next
  case False
  obtain c where c: "map_of cs (ce_contract_id x) = Some c"
    using assms(2) by (metis domD dom_map_of_conv_image_fst)
  have ne: "ce_contract_id x \<noteq> sc_contract_id d" using False assms(2) by metis
  have "map_of (replay x (load d cs)) = map_of (load d (replay x cs))"
    using False c ne by (simp add: load_def replay_def map_of_btree_insert keys_btree_insert fun_upd_twist)
  then show ?thesis
    by (intro map_of_btree_sorted_eq btree_wf_replay btree_wf_load assms(1))
qed

lemma fold_replay_load_commute:
  "btree_wf cs \<Longrightarrow> \<forall>x \<in> set xs. ce_contract_id x \<in> fst ` set cs \<Longrightarrow>
     fold replay xs (load d cs) = load d (fold replay xs cs)"
  by (induction xs arbitrary: cs) (simp_all add: replay_load_commute btree_wf_replay)

text \<open>A live run: contracts are created and offers evaluated in any order.\<close>

datatype engine_event = Created smart_contract_def | Offered supply_offer string

definition engine_event ::
  "gate_env \<Rightarrow> clock \<Rightarrow> engine_event \<Rightarrow> transaction list \<times> engine \<times> nat \<Rightarrow> transaction list \<times> engine \<times> nat" where
  "engine_event G clock ev st =
     (case st of (txs, e, k) \<Rightarrow>
        (case ev of
           Created d \<Rightarrow> (txs, load_from_ledger d e, k)
         | Offered off i \<Rightarrow>
             (case evaluate_supply_offer G clock k off i e of (txs', e', k') \<Rightarrow> (txs @ txs', e', k'))))"

definition created :: "engine_event list \<Rightarrow> smart_contract_def list" where
  "created evs = List.map_filter (\<lambda>ev. case ev of Created d \<Rightarrow> Some d | _ \<Rightarrow> None) evs"

definition live_ok :: "smart_contract_def list \<Rightarrow> transaction list \<Rightarrow> engine \<Rightarrow> bool" where
  "live_ok ds txs e \<longleftrightarrow> btree_wf (en_contracts e)
     \<and> (\<forall>(i, c) \<in> set (en_contracts e). contract_ok i c \<and> pc_max_quantity (conditions c) \<noteq> 0)
     \<and> (\<forall>x \<in> set (executions txs). ce_contract_id x \<in> fst ` set (fold load ds []))
     \<and> en_contracts e = fold replay (executions txs) (fold load ds [])"

lemma evaluate_all_ids:
  assumes "evaluate_all G clock x offer j k cs = (cs', txs, k')" "\<forall>(i, c) \<in> set cs. contract_ok i c"
    and "y \<in> set (executions txs)"
  shows "ce_contract_id y \<in> fst ` set cs"
  using assms
proof (induction cs arbitrary: k cs' txs k')
  case Nil
  then show ?case by (simp add: executions_def map_filter_simps)
next
  case (Cons e cs)
  obtain i c where e: "e = (i, c)" by (cases e)
  obtain c1 t1 k1 where 1: "evaluate_contract G clock x offer j k c = (c1, t1, k1)" by (rule prod_cases3)
  obtain cs2 t2 k2 where 2: "evaluate_all G clock x offer j k1 cs = (cs2, t2, k2)" by (rule prod_cases3)
  have out: "txs = t1 @ t2" using Cons.prems(1) by (simp add: e 1 2)
  have "ce_contract_id y = i" if "y \<in> set (executions t1)"
    using 1
  proof (cases rule: evaluate_contract_cases)
    case (bought plan)
    then show ?thesis
      using that prepare_purchase_Some(3,4) [OF bought(5)] Cons.prems(2)
      by (auto simp: e executions_def map_filter_simps contract_ok_def)
  qed (use that in \<open>simp_all add: executions_def map_filter_simps\<close>)
  with Cons.IH [OF 2] Cons.prems(2,3) show ?case by (auto simp: out e)
qed

lemma live_ok_step:
  assumes "live_ok ds txs e" "engine_event G clock ev (txs, e, k) = (txs', e', k')"
    and "\<forall>d. ev = Created d \<longrightarrow> pc_max_quantity (sc_conditions d) \<noteq> 0"
  shows "live_ok (ds @ created [ev]) txs' e'"
proof (cases ev)
  case (Created d)
  have out: "txs' = txs" "en_contracts e' = load d (en_contracts e)"
    using assms(2) Created by (auto simp: engine_event_def load_from_ledger_load)
  have wf: "btree_wf (fold load ds [])"
  proof -
    have "btree_wf cs \<Longrightarrow> btree_wf (fold load ds cs)" for cs
      by (induction ds arbitrary: cs) (simp_all add: btree_wf_load)
    then show ?thesis by simp
  qed
  have "contract_ok (sc_contract_id d) (contract_new d) \<and> pc_max_quantity (conditions (contract_new d)) \<noteq> 0"
    using assms(3) Created contract_ok_new [of d] by (simp add: conditions_def contract_new_def)
  moreover have "set (load d (en_contracts e)) \<subseteq> insert (sc_contract_id d, contract_new d) (set (en_contracts e))"
    by (simp add: load_def set_btree_insert subset_insertI)
  ultimately have "\<forall>(i, c) \<in> set (load d (en_contracts e)). contract_ok i c \<and> pc_max_quantity (conditions c) \<noteq> 0"
    using assms(1) unfolding live_ok_def by blast
  moreover have "ce_contract_id x \<in> fst ` set (load d (fold load ds []))" if "x \<in> set (executions txs)" for x
    using that assms(1) by (auto simp: live_ok_def load_def keys_btree_insert)
  ultimately show ?thesis
    using assms(1) fold_replay_load_commute [OF wf, of "executions txs" d]
    by (auto simp: live_ok_def out created_def map_filter_simps Created btree_wf_load)
next
  case (Offered off i)
  obtain cs t kk where ev: "evaluate_all G clock (en_executor e) off i k (en_contracts e) = (cs, t, kk)"
    by (rule prod_cases3)
  have out: "txs' = txs @ t" "en_contracts e' = cs"
    using assms(2) Offered ev by (auto simp: engine_event_def evaluate_supply_offer_def)
  have wf: "btree_wf (en_contracts e)" "distinct (map fst (en_contracts e))"
    and ok: "\<forall>(i, c) \<in> set (en_contracts e). contract_ok i c"
      "\<forall>(i, c) \<in> set (en_contracts e). contract_ok i c \<and> pc_max_quantity (conditions c) \<noteq> 0"
    and keys: "fst ` set (en_contracts e) = fst ` set (fold load ds [])"
    using assms(1) btree_wf_distinct by (auto simp: live_ok_def)
  note exact = evaluate_all_exact [OF ev ok(1) wf(2)]
  have "pc_max_quantity (conditions c) \<noteq> 0" if "(j, c) \<in> set cs" for j c
  proof -
    have dist: "distinct (map fst cs)" and "j \<in> fst ` set (en_contracts e)"
      using exact wf(2) that by (metis, metis fst_conv image_eqI list.set_map)
    then obtain c0 where c0: "map_of (en_contracts e) j = Some c0" by (metis domD dom_map_of_conv_image_fst)
    with exact obtain c1 where "map_of cs j = Some c1" "ct_definition c1 = ct_definition c0" by blast
    moreover have "map_of cs j = Some c" by (rule map_of_is_SomeI [OF dist that])
    ultimately show ?thesis using map_of_SomeD [OF c0] ok(2) by (auto simp: conditions_def)
  qed
  moreover have "fold replay (executions t) (en_contracts e) = cs"
    using replay_evaluation [OF ev, of "[]"] wf(1) ok(2) by simp
  moreover have "btree_wf cs" using exact wf(1) by (simp add: btree_wf_def)
  ultimately show ?thesis
    using assms(1) exact evaluate_all_ids [OF ev ok(1)] keys
    by (auto simp: live_ok_def out created_def map_filter_simps Offered)
qed

text \<open>
  A rebuilt engine is the live engine: when a node created contracts with a positive maximum and
  evaluated offers in any order, and the chain carries those creations and the execution records the
  engine emitted, each kind in its order, then replaying the chain gives exactly the contracts of
  the live engine, statuses and counters included, and no executor.
\<close>

theorem rebuild_equals_live:
  assumes "fold (engine_event G clock) evs ([], engine_new\<lparr>en_executor := x\<rparr>, k) = (txs, e, k')"
    and "\<forall>d \<in> set (created evs). pc_max_quantity (sc_conditions d) \<noteq> 0"
    and "creations (concat (map b_transactions chain)) = created evs"
    and "executions (concat (map b_transactions chain)) = executions txs"
  shows "rebuild_from_chain chain = e\<lparr>en_executor := None\<rparr>"
proof -
  have "live_ok (created evs) txs e"
    using assms(1,2)
  proof (induction evs arbitrary: txs e k' rule: rev_induct)
    case Nil
    then show ?case by (auto simp: live_ok_def created_def executions_def map_filter_simps engine_new_def)
  next
    case (snoc ev evs)
    obtain txs1 e1 k1 where st: "fold (engine_event G clock) evs ([], engine_new\<lparr>en_executor := x\<rparr>, k) = (txs1, e1, k1)"
      by (rule prod_cases3)
    have app: "created (evs @ [ev]) = created evs @ created [ev]" by (simp add: created_def map_filter_def)
    have "live_ok (created evs) txs1 e1" using snoc.IH [OF st] snoc.prems(2) by (simp add: app)
    moreover have "engine_event G clock ev (txs1, e1, k1) = (txs, e, k')" using snoc.prems(1) st by simp
    ultimately show ?case
      using snoc.prems(2) unfolding app by (intro live_ok_step) (auto simp: created_def map_filter_simps)
  qed
  then have "en_contracts e = fold replay (executions txs) (fold load (created evs) [])" by (simp add: live_ok_def)
  then show ?thesis
    by (simp add: rebuild_from_chain_def fold_replay_creation fold_replay_execution fold_load_from_ledger
        assms(3,4) engine_new_def)
qed

text \<open>
  C37. Rebuilding drops the approval gate: for a contract with WASM code whose gate denies an offer,
  the engine with its executor buys nothing, while the engine rebuilt from the same chain, which has
  no executor, buys on that offer.
\<close>

theorem rebuild_drops_gate:
  assumes "creations (concat (map b_transactions chain)) = [d]" "executions (concat (map b_transactions chain)) = []"
    and "wasm_gate G (Some x) offer i (contract_new d) \<noteq> Approved" "offer_matches (contract_new d) offer"
    and "pc_auto_execute (sc_conditions d)" "pc_max_quantity (sc_conditions d) \<noteq> 0"
  shows "fst (evaluate_supply_offer G clock k offer i (set_executor x (rebuild_from_chain chain))) = []
    \<and> length (fst (evaluate_supply_offer G clock k offer i (rebuild_from_chain chain))) = 2"
proof -
  have e: "rebuild_from_chain chain = \<lparr>en_contracts = [(sc_contract_id d, contract_new d)], en_executor = None\<rparr>"
    using assms(1,2) by (simp add: rebuild_from_chain_def fold_replay_creation fold_replay_execution engine_new_def
        load_from_ledger_def)
  have c: "is_active_contract (contract_new d)" "conditions (contract_new d) = sc_conditions d"
    "prepare_purchase clock k (contract_new d) offer i \<noteq> None"
    using assms(6) by (simp_all add: is_active_contract_def contract_new_def conditions_def prepare_purchase_None
        unat_eq_0)
  then obtain plan where "prepare_purchase clock k (contract_new d) offer i = Some plan" by blast
  moreover have "wasm_gate G None offer i (contract_new d) = Approved"
    by (simp add: wasm_gate_def split: option.splits)
  ultimately show ?thesis
    using assms(3-5) c by (simp add: e evaluate_supply_offer_def evaluate_contract_def set_executor_def apply_purchase_def)
qed


section \<open>Instances\<close>

text \<open>A contract for up to ten units with a gate that never approves, and an offer of four.\<close>

definition sample_contract :: smart_contract_def where
  "sample_contract = \<lparr>sc_contract_id = ''c'', sc_buyer_id = ''b'', sc_product_id = ''p'',
     sc_conditions = \<lparr>pc_max_price_per_unit = 5, pc_min_quantity = 1, pc_max_quantity = 10,
       pc_max_lead_time_days = 7, pc_preferred_seller_id = None, pc_currency = ''BRL'', pc_auto_execute = True\<rparr>,
     sc_wasm_code_b64 = Some ''AA==''\<rparr>"

definition sample_offer :: supply_offer where
  "sample_offer = \<lparr>so_product_id = ''p'', so_product_name = ''P'', so_seller_id = ''s'',
     so_quantity_available = 4, so_price_per_unit = 3, so_lead_time_days = 2, so_currency = ''BRL''\<rparr>"

definition sample_gate :: gate_env where
  "sample_gate = \<lparr>base64_standard = (\<lambda>_. Inr [0]), offer_json = (\<lambda>_. Inr [])\<rparr>"

definition silent_executor :: executor where
  "silent_executor _ _ _ _ = Inr \<lparr>ephemeral = [], writes = []\<rparr>"

definition creation_block :: block where
  "creation_block = \<lparr>b_index = 1, b_timestamp = 0, b_transactions = [with_id ''t'' 0 (ContractCreation sample_contract)],
     b_write_set = [], b_previous_hash = [], b_nonce = 0, b_hash = [], b_certificate = None\<rparr>"

lemma sample_sel [simp]:
  "sc_contract_id sample_contract = ''c''" "pc_max_quantity (sc_conditions sample_contract) = 10"
  "pc_auto_execute (sc_conditions sample_contract)" "sc_wasm_code_b64 sample_contract = Some ''AA==''"
  by (simp_all add: sample_contract_def)

lemma sample_matches [simp]: "offer_matches (contract_new sample_contract) sample_offer"
  by (simp add: offer_matches_def conditions_def contract_new_def sample_contract_def sample_offer_def)

lemma sample_evaluation:
  "evaluate_contract G clock None sample_offer i k (contract_new sample_contract)
     = ((contract_new sample_contract)\<lparr>ct_quantity_purchased := 4, ct_execution_count := 1\<rparr>,
        [pp_purchase_order (the (prepare_purchase clock k (contract_new sample_contract) sample_offer i)),
         pp_execution (the (prepare_purchase clock k (contract_new sample_contract) sample_offer i))], k + 2)"
proof -
  have r: "sat_sub 10 0 = (10 :: u64)" "min (min 10 4) 10 = (4 :: u64)" by (simp_all add: sat_sub_def min_def)
  have q: "so_quantity_available sample_offer = 4" by (simp add: sample_offer_def)
  obtain plan where plan: "prepare_purchase clock k (contract_new sample_contract) sample_offer i = Some plan"
    "pp_quantity plan = 4"
    by (simp add: prepare_purchase_def contract_new_def conditions_def r q Let_def)
  show ?thesis
    using plan by (simp add: evaluate_contract_def is_active_contract_def apply_purchase_def wasm_gate_def)
      (simp add: contract_new_def conditions_def add_purchase_def)
qed

theorem purchases_within_budget_witness:
  "\<exists>c'. get_contract ''c'' (fst (snd (evaluate_supply_offer sample_gate (\<lambda>_. 0) 0 sample_offer ''o''
      (load_from_ledger sample_contract engine_new)))) = Some c'
    \<and> unat (ct_quantity_purchased c') \<le> unat (pc_max_quantity (sc_conditions sample_contract))"
proof -
  let ?e = "load_from_ledger sample_contract engine_new"
  have e: "engine_reachable sample_gate (\<lambda>_. 0) ?e" by (intro engine_reachable.intros)
  have "get_contract ''c'' ?e = Some (contract_new sample_contract)"
    by (simp add: get_contract_def load_from_ledger_def engine_new_def)
  moreover obtain txs e' k' where
    "evaluate_supply_offer sample_gate (\<lambda>_. 0) 0 sample_offer ''o'' ?e = (txs, e', k')" by (rule prod_cases3)
  ultimately show ?thesis
    using purchases_within_budget [OF e] by (fastforce simp: conditions_def contract_new_def)
qed

definition execution_block :: block where
  "execution_block = creation_block\<lparr>b_transactions :=
     fst (evaluate_supply_offer sample_gate (\<lambda>_. 0) 0 sample_offer ''o'' (load_from_ledger sample_contract engine_new))\<rparr>"

theorem rebuild_equals_live_witness:
  "rebuild_from_chain [creation_block, execution_block] = \<lparr>en_contracts =
     [(''c'', (contract_new sample_contract)\<lparr>ct_quantity_purchased := 4, ct_execution_count := 1\<rparr>)], en_executor = None\<rparr>"
proof -
  let ?c = "(contract_new sample_contract)\<lparr>ct_quantity_purchased := 4, ct_execution_count := 1\<rparr>"
  let ?live = "\<lparr>en_contracts = [(''c'', ?c)], en_executor = None\<rparr>"
  obtain plan where plan: "prepare_purchase (\<lambda>_. 0) 0 (contract_new sample_contract) sample_offer ''o'' = Some plan"
    using prepare_purchase_None [of "\<lambda>_. 0" 0 "contract_new sample_contract" sample_offer "''o''"]
    by (auto simp: conditions_def contract_new_def)
  have ev: "evaluate_supply_offer sample_gate (\<lambda>_. 0) 0 sample_offer ''o'' (load_from_ledger sample_contract engine_new)
      = ([pp_purchase_order plan, pp_execution plan], ?live, 2)"
    by (simp add: evaluate_supply_offer_def load_from_ledger_def engine_new_def sample_evaluation plan)
  then have "fold (engine_event sample_gate (\<lambda>_. 0)) [Created sample_contract, Offered sample_offer ''o'']
      ([], engine_new\<lparr>en_executor := None\<rparr>, 0) = ([pp_purchase_order plan, pp_execution plan], ?live, 2)"
    by (simp add: engine_event_def engine_new_def)
  from rebuild_equals_live [OF this, of "[creation_block, execution_block]"] show ?thesis
    using prepare_purchase_Some(3,4) [OF plan]
    by (auto simp: created_def creations_def executions_def map_filter_simps creation_block_def execution_block_def
        ev with_id_def)
qed

theorem rebuild_drops_gate_witness:
  "fst (evaluate_supply_offer sample_gate (\<lambda>_. 0) 0 sample_offer ''o''
      (set_executor silent_executor (rebuild_from_chain [creation_block]))) = []
   \<and> length (fst (evaluate_supply_offer sample_gate (\<lambda>_. 0) 0 sample_offer ''o''
      (rebuild_from_chain [creation_block]))) = 2"
proof (rule rebuild_drops_gate)
  show "wasm_gate sample_gate (Some silent_executor) sample_offer ''o'' (contract_new sample_contract) \<noteq> Approved"
    by (simp add: wasm_gate_def contract_new_def gate_evaluate_def sample_gate_def silent_executor_def approves_def)
qed (simp_all add: creations_def executions_def map_filter_simps creation_block_def with_id_def)

end
