(* ===== verification/Workflow.thy ===== *)
theory Workflow
  imports Providers
begin

text \<open>
  \<^verbatim>\<open>glasschain-workflows/src\<close>: the flow framework.  Events and actions (\<^verbatim>\<open>event.rs\<close>,
  \<^verbatim>\<open>action.rs\<close>), transitions (\<^verbatim>\<open>transition.rs\<close>), checkpoints (\<^verbatim>\<open>checkpoint.rs\<close>), the triage
  view (\<^verbatim>\<open>triage.rs\<close>) and the runner (\<^verbatim>\<open>runner.rs\<close>).

  The runner works over any storage provider, given by its state operations (\<open>state_ops\<close>); what it
  relies on is the locale \<open>state_seam\<close>, which both stores of \<open>Providers\<close> interpret, the redb store
  under arbitrary transaction faults.  The JSON codecs of \<^verbatim>\<open>serde_json\<close> and the system clock are
  parameters; both may fail.
\<close>

section \<open>Events, actions and transitions\<close>

datatype event =
    RecordCommitted canonical_record
  | TransactionCommitted transaction_kind
  | Woken string
  | Resumed string

datatype action = EmitTransaction transaction | EmitRecord canonical_record

definition action_kind :: "action \<Rightarrow> string" where
  "action_kind a = (case a of EmitTransaction _ \<Rightarrow> ''EmitTransaction'' | EmitRecord _ \<Rightarrow> ''EmitRecord'')"

definition is_resumed :: "event \<Rightarrow> bool" where
  "is_resumed e = (case e of Resumed _ \<Rightarrow> True | _ \<Rightarrow> False)"

record 's transition_result =
  tr_state :: 's
  tr_actions :: "action list"
  tr_completed :: bool

definition transition_result :: "'s \<Rightarrow> action list \<Rightarrow> bool \<Rightarrow> 's transition_result" where
  "transition_result s as completed = \<lparr>tr_state = s, tr_actions = as, tr_completed = completed\<rparr>"

text \<open>The trait \<^verbatim>\<open>Transition\<close>, and the trait \<^verbatim>\<open>FlowState\<close> with the state's JSON codec.\<close>

record 's transition =
  tn_name :: string
  tn_matches :: "'s \<Rightarrow> event \<Rightarrow> bool"
  tn_apply :: "'s \<Rightarrow> event \<Rightarrow> 's transition_result"

record 's flow_state =
  fs_step :: "'s \<Rightarrow> string"
  fs_to_value :: "'s \<Rightarrow> json option"
  fs_from_value :: "json \<Rightarrow> 's option"

datatype workflow_error =
    StorageError core_error
  | SerializationError
  | CheckpointDeserialization
  | CheckpointMismatch string event
  | ClockError


section \<open>Checkpoints\<close>

record checkpoint =
  ck_flow_id :: string
  ck_flow_kind :: string
  ck_state :: json
  ck_pending_event :: "event option"
  ck_next_action :: nat
  ck_step :: string
  ck_updated_at :: u64

text \<open>The state operations of a storage provider.\<close>

record 'st state_ops =
  so_put :: "string \<Rightarrow> bytes \<Rightarrow> 'st \<Rightarrow> (core_error + unit) \<times> 'st"
  so_get :: "string \<Rightarrow> 'st \<Rightarrow> core_error + bytes option"
  so_delete :: "string \<Rightarrow> 'st \<Rightarrow> (core_error + unit) \<times> 'st"
  so_list :: "string \<Rightarrow> 'st \<Rightarrow> core_error + string list"

definition mem_ops :: "mem_store state_ops" where
  "mem_ops = \<lparr>so_put = mem_put_state, so_get = mem_get_state, so_delete = mem_delete_state,
     so_list = mem_list_state_keys\<rparr>"

definition redb_ops :: "redb_txn \<Rightarrow> redb_store state_ops" where
  "redb_ops txn = \<lparr>so_put = redb_put_state txn, so_get = redb_get_state txn,
     so_delete = redb_delete_state txn, so_list = redb_list_state_keys txn\<rparr>"

text \<open>
  What a runner uses besides the storage: the checkpoint codec and the successive readings of the
  system clock, \<open>None\<close> when it is set before the epoch.
\<close>

record flow_env =
  fe_encode :: "checkpoint \<Rightarrow> bytes option"
  fe_decode :: "bytes \<Rightarrow> checkpoint option"
  fe_clock :: "nat \<Rightarrow> u64 option"

definition CHECKPOINT_PREFIX :: string where
  "CHECKPOINT_PREFIX = ''workflow:checkpoint:''"

definition checkpoint_key :: "string \<Rightarrow> string" where
  "checkpoint_key flow_id = CHECKPOINT_PREFIX @ flow_id"

definition save :: "'st state_ops \<Rightarrow> flow_env \<Rightarrow> checkpoint \<Rightarrow> 'st \<Rightarrow> (workflow_error + unit) \<times> 'st" where
  "save st E checkpoint s =
     (case fe_encode E checkpoint of
        None \<Rightarrow> (Inl SerializationError, s)
      | Some bs \<Rightarrow> apfst (map_err StorageError) (so_put st (checkpoint_key (ck_flow_id checkpoint)) bs s))"

definition load_checkpoint ::
  "'st state_ops \<Rightarrow> flow_env \<Rightarrow> string \<Rightarrow> 'st \<Rightarrow> workflow_error + checkpoint option" where
  "load_checkpoint st E flow_id s =
     res_bind (map_err StorageError (so_get st (checkpoint_key flow_id) s)) (\<lambda>v. case v of
         None \<Rightarrow> Inr None
       | Some bs \<Rightarrow> res_bind (ok_or SerializationError (fe_decode E bs)) (\<lambda>c. Inr (Some c)))"

definition delete_checkpoint :: "'st state_ops \<Rightarrow> string \<Rightarrow> 'st \<Rightarrow> (workflow_error + unit) \<times> 'st" where
  "delete_checkpoint st flow_id s =
     apfst (map_err StorageError) (so_delete st (checkpoint_key flow_id) s)"


section \<open>Triage\<close>

record triage_entry =
  te_flow_id :: string
  te_flow_kind :: string
  te_step :: string
  te_updated_at :: u64

type_synonym triage = "(string \<times> triage_entry) list"

definition triage_record :: "string \<Rightarrow> string \<Rightarrow> string \<Rightarrow> u64 \<Rightarrow> triage \<Rightarrow> triage" where
  "triage_record flow_id flow_kind step updated_at t =
     btree_insert flow_id \<lparr>te_flow_id = flow_id, te_flow_kind = flow_kind, te_step = step,
       te_updated_at = updated_at\<rparr> t"

definition triage_clear :: "string \<Rightarrow> triage \<Rightarrow> triage" where
  "triage_clear flow_id t = btree_remove flow_id t"

definition triage_find :: "string \<Rightarrow> triage \<Rightarrow> triage_entry option" where
  "triage_find flow_id t = map_of t flow_id"

definition known_flows :: "triage \<Rightarrow> triage_entry list" where
  "known_flows t = sort_key te_flow_id (map snd t)"

definition stuck_flows :: "u64 \<Rightarrow> u64 \<Rightarrow> triage \<Rightarrow> triage_entry list" where
  "stuck_flows now stale_after t =
     filter (\<lambda>e. stale_after < sat_sub now (te_updated_at e)) (known_flows t)"

definition discover_key ::
  "'st state_ops \<Rightarrow> flow_env \<Rightarrow> 'st \<Rightarrow> triage \<Rightarrow> string \<Rightarrow> workflow_error + triage" where
  "discover_key st E s t key =
     res_bind (map_err StorageError (so_get st key s)) (\<lambda>v. Inr (case v of
         None \<Rightarrow> t
       | Some raw \<Rightarrow> (case fe_decode E raw of
             Some c \<Rightarrow> triage_record (ck_flow_id c) (ck_flow_kind c) (ck_step c) (ck_updated_at c) t
           | None \<Rightarrow> t)))"

definition discover :: "'st state_ops \<Rightarrow> flow_env \<Rightarrow> 'st \<Rightarrow> workflow_error + triage" where
  "discover st E s =
     res_bind (map_err StorageError (so_list st CHECKPOINT_PREFIX s))
       (try_fold (discover_key st E s) [])"


section \<open>The runner\<close>

record 's flow_runner =
  fr_kind :: string
  fr_transitions :: "'s transition list"
  fr_state :: "'s flow_state"

record 's flow_outcome =
  fo_state :: 's
  fo_actions :: "action list"
  fo_completed :: bool

text \<open>What outlives a call: the storage, the triage view, and how often the clock was read.\<close>

record 'st flow_world =
  fw_storage :: 'st
  fw_triage :: triage
  fw_reads :: nat

definition try_apply :: "'s flow_runner \<Rightarrow> 's \<Rightarrow> event \<Rightarrow> 's transition_result option" where
  "try_apply F s e =
     (case List.find (\<lambda>t. tn_matches t s e) (fr_transitions F) of
        None \<Rightarrow> None | Some t \<Rightarrow> Some (tn_apply t s e))"

definition save_checkpoint ::
  "'st state_ops \<Rightarrow> flow_env \<Rightarrow> 's flow_runner \<Rightarrow> string \<Rightarrow> 's \<Rightarrow> event option \<Rightarrow> nat \<Rightarrow>
     'st flow_world \<Rightarrow> (workflow_error + unit) \<times> 'st flow_world" where
  "save_checkpoint st E F flow_id s pending_event next_action w =
     (case fs_to_value (fr_state F) s of
        None \<Rightarrow> (Inl SerializationError, w)
      | Some v \<Rightarrow>
          (case fe_clock E (fw_reads w) of
             None \<Rightarrow> (Inl ClockError, w\<lparr>fw_reads := fw_reads w + 1\<rparr>)
           | Some now \<Rightarrow>
               let step = fs_step (fr_state F) s;
                   c = \<lparr>ck_flow_id = flow_id, ck_flow_kind = fr_kind F, ck_state = v,
                        ck_pending_event = pending_event, ck_next_action = next_action,
                        ck_step = step, ck_updated_at = now\<rparr>;
                   (r, s') = save st E c (fw_storage w)
               in (r, w\<lparr>fw_storage := s', fw_reads := fw_reads w + 1,
                        fw_triage := triage_record flow_id (fr_kind F) step now (fw_triage w)\<rparr>)))"

definition finalize ::
  "'st state_ops \<Rightarrow> flow_env \<Rightarrow> 's flow_runner \<Rightarrow> string \<Rightarrow> 's \<Rightarrow> bool \<Rightarrow> 'st flow_world \<Rightarrow>
     (workflow_error + unit) \<times> 'st flow_world" where
  "finalize st E F flow_id s completed w =
     (if completed
      then case delete_checkpoint st flow_id (fw_storage w) of
          (Inl e, s') \<Rightarrow> (Inl e, w\<lparr>fw_storage := s'\<rparr>)
        | (Inr _, s') \<Rightarrow> (Inr (), w\<lparr>fw_storage := s', fw_triage := triage_clear flow_id (fw_triage w)\<rparr>)
      else save_checkpoint st E F flow_id s None 0 w)"

text \<open>\<^verbatim>\<open>handle\<close>: first its second half, the incoming event.\<close>

definition handle_event ::
  "'st state_ops \<Rightarrow> flow_env \<Rightarrow> 's flow_runner \<Rightarrow> string \<Rightarrow> 's \<Rightarrow> event \<Rightarrow> 'st flow_world \<Rightarrow>
     (workflow_error + 's flow_outcome option) \<times> 'st flow_world" where
  "handle_event st E F flow_id s e w =
     (case try_apply F s e of
        None \<Rightarrow> (Inr None, w)
      | Some r \<Rightarrow>
          if tr_actions r = []
          then (case finalize st E F flow_id (tr_state r) (tr_completed r) w of
              (Inl x, w') \<Rightarrow> (Inl x, w')
            | (Inr _, w') \<Rightarrow> (Inr (Some \<lparr>fo_state = tr_state r, fo_actions = [],
                fo_completed = tr_completed r\<rparr>), w'))
          else (case save_checkpoint st E F flow_id s (Some e) 0 w of
              (Inl x, w') \<Rightarrow> (Inl x, w')
            | (Inr _, w') \<Rightarrow> (Inr (Some \<lparr>fo_state = tr_state r, fo_actions = tr_actions r,
                fo_completed = False\<rparr>), w')))"

definition handle ::
  "'st state_ops \<Rightarrow> flow_env \<Rightarrow> 's flow_runner \<Rightarrow> string \<Rightarrow> 's \<Rightarrow> event \<Rightarrow> 'st flow_world \<Rightarrow>
     (workflow_error + 's flow_outcome option) \<times> 'st flow_world" where
  "handle st E F flow_id initial_state e w =
     (case load_checkpoint st E flow_id (fw_storage w) of
        Inl x \<Rightarrow> (Inl x, w)
      | Inr None \<Rightarrow>
          if is_resumed e then (Inr None, w) else handle_event st E F flow_id initial_state e w
      | Inr (Some saved) \<Rightarrow>
          (case fs_from_value (fr_state F) (ck_state saved) of
             None \<Rightarrow> (Inl CheckpointDeserialization, w)
           | Some s \<Rightarrow>
               (case ck_pending_event saved of
                  Some pending \<Rightarrow>
                    (case try_apply F s pending of
                       None \<Rightarrow> (Inl (CheckpointMismatch flow_id pending), w)
                     | Some r \<Rightarrow>
                         if length (tr_actions r) \<le> ck_next_action saved
                         then (case finalize st E F flow_id (tr_state r) (tr_completed r) w of
                             (Inl x, w') \<Rightarrow> (Inl x, w')
                           | (Inr _, w') \<Rightarrow>
                               if tr_completed r
                               then (Inr (Some \<lparr>fo_state = tr_state r, fo_actions = [],
                                 fo_completed = True\<rparr>), w')
                               else if is_resumed e
                               then (Inr (Some \<lparr>fo_state = tr_state r, fo_actions = [],
                                 fo_completed = False\<rparr>), w')
                               else handle_event st E F flow_id (tr_state r) e w')
                         else (Inr (Some \<lparr>fo_state = tr_state r,
                             fo_actions = drop (ck_next_action saved) (tr_actions r),
                             fo_completed = False\<rparr>), w))
                | None \<Rightarrow>
                    let w' = w\<lparr>fw_triage := triage_record flow_id (ck_flow_kind saved)
                               (fs_step (fr_state F) s) (ck_updated_at saved) (fw_triage w)\<rparr>
                    in if is_resumed e then (Inr None, w')
                       else handle_event st E F flow_id s e w')))"

definition ack ::
  "'st state_ops \<Rightarrow> flow_env \<Rightarrow> 's flow_runner \<Rightarrow> string \<Rightarrow> nat \<Rightarrow> 'st flow_world \<Rightarrow>
     (workflow_error + unit) \<times> 'st flow_world" where
  "ack st E F flow_id executed w =
     (case load_checkpoint st E flow_id (fw_storage w) of
        Inl x \<Rightarrow> (Inl x, w)
      | Inr None \<Rightarrow> (Inr (), w)
      | Inr (Some saved) \<Rightarrow>
          (case ck_pending_event saved of
             None \<Rightarrow> (Inr (), w)
           | Some pending \<Rightarrow>
               (case fs_from_value (fr_state F) (ck_state saved) of
                  None \<Rightarrow> (Inl CheckpointDeserialization, w)
                | Some s \<Rightarrow>
                    (case try_apply F s pending of
                       None \<Rightarrow> (Inl (CheckpointMismatch flow_id pending), w)
                     | Some r \<Rightarrow>
                         let n = min executed (length (tr_actions r)) in
                         if n < length (tr_actions r)
                         then save_checkpoint st E F flow_id s (Some pending) n w
                         else finalize st E F flow_id (tr_state r) (tr_completed r) w))))"

definition current_state ::
  "'st state_ops \<Rightarrow> flow_env \<Rightarrow> 's flow_runner \<Rightarrow> string \<Rightarrow> 'st flow_world \<Rightarrow>
     workflow_error + 's option" where
  "current_state st E F flow_id w =
     res_bind (load_checkpoint st E flow_id (fw_storage w)) (\<lambda>c. case c of
         None \<Rightarrow> Inr None
       | Some saved \<Rightarrow> res_bind (ok_or CheckpointDeserialization
           (fs_from_value (fr_state F) (ck_state saved))) (\<lambda>s. Inr (Some s)))"

end
