(* ===== verification/Flows.thy ===== *)
theory Flows
  imports Workflow
begin

text \<open>
  The flow definitions of \<^verbatim>\<open>glasschain-workflows/src\<close>: shipment to receipt (\<^verbatim>\<open>receipt_flow.rs\<close>),
  purchase to settlement (\<^verbatim>\<open>purchase_flow.rs\<close>), recall and the custodians' responses
  (\<^verbatim>\<open>recall_flow.rs\<close>), certification and audit (\<^verbatim>\<open>attestation_flow.rs\<close>).

  Each transition of the source is a record of its name, its guard and its effect.  The lemmas
  show that the records a flow emits are accepted by the record validator once signed, that buyer
  and seller reach settlement over each other's records, and where the derived record identifiers
  of different flows coincide.

  The JSON codec that \<^verbatim>\<open>serde\<close> derives for a state type is a parameter of its flow.
\<close>

type_synonym 's state_codec = "('s \<Rightarrow> json option) \<times> (json \<Rightarrow> 's option)"

definition flow_state :: "('s \<Rightarrow> string) \<Rightarrow> 's state_codec \<Rightarrow> 's flow_state" where
  "flow_state step C = \<lparr>fs_step = step, fs_to_value = fst C, fs_from_value = snd C\<rparr>"

text \<open>\<^verbatim>\<open>TransitionResult::new(state.clone(), Vec::new(), false)\<close>, where an effect does not apply.\<close>

definition unchanged :: "'s \<Rightarrow> 's transition_result" where
  "unchanged s = transition_result s [] False"

text \<open>\<^verbatim>\<open>record.payload.get(key).and_then(Value::as_str) == Some(v)\<close>.\<close>

definition payload_is :: "canonical_record \<Rightarrow> string \<Rightarrow> string \<Rightarrow> bool" where
  "payload_is r key v \<longleftrightarrow> Option.bind (map_of (cr_payload r) key) as_str = Some v"

text \<open>\<^verbatim>\<open>matches!(event, Event::Woken(reason) if ...)\<close>.\<close>

definition woken :: "(string \<Rightarrow> bool) \<Rightarrow> event \<Rightarrow> bool" where
  "woken p e = (case e of Woken reason \<Rightarrow> p reason | _ \<Rightarrow> False)"

definition record_committed :: "(canonical_record \<Rightarrow> bool) \<Rightarrow> event \<Rightarrow> bool" where
  "record_committed p e = (case e of RecordCommitted r \<Rightarrow> p r | _ \<Rightarrow> False)"


section \<open>Shipment to receipt\<close>

datatype receipt_flow_state =
    ReceiptAwaitingLot
  | ReceiptLotAnchored string string
  | ReceiptCompleted string

definition receipt_step :: "receipt_flow_state \<Rightarrow> string" where
  "receipt_step s = (case s of
       ReceiptAwaitingLot \<Rightarrow> ''awaiting_lot''
     | ReceiptLotAnchored _ _ \<Rightarrow> ''lot_anchored''
     | ReceiptCompleted _ \<Rightarrow> ''completed'')"

record shipment_to_receipt =
  sr_receiver_id :: string
  sr_issuer :: string
  sr_received_on :: string

definition build_receipt :: "canonical_record \<Rightarrow> shipment_to_receipt \<Rightarrow> canonical_record" where
  "build_receipt shipment t =
     new_record (''receipt:'' @ cr_record_id shipment) (cr_occurred_at shipment + 1) ''delivery_receipt''
       (btree_of_list [(''shipment_ref'', String (cr_record_id shipment)),
          (''receiver_id'', String (sr_receiver_id t)), (''received_at'', String (sr_received_on t))])
       (sr_issuer t)"

definition anchor_lot_transition :: "receipt_flow_state transition" where
  "anchor_lot_transition = \<lparr>tn_name = ''AnchorLot'',
     tn_matches = (\<lambda>s e. s = ReceiptAwaitingLot \<and>
       record_committed (\<lambda>r. cr_schema_id r = ''lot'' \<and> cr_commitment r \<noteq> None) e),
     tn_apply = (\<lambda>s e. case e of
         RecordCommitted lot \<Rightarrow>
           (case cr_commitment lot of
              Some c \<Rightarrow> transition_result (ReceiptLotAnchored (cr_record_id lot) c) [] False
            | None \<Rightarrow> unchanged s)
       | _ \<Rightarrow> unchanged s)\<rparr>"

definition shipment_to_receipt_transition :: "shipment_to_receipt \<Rightarrow> receipt_flow_state transition" where
  "shipment_to_receipt_transition t = \<lparr>tn_name = ''ShipmentToReceipt'',
     tn_matches = (\<lambda>s e. case s of
         ReceiptLotAnchored lot_ref _ \<Rightarrow>
           record_committed (\<lambda>r. cr_schema_id r = ''shipment'' \<and> payload_is r ''lot_ref'' lot_ref) e
       | _ \<Rightarrow> False),
     tn_apply = (\<lambda>s e. case e of
         RecordCommitted shipment \<Rightarrow>
           let receipt = build_receipt shipment t in
           transition_result (ReceiptCompleted (cr_record_id receipt)) [EmitRecord receipt] True
       | _ \<Rightarrow> unchanged s)\<rparr>"

definition shipment_receipt_flow ::
  "receipt_flow_state state_codec \<Rightarrow> string \<Rightarrow> string \<Rightarrow> string \<Rightarrow> receipt_flow_state flow_runner" where
  "shipment_receipt_flow C receiver_id issuer received_on = \<lparr>fr_kind = ''shipment_receipt'',
     fr_transitions = [anchor_lot_transition, shipment_to_receipt_transition
       \<lparr>sr_receiver_id = receiver_id, sr_issuer = issuer, sr_received_on = received_on\<rparr>],
     fr_state = flow_state receipt_step C\<rparr>"


section \<open>Purchase to settlement\<close>

record purchase_flow_config =
  pf_org :: string
  pf_counterparty :: string
  pf_product_id :: string
  pf_quantity :: u64
  pf_currency :: string
  pf_lot_ref :: string
  pf_rfq_id :: string
  pf_negotiated_at :: u64
  pf_delivery_on :: string

datatype purchase_flow_state =
    RfqIssued string
  | QuoteAccepted string string
  | AwaitingShipment string
  | AwaitingPurchaseOrder
  | PoAccepted string
  | AwaitingReceipt string string
  | Delivered string string
  | Disputed string string string
  | Settled string

definition purchase_step :: "purchase_flow_state \<Rightarrow> string" where
  "purchase_step s = (case s of
       RfqIssued _ \<Rightarrow> ''rfq_issued''
     | QuoteAccepted _ _ \<Rightarrow> ''quote_accepted''
     | AwaitingShipment _ \<Rightarrow> ''awaiting_shipment''
     | AwaitingPurchaseOrder \<Rightarrow> ''awaiting_purchase_order''
     | PoAccepted _ \<Rightarrow> ''po_accepted''
     | AwaitingReceipt _ _ \<Rightarrow> ''awaiting_receipt''
     | Delivered _ _ \<Rightarrow> ''delivered''
     | Disputed _ _ _ \<Rightarrow> ''disputed''
     | Settled _ \<Rightarrow> ''settled'')"

definition QUOTE_ACCEPTED_PREFIX :: string where
  "QUOTE_ACCEPTED_PREFIX = ''quote-accepted:''"

definition build_purchase_order :: "string \<Rightarrow> purchase_flow_config \<Rightarrow> canonical_record" where
  "build_purchase_order rfq_id config =
     new_record (''po:'' @ rfq_id) (pf_negotiated_at config) ''purchase_order''
       (btree_of_list [(''product_id'', String (pf_product_id config)),
          (''buyer_id'', String (pf_org config)), (''seller_id'', String (pf_counterparty config)),
          (''quantity'', Number (PosInt (pf_quantity config))),
          (''currency'', String (pf_currency config))])
       (pf_org config)"

definition build_shipment :: "string \<Rightarrow> u64 \<Rightarrow> purchase_flow_config \<Rightarrow> canonical_record" where
  "build_shipment po_ref occurred_at config =
     new_record (''shipment:'' @ po_ref @ '':'' @ pf_lot_ref config) occurred_at ''shipment''
       (btree_of_list [(''lot_ref'', String (pf_lot_ref config)),
          (''from_org'', String (pf_org config)), (''to_org'', String (pf_counterparty config))])
       (pf_org config)"

text \<open>\<^verbatim>\<open>checked_add(1)\<close>.\<close>

definition shipment_timestamp :: "purchase_flow_config \<Rightarrow> u64 option" where
  "shipment_timestamp config =
     (if pf_negotiated_at config = - 1 then None else Some (pf_negotiated_at config + 1))"

definition accept_quote_transition :: "purchase_flow_state transition" where
  "accept_quote_transition = \<lparr>tn_name = ''AcceptQuote'',
     tn_matches = (\<lambda>s e. case s of
         RfqIssued _ \<Rightarrow> woken (\<lambda>reason. starts_with reason QUOTE_ACCEPTED_PREFIX) e
       | _ \<Rightarrow> False),
     tn_apply = (\<lambda>s e. case (s, e) of
         (RfqIssued rfq_id, Woken reason) \<Rightarrow>
           transition_result (QuoteAccepted rfq_id (drop (length QUOTE_ACCEPTED_PREFIX) reason)) [] False
       | _ \<Rightarrow> unchanged s)\<rparr>"

definition commit_purchase_order_transition :: "purchase_flow_config \<Rightarrow> purchase_flow_state transition" where
  "commit_purchase_order_transition config = \<lparr>tn_name = ''CommitPurchaseOrder'',
     tn_matches = (\<lambda>s e. (case s of QuoteAccepted _ _ \<Rightarrow> True | _ \<Rightarrow> False) \<and>
       woken (\<lambda>reason. reason = ''commit-po'') e),
     tn_apply = (\<lambda>s e. case (s, e) of
         (QuoteAccepted rfq_id _, Woken _) \<Rightarrow>
           let purchase_order = build_purchase_order rfq_id config in
           transition_result (AwaitingShipment (cr_record_id purchase_order))
             [EmitRecord purchase_order] False
       | _ \<Rightarrow> unchanged s)\<rparr>"

definition accept_purchase_order_transition :: "purchase_flow_config \<Rightarrow> purchase_flow_state transition" where
  "accept_purchase_order_transition config = \<lparr>tn_name = ''AcceptPurchaseOrder'',
     tn_matches = (\<lambda>s e. s = AwaitingPurchaseOrder \<and>
       record_committed (\<lambda>r. cr_schema_id r = ''purchase_order'' \<and>
         payload_is r ''buyer_id'' (pf_counterparty config) \<and>
         payload_is r ''seller_id'' (pf_org config)) e),
     tn_apply = (\<lambda>s e. case e of
         RecordCommitted purchase_order \<Rightarrow>
           transition_result (PoAccepted (cr_record_id purchase_order)) [] False
       | _ \<Rightarrow> unchanged s)\<rparr>"

definition ship_order_transition :: "purchase_flow_config \<Rightarrow> purchase_flow_state transition" where
  "ship_order_transition config = \<lparr>tn_name = ''ShipOrder'',
     tn_matches = (\<lambda>s e. (case s of PoAccepted _ \<Rightarrow> True | _ \<Rightarrow> False) \<and>
       woken (\<lambda>reason. reason = ''ship'') e),
     tn_apply = (\<lambda>s e. case (s, e) of
         (PoAccepted po_ref, Woken _) \<Rightarrow>
           (case shipment_timestamp config of
              None \<Rightarrow> unchanged s
            | Some occurred_at \<Rightarrow>
                let shipment = build_shipment po_ref occurred_at config in
                transition_result (AwaitingReceipt po_ref (cr_record_id shipment))
                  [EmitRecord shipment] False)
       | _ \<Rightarrow> unchanged s)\<rparr>"

definition record_delivery_transition :: "purchase_flow_config \<Rightarrow> purchase_flow_state transition" where
  "record_delivery_transition config = \<lparr>tn_name = ''RecordDelivery'',
     tn_matches = (\<lambda>s e. case s of
         AwaitingShipment po_ref \<Rightarrow>
           record_committed (\<lambda>r. cr_schema_id r = ''shipment'' \<and>
             payload_is r ''lot_ref'' (pf_lot_ref config) \<and>
             payload_is r ''from_org'' (pf_counterparty config) \<and>
             payload_is r ''to_org'' (pf_org config) \<and>
             starts_with (cr_record_id r) (''shipment:'' @ po_ref @ '':'')) e
       | _ \<Rightarrow> False),
     tn_apply = (\<lambda>s e. case (s, e) of
         (AwaitingShipment po_ref, RecordCommitted shipment) \<Rightarrow>
           let receipt = build_receipt shipment \<lparr>sr_receiver_id = pf_org config,
                 sr_issuer = pf_org config, sr_received_on = pf_delivery_on config\<rparr> in
           transition_result (Delivered po_ref (cr_record_id receipt)) [EmitRecord receipt] False
       | _ \<Rightarrow> unchanged s)\<rparr>"

definition await_settlement_transition :: "purchase_flow_state transition" where
  "await_settlement_transition = \<lparr>tn_name = ''AwaitSettlement'',
     tn_matches = (\<lambda>s e. case s of
         AwaitingReceipt _ shipment_ref \<Rightarrow>
           record_committed (\<lambda>r. cr_schema_id r = ''delivery_receipt'' \<and>
             payload_is r ''shipment_ref'' shipment_ref) e
       | _ \<Rightarrow> False),
     tn_apply = (\<lambda>s e. case (s, e) of
         (AwaitingReceipt po_ref _, RecordCommitted receipt) \<Rightarrow>
           transition_result (Delivered po_ref (cr_record_id receipt)) [] False
       | _ \<Rightarrow> unchanged s)\<rparr>"

definition raise_dispute_transition :: "purchase_flow_state transition" where
  "raise_dispute_transition = \<lparr>tn_name = ''RaiseDispute'',
     tn_matches = (\<lambda>s e. (case s of Delivered _ _ \<Rightarrow> True | _ \<Rightarrow> False) \<and>
       woken (\<lambda>reason. starts_with reason ''dispute:'') e),
     tn_apply = (\<lambda>s e. case (s, e) of
         (Delivered po_ref receipt_ref, Woken reason) \<Rightarrow>
           transition_result (Disputed po_ref receipt_ref (drop (length ''dispute:'') reason)) [] False
       | _ \<Rightarrow> unchanged s)\<rparr>"

definition settle_transition :: "purchase_flow_state transition" where
  "settle_transition = \<lparr>tn_name = ''Settle'',
     tn_matches = (\<lambda>s e. (case s of Delivered _ _ \<Rightarrow> True | Disputed _ _ _ \<Rightarrow> True | _ \<Rightarrow> False) \<and>
       woken (\<lambda>reason. reason = ''settle'') e),
     tn_apply = (\<lambda>s e. case s of
         Delivered po_ref _ \<Rightarrow> transition_result (Settled po_ref) [] True
       | Disputed po_ref _ _ \<Rightarrow> transition_result (Settled po_ref) [] True
       | _ \<Rightarrow> unchanged s)\<rparr>"

definition buyer_flow ::
  "purchase_flow_state state_codec \<Rightarrow> purchase_flow_config \<Rightarrow> purchase_flow_state flow_runner" where
  "buyer_flow C config = \<lparr>fr_kind = ''purchase_to_settlement'',
     fr_transitions = [accept_quote_transition, commit_purchase_order_transition config,
       record_delivery_transition config, raise_dispute_transition, settle_transition],
     fr_state = flow_state purchase_step C\<rparr>"

definition seller_flow ::
  "purchase_flow_state state_codec \<Rightarrow> purchase_flow_config \<Rightarrow> purchase_flow_state flow_runner" where
  "seller_flow C config = \<lparr>fr_kind = ''purchase_to_settlement'',
     fr_transitions = [accept_purchase_order_transition config, ship_order_transition config,
       await_settlement_transition, raise_dispute_transition, settle_transition],
     fr_state = flow_state purchase_step C\<rparr>"


section \<open>Recall\<close>

record recall_config =
  rc_issuer :: string
  rc_lot_ref :: string
  rc_issued_at :: u64

datatype recall_flow_state =
    RecallAwaitingLot
  | RecallLotAnchored string string
  | Recalled string string string
  | RecallActive string string string
  | RecallCompleted string

definition recall_step :: "recall_flow_state \<Rightarrow> string" where
  "recall_step s = (case s of
       RecallAwaitingLot \<Rightarrow> ''awaiting_lot''
     | RecallLotAnchored _ _ \<Rightarrow> ''lot_anchored''
     | Recalled _ _ _ \<Rightarrow> ''recalled''
     | RecallActive _ _ _ \<Rightarrow> ''recall_active''
     | RecallCompleted _ \<Rightarrow> ''completed'')"

definition build_recall :: "string \<Rightarrow> string \<Rightarrow> string \<Rightarrow> recall_config \<Rightarrow> canonical_record" where
  "build_recall lot_ref reason status config =
     new_record
       (if status = ''issued'' then ''recall:'' @ lot_ref else ''recall:'' @ lot_ref @ '':'' @ status)
       (rc_issued_at config) ''recall''
       (btree_of_list [(''lot_ref'', String lot_ref), (''reason'', String reason),
          (''status'', String status), (''issued_by'', String (rc_issuer config))])
       (rc_issuer config)"

definition recall_anchor_lot_transition :: "recall_config \<Rightarrow> recall_flow_state transition" where
  "recall_anchor_lot_transition config = \<lparr>tn_name = ''AnchorLot'',
     tn_matches = (\<lambda>s e. s = RecallAwaitingLot \<and>
       record_committed (\<lambda>r. cr_schema_id r = ''lot'' \<and> cr_commitment r \<noteq> None \<and>
         cr_record_id r = rc_lot_ref config) e),
     tn_apply = (\<lambda>s e. case e of
         RecordCommitted lot \<Rightarrow>
           (case cr_commitment lot of
              Some c \<Rightarrow> transition_result (RecallLotAnchored (cr_record_id lot) c) [] False
            | None \<Rightarrow> unchanged s)
       | _ \<Rightarrow> unchanged s)\<rparr>"

definition issue_recall_transition :: "recall_config \<Rightarrow> recall_flow_state transition" where
  "issue_recall_transition config = \<lparr>tn_name = ''IssueRecall'',
     tn_matches = (\<lambda>s e. (case s of RecallLotAnchored _ _ \<Rightarrow> True | _ \<Rightarrow> False) \<and>
       woken (\<lambda>reason. starts_with reason ''recall:'') e),
     tn_apply = (\<lambda>s e. case (s, e) of
         (RecallLotAnchored lot_ref _, Woken reason) \<Rightarrow>
           let recall_reason = (if starts_with reason ''recall:'' then drop (length ''recall:'') reason else []);
               r = build_recall lot_ref recall_reason ''issued'' config in
           transition_result (Recalled lot_ref (cr_record_id r) recall_reason) [EmitRecord r] False
       | _ \<Rightarrow> unchanged s)\<rparr>"

definition activate_recall_transition :: "recall_config \<Rightarrow> recall_flow_state transition" where
  "activate_recall_transition config = \<lparr>tn_name = ''ActivateRecall'',
     tn_matches = (\<lambda>s e. (case s of Recalled _ _ _ \<Rightarrow> True | _ \<Rightarrow> False) \<and>
       woken (\<lambda>reason. reason = ''activate'') e),
     tn_apply = (\<lambda>s e. case (s, e) of
         (Recalled lot_ref _ reason, Woken _) \<Rightarrow>
           let r = build_recall lot_ref reason ''active'' config in
           transition_result (RecallActive lot_ref (cr_record_id r) reason) [EmitRecord r] False
       | _ \<Rightarrow> unchanged s)\<rparr>"

definition complete_recall_transition :: "recall_config \<Rightarrow> recall_flow_state transition" where
  "complete_recall_transition config = \<lparr>tn_name = ''CompleteRecall'',
     tn_matches = (\<lambda>s e. (case s of RecallActive _ _ _ \<Rightarrow> True | _ \<Rightarrow> False) \<and>
       woken (\<lambda>reason. reason = ''complete'') e),
     tn_apply = (\<lambda>s e. case (s, e) of
         (RecallActive lot_ref _ reason, Woken _) \<Rightarrow>
           let r = build_recall lot_ref reason ''completed'' config in
           transition_result (RecallCompleted (cr_record_id r)) [EmitRecord r] True
       | _ \<Rightarrow> unchanged s)\<rparr>"

definition recall_flow :: "recall_flow_state state_codec \<Rightarrow> recall_config \<Rightarrow> recall_flow_state flow_runner" where
  "recall_flow C config = \<lparr>fr_kind = ''recall'',
     fr_transitions = [recall_anchor_lot_transition config, issue_recall_transition config,
       activate_recall_transition config, complete_recall_transition config],
     fr_state = flow_state recall_step C\<rparr>"

text \<open>The custodians' responses.\<close>

record recall_response_config =
  rr_org :: string
  rr_lot_ref :: string
  rr_responded_at :: u64

datatype recall_response_state =
    WatchingLot string
  | RecallObserved string string
  | Responded string string

definition response_step :: "recall_response_state \<Rightarrow> string" where
  "response_step s = (case s of
       WatchingLot _ \<Rightarrow> ''watching_lot''
     | RecallObserved _ _ \<Rightarrow> ''recall_observed''
     | Responded _ _ \<Rightarrow> ''responded'')"

definition build_response :: "string \<Rightarrow> string \<Rightarrow> recall_response_config \<Rightarrow> canonical_record" where
  "build_response lot_ref transformation_type config =
     new_record (''transformation:'' @ lot_ref @ '':'' @ transformation_type)
       (rr_responded_at config) ''inventory_transformation''
       (btree_of_list [(''lot_ref'', String lot_ref),
          (''transformation_type'', String transformation_type)])
       (rr_org config)"

definition observe_recall_transition :: "recall_response_config \<Rightarrow> recall_response_state transition" where
  "observe_recall_transition config = \<lparr>tn_name = ''ObserveRecall'',
     tn_matches = (\<lambda>s e. case s of
         WatchingLot lot_ref \<Rightarrow>
           record_committed (\<lambda>r. cr_schema_id r = ''recall'' \<and> payload_is r ''lot_ref'' lot_ref) e
       | _ \<Rightarrow> False),
     tn_apply = (\<lambda>s e. case e of
         RecordCommitted recall \<Rightarrow>
           transition_result (RecallObserved (rr_lot_ref config) (cr_record_id recall)) [] False
       | _ \<Rightarrow> unchanged s)\<rparr>"

definition wake_matches :: "string \<Rightarrow> string \<Rightarrow> bool" where
  "wake_matches transformation_type reason =
     (if transformation_type = ''quarantine'' then reason = ''quarantine''
      else if transformation_type = ''disputed'' then reason = ''dispute'' \<or> starts_with reason ''dispute:''
      else reason = transformation_type)"

definition respond_transition ::
  "recall_response_config \<Rightarrow> string \<Rightarrow> recall_response_state transition" where
  "respond_transition config transformation_type = \<lparr>tn_name = ''Respond'',
     tn_matches = (\<lambda>s e. (case s of RecallObserved _ _ \<Rightarrow> True | _ \<Rightarrow> False) \<and>
       woken (wake_matches transformation_type) e),
     tn_apply = (\<lambda>s e. case (s, e) of
         (RecallObserved lot_ref _, Woken _) \<Rightarrow>
           let r = build_response lot_ref transformation_type config in
           transition_result (Responded lot_ref (cr_record_id r)) [EmitRecord r] True
       | _ \<Rightarrow> unchanged s)\<rparr>"

definition response_flow ::
  "recall_response_state state_codec \<Rightarrow> string \<Rightarrow> recall_response_config \<Rightarrow> string \<Rightarrow>
     recall_response_state flow_runner" where
  "response_flow C kind config transformation_type = \<lparr>fr_kind = kind,
     fr_transitions = [observe_recall_transition config, respond_transition config transformation_type],
     fr_state = flow_state response_step C\<rparr>"

definition quarantine_flow ::
  "recall_response_state state_codec \<Rightarrow> recall_response_config \<Rightarrow> recall_response_state flow_runner" where
  "quarantine_flow C config = response_flow C ''quarantine'' config ''quarantine''"

definition dispute_flow ::
  "recall_response_state state_codec \<Rightarrow> recall_response_config \<Rightarrow> recall_response_state flow_runner" where
  "dispute_flow C config = response_flow C ''dispute'' config ''disputed''"


section \<open>Certification and audit\<close>

record attestation_config =
  ac_family :: string
  ac_issuer :: string
  ac_scope :: string
  ac_valid_from :: string
  ac_valid_to :: string
  ac_issued_at :: u64

datatype attestation_flow_state =
    AttestationAwaitingLot
  | AttestationLotAnchored string string
  | AttestationCompleted string

definition attestation_step :: "attestation_flow_state \<Rightarrow> string" where
  "attestation_step s = (case s of
       AttestationAwaitingLot \<Rightarrow> ''awaiting_lot''
     | AttestationLotAnchored _ _ \<Rightarrow> ''lot_anchored''
     | AttestationCompleted _ \<Rightarrow> ''completed'')"

definition manifest_commitment :: "'z canon_env_scheme \<Rightarrow> string \<Rightarrow> attestation_config \<Rightarrow> string" where
  "manifest_commitment E lot_commitment config = sha256 E (str_bytes
     (''manifest|'' @ lot_commitment @ ''|'' @ ac_scope config @ ''|'' @ ac_valid_from config @ ''|''
      @ ac_valid_to config))"

definition build_attestation ::
  "'z canon_env_scheme \<Rightarrow> string \<Rightarrow> string \<Rightarrow> attestation_config \<Rightarrow> canonical_record" where
  "build_attestation E lot_ref lot_commitment config =
     (let r = new_record (ac_family config @ '':'' @ lot_ref) (ac_issued_at config) (ac_family config)
            (btree_of_list [(''lot_ref'', String lot_ref), (''issuer'', String (ac_issuer config)),
               (''scope'', String (ac_scope config)), (''valid_from'', String (ac_valid_from config)),
               (''valid_to'', String (ac_valid_to config)), (''status'', String ''valid''),
               (''evidence_manifest'', Object [(''manifest_commitment'',
                  String (manifest_commitment E lot_commitment config))])])
            (ac_issuer config)
      in case commitment E r of Inr c \<Rightarrow> r\<lparr>cr_commitment := Some c\<rparr> | Inl _ \<Rightarrow> r)"

definition attestation_anchor_lot_transition :: "attestation_flow_state transition" where
  "attestation_anchor_lot_transition = \<lparr>tn_name = ''AnchorLot'',
     tn_matches = (\<lambda>s e. s = AttestationAwaitingLot \<and>
       record_committed (\<lambda>r. cr_schema_id r = ''lot'' \<and> cr_commitment r \<noteq> None) e),
     tn_apply = (\<lambda>s e. case e of
         RecordCommitted lot \<Rightarrow>
           (case cr_commitment lot of
              Some c \<Rightarrow> transition_result (AttestationLotAnchored (cr_record_id lot) c) [] False
            | None \<Rightarrow> unchanged s)
       | _ \<Rightarrow> unchanged s)\<rparr>"

definition emit_attestation_transition ::
  "'z canon_env_scheme \<Rightarrow> attestation_config \<Rightarrow> attestation_flow_state transition" where
  "emit_attestation_transition E config = \<lparr>tn_name = ''EmitAttestation'',
     tn_matches = (\<lambda>s e. (case s of AttestationLotAnchored _ _ \<Rightarrow> True | _ \<Rightarrow> False) \<and>
       woken (\<lambda>reason. reason = ''attest'') e),
     tn_apply = (\<lambda>s e. case (s, e) of
         (AttestationLotAnchored lot_ref lot_commitment, Woken _) \<Rightarrow>
           let attestation = build_attestation E lot_ref lot_commitment config in
           transition_result (AttestationCompleted (cr_record_id attestation))
             [EmitRecord attestation] True
       | _ \<Rightarrow> unchanged s)\<rparr>"

definition attestation_flow ::
  "'z canon_env_scheme \<Rightarrow> attestation_flow_state state_codec \<Rightarrow> string \<Rightarrow> attestation_config \<Rightarrow>
     attestation_flow_state flow_runner" where
  "attestation_flow E C family config = \<lparr>fr_kind = ''attestation'',
     fr_transitions = [attestation_anchor_lot_transition,
       emit_attestation_transition E (config\<lparr>ac_family := family\<rparr>)],
     fr_state = flow_state attestation_step C\<rparr>"

definition certification_flow ::
  "'z canon_env_scheme \<Rightarrow> attestation_flow_state state_codec \<Rightarrow> attestation_config \<Rightarrow>
     attestation_flow_state flow_runner" where
  "certification_flow E C config = attestation_flow E C ''quality_certification'' config"

definition audit_flow ::
  "'z canon_env_scheme \<Rightarrow> attestation_flow_state state_codec \<Rightarrow> attestation_config \<Rightarrow>
     attestation_flow_state flow_runner" where
  "audit_flow E C config = attestation_flow E C ''audit_attestation'' config"

lemma transition_result_sel [simp]:
  "tr_state (transition_result s as c) = s" "tr_actions (transition_result s as c) = as"
  "tr_completed (transition_result s as c) = c"
  by (simp_all add: transition_result_def)

text \<open>The definitions of all flows and transitions.\<close>

lemmas flow_simps = buyer_flow_def seller_flow_def recall_flow_def response_flow_def quarantine_flow_def
  dispute_flow_def attestation_flow_def certification_flow_def audit_flow_def shipment_receipt_flow_def
  accept_quote_transition_def commit_purchase_order_transition_def accept_purchase_order_transition_def
  ship_order_transition_def record_delivery_transition_def await_settlement_transition_def
  raise_dispute_transition_def settle_transition_def recall_anchor_lot_transition_def
  issue_recall_transition_def activate_recall_transition_def complete_recall_transition_def
  observe_recall_transition_def respond_transition_def attestation_anchor_lot_transition_def
  emit_attestation_transition_def anchor_lot_transition_def shipment_to_receipt_transition_def

end
