(* ===== verification/Runner.thy ===== *)
theory Runner
  imports Flows
begin

text \<open>
  What the flow runner of \<^verbatim>\<open>glasschain-workflows/src/runner.rs\<close> promises.  A flow's progress, read
  from its checkpoint, refines a three-state machine (\<open>spec_handle\<close>, \<open>spec_ack\<close>); the lemmas are proved
  once over the locale \<open>state_seam\<close> and used for both stores.
\<close>

section \<open>What a runner promises\<close>

text \<open>
  The progress of one flow: no checkpoint, waiting in a state, or busy with the first \<open>k\<close> actions of
  a transition acknowledged.  \<open>progress_of\<close> reads it from the state table, \<open>None\<close> when the stored
  bytes are not a checkpoint of the flow.
\<close>

datatype 's progress = Fresh | Waiting 's | Busy 's event nat

definition progress_of ::
  "flow_env \<Rightarrow> 's flow_runner \<Rightarrow> string \<Rightarrow> world_state \<Rightarrow> 's progress option" where
  "progress_of E F flow_id m =
     (case m (checkpoint_key flow_id) of
        None \<Rightarrow> Some Fresh
      | Some bs \<Rightarrow> Option.bind (fe_decode E bs) (\<lambda>c.
          Option.bind (fs_from_value (fr_state F) (ck_state c)) (\<lambda>s.
          case ck_pending_event c of
            None \<Rightarrow> Some (Waiting s)
          | Some e \<Rightarrow> if try_apply F s e = None then None else Some (Busy s e (ck_next_action c)))))"

definition finished :: "'s transition_result \<Rightarrow> 's progress" where
  "finished r = (if tr_completed r then Fresh else Waiting (tr_state r))"

text \<open>One event and one acknowledgement on the progress.\<close>

definition spec_event :: "'s flow_runner \<Rightarrow> 's \<Rightarrow> 's progress \<Rightarrow> event \<Rightarrow> 's flow_outcome option \<times> 's progress" where
  "spec_event F s p e =
     (case try_apply F s e of
        None \<Rightarrow> (None, p)
      | Some r \<Rightarrow>
          if tr_actions r = []
          then (Some \<lparr>fo_state = tr_state r, fo_actions = [], fo_completed = tr_completed r\<rparr>, finished r)
          else (Some \<lparr>fo_state = tr_state r, fo_actions = tr_actions r, fo_completed = False\<rparr>, Busy s e 0))"

definition spec_handle :: "'s flow_runner \<Rightarrow> 's \<Rightarrow> event \<Rightarrow> 's progress \<Rightarrow> 's flow_outcome option \<times> 's progress" where
  "spec_handle F init e p =
     (case p of
        Fresh \<Rightarrow> if is_resumed e then (None, p) else spec_event F init p e
      | Waiting s \<Rightarrow> if is_resumed e then (None, p) else spec_event F s p e
      | Busy s pending k \<Rightarrow>
          let r = the (try_apply F s pending) in
          if k < length (tr_actions r)
          then (Some \<lparr>fo_state = tr_state r, fo_actions = drop k (tr_actions r), fo_completed = False\<rparr>, p)
          else if tr_completed r \<or> is_resumed e
          then (Some \<lparr>fo_state = tr_state r, fo_actions = [], fo_completed = tr_completed r\<rparr>, finished r)
          else spec_event F (tr_state r) (finished r) e)"

definition spec_ack :: "'s flow_runner \<Rightarrow> nat \<Rightarrow> 's progress \<Rightarrow> 's progress" where
  "spec_ack F executed p =
     (case p of
        Busy s pending k \<Rightarrow>
          let r = the (try_apply F s pending) in
          if executed < length (tr_actions r) then Busy s pending executed else finished r
      | _ \<Rightarrow> p)"

text \<open>
  Progress a failed call may leave behind: where it was, or past the bookkeeping of a transition
  whose actions were all acknowledged before.
\<close>

definition spec_stuck :: "'s flow_runner \<Rightarrow> 's progress \<Rightarrow> 's progress set" where
  "spec_stuck F p = insert p (case p of
       Busy s pending k \<Rightarrow>
         let r = the (try_apply F s pending) in
         if length (tr_actions r) \<le> k then {finished r} else {}
     | _ \<Rightarrow> {})"

text \<open>The round-trip laws of the two codecs.\<close>

definition codec_ok :: "flow_env \<Rightarrow> 's flow_runner \<Rightarrow> bool" where
  "codec_ok E F \<longleftrightarrow>
     (\<forall>c bs. fe_encode E c = Some bs \<longrightarrow> fe_decode E bs = Some c) \<and>
     (\<forall>s v. fs_to_value (fr_state F) s = Some v \<longrightarrow> fs_from_value (fr_state F) v = Some s)"

text \<open>
  The effect of writing a checkpoint on the state table and the triage view: the table holds a
  checkpoint that reads back, and the view holds its entry.
\<close>

definition checkpoint_entry :: "checkpoint \<Rightarrow> triage_entry" where
  "checkpoint_entry c = \<lparr>te_flow_id = ck_flow_id c, te_flow_kind = ck_flow_kind c,
     te_step = ck_step c, te_updated_at = ck_updated_at c\<rparr>"

definition wrote ::
  "flow_env \<Rightarrow> 's flow_runner \<Rightarrow> string \<Rightarrow> 's \<Rightarrow> event option \<Rightarrow> nat \<Rightarrow>
     world_state \<Rightarrow> triage \<Rightarrow> world_state \<Rightarrow> triage \<Rightarrow> bool" where
  "wrote E F flow_id s pending k m t m' t' \<longleftrightarrow>
     (\<exists>bs c. m' = m(checkpoint_key flow_id \<mapsto> bs) \<and> fe_decode E bs = Some c \<and>
       fs_from_value (fr_state F) (ck_state c) = Some s \<and> ck_flow_id c = flow_id \<and>
       ck_pending_event c = pending \<and> ck_next_action c = k \<and> ck_step c = fs_step (fr_state F) s \<and>
       t' = btree_insert flow_id (checkpoint_entry c) t)"

lemma checkpoint_key_inject [simp]: "checkpoint_key a = checkpoint_key b \<longleftrightarrow> a = b"
  by (simp add: checkpoint_key_def)

lemma progress_of_wrote:
  assumes "wrote E F fid s pe k m t m' t'"
  shows "progress_of E F fid m' = (case pe of
      None \<Rightarrow> Some (Waiting s)
    | Some e \<Rightarrow> if try_apply F s e = None then None else Some (Busy s e k))"
  using assms by (auto simp: wrote_def progress_of_def split: option.splits)

lemma progress_of_frame: "m (checkpoint_key fid) = m' (checkpoint_key fid) \<Longrightarrow>
    progress_of E F fid m = progress_of E F fid m'"
  by (simp add: progress_of_def)

text \<open>
  The triage view in step with the state table: an entry for exactly the flows that have a
  checkpoint, with its step and time.
\<close>

definition mirrors ::
  "flow_env \<Rightarrow> 's flow_runner \<Rightarrow> string \<Rightarrow> bytes option \<Rightarrow> triage_entry option \<Rightarrow> bool" where
  "mirrors E F fid v t \<longleftrightarrow> (case v of
       None \<Rightarrow> t = None
     | Some bs \<Rightarrow> \<exists>c s. fe_decode E bs = Some c \<and> ck_flow_id c = fid \<and>
         fs_from_value (fr_state F) (ck_state c) = Some s \<and> ck_step c = fs_step (fr_state F) s \<and>
         t = Some (checkpoint_entry c))"

definition synced :: "flow_env \<Rightarrow> 's flow_runner \<Rightarrow> world_state \<Rightarrow> triage \<Rightarrow> bool" where
  "synced E F m t \<longleftrightarrow>
     btree_wf t \<and> (\<forall>fid. mirrors E F fid (m (checkpoint_key fid)) (map_of t fid))"

lemma synced_wrote:
  assumes "wrote E F fid s pe k m t m' t'" "synced E F m t"
  shows "synced E F m' t'"
proof -
  from assms(1) obtain bs c where c: "m' = m(checkpoint_key fid \<mapsto> bs)" "fe_decode E bs = Some c"
    "fs_from_value (fr_state F) (ck_state c) = Some s" "ck_flow_id c = fid"
    "ck_step c = fs_step (fr_state F) s" "t' = btree_insert fid (checkpoint_entry c) t"
    by (auto simp: wrote_def)
  then have "mirrors E F fid (Some bs) (Some (checkpoint_entry c))" by (auto simp: mirrors_def)
  then show ?thesis using assms(2) c(1,6)
    by (simp add: synced_def map_of_btree_insert btree_wf_insert)
qed

lemma synced_clear:
  "synced E F m t \<Longrightarrow> synced E F (m(checkpoint_key fid := None)) (triage_clear fid t)"
  by (simp add: synced_def triage_clear_def map_of_btree_remove btree_wf_remove)
    (simp add: mirrors_def)

text \<open>
  What a host does with a runner, and a restart of the process: the storage stays, and the triage
  view is discovered anew.
\<close>

datatype 's flow_op = Deliver string 's event | Acknowledge string nat | Restart

definition flow_op ::
  "'st state_ops \<Rightarrow> flow_env \<Rightarrow> 's flow_runner \<Rightarrow> 's flow_op \<Rightarrow> 'st flow_world \<Rightarrow>
     (workflow_error + 's flow_outcome option) \<times> 'st flow_world" where
  "flow_op st E F op w = (case op of
       Deliver fid init e \<Rightarrow> handle st E F fid init e w
     | Acknowledge fid n \<Rightarrow> (case ack st E F fid n w of (r, w') \<Rightarrow> (res_bind r (\<lambda>_. Inr None), w'))
     | Restart \<Rightarrow> (case discover st E (fw_storage w) of
           Inl x \<Rightarrow> (Inl x, w\<lparr>fw_triage := []\<rparr>) | Inr t \<Rightarrow> (Inr None, w\<lparr>fw_triage := t\<rparr>)))"

text \<open>What the runner relies on: a state operation takes effect as a whole or not at all.\<close>

locale state_seam =
  fixes st :: "'st state_ops"
    and inv :: "'st \<Rightarrow> bool"
    and view :: "'st \<Rightarrow> world_state"
  assumes get_law: "inv s \<Longrightarrow> so_get st k s = Inr v \<Longrightarrow> v = view s k"
    and put_law: "inv s \<Longrightarrow> so_put st k bs s = (r, s') \<Longrightarrow>
      inv s' \<and> view s' = (if is_ok r then (view s)(k \<mapsto> bs) else view s)"
    and delete_law: "inv s \<Longrightarrow> so_delete st k s = (r, s') \<Longrightarrow>
      inv s' \<and> view s' = (if is_ok r then (view s)(k := None) else view s)"
    and finite_law: "inv s \<Longrightarrow> finite (dom (view s))"
    and list_law: "inv s \<Longrightarrow> so_list st p s = Inr ks \<Longrightarrow>
      ks = sorted_list_of_set {k \<in> dom (view s). starts_with k p}"
begin

lemma load_view:
  assumes "inv s" "load_checkpoint st E fid s = Inr c"
  shows "view s (checkpoint_key fid) = None \<and> c = None \<or>
    (\<exists>bs k. view s (checkpoint_key fid) = Some bs \<and> fe_decode E bs = Some k \<and> c = Some k)"
proof (cases "so_get st (checkpoint_key fid) s")
  case (Inl x)
  then show ?thesis using assms(2) by (simp add: load_checkpoint_def res_simps)
next
  case (Inr v)
  from get_law [OF assms(1) this] have v: "v = view s (checkpoint_key fid)" .
  show ?thesis
  proof (cases v)
    case None
    then show ?thesis using assms(2) Inr v by (simp add: load_checkpoint_def res_simps)
  next
    case (Some bs)
    then show ?thesis using assms(2) Inr v
      by (cases "fe_decode E bs") (auto simp: load_checkpoint_def res_simps ok_or_def)
  qed
qed

lemma save_checkpoint_view:
  assumes w: "inv (fw_storage w)" and codec: "codec_ok E F"
    and save: "save_checkpoint st E F fid s pe k w = (r, w')"
  shows "inv (fw_storage w') \<and> (if is_ok r then wrote E F fid s pe k (view (fw_storage w)) (fw_triage w)
      (view (fw_storage w')) (fw_triage w') else view (fw_storage w') = view (fw_storage w))"
proof (cases "fs_to_value (fr_state F) s")
  case None
  then show ?thesis using w save by (auto simp: save_checkpoint_def)
next
  case json: (Some v)
  show ?thesis
  proof (cases "fe_clock E (fw_reads w)")
    case None
    then show ?thesis using w save json by (auto simp: save_checkpoint_def)
  next
    case clock: (Some now)
    define c where "c = \<lparr>ck_flow_id = fid, ck_flow_kind = fr_kind F, ck_state = v,
      ck_pending_event = pe, ck_next_action = k, ck_step = fs_step (fr_state F) s,
      ck_updated_at = now\<rparr>"
    obtain r1 s1 where s1: "save st E c (fw_storage w) = (r1, s1)" by fastforce
    have w': "r1 = r" "w' = w\<lparr>fw_storage := s1, fw_reads := fw_reads w + 1,
        fw_triage := triage_record fid (fr_kind F) (fs_step (fr_state F) s) now (fw_triage w)\<rparr>"
      using save json clock s1 by (simp_all add: save_checkpoint_def c_def)
    show ?thesis
    proof (cases "fe_encode E c")
      case None
      then show ?thesis using s1 w w' by (auto simp: save_def)
    next
      case (Some bs)
      then obtain r2 where r2: "so_put st (checkpoint_key fid) bs (fw_storage w) = (r2, s1)"
        "r = map_err StorageError r2"
        using s1 w'(1) by (cases "so_put st (checkpoint_key fid) bs (fw_storage w)") (auto simp: save_def c_def)
      have "fe_decode E bs = Some c" "fs_from_value (fr_state F) v = Some s"
        using codec Some json by (auto simp: codec_ok_def)
      then have wrote: "wrote E F fid s pe k (view (fw_storage w)) (fw_triage w)
          ((view (fw_storage w))(checkpoint_key fid \<mapsto> bs)) (fw_triage w')"
        unfolding wrote_def w'(2)
        by (intro exI [of _ bs] exI [of _ c]) (simp add: c_def checkpoint_entry_def triage_record_def)
      have "fw_storage w' = s1" "is_ok r = is_ok r2"
        using w'(2) r2(2) by (simp_all add: is_ok_def map_err_def split: sum.splits)
      then show ?thesis using put_law [OF w r2(1)] wrote by simp
    qed
  qed
qed

text \<open>
  A call of the runner touches no key but its flow's; \<open>settled\<close> says where it leaves the flow when it
  succeeds, and where when it fails.
\<close>

definition leaves ::
  "flow_env \<Rightarrow> 's flow_runner \<Rightarrow> string \<Rightarrow> 's progress set \<Rightarrow> 'st \<Rightarrow> 'st \<Rightarrow> bool" where
  "leaves E F fid P s s' \<longleftrightarrow> inv s' \<and> progress_of E F fid (view s') \<in> Some ` P \<and>
     (\<forall>k. k \<noteq> checkpoint_key fid \<longrightarrow> view s' k = view s k)"

lemma leaves_trans:
  "leaves E F fid P s s' \<Longrightarrow> leaves E F fid Q s' s'' \<Longrightarrow> leaves E F fid Q s s''"
  by (auto simp: leaves_def)

lemma leaves_mono: "leaves E F fid P s s' \<Longrightarrow> P \<subseteq> Q \<Longrightarrow> leaves E F fid Q s s'"
  by (auto simp: leaves_def)

lemma save_checkpoint_leaves:
  assumes "inv (fw_storage w)" "codec_ok E F" "save_checkpoint st E F fid s pe k w = (r, w')"
    "progress_of E F fid (view (fw_storage w)) = Some p" "\<And>e. pe = Some e \<Longrightarrow> try_apply F s e \<noteq> None"
  shows "leaves E F fid {if is_ok r then (case pe of None \<Rightarrow> Waiting s | Some e \<Rightarrow> Busy s e k) else p}
    (fw_storage w) (fw_storage w')"
proof (cases "is_ok r")
  case True
  with save_checkpoint_view [OF assms(1-3)]
  have w: "inv (fw_storage w')" "wrote E F fid s pe k (view (fw_storage w)) (fw_triage w)
      (view (fw_storage w')) (fw_triage w')" by simp_all
  then have "\<forall>k. k \<noteq> checkpoint_key fid \<longrightarrow> view (fw_storage w') k = view (fw_storage w) k"
    by (auto simp: wrote_def)
  then show ?thesis using w(1) progress_of_wrote [OF w(2)] assms(5) True
    by (cases pe) (auto simp: leaves_def)
next
  case False
  with save_checkpoint_view [OF assms(1-3)] show ?thesis
    using assms(4) by (simp add: leaves_def)
qed

lemma finalize_leaves:
  assumes "inv (fw_storage w)" "codec_ok E F" "finalize st E F fid (tr_state tr) (tr_completed tr) w = (r, w')"
    "progress_of E F fid (view (fw_storage w)) = Some p"
  shows "leaves E F fid {if is_ok r then finished tr else p} (fw_storage w) (fw_storage w')"
proof (cases "tr_completed tr")
  case True
  obtain r2 s' where r2: "so_delete st (checkpoint_key fid) (fw_storage w) = (r2, s')"
    by (cases "so_delete st (checkpoint_key fid) (fw_storage w)")
  have "fw_storage w' = s'" "is_ok r = is_ok r2"
    using assms(3) True r2 by (cases r2; auto simp: finalize_def delete_checkpoint_def)+
  then show ?thesis using delete_law [OF assms(1) r2] assms(4) True
    by (auto simp: leaves_def finished_def progress_of_def)
next
  case False
  then show ?thesis using save_checkpoint_leaves [of w E F fid "tr_state tr" None 0 r w' p] assms
    by (cases "is_ok r") (simp_all add: finalize_def finished_def)
qed

lemma handle_event_leaves:
  assumes "inv (fw_storage w)" "codec_ok E F" "handle_event st E F fid s e w = (r, w')"
    "progress_of E F fid (view (fw_storage w)) = Some p"
  shows "leaves E F fid {if is_ok r then snd (spec_event F s p e) else p} (fw_storage w) (fw_storage w')"
    "r = Inr out \<Longrightarrow> out = fst (spec_event F s p e)"
proof -
  have "leaves E F fid {if is_ok r then snd (spec_event F s p e) else p} (fw_storage w) (fw_storage w') \<and>
    (\<forall>out. r = Inr out \<longrightarrow> out = fst (spec_event F s p e))"
  proof (cases "try_apply F s e")
    case None
    then show ?thesis using assms by (auto simp: handle_event_def spec_event_def leaves_def)
  next
    case (Some tr)
    show ?thesis
    proof (cases "tr_actions tr = []")
      case True
      obtain r1 w1 where f: "finalize st E F fid (tr_state tr) (tr_completed tr) w = (r1, w1)"
        by (cases "finalize st E F fid (tr_state tr) (tr_completed tr) w")
      with assms(3) Some True have "w' = w1" "is_ok r = is_ok r1"
        "r1 = Inr () \<Longrightarrow> r = Inr (Some \<lparr>fo_state = tr_state tr, fo_actions = [], fo_completed = tr_completed tr\<rparr>)"
        by (auto simp: handle_event_def split: sum.splits)
      then show ?thesis using finalize_leaves [OF assms(1,2) f assms(4)] Some True
        by (cases r1) (auto simp: spec_event_def)
    next
      case False
      obtain r1 w1 where f: "save_checkpoint st E F fid s (Some e) 0 w = (r1, w1)"
        by (cases "save_checkpoint st E F fid s (Some e) 0 w")
      with assms(3) Some False have "w' = w1" "is_ok r = is_ok r1"
        "r1 = Inr () \<Longrightarrow> r = Inr (Some \<lparr>fo_state = tr_state tr, fo_actions = tr_actions tr, fo_completed = False\<rparr>)"
        by (auto simp: handle_event_def split: sum.splits)
      then show ?thesis using save_checkpoint_leaves [OF assms(1,2) f assms(4)] Some False
        by (cases r1) (auto simp: spec_event_def)
    qed
  qed
  then show "leaves E F fid {if is_ok r then snd (spec_event F s p e) else p} (fw_storage w) (fw_storage w')"
    "r = Inr out \<Longrightarrow> out = fst (spec_event F s p e)" by blast+
qed

text \<open>What a loaded checkpoint says of the progress.\<close>

lemma load_progress:
  assumes "inv s" "load_checkpoint st E fid s = Inr c" "progress_of E F fid (view s) = Some p"
  shows "c = None \<and> p = Fresh \<or>
    (\<exists>k x. c = Some k \<and> fs_from_value (fr_state F) (ck_state k) = Some x \<and>
      (ck_pending_event k = None \<and> p = Waiting x \<or>
       (\<exists>e r. ck_pending_event k = Some e \<and> try_apply F x e = Some r \<and> p = Busy x e (ck_next_action k))))"
  using load_view [OF assms(1,2)]
proof (elim disjE exE conjE)
  fix bs k
  assume k: "view s (checkpoint_key fid) = Some bs" "fe_decode E bs = Some k" "c = Some k"
  with assms(3) obtain x where "fs_from_value (fr_state F) (ck_state k) = Some x"
    by (cases "fs_from_value (fr_state F) (ck_state k)") (simp_all add: progress_of_def)
  with k assms(3) show ?thesis
    by (auto simp: progress_of_def split: option.splits if_splits)
qed (use assms(3) in \<open>simp add: progress_of_def\<close>)

lemma leaves_refl:
  "inv s \<Longrightarrow> progress_of E F fid (view s) = Some p \<Longrightarrow> p \<in> P \<Longrightarrow> leaves E F fid P s s"
  by (auto simp: leaves_def)

lemma handle_refines:
  assumes "inv (fw_storage w)" "codec_ok E F" "handle st E F fid init e w = (r, w')"
    "progress_of E F fid (view (fw_storage w)) = Some p"
  shows "case r of
      Inr out \<Rightarrow> out = fst (spec_handle F init e p) \<and>
        leaves E F fid {snd (spec_handle F init e p)} (fw_storage w) (fw_storage w')
    | Inl x \<Rightarrow> leaves E F fid (spec_stuck F p) (fw_storage w) (fw_storage w')"
proof (cases "load_checkpoint st E fid (fw_storage w)")
  case (Inl x)
  then show ?thesis using assms by (auto simp: handle_def leaves_def spec_stuck_def)
next
  case load: (Inr c)
  note ev = handle_event_leaves [OF _ assms(2)]
  have event: ?thesis if h: "handle_event st E F fid s e w0 = (r, w')"
    and w0: "leaves E F fid {p0} (fw_storage w) (fw_storage w0)" "p0 \<in> spec_stuck F p"
    and spec: "spec_handle F init e p = spec_event F s p0 e" for s w0 p0
  proof -
    from w0(1) have 0: "inv (fw_storage w0)" "progress_of E F fid (view (fw_storage w0)) = Some p0"
      by (auto simp: leaves_def)
    from ev(1) [OF 0(1) h 0(2)] leaves_trans [OF w0(1)]
    have "leaves E F fid {if is_ok r then snd (spec_event F s p0 e) else p0} (fw_storage w) (fw_storage w')"
      by blast
    with ev(2) [OF 0(1) h 0(2)] w0(2) show ?thesis
      by (cases r) (auto simp: spec elim!: leaves_mono)
  qed
  from load_progress [OF assms(1) load assms(4)] show ?thesis
  proof (elim disjE exE conjE)
    assume "c = None" "p = Fresh"
    then show ?thesis
      using assms load event [of init w Fresh] leaves_refl [OF assms(1,4)]
      by (cases "is_resumed e") (auto simp: handle_def spec_handle_def spec_stuck_def)
  next
    fix k x assume k: "c = Some k" "fs_from_value (fr_state F) (ck_state k) = Some x"
      "ck_pending_event k = None" "p = Waiting x"
    define w0 where "w0 = w\<lparr>fw_triage := triage_record fid (ck_flow_kind k) (fs_step (fr_state F) x)
      (ck_updated_at k) (fw_triage w)\<rparr>"
    have "leaves E F fid {p} (fw_storage w) (fw_storage w0)"
      using leaves_refl [OF assms(1,4)] by (simp add: w0_def)
    moreover have "handle st E F fid init e w =
        (if is_resumed e then (Inr None, w0) else handle_event st E F fid x e w0)"
      using load k by (simp add: handle_def w0_def Let_def)
    ultimately show ?thesis
      using assms(3) event [of x w0 p] k(4)
      by (cases "is_resumed e") (auto simp: spec_handle_def spec_stuck_def)
  next
    fix k x pe tr assume k: "c = Some k" "fs_from_value (fr_state F) (ck_state k) = Some x"
      "ck_pending_event k = Some pe" "try_apply F x pe = Some tr" "p = Busy x pe (ck_next_action k)"
    show ?thesis
    proof (cases "length (tr_actions tr) \<le> ck_next_action k")
      case False
      then show ?thesis using assms(3) load k leaves_refl [OF assms(1,4)]
        by (auto simp: handle_def spec_handle_def)
    next
      case True
      obtain r1 w1 where f: "finalize st E F fid (tr_state tr) (tr_completed tr) w = (r1, w1)"
        by (cases "finalize st E F fid (tr_state tr) (tr_completed tr) w")
      note fl = finalize_leaves [OF assms(1,2) f assms(4)]
      show ?thesis
      proof (cases r1)
        case (Inl y)
        then show ?thesis using assms(3) load k True f fl
          by (auto simp: handle_def spec_stuck_def elim!: leaves_mono)
      next
        case (Inr u)
        then have fl: "leaves E F fid {finished tr} (fw_storage w) (fw_storage w1)" using fl by simp
        show ?thesis
        proof (cases "tr_completed tr \<or> is_resumed e")
          case True': True
          then show ?thesis using assms(3) load k True f fl Inr
            by (cases "tr_completed tr") (auto simp: handle_def spec_handle_def)
        next
          case False
          then show ?thesis using assms(3) load k True f fl Inr event [of "tr_state tr" w1 "finished tr"]
            by (auto simp: handle_def spec_handle_def spec_stuck_def)
        qed
      qed
    qed
  qed
qed

lemma ack_refines:
  assumes "inv (fw_storage w)" "codec_ok E F" "ack st E F fid executed w = (r, w')"
    "progress_of E F fid (view (fw_storage w)) = Some p"
  shows "leaves E F fid {if is_ok r then spec_ack F executed p else p} (fw_storage w) (fw_storage w')"
proof (cases "load_checkpoint st E fid (fw_storage w)")
  case (Inl x)
  then show ?thesis using assms by (auto simp: ack_def leaves_def)
next
  case load: (Inr c)
  from load_progress [OF assms(1) load assms(4)] show ?thesis
  proof (elim disjE exE conjE)
    fix k x pe tr assume k: "c = Some k" "fs_from_value (fr_state F) (ck_state k) = Some x"
      "ck_pending_event k = Some pe" "try_apply F x pe = Some tr" "p = Busy x pe (ck_next_action k)"
    show ?thesis
    proof (cases "executed < length (tr_actions tr)")
      case True
      then have "save_checkpoint st E F fid x (Some pe) executed w = (r, w')"
        using assms(3) load k by (simp add: ack_def Let_def min_def split: if_splits)
      from save_checkpoint_leaves [OF assms(1,2) this assms(4)] show ?thesis
        using k True by (cases "is_ok r") (simp_all add: spec_ack_def)
    next
      case False
      then have "finalize st E F fid (tr_state tr) (tr_completed tr) w = (r, w')"
        using assms(3) load k by (simp add: ack_def Let_def min_def split: if_splits)
      from finalize_leaves [OF assms(1,2) this assms(4)] show ?thesis
        using k False by (cases "is_ok r") (simp_all add: spec_ack_def)
    qed
  qed (use assms load in \<open>auto simp: ack_def leaves_def spec_ack_def\<close>)
qed

text \<open>The triage view mirrors the stored checkpoints.\<close>

lemma save_checkpoint_synced:
  assumes "inv (fw_storage w)" "codec_ok E F" "save_checkpoint st E F fid s pe k w = (Inr u, w')"
    "synced E F (view (fw_storage w)) (fw_triage w)"
  shows "synced E F (view (fw_storage w')) (fw_triage w')"
proof -
  from save_checkpoint_view [OF assms(1-3)]
  have "wrote E F fid s pe k (view (fw_storage w)) (fw_triage w) (view (fw_storage w')) (fw_triage w')"
    by simp
  then show ?thesis by (rule synced_wrote [OF _ assms(4)])
qed

lemma finalize_synced:
  assumes "inv (fw_storage w)" "codec_ok E F" "finalize st E F fid s completed w = (Inr u, w')"
    "synced E F (view (fw_storage w)) (fw_triage w)"
  shows "synced E F (view (fw_storage w')) (fw_triage w')"
proof (cases completed)
  case True
  obtain r2 s' where r2: "so_delete st (checkpoint_key fid) (fw_storage w) = (r2, s')"
    by (cases "so_delete st (checkpoint_key fid) (fw_storage w)")
  then have "is_ok r2" "w' = w\<lparr>fw_storage := s', fw_triage := triage_clear fid (fw_triage w)\<rparr>"
    using assms(3) True by (cases r2; auto simp: finalize_def delete_checkpoint_def)+
  then show ?thesis using delete_law [OF assms(1) r2] synced_clear [OF assms(4)] by simp
next
  case False
  then show ?thesis using save_checkpoint_synced assms by (simp add: finalize_def)
qed

lemma handle_event_synced:
  assumes "inv (fw_storage w)" "codec_ok E F" "handle_event st E F fid s e w = (Inr out, w')"
    "synced E F (view (fw_storage w)) (fw_triage w)"
  shows "synced E F (view (fw_storage w')) (fw_triage w')"
  using assms(3) save_checkpoint_synced [OF assms(1,2) _ assms(4)]
    finalize_synced [OF assms(1,2) _ assms(4)] assms(4)
  by (auto simp: handle_event_def split: option.splits if_splits sum.splits prod.splits)

lemma handle_synced:
  assumes "inv (fw_storage w)" "codec_ok E F" "handle st E F fid init e w = (Inr out, w')"
    "progress_of E F fid (view (fw_storage w)) = Some p" "synced E F (view (fw_storage w)) (fw_triage w)"
  shows "synced E F (view (fw_storage w')) (fw_triage w')"
proof (cases "load_checkpoint st E fid (fw_storage w)")
  case (Inl x)
  then show ?thesis using assms by (simp add: handle_def)
next
  case load: (Inr c)
  note ev = handle_event_synced [OF _ assms(2)]
  from load_progress [OF assms(1) load assms(4)] show ?thesis
  proof (elim disjE exE conjE)
    assume "c = None"
    then show ?thesis using assms load ev [OF assms(1) _ assms(5)]
      by (cases "is_resumed e") (auto simp: handle_def)
  next
    fix k x assume k: "c = Some k" "fs_from_value (fr_state F) (ck_state k) = Some x"
      "ck_pending_event k = None"
    define w0 where "w0 = w\<lparr>fw_triage := triage_record fid (ck_flow_kind k) (fs_step (fr_state F) x)
      (ck_updated_at k) (fw_triage w)\<rparr>"
    from load_view [OF assms(1) load] k(1) obtain bs where
      bs: "view (fw_storage w) (checkpoint_key fid) = Some bs" "fe_decode E bs = Some k" by auto
    have "mirrors E F fid (view (fw_storage w) (checkpoint_key fid)) (map_of (fw_triage w) fid)"
      using assms(5) by (simp add: synced_def)
    then have entry: "ck_flow_id k = fid" "ck_step k = fs_step (fr_state F) x"
      using bs k(2) by (auto simp: mirrors_def)
    then have "wrote E F fid x None (ck_next_action k) (view (fw_storage w)) (fw_triage w)
        (view (fw_storage w)) (fw_triage w0)"
      unfolding wrote_def using bs k
      by (intro exI [of _ bs] exI [of _ k])
        (auto simp: w0_def triage_record_def checkpoint_entry_def)
    then have "synced E F (view (fw_storage w0)) (fw_triage w0)"
      using synced_wrote [OF _ assms(5)] by (simp add: w0_def)
    moreover have "handle st E F fid init e w =
        (if is_resumed e then (Inr None, w0) else handle_event st E F fid x e w0)"
      using load k by (simp add: handle_def w0_def Let_def)
    moreover have "inv (fw_storage w0)" using assms(1) by (simp add: w0_def)
    ultimately show ?thesis using assms(3) ev [of w0 fid x e out w'] by (cases "is_resumed e") auto
  next
    fix k x pe tr assume k: "c = Some k" "fs_from_value (fr_state F) (ck_state k) = Some x"
      "ck_pending_event k = Some pe" "try_apply F x pe = Some tr" "p = Busy x pe (ck_next_action k)"
    obtain r1 w1 where f: "finalize st E F fid (tr_state tr) (tr_completed tr) w = (r1, w1)"
      by (cases "finalize st E F fid (tr_state tr) (tr_completed tr) w")
    show ?thesis
    proof (cases "r1 = Inr () \<and> length (tr_actions tr) \<le> ck_next_action k")
      case True
      then have "synced E F (view (fw_storage w1)) (fw_triage w1)" "inv (fw_storage w1)"
        using finalize_synced [OF assms(1,2) _ assms(5)] finalize_leaves [OF assms(1,2) f assms(4)] f
        by (auto simp: leaves_def)
      then show ?thesis using assms(3) load k True f ev [of w1]
        by (auto simp: handle_def split: if_splits)
    next
      case False
      then show ?thesis using assms(3,5) load k f
        by (cases r1) (auto simp: handle_def split: if_splits)
    qed
  qed
qed

lemma ack_synced:
  assumes "inv (fw_storage w)" "codec_ok E F" "ack st E F fid executed w = (Inr u, w')"
    "synced E F (view (fw_storage w)) (fw_triage w)"
  shows "synced E F (view (fw_storage w')) (fw_triage w')"
  using assms(3) save_checkpoint_synced [OF assms(1,2) _ assms(4)]
    finalize_synced [OF assms(1,2) _ assms(4)] assms(4)
  by (auto simp: ack_def Let_def split: sum.splits option.splits if_splits)

text \<open>Discovery rebuilds a view that is in step.\<close>

lemma discover_keys:
  assumes "inv s" "synced E F (view s) t" "set ks \<subseteq> {k \<in> dom (view s). starts_with k CHECKPOINT_PREFIX}"
    "try_fold (discover_key st E s) t0 ks = Inr t'" "btree_wf t0"
  shows "btree_wf t' \<and> (\<forall>fid. map_of t' fid =
    (if checkpoint_key fid \<in> set ks then map_of t fid else map_of t0 fid))"
  using assms(3-5)
proof (induction ks arbitrary: t0)
  case (Cons k ks)
  from Cons.prems(1) obtain fid bs where fid: "k = checkpoint_key fid" "view s k = Some bs"
    by (auto simp: checkpoint_key_def starts_with_iff)
  have "mirrors E F fid (view s (checkpoint_key fid)) (map_of t fid)"
    using assms(2) by (simp add: synced_def)
  with fid obtain c where c: "fe_decode E bs = Some c" "ck_flow_id c = fid"
    "map_of t fid = Some (checkpoint_entry c)" by (auto simp: mirrors_def)
  define t1 where "t1 = btree_insert fid (checkpoint_entry c) t0"
  have rest: "try_fold (discover_key st E s) t1 ks = Inr t'"
  proof (cases "so_get st k s")
    case (Inl x)
    then have "discover_key st E s t0 k = Inl (StorageError x)" by (simp add: discover_key_def res_simps)
    then show ?thesis using Cons.prems(2) by simp
  next
    case (Inr v)
    from get_law [OF assms(1) this] fid(2) have "v = Some bs" by simp
    with Inr have "discover_key st E s t0 k = Inr t1" using c
      by (simp add: discover_key_def res_simps t1_def triage_record_def checkpoint_entry_def)
    then show ?thesis using Cons.prems(2) by simp
  qed
  have "btree_wf t1" using Cons.prems(3) by (simp add: t1_def btree_wf_insert)
  with Cons.IH [OF _ rest] Cons.prems(1) have IH: "btree_wf t'" "\<And>g. map_of t' g =
      (if checkpoint_key g \<in> set ks then map_of t g else map_of t1 g)" by auto
  show ?case
  proof (intro conjI allI)
    show "map_of t' g = (if checkpoint_key g \<in> set (k # ks) then map_of t g else map_of t0 g)" for g
      using IH(2) [of g] c(3) fid(1) by (auto simp: t1_def map_of_btree_insert)
  qed (rule IH(1))
qed simp

lemma discover_synced:
  assumes "inv s" "synced E F (view s) t" "discover st E s = Inr t'"
  shows "t' = t"
proof -
  from assms(3) obtain ks where ks: "so_list st CHECKPOINT_PREFIX s = Inr ks"
    "try_fold (discover_key st E s) [] ks = Inr t'"
    by (cases "so_list st CHECKPOINT_PREFIX s") (auto simp: discover_def res_simps)
  have keys: "set ks = {k \<in> dom (view s). starts_with k CHECKPOINT_PREFIX}"
    using list_law [OF assms(1) ks(1)] finite_law [OF assms(1)] by simp
  from discover_keys [OF assms(1,2) _ ks(2)] keys
  have t': "btree_wf t'" "\<And>fid. map_of t' fid =
      (if checkpoint_key fid \<in> set ks then map_of t fid else None)" by auto
  have "map_of t' fid = map_of t fid" for fid
  proof (cases "checkpoint_key fid \<in> set ks")
    case False
    then have "view s (checkpoint_key fid) = None"
      by (auto simp: keys starts_with_iff checkpoint_key_def)
    moreover have "mirrors E F fid (view s (checkpoint_key fid)) (map_of t fid)"
      using assms(2) by (simp add: synced_def)
    ultimately show ?thesis using False t'(2) [of fid] by (simp add: mirrors_def)
  qed (simp add: t'(2))
  then show ?thesis using t'(1) assms(2) map_of_btree_sorted_eq [of t' t] by (auto simp: synced_def)
qed

text \<open>No call touches a key but its flow's, whatever is stored there.\<close>

definition framed :: "string \<Rightarrow> 'st \<Rightarrow> 'st \<Rightarrow> bool" where
  "framed fid s s' \<longleftrightarrow> inv s' \<and> (\<forall>k. k \<noteq> checkpoint_key fid \<longrightarrow> view s' k = view s k)"

lemma framed_trans: "framed fid s s' \<Longrightarrow> framed fid s' s'' \<Longrightarrow> framed fid s s''"
  by (simp add: framed_def)

lemma framed_refl: "inv s \<Longrightarrow> framed fid s s"
  by (simp add: framed_def)

lemma save_checkpoint_framed:
  assumes "inv (fw_storage w)" "codec_ok E F" "save_checkpoint st E F fid s pe k w = (r, w')"
  shows "framed fid (fw_storage w) (fw_storage w')"
  using save_checkpoint_view [OF assms] by (auto simp: framed_def wrote_def split: if_splits)

lemma finalize_framed:
  assumes "inv (fw_storage w)" "codec_ok E F" "finalize st E F fid s completed w = (r, w')"
  shows "framed fid (fw_storage w) (fw_storage w')"
proof (cases completed)
  case True
  obtain r2 s' where r2: "so_delete st (checkpoint_key fid) (fw_storage w) = (r2, s')"
    by (cases "so_delete st (checkpoint_key fid) (fw_storage w)")
  then have "fw_storage w' = s'"
    using assms(3) True by (cases r2; auto simp: finalize_def delete_checkpoint_def)
  then show ?thesis using delete_law [OF assms(1) r2] by (auto simp: framed_def)
next
  case False
  then show ?thesis using save_checkpoint_framed assms by (simp add: finalize_def)
qed

lemma handle_event_framed:
  assumes "inv (fw_storage w)" "codec_ok E F" "handle_event st E F fid s e w = (r, w')"
  shows "framed fid (fw_storage w) (fw_storage w')"
  using assms(3) save_checkpoint_framed [OF assms(1,2)] finalize_framed [OF assms(1,2)]
    framed_refl [OF assms(1)]
  by (auto simp: handle_event_def split: option.splits if_splits sum.splits prod.splits)

lemma handle_framed:
  assumes "inv (fw_storage w)" "codec_ok E F" "handle st E F fid init e w = (r, w')"
  shows "framed fid (fw_storage w) (fw_storage w')"
proof -
  have after: "framed fid (fw_storage w) (fw_storage w')"
    if "framed fid (fw_storage w) (fw_storage w0)" "handle_event st E F fid s e w0 = (r', w')" for s w0 r'
    using framed_trans [OF that(1) handle_event_framed [OF _ assms(2) that(2)]] that(1)
    by (simp add: framed_def)
  note fin = finalize_framed [OF assms(1,2)]
  have retag: "framed fid (fw_storage w) (fw_storage w')"
    if "handle_event st E F fid s e (w\<lparr>fw_triage := t\<rparr>) = (r', w')" for s t r'
    using after [OF _ that] framed_refl [OF assms(1)] by simp
  show ?thesis
  proof (cases "load_checkpoint st E fid (fw_storage w)")
    case (Inl x)
    then show ?thesis using assms framed_refl by (simp add: handle_def)
  next
    case load: (Inr c)
    show ?thesis
    proof (cases c)
      case None
      then show ?thesis using assms(3) load after [OF framed_refl [OF assms(1)]] framed_refl [OF assms(1)]
        by (auto simp: handle_def split: if_splits)
    next
      case (Some k)
      show ?thesis
        using assms(3) load Some framed_refl [OF assms(1), of fid]
        by (auto simp: handle_def Let_def split: option.splits if_splits sum.splits prod.splits
            intro: fin retag after [OF fin])
    qed
  qed
qed

lemma ack_framed:
  assumes "inv (fw_storage w)" "codec_ok E F" "ack st E F fid executed w = (r, w')"
  shows "framed fid (fw_storage w) (fw_storage w')"
  using assms(3) save_checkpoint_framed [OF assms(1,2)] finalize_framed [OF assms(1,2)]
    framed_refl [OF assms(1)]
  by (auto simp: ack_def Let_def split: sum.splits option.splits if_splits)

text \<open>
  A busy flow stays on its transition until all its actions are acknowledged, whatever else the host
  does and whatever fails.
\<close>

lemma flow_op_busy:
  assumes w: "inv (fw_storage w)" "codec_ok E F"
    and busy: "progress_of E F fid (view (fw_storage w)) = Some (Busy s e n)"
      "try_apply F s e = Some tr" "n < length (tr_actions tr)"
    and op: "\<And>k. op = Acknowledge fid k \<Longrightarrow> k < length (tr_actions tr)"
    and step: "flow_op st E F op w = (r, w')"
  shows "inv (fw_storage w') \<and> (\<exists>n'. progress_of E F fid (view (fw_storage w')) = Some (Busy s e n') \<and>
    n' < length (tr_actions tr) \<and> (n' = n \<or> op = Acknowledge fid n'))"
proof (cases op)
  case (Deliver g init ev)
  then have h: "handle st E F g init ev w = (r, w')" using step by (simp add: flow_op_def)
  show ?thesis
  proof (cases "g = fid")
    case True
    from handle_refines [OF w h [unfolded True] busy(1)] busy show ?thesis
      by (cases r) (auto simp: spec_handle_def spec_stuck_def leaves_def)
  next
    case False
    then show ?thesis using handle_framed [OF w h] busy
      by (auto simp: framed_def progress_of_def)
  qed
next
  case (Acknowledge g k)
  then obtain r0 where h: "ack st E F g k w = (r0, w')"
    using step by (auto simp: flow_op_def split: prod.splits)
  show ?thesis
  proof (cases "g = fid")
    case True
    from ack_refines [OF w h [unfolded True] busy(1)] busy op Acknowledge True show ?thesis
      by (cases "is_ok r0") (auto simp: spec_ack_def leaves_def)
  next
    case False
    then show ?thesis using ack_framed [OF w h] busy
      by (auto simp: framed_def progress_of_def)
  qed
next
  case Restart
  then have "fw_storage w' = fw_storage w"
    using step by (cases "discover st E (fw_storage w)") (auto simp: flow_op_def)
  then show ?thesis using w busy by simp
qed

lemma flow_op_inv:
  assumes "inv (fw_storage w)" "codec_ok E F" "flow_op st E F op w = (r, w')"
  shows "inv (fw_storage w')"
proof (cases op)
  case (Deliver g init ev)
  then show ?thesis using assms handle_framed [of w E F g init ev r w'] by (simp add: flow_op_def framed_def)
next
  case (Acknowledge g k)
  then show ?thesis using assms ack_framed [OF assms(1,2)]
    by (auto simp: flow_op_def framed_def split: prod.splits)
next
  case Restart
  then show ?thesis using assms by (cases "discover st E (fw_storage w)") (auto simp: flow_op_def)
qed

lemma flow_op_synced:
  assumes w: "inv (fw_storage w)" "codec_ok E F" "synced E F (view (fw_storage w)) (fw_triage w)"
    and all: "\<And>fid. progress_of E F fid (view (fw_storage w)) \<noteq> None"
    and step: "flow_op st E F op w = (Inr out, w')"
  shows "synced E F (view (fw_storage w')) (fw_triage w')"
    and "progress_of E F fid (view (fw_storage w')) \<noteq> None"
proof -
  have "synced E F (view (fw_storage w')) (fw_triage w') \<and>
    (\<forall>fid. progress_of E F fid (view (fw_storage w')) \<noteq> None)"
  proof (cases op)
    case (Deliver g init ev)
    then have h: "handle st E F g init ev w = (Inr out, w')" using step by (simp add: flow_op_def)
    obtain p where p: "progress_of E F g (view (fw_storage w)) = Some p" using all [of g] by auto
    from handle_refines [OF w(1,2) h p] handle_framed [OF w(1,2) h]
    have "progress_of E F fid (view (fw_storage w')) \<noteq> None" for fid
      using all [of fid] by (cases "fid = g") (auto simp: leaves_def framed_def progress_of_def)
    then show ?thesis using handle_synced [OF w(1,2) h p w(3)] by blast
  next
    case (Acknowledge g k)
    then have h: "ack st E F g k w = (Inr (), w')"
      using step by (cases "ack st E F g k w") (auto simp: flow_op_def res_simps)
    obtain p where p: "progress_of E F g (view (fw_storage w)) = Some p" using all [of g] by auto
    from ack_refines [OF w(1,2) h p] ack_framed [OF w(1,2) h]
    have "progress_of E F fid (view (fw_storage w')) \<noteq> None" for fid
      using all [of fid] by (cases "fid = g") (auto simp: leaves_def framed_def progress_of_def)
    then show ?thesis using ack_synced [OF w(1,2) h w(3)] by blast
  next
    case Restart
    then obtain t where t: "discover st E (fw_storage w) = Inr t" "w' = w\<lparr>fw_triage := t\<rparr>"
      using step by (cases "discover st E (fw_storage w)") (auto simp: flow_op_def)
    from discover_synced [OF w(1,3) t(1)] t(2) have "fw_storage w' = fw_storage w" "fw_triage w' = fw_triage w"
      by simp_all
    then show ?thesis using w(3) all by simp
  qed
  then show "synced E F (view (fw_storage w')) (fw_triage w')"
    "progress_of E F fid (view (fw_storage w')) \<noteq> None" by blast+
qed

end

section \<open>Driving a flow on a healthy store\<close>

text \<open>
  The pure state machine of a flow, \<open>None\<close> standing for the initial state, and a host that executes
  and acknowledges every action it is given.
\<close>

fun flow_run :: "'s flow_runner \<Rightarrow> 's \<Rightarrow> 's option \<Rightarrow> event list \<Rightarrow> action list \<times> 's option" where
  "flow_run F init cur [] = ([], cur)"
| "flow_run F init cur (e # es) =
     (if is_resumed e then flow_run F init cur es
      else case try_apply F (case cur of None \<Rightarrow> init | Some s \<Rightarrow> s) e of
          None \<Rightarrow> flow_run F init cur es
        | Some r \<Rightarrow> apfst ((@) (tr_actions r))
            (flow_run F init (if tr_completed r then None else Some (tr_state r)) es))"

fun drive ::
  "'st state_ops \<Rightarrow> flow_env \<Rightarrow> 's flow_runner \<Rightarrow> string \<Rightarrow> 's \<Rightarrow> event list \<Rightarrow> 'st flow_world \<Rightarrow>
     (workflow_error + action list) \<times> 'st flow_world" where
  "drive st E F fid init [] w = (Inr [], w)"
| "drive st E F fid init (e # es) w =
     (case handle st E F fid init e w of
        (Inl x, w1) \<Rightarrow> (Inl x, w1)
      | (Inr None, w1) \<Rightarrow> drive st E F fid init es w1
      | (Inr (Some out), w1) \<Rightarrow>
          (case ack st E F fid (length (fo_actions out)) w1 of
             (Inl x, w2) \<Rightarrow> (Inl x, w2)
           | (Inr _, w2) \<Rightarrow>
               (case drive st E F fid init es w2 of
                  (Inl x, w3) \<Rightarrow> (Inl x, w3)
                | (Inr as, w3) \<Rightarrow> (Inr (fo_actions out @ as), w3))))"

definition idle :: "'s option \<Rightarrow> 's progress" where
  "idle cur = (case cur of None \<Rightarrow> Fresh | Some s \<Rightarrow> Waiting s)"

text \<open>The errors of the codecs and the clock.\<close>

definition encoder_error :: "workflow_error \<Rightarrow> bool" where
  "encoder_error x \<longleftrightarrow> x = SerializationError \<or> x = ClockError"

locale healthy_seam = state_seam +
  assumes get_ok: "inv s \<Longrightarrow> is_ok (so_get st k s)"
    and put_ok: "inv s \<Longrightarrow> is_ok (fst (so_put st k bs s))"
    and delete_ok: "inv s \<Longrightarrow> is_ok (fst (so_delete st k s))"
    and list_ok: "inv s \<Longrightarrow> is_ok (so_list st p s)"
begin

lemma save_checkpoint_fails:
  assumes "inv (fw_storage w)" "save_checkpoint st E F fid s pe k w = (Inl x, w')"
  shows "encoder_error x"
proof (cases "fs_to_value (fr_state F) s")
  case (Some v)
  show ?thesis
  proof (cases "fe_clock E (fw_reads w)")
    case clock: (Some now)
    define c where "c = \<lparr>ck_flow_id = fid, ck_flow_kind = fr_kind F, ck_state = v,
      ck_pending_event = pe, ck_next_action = k, ck_step = fs_step (fr_state F) s,
      ck_updated_at = now\<rparr>"
    obtain r1 s1 where s1: "save st E c (fw_storage w) = (r1, s1)"
      by (cases "save st E c (fw_storage w)")
    then have "r1 = Inl x" using assms(2) Some clock by (simp add: save_checkpoint_def c_def)
    moreover have "fe_encode E c = None"
    proof (rule ccontr)
      assume "fe_encode E c \<noteq> None"
      then obtain bs where bs: "fe_encode E c = Some bs" by auto
      obtain r2 s2 where "so_put st (checkpoint_key fid) bs (fw_storage w) = (r2, s2)"
        by (cases "so_put st (checkpoint_key fid) bs (fw_storage w)")
      then show False using s1 bs \<open>r1 = Inl x\<close> put_ok [OF assms(1), of "checkpoint_key fid" bs]
        by (cases r2) (auto simp: save_def c_def)
    qed
    ultimately show ?thesis using s1 by (simp add: save_def encoder_error_def)
  qed (use assms Some in \<open>simp add: save_checkpoint_def encoder_error_def\<close>)
qed (use assms in \<open>simp add: save_checkpoint_def encoder_error_def\<close>)

lemma finalize_fails:
  assumes "inv (fw_storage w)" "finalize st E F fid s completed w = (Inl x, w')"
  shows "encoder_error x"
proof (cases completed)
  case True
  obtain r2 s' where r2: "so_delete st (checkpoint_key fid) (fw_storage w) = (r2, s')"
    by (cases "so_delete st (checkpoint_key fid) (fw_storage w)")
  then show ?thesis using assms(2) True delete_ok [OF assms(1), of "checkpoint_key fid"]
    by (cases r2) (auto simp: finalize_def delete_checkpoint_def)
next
  case False
  then show ?thesis using save_checkpoint_fails assms by (simp add: finalize_def)
qed

lemma handle_event_fails:
  assumes "inv (fw_storage w)" "handle_event st E F fid s e w = (Inl x, w')"
  shows "encoder_error x"
  using assms(2)
  by (auto simp: handle_event_def split: option.splits if_splits sum.splits prod.splits
      dest: save_checkpoint_fails [OF assms(1)] finalize_fails [OF assms(1)])

lemma load_ok:
  assumes "inv s" "progress_of E F fid (view s) = Some p"
  shows "is_ok (load_checkpoint st E fid s)"
proof -
  obtain v where v: "so_get st (checkpoint_key fid) s = Inr v"
    using get_ok [OF assms(1)] by (auto simp: is_ok_iff)
  show ?thesis
  proof (cases v)
    case (Some bs)
    with get_law [OF assms(1) v] have "view s (checkpoint_key fid) = Some bs" by simp
    with assms(2) have "fe_decode E bs \<noteq> None"
      by (cases "fe_decode E bs") (simp_all add: progress_of_def)
    then show ?thesis using v Some by (auto simp: load_checkpoint_def res_simps)
  qed (use v in \<open>simp add: load_checkpoint_def res_simps\<close>)
qed

lemma handle_idle_fails:
  assumes "inv (fw_storage w)" "progress_of E F fid (view (fw_storage w)) = Some (idle cur)"
    "handle st E F fid init e w = (Inl x, w')"
  shows "encoder_error x"
proof -
  obtain c where load: "load_checkpoint st E fid (fw_storage w) = Inr c"
    using load_ok [OF assms(1,2)] by (auto simp: is_ok_iff)
  have retag: "inv (fw_storage (w\<lparr>fw_triage := t\<rparr>))" for t using assms(1) by simp
  from load_progress [OF assms(1) load assms(2)] assms(3) load show ?thesis
    by (cases cur) (auto simp: handle_def idle_def Let_def split: if_splits
        dest: handle_event_fails [OF assms(1)] handle_event_fails [OF retag])
qed

lemma ack_fails:
  assumes "inv (fw_storage w)" "progress_of E F fid (view (fw_storage w)) = Some p"
    "ack st E F fid n w = (Inl x, w')"
  shows "encoder_error x"
proof -
  obtain c where load: "load_checkpoint st E fid (fw_storage w) = Inr c"
    using load_ok [OF assms(1,2)] by (auto simp: is_ok_iff)
  from load_progress [OF assms(1) load assms(2)] assms(3) load show ?thesis
    by (auto simp: ack_def Let_def split: if_splits
        dest: save_checkpoint_fails [OF assms(1)] finalize_fails [OF assms(1)])
qed

text \<open>One event delivered and acknowledged is one step of the pure machine.\<close>

lemma handle_ack_step:
  assumes w: "inv (fw_storage w)" "codec_ok E F"
    and cur: "progress_of E F fid (view (fw_storage w)) = Some (idle cur)"
    and h: "handle st E F fid init e w = (Inr (Some out), w1)"
    and a: "ack st E F fid (length (fo_actions out)) w1 = (Inr u, w2)"
  shows "\<exists>tr. \<not> is_resumed e \<and> try_apply F (case cur of None \<Rightarrow> init | Some s \<Rightarrow> s) e = Some tr \<and>
    fo_actions out = tr_actions tr \<and> inv (fw_storage w2) \<and>
    progress_of E F fid (view (fw_storage w2)) = Some (idle (if tr_completed tr then None else Some (tr_state tr)))"
proof -
  define s where "s = (case cur of None \<Rightarrow> init | Some s \<Rightarrow> s)"
  from handle_refines [OF w h cur] have out: "Some out = fst (spec_handle F init e (idle cur))"
    and l1: "leaves E F fid {snd (spec_handle F init e (idle cur))} (fw_storage w) (fw_storage w1)" by auto
  have resumed: "\<not> is_resumed e" and spec: "spec_handle F init e (idle cur) = spec_event F s (idle cur) e"
    using out by (auto simp: spec_handle_def idle_def s_def split: option.splits if_splits)
  from out spec obtain tr where tr: "try_apply F s e = Some tr"
    by (cases "try_apply F s e") (auto simp: spec_event_def)
  have acts: "fo_actions out = tr_actions tr"
    using out spec tr by (auto simp: spec_event_def split: if_splits)
  from l1 obtain p1 where p1: "inv (fw_storage w1)" "progress_of E F fid (view (fw_storage w1)) = Some p1"
    "p1 = snd (spec_event F s (idle cur) e)" by (auto simp: leaves_def spec)
  from ack_refines [OF p1(1) w(2) a p1(2)] have
    "inv (fw_storage w2)" "progress_of E F fid (view (fw_storage w2)) =
      Some (spec_ack F (length (tr_actions tr)) p1)" by (auto simp: leaves_def acts)
  moreover have "spec_ack F (length (tr_actions tr)) p1 = finished tr"
    using tr p1(3) by (auto simp: spec_event_def spec_ack_def finished_def)
  ultimately show ?thesis using resumed tr acts by (auto simp: s_def finished_def idle_def)
qed

lemma drive_refines:
  assumes "inv (fw_storage w)" "codec_ok E F"
    "progress_of E F fid (view (fw_storage w)) = Some (idle cur)"
    "drive st E F fid init es w = (r, w')"
  shows "inv (fw_storage w') \<and> (case r of
      Inl x \<Rightarrow> encoder_error x
    | Inr as \<Rightarrow> as = fst (flow_run F init cur es) \<and>
        progress_of E F fid (view (fw_storage w')) = Some (idle (snd (flow_run F init cur es))))"
  using assms(1,3,4)
proof (induction es arbitrary: w cur r w')
  case (Cons e es)
  obtain r1 w1 where h: "handle st E F fid init e w = (r1, w1)"
    by (cases "handle st E F fid init e w")
  note hr = handle_refines [OF Cons.prems(1) assms(2) h Cons.prems(2)]
  have inv1: "inv (fw_storage w1)" using handle_framed [OF Cons.prems(1) assms(2) h] by (simp add: framed_def)
  consider (err) x where "r1 = Inl x" | (ignored) "r1 = Inr None" | (out) out where "r1 = Inr (Some out)"
    by (cases r1; cases "projr r1") auto
  then show ?case
  proof cases
    case err
    then show ?thesis using h Cons.prems inv1 handle_idle_fails [OF Cons.prems(1,2)] by auto
  next
    case ignored
    then have "spec_handle F init e (idle cur) = (None, idle cur)" and
      run: "flow_run F init cur (e # es) = flow_run F init cur es"
      using hr by (auto simp: spec_handle_def idle_def spec_event_def split: option.splits if_splits)
    with hr ignored have "progress_of E F fid (view (fw_storage w1)) = Some (idle cur)"
      by (auto simp: leaves_def)
    from Cons.IH [OF inv1 this] Cons.prems(3) ignored h show ?thesis unfolding run by simp
  next
    case out
    obtain r2 w2 where a: "ack st E F fid (length (fo_actions out)) w1 = (r2, w2)"
      by (cases "ack st E F fid (length (fo_actions out)) w1")
    have inv2: "inv (fw_storage w2)" using ack_framed [OF inv1 assms(2) a] by (simp add: framed_def)
    show ?thesis
    proof (cases r2)
      case (Inl x)
      from hr out obtain p1 where "progress_of E F fid (view (fw_storage w1)) = Some p1"
        by (auto simp: leaves_def)
      from ack_fails [OF inv1 this] a Inl have "encoder_error x" by simp
      then show ?thesis using h out a Inl Cons.prems(3) inv2 by auto
    next
      case (Inr u)
      from handle_ack_step [OF Cons.prems(1) assms(2) Cons.prems(2) h [unfolded out] a [unfolded Inr]]
      obtain tr where tr: "\<not> is_resumed e" "try_apply F (case cur of None \<Rightarrow> init | Some s \<Rightarrow> s) e = Some tr"
        "fo_actions out = tr_actions tr" "progress_of E F fid (view (fw_storage w2)) =
          Some (idle (if tr_completed tr then None else Some (tr_state tr)))" by blast
      obtain r3 w3 where d: "drive st E F fid init es w2 = (r3, w3)"
        by (cases "drive st E F fid init es w2")
      from Cons.IH [OF inv2 tr(4) d] Cons.prems(3) h out a Inr d tr(1-3) show ?thesis
        by (cases r3) auto
    qed
  qed
qed auto

lemma discover_ok:
  assumes "inv s"
  shows "is_ok (discover st E s)"
proof -
  have "is_ok (try_fold (discover_key st E s) t ks)" for t ks
  proof (induction ks arbitrary: t)
    case (Cons k ks)
    obtain v where "so_get st k s = Inr v" using get_ok [OF assms] by (auto simp: is_ok_iff)
    then have "\<exists>t1. discover_key st E s t k = Inr t1" by (simp add: discover_key_def res_simps)
    then show ?case using Cons.IH by (auto simp: res_simps)
  qed simp
  moreover obtain ks where "so_list st CHECKPOINT_PREFIX s = Inr ks"
    using list_ok [OF assms] by (auto simp: is_ok_iff)
  ultimately show ?thesis by (simp add: discover_def res_simps)
qed

end

section \<open>The two stores\<close>

text \<open>The redb store keeps the contract under any transaction fault.\<close>

interpretation redb_seam: state_seam "redb_ops txn" "\<lambda>s. btree_wf (rb_state s)" "\<lambda>s. map_of (rb_state s)" for txn
proof unfold_locales
  fix s :: redb_store and k p :: string and v bs and r :: "core_error + unit" and s' ks
  assume wf: "btree_wf (rb_state s)"
  show "v = map_of (rb_state s) k" if "so_get (redb_ops txn) k s = Inr v"
    using that by (auto simp: redb_ops_def redb_get_state_def txn_step_def split: option.splits)
  show "btree_wf (rb_state s') \<and> map_of (rb_state s') =
      (if is_ok r then (map_of (rb_state s))(k \<mapsto> bs) else map_of (rb_state s))"
    if "so_put (redb_ops txn) k bs s = (r, s')"
    using that wf by (auto simp: redb_ops_def redb_put_state_def txn_step_def in_txn_def
        map_of_btree_insert btree_wf_insert split: option.splits)
  show "btree_wf (rb_state s') \<and> map_of (rb_state s') =
      (if is_ok r then (map_of (rb_state s))(k := None) else map_of (rb_state s))"
    if "so_delete (redb_ops txn) k s = (r, s')"
    using that wf by (auto simp: redb_ops_def redb_delete_state_def txn_step_def in_txn_def
        map_of_btree_remove btree_wf_remove split: option.splits)
  show "finite (dom (map_of (rb_state s)))" by (rule finite_dom_map_of)
  show "ks = sorted_list_of_set {k \<in> dom (map_of (rb_state s)). starts_with k p}"
    if "so_list (redb_ops txn) p s = Inr ks"
    using that by (auto simp: redb_ops_def redb_list_state_keys_def txn_step_def range_scan wf
        filter_keys_sorted [OF wf, symmetric] split: option.splits)
qed

interpretation redb_healthy: healthy_seam "redb_ops txn_ok" "\<lambda>s. btree_wf (rb_state s)"
  "\<lambda>s. map_of (rb_state s)"
  by unfold_locales (simp_all add: redb_ops_def redb_get_state_def redb_put_state_def
      redb_delete_state_def redb_list_state_keys_def txn_step_def txn_ok_def in_txn_def)

interpretation mem_healthy: healthy_seam mem_ops "\<lambda>s. btree_wf (ms_state s)" "\<lambda>s. map_of (ms_state s)"
proof unfold_locales
  fix s :: mem_store and k p :: string and v bs and r :: "core_error + unit" and s' ks
  assume wf: "btree_wf (ms_state s)"
  note ops = mem_ops_def mem_get_state_def mem_put_state_def mem_delete_state_def mem_list_state_keys_def
  show "v = map_of (ms_state s) k" if "so_get mem_ops k s = Inr v"
    using that by (simp add: ops)
  show "btree_wf (ms_state s') \<and> map_of (ms_state s') =
      (if is_ok r then (map_of (ms_state s))(k \<mapsto> bs) else map_of (ms_state s))"
    if "so_put mem_ops k bs s = (r, s')"
    using that wf by (auto simp: ops map_of_btree_insert btree_wf_insert)
  show "btree_wf (ms_state s') \<and> map_of (ms_state s') =
      (if is_ok r then (map_of (ms_state s))(k := None) else map_of (ms_state s))"
    if "so_delete mem_ops k s = (r, s')"
    using that wf by (auto simp: ops map_of_btree_remove btree_wf_remove)
  show "finite (dom (map_of (ms_state s)))" by (rule finite_dom_map_of)
  show "ks = sorted_list_of_set {k \<in> dom (map_of (ms_state s)). starts_with k p}"
    if "so_list mem_ops p s = Inr ks"
  proof -
    have "sorted (filter (\<lambda>k. starts_with k p) (map fst (ms_state s)))"
      unfolding filter_keys_sorted [OF wf] by simp
    with that show ?thesis
      by (simp add: ops filter_keys_sorted [OF wf, symmetric] sorted_sort_id)
  qed
  show "is_ok (so_get mem_ops k s)" "is_ok (fst (so_put mem_ops k bs s))"
    "is_ok (fst (so_delete mem_ops k s))" "is_ok (so_list mem_ops p s)" by (simp_all add: ops)
qed

section \<open>Properties\<close>

text \<open>A history of host operations on a redb store, each under its own transaction faults.\<close>

definition redb_history ::
  "flow_env \<Rightarrow> 's flow_runner \<Rightarrow> (redb_txn \<times> 's flow_op) list \<Rightarrow> redb_store flow_world \<Rightarrow>
     redb_store flow_world" where
  "redb_history E F ops w = fold (\<lambda>(txn, op) w. snd (flow_op (redb_ops txn) E F op w)) ops w"

definition acks_below :: "string \<Rightarrow> nat \<Rightarrow> 's flow_op \<Rightarrow> bool" where
  "acks_below fid n op = (case op of Acknowledge g k \<Rightarrow> g = fid \<longrightarrow> k < n | _ \<Rightarrow> True)"

lemma redb_history_busy:
  assumes "btree_wf (rb_state (fw_storage w))" "codec_ok E F"
    "progress_of E F fid (map_of (rb_state (fw_storage w))) = Some (Busy s e n)"
    "try_apply F s e = Some tr" "n < length (tr_actions tr)"
    "list_all (\<lambda>(txn, op). acks_below fid (length (tr_actions tr)) op) ops"
  shows "btree_wf (rb_state (fw_storage (redb_history E F ops w))) \<and>
    (\<exists>n'. progress_of E F fid (map_of (rb_state (fw_storage (redb_history E F ops w)))) = Some (Busy s e n') \<and>
      n' < length (tr_actions tr) \<and> (n' = n \<or> (\<exists>txn. (txn, Acknowledge fid n') \<in> set ops)))"
  using assms(1,3,5,6)
proof (induction ops arbitrary: w n)
  case Nil
  then show ?case by (simp add: redb_history_def)
next
  case (Cons x ops)
  obtain txn op where x: "x = (txn, op)" by (cases x)
  obtain r w1 where h: "flow_op (redb_ops txn) E F op w = (r, w1)"
    by (cases "flow_op (redb_ops txn) E F op w")
  have "k < length (tr_actions tr)" if "op = Acknowledge fid k" for k
    using Cons.prems(4) that x by (simp add: acks_below_def)
  from redb_seam.flow_op_busy [OF Cons.prems(1) assms(2) Cons.prems(2) assms(4) Cons.prems(3) this h]
  obtain n1 where n1: "btree_wf (rb_state (fw_storage w1))"
    "progress_of E F fid (map_of (rb_state (fw_storage w1))) = Some (Busy s e n1)"
    "n1 < length (tr_actions tr)" "n1 = n \<or> op = Acknowledge fid n1" by blast
  have "redb_history E F (x # ops) w = redb_history E F ops w1"
    by (simp add: redb_history_def x h)
  with Cons.IH [OF n1(1-3)] Cons.prems(4) n1(4) x show ?case by auto
qed

text \<open>
  C9.  No action is lost.  While a flow has a transition whose actions are not all acknowledged, no
  sequence of deliveries, partial acknowledgements, restarts and storage faults moves it off that
  transition, and with the store reachable again every delivery hands out exactly the actions after
  the last acknowledged count, which is the old one or one the host acknowledged.
\<close>

theorem no_action_lost:
  assumes "btree_wf (rb_state (fw_storage w))" "codec_ok E F"
    "progress_of E F fid (map_of (rb_state (fw_storage w))) = Some (Busy s e n)"
    "try_apply F s e = Some tr" "n < length (tr_actions tr)"
    "list_all (\<lambda>(txn, op). acks_below fid (length (tr_actions tr)) op) ops"
  shows "\<exists>n'. n' < length (tr_actions tr) \<and> (n' = n \<or> (\<exists>txn. (txn, Acknowledge fid n') \<in> set ops)) \<and>
    handle (redb_ops txn_ok) E F fid init ev (redb_history E F ops w) =
      (Inr (Some \<lparr>fo_state = tr_state tr, fo_actions = drop n' (tr_actions tr), fo_completed = False\<rparr>),
       redb_history E F ops w)"
proof -
  let ?w = "redb_history E F ops w"
  from redb_history_busy [OF assms] obtain n' where
    wf: "btree_wf (rb_state (fw_storage ?w))" and
    p: "progress_of E F fid (map_of (rb_state (fw_storage ?w))) = Some (Busy s e n')" and
    n': "n' < length (tr_actions tr)" "n' = n \<or> (\<exists>txn. (txn, Acknowledge fid n') \<in> set ops)" by blast
  obtain c where load: "load_checkpoint (redb_ops txn_ok) E fid (fw_storage ?w) = Inr c"
    using redb_healthy.load_ok [OF wf p] by (auto simp: is_ok_iff)
  from redb_seam.load_progress [OF wf load p] obtain k where
    "c = Some k" "fs_from_value (fr_state F) (ck_state k) = Some s" "ck_pending_event k = Some e"
    "ck_next_action k = n'" by auto
  then have "handle (redb_ops txn_ok) E F fid init ev ?w =
      (Inr (Some \<lparr>fo_state = tr_state tr, fo_actions = drop n' (tr_actions tr), fo_completed = False\<rparr>), ?w)"
    using load assms(4) n'(1) by (simp add: handle_def)
  then show ?thesis using n' by blast
qed

text \<open>
  C8.  A host that executes and acknowledges what it is handed sees the pure state machine of the
  flow: over a redb store without faults the emitted actions are those of the transitions, in order,
  and the stored progress is the machine's state; a run can only fail in the JSON encoder or the clock.
\<close>

theorem durable_run:
  assumes "btree_wf (rb_state (fw_storage w))" "codec_ok E F"
    "progress_of E F fid (map_of (rb_state (fw_storage w))) = Some (idle cur)"
  shows "case drive (redb_ops txn_ok) E F fid init es w of
      (Inl x, w') \<Rightarrow> encoder_error x
    | (Inr as, w') \<Rightarrow> as = fst (flow_run F init cur es) \<and>
        current_state (redb_ops txn_ok) E F fid w' = Inr (snd (flow_run F init cur es))"
proof -
  obtain r w' where d: "drive (redb_ops txn_ok) E F fid init es w = (r, w')"
    by (cases "drive (redb_ops txn_ok) E F fid init es w")
  note ref = redb_healthy.drive_refines [OF assms d]
  show ?thesis
  proof (cases r)
    case (Inr as)
    then have wf: "btree_wf (rb_state (fw_storage w'))" and p: "progress_of E F fid (map_of (rb_state (fw_storage w'))) =
        Some (idle (snd (flow_run F init cur es)))" using ref by simp_all
    obtain c where load: "load_checkpoint (redb_ops txn_ok) E fid (fw_storage w') = Inr c"
      using redb_healthy.load_ok [OF wf p] by (auto simp: is_ok_iff)
    from redb_seam.load_progress [OF wf load p]
    have "current_state (redb_ops txn_ok) E F fid w' = Inr (snd (flow_run F init cur es))"
      using load by (auto simp: current_state_def res_simps idle_def split: option.splits)
    then show ?thesis using ref d Inr by simp
  qed (use ref d in simp)
qed

text \<open>A history in which every operation succeeds.\<close>

definition succeeds ::
  "flow_env \<Rightarrow> 's flow_runner \<Rightarrow> redb_store flow_world \<Rightarrow> redb_txn \<times> 's flow_op \<Rightarrow>
     workflow_error + redb_store flow_world" where
  "succeeds E F w x = (case x of (txn, op) \<Rightarrow>
     (case flow_op (redb_ops txn) E F op w of (Inl x, _) \<Rightarrow> Inl x | (Inr _, w') \<Rightarrow> Inr w'))"

lemma succeeds_synced:
  assumes "codec_ok E F" "try_fold (succeeds E F) w ops = Inr w'"
    "btree_wf (rb_state (fw_storage w))" "synced E F (map_of (rb_state (fw_storage w))) (fw_triage w)"
    "\<And>fid. progress_of E F fid (map_of (rb_state (fw_storage w))) \<noteq> None"
  shows "btree_wf (rb_state (fw_storage w')) \<and> synced E F (map_of (rb_state (fw_storage w'))) (fw_triage w')"
  using assms(2-)
proof (induction ops arbitrary: w)
  case (Cons x ops)
  obtain txn op where x: "x = (txn, op)" by (cases x)
  obtain r w1 where h: "flow_op (redb_ops txn) E F op w = (r, w1)"
    by (cases "flow_op (redb_ops txn) E F op w")
  then have "succeeds E F w x = (case r of Inl y \<Rightarrow> Inl y | Inr _ \<Rightarrow> Inr w1)"
    using x by (simp add: succeeds_def split: sum.splits)
  with Cons.prems(1) obtain out where r: "r = Inr out" "try_fold (succeeds E F) w1 ops = Inr w'"
    by (cases r) auto
  note step = redb_seam.flow_op_synced [OF Cons.prems(2) assms(1) Cons.prems(3,4) h [unfolded r(1)]]
  show ?case
    using Cons.IH [OF r(2) redb_seam.flow_op_inv [OF Cons.prems(2) assms(1) h] step] .
qed simp

text \<open>
   Restart transparency of the triage view.  If every operation of a history succeeded, each
  under its own storage faults, then discovering the flows from the stored checkpoints gives exactly
  the live view, hence the same stuck flows.
\<close>

theorem discover_equals_live:
  assumes "codec_ok E F" "try_fold (succeeds E F) \<lparr>fw_storage = redb_open, fw_triage = [], fw_reads = 0\<rparr> ops = Inr w"
  shows "discover (redb_ops txn_ok) E (fw_storage w) = Inr (fw_triage w)"
proof -
  have "synced E F (map_of (rb_state redb_open)) []"
    by (simp add: redb_open_def synced_def mirrors_def)
  then have w: "btree_wf (rb_state (fw_storage w))"
    "synced E F (map_of (rb_state (fw_storage w))) (fw_triage w)"
    using succeeds_synced [OF assms] by (auto simp: redb_open_def progress_of_def)
  obtain t where t: "discover (redb_ops txn_ok) E (fw_storage w) = Inr t"
    using redb_healthy.discover_ok [OF w(1)] by (auto simp: is_ok_iff)
  with redb_seam.discover_synced [OF w t] show ?thesis by simp
qed


section \<open>Instances\<close>

text \<open>
  A concrete environment: the checkpoints of one run of the shipment to receipt flow are numbered,
  and the clock stands still.
\<close>

definition receipt_codec :: "receipt_flow_state state_codec" where
  "receipt_codec =
     (\<lambda>s. Some (case s of
         ReceiptAwaitingLot \<Rightarrow> Array []
       | ReceiptLotAnchored a b \<Rightarrow> Array [String a, String b]
       | ReceiptCompleted a \<Rightarrow> Array [String a]),
      \<lambda>v. case v of
         Array [] \<Rightarrow> Some ReceiptAwaitingLot
       | Array [String a, String b] \<Rightarrow> Some (ReceiptLotAnchored a b)
       | Array [String a] \<Rightarrow> Some (ReceiptCompleted a)
       | _ \<Rightarrow> None)"

definition table_env :: "checkpoint list \<Rightarrow> flow_env" where
  "table_env T = \<lparr>
     fe_encode = (\<lambda>c. map_option (\<lambda>i. [of_nat i]) (map_of (zip T [0..<length T]) c)),
     fe_decode = (\<lambda>bs. case bs of [b] \<Rightarrow> if unat b < length T then Some (T ! unat b) else None | _ \<Rightarrow> None),
     fe_clock = (\<lambda>_. Some 0)\<rparr>"

lemma table_env_roundtrip:
  assumes "length T \<le> 256" "fe_encode (table_env T) c = Some bs"
  shows "fe_decode (table_env T) bs = Some c"
proof -
  from assms(2) obtain i where i: "map_of (zip T [0..<length T]) c = Some i" "bs = [of_nat i]"
    by (auto simp: table_env_def)
  from map_of_SomeD [OF i(1)] have "i < length T" "T ! i = c" by (auto simp: in_set_zip)
  then show ?thesis using assms(1) i(2) by (simp add: table_env_def unat_of_nat take_bit_eq_mod)
qed

definition demo_lot :: canonical_record where
  "demo_lot = (new_record ''lot1'' 10 ''lot'' [] ''acme'')\<lparr>cr_commitment := Some ''c''\<rparr>"

definition demo_shipment :: canonical_record where
  "demo_shipment = new_record ''shipment:po:1:lot1'' 20 ''shipment'' [(''lot_ref'', String ''lot1'')] ''acme''"

definition demo_flow :: "receipt_flow_state flow_runner" where
  "demo_flow = shipment_receipt_flow receipt_codec ''org'' ''org'' ''2026-01-01''"

definition demo_receipt :: canonical_record where
  "demo_receipt = build_receipt demo_shipment
     \<lparr>sr_receiver_id = ''org'', sr_issuer = ''org'', sr_received_on = ''2026-01-01''\<rparr>"

definition demo_checkpoint :: "event option \<Rightarrow> checkpoint" where
  "demo_checkpoint e = \<lparr>ck_flow_id = ''f'', ck_flow_kind = ''shipment_receipt'',
     ck_state = Array [String ''lot1'', String ''c''], ck_pending_event = e, ck_next_action = 0,
     ck_step = ''lot_anchored'', ck_updated_at = 0\<rparr>"

definition demo_env :: flow_env where
  "demo_env = table_env [demo_checkpoint None, demo_checkpoint (Some (RecordCommitted demo_shipment))]"

definition demo_world :: "bytes \<Rightarrow> redb_store flow_world" where
  "demo_world b = \<lparr>fw_storage = redb_open\<lparr>rb_state := [(checkpoint_key ''f'', b)]\<rparr>, fw_triage = [],
     fw_reads = 0\<rparr>"

lemma demo_codec: "codec_ok demo_env demo_flow"
proof -
  have "fs_from_value (fr_state demo_flow) v = Some s" if "fs_to_value (fr_state demo_flow) s = Some v" for s v
    using that by (cases s) (auto simp: demo_flow_def shipment_receipt_flow_def flow_state_def receipt_codec_def)
  moreover have "fe_decode demo_env bs = Some c" if "fe_encode demo_env c = Some bs" for c bs
    using that unfolding demo_env_def by (intro table_env_roundtrip) simp_all
  ultimately show ?thesis by (simp add: codec_ok_def)
qed

lemma demo_apply:
  "try_apply demo_flow ReceiptAwaitingLot (RecordCommitted demo_lot) =
     Some (transition_result (ReceiptLotAnchored ''lot1'' ''c'') [] False)"
  "try_apply demo_flow (ReceiptLotAnchored ''lot1'' ''c'') (RecordCommitted demo_shipment) =
     Some (transition_result (ReceiptCompleted (cr_record_id demo_receipt)) [EmitRecord demo_receipt] True)"
  by (simp_all add: try_apply_def demo_flow_def flow_simps record_committed_def demo_lot_def
      demo_shipment_def demo_receipt_def new_record_def payload_is_def as_str_def Let_def)

lemma demo_from_value [simp]:
  "fs_from_value (fr_state demo_flow) (Array [String a, String b]) = Some (ReceiptLotAnchored a b)"
  by (simp add: demo_flow_def shipment_receipt_flow_def flow_state_def receipt_codec_def)

lemma demo_progress:
  "progress_of demo_env demo_flow ''f'' (map_of (rb_state (fw_storage (demo_world [1])))) =
     Some (Busy (ReceiptLotAnchored ''lot1'' ''c'') (RecordCommitted demo_shipment) 0)"
  by (simp add: progress_of_def demo_world_def demo_env_def table_env_def demo_checkpoint_def
      demo_apply)

theorem no_action_lost_witness:
  "handle (redb_ops txn_ok) demo_env demo_flow ''f'' ReceiptAwaitingLot (Woken ''x'')
     (redb_history demo_env demo_flow
       [(txn_ok\<lparr>txn_begin := Some ''io''\<rparr>, Deliver ''f'' ReceiptAwaitingLot (Resumed ''boot'')),
        (txn_ok, Restart), (txn_ok\<lparr>txn_commit := Some ''io''\<rparr>, Acknowledge ''f'' 0)] (demo_world [1])) =
   (Inr (Some \<lparr>fo_state = ReceiptCompleted (cr_record_id demo_receipt),
       fo_actions = [EmitRecord demo_receipt], fo_completed = False\<rparr>),
    redb_history demo_env demo_flow
       [(txn_ok\<lparr>txn_begin := Some ''io''\<rparr>, Deliver ''f'' ReceiptAwaitingLot (Resumed ''boot'')),
        (txn_ok, Restart), (txn_ok\<lparr>txn_commit := Some ''io''\<rparr>, Acknowledge ''f'' 0)] (demo_world [1]))"
proof -
  have "btree_wf (rb_state (fw_storage (demo_world [1])))" by (simp add: demo_world_def btree_wf_def)
  from no_action_lost [OF this demo_codec demo_progress demo_apply(2), of
      "[(txn_ok\<lparr>txn_begin := Some ''io''\<rparr>, Deliver ''f'' ReceiptAwaitingLot (Resumed ''boot'')),
        (txn_ok, Restart), (txn_ok\<lparr>txn_commit := Some ''io''\<rparr>, Acknowledge ''f'' 0)]"
      ReceiptAwaitingLot "Woken ''x''"]
  show ?thesis by (auto simp: transition_result_def acks_below_def)
qed

text \<open>One run of the flow from an empty store.\<close>

lemma demo_to_value [simp]:
  "fs_to_value (fr_state demo_flow) (ReceiptLotAnchored a b) = Some (Array [String a, String b])"
  "fs_step (fr_state demo_flow) (ReceiptLotAnchored a b) = ''lot_anchored''"
  "fr_kind demo_flow = ''shipment_receipt''"
  by (simp_all add: demo_flow_def shipment_receipt_flow_def flow_state_def receipt_codec_def receipt_step_def)

lemma demo_save:
  "save_checkpoint (redb_ops txn_ok) demo_env demo_flow ''f'' (ReceiptLotAnchored ''lot1'' ''c'') pe 0 w =
     (Inr (), w\<lparr>fw_storage := (fw_storage w)\<lparr>rb_state := btree_insert (checkpoint_key ''f'')
          [if pe = None then 0 else 1] (rb_state (fw_storage w))\<rparr>,
        fw_reads := fw_reads w + 1,
        fw_triage := triage_record ''f'' ''shipment_receipt'' ''lot_anchored'' 0 (fw_triage w)\<rparr>)"
  if "pe \<in> {None, Some (RecordCommitted demo_shipment)}"
proof -
  have "fe_encode demo_env (demo_checkpoint pe) = Some [if pe = None then 0 else 1]" "fe_clock demo_env k = Some 0" for k
    using that by (auto simp: demo_env_def table_env_def demo_checkpoint_def)
  then show ?thesis
    by (simp add: save_checkpoint_def save_def demo_checkpoint_def redb_ops_def redb_put_state_def
        txn_step_def txn_ok_def in_txn_def)
qed

lemma demo_deliver:
  "handle (redb_ops txn_ok) demo_env demo_flow ''f'' ReceiptAwaitingLot (RecordCommitted demo_lot)
     \<lparr>fw_storage = redb_open, fw_triage = [], fw_reads = 0\<rparr> =
   (Inr (Some \<lparr>fo_state = ReceiptLotAnchored ''lot1'' ''c'', fo_actions = [], fo_completed = False\<rparr>),
    \<lparr>fw_storage = redb_open\<lparr>rb_state := [(checkpoint_key ''f'', [0])]\<rparr>,
     fw_triage = triage_record ''f'' ''shipment_receipt'' ''lot_anchored'' 0 [], fw_reads = 1\<rparr>)"
proof -
  have "load_checkpoint (redb_ops txn_ok) demo_env ''f'' redb_open = Inr None"
    by (simp add: load_checkpoint_def redb_ops_def redb_get_state_def txn_step_def txn_ok_def redb_open_def
        res_simps)
  then show ?thesis
    by (simp add: handle_def is_resumed_def handle_event_def demo_apply transition_result_def
        finalize_def demo_save) (simp add: redb_open_def)
qed

theorem durable_run_witness:
  "case drive (redb_ops txn_ok) demo_env demo_flow ''f'' ReceiptAwaitingLot
       [RecordCommitted demo_lot, Resumed ''boot'', RecordCommitted demo_shipment]
       \<lparr>fw_storage = redb_open, fw_triage = [], fw_reads = 0\<rparr> of
     (Inl x, w') \<Rightarrow> encoder_error x
   | (Inr as, w') \<Rightarrow> as = [EmitRecord demo_receipt] \<and>
       current_state (redb_ops txn_ok) demo_env demo_flow ''f'' w' = Inr None"
proof -
  have run: "flow_run demo_flow ReceiptAwaitingLot None
      [RecordCommitted demo_lot, Resumed ''boot'', RecordCommitted demo_shipment] = ([EmitRecord demo_receipt], None)"
    by (simp add: is_resumed_def demo_apply)
  have w: "btree_wf (rb_state (fw_storage \<lparr>fw_storage = redb_open, fw_triage = [], fw_reads = 0\<rparr>))"
    "progress_of demo_env demo_flow ''f'' (map_of (rb_state (fw_storage
       \<lparr>fw_storage = redb_open, fw_triage = [], fw_reads = 0\<rparr>))) = Some (idle None)"
    by (simp_all add: redb_open_def progress_of_def idle_def)
  show ?thesis
    using durable_run [OF w(1) demo_codec w(2), of ReceiptAwaitingLot
        "[RecordCommitted demo_lot, Resumed ''boot'', RecordCommitted demo_shipment]"]
    by (simp only: run fst_conv snd_conv)
qed

theorem discover_equals_live_witness:
  "discover (redb_ops txn_ok) demo_env (redb_open\<lparr>rb_state := [(checkpoint_key ''f'', [0])]\<rparr>) =
     Inr (triage_record ''f'' ''shipment_receipt'' ''lot_anchored'' 0 [])"
  using discover_equals_live [OF demo_codec, of
      "[(txn_ok, Deliver ''f'' ReceiptAwaitingLot (RecordCommitted demo_lot))]"]
  by (simp add: succeeds_def flow_op_def demo_deliver)

end
