(* ===== verification/FlowRecords.thy ===== *)
theory FlowRecords
  imports Flows
begin

text \<open>
  The records that the flows of \<open>Flows\<close> emit, against the record validator of \<open>Canonical\<close> and the
  transaction pool of \<open>Ledger\<close>.
\<close>

section \<open>The records the flows emit\<close>

text \<open>A record that some transition of a flow emits on some event.\<close>

definition emits :: "'s flow_runner \<Rightarrow> 's \<Rightarrow> event \<Rightarrow> canonical_record \<Rightarrow> bool" where
  "emits F s e r \<longleftrightarrow>
     (\<exists>t. t \<in> set (fr_transitions F) \<and> tn_matches t s e \<and> EmitRecord r \<in> set (tr_actions (tn_apply t s e)))"

lemma lookup_families:
  "lookup_schema (from_static E) ''purchase_order'' 1 =
     Some \<lparr>se_descriptor = SCHEMA_V1 ! 4, se_schema_hash = descriptor_hash E (SCHEMA_V1 ! 4)\<rparr>"
  "lookup_schema (from_static E) ''shipment'' 1 =
     Some \<lparr>se_descriptor = SCHEMA_V1 ! 5, se_schema_hash = descriptor_hash E (SCHEMA_V1 ! 5)\<rparr>"
  "lookup_schema (from_static E) ''delivery_receipt'' 1 =
     Some \<lparr>se_descriptor = SCHEMA_V1 ! 7, se_schema_hash = descriptor_hash E (SCHEMA_V1 ! 7)\<rparr>"
  "lookup_schema (from_static E) ''inventory_transformation'' 1 =
     Some \<lparr>se_descriptor = SCHEMA_V1 ! 8, se_schema_hash = descriptor_hash E (SCHEMA_V1 ! 8)\<rparr>"
  "lookup_schema (from_static E) ''recall'' 1 =
     Some \<lparr>se_descriptor = SCHEMA_V1 ! 9, se_schema_hash = descriptor_hash E (SCHEMA_V1 ! 9)\<rparr>"
  "lookup_schema (from_static E) ''quality_certification'' 1 =
     Some \<lparr>se_descriptor = SCHEMA_V1 ! 10, se_schema_hash = descriptor_hash E (SCHEMA_V1 ! 10)\<rparr>"
  "lookup_schema (from_static E) ''audit_attestation'' 1 =
     Some \<lparr>se_descriptor = SCHEMA_V1 ! 11, se_schema_hash = descriptor_hash E (SCHEMA_V1 ! 11)\<rparr>"
  by (simp_all add: lookup_schema_map_of from_static_def map_of_btree_of_list SCHEMA_V1_def)

lemma family_descriptors:
  "SCHEMA_V1 ! 4 = \<lparr>sd_schema_id = ''purchase_order'', sd_version = 1,
     sd_required = [''product_id'', ''buyer_id'', ''seller_id'', ''quantity'', ''currency''],
     sd_optional = [], sd_anchored = False, sd_status_values = None\<rparr>"
  "SCHEMA_V1 ! 5 = \<lparr>sd_schema_id = ''shipment'', sd_version = 1,
     sd_required = [''lot_ref'', ''from_org'', ''to_org''],
     sd_optional = [], sd_anchored = False, sd_status_values = None\<rparr>"
  "SCHEMA_V1 ! 7 = \<lparr>sd_schema_id = ''delivery_receipt'', sd_version = 1,
     sd_required = [''shipment_ref'', ''receiver_id'', ''received_at''],
     sd_optional = [], sd_anchored = False, sd_status_values = None\<rparr>"
  "SCHEMA_V1 ! 8 = \<lparr>sd_schema_id = ''inventory_transformation'', sd_version = 1,
     sd_required = [''lot_ref'', ''transformation_type''],
     sd_optional = [], sd_anchored = False, sd_status_values = None\<rparr>"
  "SCHEMA_V1 ! 9 = \<lparr>sd_schema_id = ''recall'', sd_version = 1,
     sd_required = [''lot_ref'', ''reason'', ''status'', ''issued_by''],
     sd_optional = [], sd_anchored = False, sd_status_values = Some [''issued'', ''active'', ''completed'']\<rparr>"
  "SCHEMA_V1 ! 10 = \<lparr>sd_schema_id = ''quality_certification'', sd_version = 1,
     sd_required = [''lot_ref'', ''issuer'', ''scope'', ''valid_from'', ''valid_to'', ''status'',
       ''evidence_manifest''],
     sd_optional = [], sd_anchored = True, sd_status_values = Some [''valid'', ''suspended'', ''revoked'']\<rparr>"
  "SCHEMA_V1 ! 11 = \<lparr>sd_schema_id = ''audit_attestation'', sd_version = 1,
     sd_required = [''lot_ref'', ''issuer'', ''scope'', ''valid_from'', ''valid_to'', ''status'',
       ''evidence_manifest''],
     sd_optional = [], sd_anchored = True, sd_status_values = Some [''valid'', ''suspended'', ''revoked'']\<rparr>"
  by (simp_all add: SCHEMA_V1_def)

lemmas record_checks = validate_record_def validate_record_with_Inr_iff find_family_Inr_iff
  check_envelope_Inr_iff check_payload_Inr_iff check_anchor_Inr_iff check_status_Inr_iff
  check_family_def lookup_families family_descriptors keys_btree_of_list map_of_btree_of_list
  is_present_def looks_like_legacy_asset_def LEGACY_ASSET_KEYS_def get_str_def as_str_def as_object_def

lemma build_purchase_order_valid:
  assumes "ss \<noteq> []"
  shows "validate_record E ((build_purchase_order rfq c)\<lparr>cr_signatures := ss\<rparr>) = Inr () \<longleftrightarrow>
    pf_product_id c \<noteq> [] \<and> pf_org c \<noteq> [] \<and> pf_counterparty c \<noteq> [] \<and> pf_currency c \<noteq> []"
  using assms by (auto simp: build_purchase_order_def record_checks)

lemma build_shipment_valid:
  assumes "ss \<noteq> []"
  shows "validate_record E ((build_shipment po t c)\<lparr>cr_signatures := ss\<rparr>) = Inr () \<longleftrightarrow>
    pf_lot_ref c \<noteq> [] \<and> pf_org c \<noteq> [] \<and> pf_counterparty c \<noteq> []"
  using assms by (auto simp: build_shipment_def record_checks)

lemma build_receipt_valid:
  assumes "ss \<noteq> []"
  shows "validate_record E ((build_receipt shipment t)\<lparr>cr_signatures := ss\<rparr>) = Inr () \<longleftrightarrow>
    cr_record_id shipment \<noteq> [] \<and> sr_receiver_id t \<noteq> [] \<and> sr_issuer t \<noteq> [] \<and>
    sr_received_on t \<noteq> [] \<and> is_valid_iso8601_date (sr_received_on t)"
  using assms by (auto simp: build_receipt_def record_checks check_delivery_receipt_def)

lemma build_recall_valid:
  assumes "ss \<noteq> []" "status \<in> {''issued'', ''active'', ''completed''}"
  shows "validate_record E ((build_recall lot reason status c)\<lparr>cr_signatures := ss\<rparr>) = Inr () \<longleftrightarrow>
    lot \<noteq> [] \<and> reason \<noteq> [] \<and> rc_issuer c \<noteq> []"
  using assms by (auto simp: build_recall_def record_checks)

lemma build_response_valid:
  assumes "ss \<noteq> []"
  shows "validate_record E ((build_response lot ty c)\<lparr>cr_signatures := ss\<rparr>) = Inr () \<longleftrightarrow>
    lot \<noteq> [] \<and> ty \<noteq> [] \<and> rr_org c \<noteq> []"
  using assms by (auto simp: build_response_def record_checks)

lemma build_attestation_valid:
  assumes "ss \<noteq> []" "ac_family c \<in> {''quality_certification'', ''audit_attestation''}"
    and hex: "is_hex64 (manifest_commitment E lc c)"
    and ser: "\<And>r. ser_record E (canonical_tuple r) \<noteq> None"
    and dates: "is_valid_iso8601_date (ac_valid_from c)" "is_valid_iso8601_date (ac_valid_to c)"
    "ac_valid_from c \<noteq> []" "ac_valid_to c \<noteq> []"
  shows "validate_record E ((build_attestation E lot lc c)\<lparr>cr_signatures := ss\<rparr>) = Inr () \<longleftrightarrow>
    lot \<noteq> [] \<and> ac_issuer c \<noteq> [] \<and> ac_scope c \<noteq> [] \<and> ac_valid_from c \<le> ac_valid_to c"
proof -
  define pl where "pl = btree_of_list [(''lot_ref'', String lot), (''issuer'', String (ac_issuer c)),
    (''scope'', String (ac_scope c)), (''valid_from'', String (ac_valid_from c)),
    (''valid_to'', String (ac_valid_to c)), (''status'', String ''valid''),
    (''evidence_manifest'', Object [(''manifest_commitment'', String (manifest_commitment E lc c))])]"
  define r where "r = new_record (ac_family c @ '':'' @ lot) (ac_issued_at c) (ac_family c) pl (ac_issuer c)"
  obtain x where x: "commitment E r = Inr x"
    using ser [of r] by (auto simp: commitment_def canonical_form_def res_simps)
  define r' where "r' = r\<lparr>cr_commitment := Some x, cr_signatures := ss\<rparr>"
  have r': "(build_attestation E lot lc c)\<lparr>cr_signatures := ss\<rparr> = r'"
    using x unfolding r'_def build_attestation_def pl_def [symmetric] r_def [symmetric] by (simp add: Let_def)
  have env: "check_envelope r' = Inr () \<longleftrightarrow> ac_issuer c \<noteq> []"
    using assms(1,2) by (auto simp: r'_def r_def check_envelope_Inr_iff)
  have vals: "map_of pl ''lot_ref'' = Some (String lot)" "map_of pl ''issuer'' = Some (String (ac_issuer c))"
    "map_of pl ''scope'' = Some (String (ac_scope c))" "map_of pl ''valid_from'' = Some (String (ac_valid_from c))"
    "map_of pl ''valid_to'' = Some (String (ac_valid_to c))" "map_of pl ''status'' = Some (String ''valid'')"
    "map_of pl ''evidence_manifest'' =
       Some (Object [(''manifest_commitment'', String (manifest_commitment E lc c))])"
    "map_of pl ''gtin'' = None" "map_of pl ''serial_number'' = None"
    "map_of pl ''anvisa_registration'' = None" "map_of pl ''manufacturer_id'' = None"
    by (simp_all add: pl_def map_of_btree_of_list)
  have keys: "fst ` set pl = {''lot_ref'', ''issuer'', ''scope'', ''valid_from'', ''valid_to'', ''status'',
      ''evidence_manifest''}"
    by (simp add: pl_def keys_btree_of_list)
  have cert: "check_certification pl = Inr () \<longleftrightarrow> ac_valid_from c \<le> ac_valid_to c"
    using dates hex by (auto simp: check_certification_def Let_def get_str_def as_str_def as_object_def vals)
  have status: "get_str pl ''status'' = ''valid''" by (simp add: get_str_def as_str_def vals)
  have anchor: "commitment E r' = Inr x" "cr_commitment r' = Some x" "cr_payload r' = pl"
    "cr_extensions r' = []" "cr_schema_id r' = ac_family c" "cr_schema_version r' = 1"
    using x by (simp_all add: r'_def r_def)
  have payload: "check_payload d pl = Inr () \<longleftrightarrow> lot \<noteq> [] \<and> ac_issuer c \<noteq> [] \<and> ac_scope c \<noteq> []"
    if "sd_required d = [''lot_ref'', ''issuer'', ''scope'', ''valid_from'', ''valid_to'', ''status'',
       ''evidence_manifest'']" for d
    using dates(3,4) by (simp add: check_payload_Inr_iff that keys vals is_present_def
        looks_like_legacy_asset_def LEGACY_ASSET_KEYS_def)
  have family: "validate_record E r' = Inr () \<longleftrightarrow> check_envelope r' = Inr () \<and> check_payload d pl = Inr () \<and>
      check_certification pl = Inr ()"
    if "lookup_schema (from_static E) (ac_family c) 1 = Some \<lparr>se_descriptor = d, se_schema_hash = h\<rparr>"
      "sd_schema_id d = ac_family c" "sd_anchored d" "sd_status_values d = Some vs" "''valid'' \<in> set vs" for d h vs
    using assms(2) by (simp add: validate_record_def validate_record_with_Inr_iff find_family_Inr_iff
        that anchor check_family_def check_status_Inr_iff check_anchor_Inr_iff status) auto
  note qc = lookup_families(6) [of E, unfolded family_descriptors]
  note aa = lookup_families(7) [of E, unfolded family_descriptors]
  from assms(2) have "validate_record E r' = Inr () \<longleftrightarrow> check_envelope r' = Inr () \<and>
      (lot \<noteq> [] \<and> ac_issuer c \<noteq> [] \<and> ac_scope c \<noteq> []) \<and> check_certification pl = Inr ()"
  proof (elim insertE emptyE)
    assume f: "ac_family c = ''quality_certification''"
    from family [OF qc [folded f], of "[''valid'', ''suspended'', ''revoked'']"] show ?thesis
      by (simp add: f payload)
  next
    assume f: "ac_family c = ''audit_attestation''"
    from family [OF aa [folded f], of "[''valid'', ''suspended'', ''revoked'']"] show ?thesis
      by (simp add: f payload)
  qed
  then show ?thesis unfolding r' cert env by blast
qed

text \<open>What each flow emits.\<close>

inductive buyer_record :: "purchase_flow_config \<Rightarrow> canonical_record \<Rightarrow> bool" for c where
  order: "buyer_record c (build_purchase_order rfq c)"
| receipt: "cr_record_id shipment \<noteq> [] \<Longrightarrow> buyer_record c (build_receipt shipment
     \<lparr>sr_receiver_id = pf_org c, sr_issuer = pf_org c, sr_received_on = pf_delivery_on c\<rparr>)"

lemma purchase_emits:
  "emits (buyer_flow C c) s e r \<Longrightarrow> buyer_record c r"
  "emits (seller_flow C c) s e r \<Longrightarrow> \<exists>po t. r = build_shipment po t c"
  by (auto simp: emits_def flow_simps unchanged_def transition_result_def Let_def woken_def
      record_committed_def starts_with_iff intro: buyer_record.intros
      split: purchase_flow_state.splits event.splits option.splits)

lemma response_emits:
  "emits (response_flow C kind c ty) s e r \<Longrightarrow> \<exists>lot recall. s = RecallObserved lot recall \<and> r = build_response lot ty c"
  by (auto simp: emits_def flow_simps unchanged_def transition_result_def Let_def woken_def
      record_committed_def split: recall_response_state.splits event.splits)

lemma attestation_emits:
  "emits (attestation_flow E C family c) s e r \<Longrightarrow> \<exists>lot lc. s = AttestationLotAnchored lot lc \<and>
     r = build_attestation E lot lc (c\<lparr>ac_family := family\<rparr>)"
  by (auto simp: emits_def flow_simps unchanged_def transition_result_def Let_def woken_def
      record_committed_def split: attestation_flow_state.splits event.splits option.splits)

lemma receipt_emits:
  "emits (shipment_receipt_flow C receiver issuer on) s e r \<Longrightarrow> \<exists>shipment. e = RecordCommitted shipment \<and>
     r = build_receipt shipment \<lparr>sr_receiver_id = receiver, sr_issuer = issuer, sr_received_on = on\<rparr>"
  by (auto simp: emits_def flow_simps unchanged_def transition_result_def Let_def
      record_committed_def split: receipt_flow_state.splits event.splits option.splits)

lemma recall_emits:
  "emits (recall_flow C c) s e r \<Longrightarrow>
     (\<exists>lot lc why. s = RecallLotAnchored lot lc \<and> e = Woken (''recall:'' @ why) \<and> r = build_recall lot why ''issued'' c) \<or>
     (\<exists>lot recall why. s = Recalled lot recall why \<and> r = build_recall lot why ''active'' c) \<or>
     (\<exists>lot recall why. s = RecallActive lot recall why \<and> r = build_recall lot why ''completed'' c)"
  by (auto simp: emits_def flow_simps unchanged_def transition_result_def Let_def woken_def
      record_committed_def starts_with_iff split: recall_flow_state.splits event.splits option.splits)

lemma lot_refs [simp]:
  "get_str (cr_payload (build_recall lot why st c)) ''lot_ref'' = lot"
  "get_str (cr_payload (build_recall lot why st c)) ''reason'' = why"
  "get_str (cr_payload (build_response lot ty q)) ''lot_ref'' = lot"
  "get_str (cr_payload (build_attestation E lot lc a)) ''lot_ref'' = lot"
  "get_str (cr_payload (build_receipt shipment t)) ''shipment_ref'' = cr_record_id shipment"
  by (simp_all add: build_recall_def build_response_def build_attestation_def build_receipt_def Let_def get_str_def
      map_of_btree_of_list as_str_def split: sum.splits)

text \<open>A record the validator accepts as soon as the runtime attaches a signature.\<close>

definition admissible :: "'z canon_env_scheme \<Rightarrow> canonical_record \<Rightarrow> bool" where
  "admissible E r \<longleftrightarrow> (\<forall>ss. ss \<noteq> [] \<longrightarrow> validate_record E (r\<lparr>cr_signatures := ss\<rparr>) = Inr ())"

lemma admissible_iff:
  assumes "\<And>ss. ss \<noteq> [] \<Longrightarrow> validate_record E (r\<lparr>cr_signatures := ss\<rparr>) = Inr () \<longleftrightarrow> P"
  shows "admissible E r \<longleftrightarrow> P"
  unfolding admissible_def using assms [of "[x]" for x] assms by blast

definition purchase_config_ok :: "purchase_flow_config \<Rightarrow> bool" where
  "purchase_config_ok p \<longleftrightarrow> pf_org p \<noteq> [] \<and> pf_counterparty p \<noteq> [] \<and> pf_product_id p \<noteq> [] \<and>
     pf_currency p \<noteq> [] \<and> pf_lot_ref p \<noteq> [] \<and> pf_delivery_on p \<noteq> [] \<and>
     is_valid_iso8601_date (pf_delivery_on p)"

definition attestation_config_ok :: "attestation_config \<Rightarrow> bool" where
  "attestation_config_ok a \<longleftrightarrow> ac_issuer a \<noteq> [] \<and> ac_scope a \<noteq> [] \<and> ac_valid_from a \<noteq> [] \<and>
     is_valid_iso8601_date (ac_valid_from a) \<and> is_valid_iso8601_date (ac_valid_to a) \<and>
     ac_valid_from a \<le> ac_valid_to a"

lemma purchase_records_admissible:
  assumes "purchase_config_ok p" "emits (buyer_flow C p) s e r \<or> emits (seller_flow C p) s e r"
  shows "admissible E r"
proof -
  from assms(2) have "buyer_record p r \<or> (\<exists>po t. r = build_shipment po t p)"
    using purchase_emits by blast
  then show ?thesis
    using assms(1) by (auto simp: admissible_def purchase_config_ok_def build_purchase_order_valid
        build_shipment_valid build_receipt_valid elim!: buyer_record.cases)
qed

text \<open>
  C25.  The flows emit admissible records.  Given a hexadecimal digest and a serializer that does not
  fail, every record that a flow emits, in any state and on any event, passes the record validator as
  soon as the runtime attaches a signature, under these conditions: for a buyer or seller flow a
  well-formed configuration (named parties, product, currency and lot, a valid delivery date); for a
  shipment-receipt flow named parties and a valid date, exactly when the shipment it answers has an
  identifier; for a quarantine or dispute flow a named organization, and for a certification or audit
  flow a well-formed configuration, exactly when the lot reference is not empty; for a recall
  flow a named issuer, exactly when neither the lot reference nor the reason is empty: the wake-up
  \<^verbatim>\<open>recall:\<close> without a reason emits a record that no node admits.
\<close>

theorem flow_records_valid:
  assumes "\<And>r. ser_record E (canonical_tuple r) \<noteq> None" "\<And>bs. is_hex64 (sha256 E bs)"
  shows "(purchase_config_ok p \<longrightarrow>
      (\<forall>C s e r. emits (buyer_flow C p) s e r \<or> emits (seller_flow C p) s e r \<longrightarrow> admissible E r)) \<and>
    (receiver \<noteq> [] \<and> issuer \<noteq> [] \<and> on \<noteq> [] \<and> is_valid_iso8601_date on \<longrightarrow>
      (\<forall>C s e r. emits (shipment_receipt_flow C receiver issuer on) s e r \<longrightarrow>
        (admissible E r \<longleftrightarrow> get_str (cr_payload r) ''shipment_ref'' \<noteq> []))) \<and>
    (rr_org q \<noteq> [] \<longrightarrow>
      (\<forall>C s e r. emits (quarantine_flow C q) s e r \<or> emits (dispute_flow C q) s e r \<longrightarrow>
        (admissible E r \<longleftrightarrow> get_str (cr_payload r) ''lot_ref'' \<noteq> []))) \<and>
    (attestation_config_ok a \<longrightarrow>
      (\<forall>C s e r. emits (certification_flow E C a) s e r \<or> emits (audit_flow E C a) s e r \<longrightarrow>
        (admissible E r \<longleftrightarrow> get_str (cr_payload r) ''lot_ref'' \<noteq> []))) \<and>
    (rc_issuer c \<noteq> [] \<longrightarrow>
      (\<forall>C s e r. emits (recall_flow C c) s e r \<longrightarrow>
        (admissible E r \<longleftrightarrow> get_str (cr_payload r) ''lot_ref'' \<noteq> [] \<and> get_str (cr_payload r) ''reason'' \<noteq> [])))"
proof (intro conjI impI allI)
  show "admissible E r" if "purchase_config_ok p"
    "emits (buyer_flow C p) s e r \<or> emits (seller_flow C p) s e r" for C s e r
    using that by (rule purchase_records_admissible)
  show "admissible E r \<longleftrightarrow> get_str (cr_payload r) ''shipment_ref'' \<noteq> []"
    if "receiver \<noteq> [] \<and> issuer \<noteq> [] \<and> on \<noteq> [] \<and> is_valid_iso8601_date on"
      "emits (shipment_receipt_flow C receiver issuer on) s e r" for C s e r
  proof (rule admissible_iff)
    from receipt_emits [OF that(2)] obtain shipment where
      "r = build_receipt shipment \<lparr>sr_receiver_id = receiver, sr_issuer = issuer, sr_received_on = on\<rparr>" by blast
    with that(1) show "validate_record E (r\<lparr>cr_signatures := ss\<rparr>) = Inr () \<longleftrightarrow>
        get_str (cr_payload r) ''shipment_ref'' \<noteq> []" if "ss \<noteq> []" for ss
      using that by (simp add: build_receipt_valid)
  qed
  show "admissible E r \<longleftrightarrow> get_str (cr_payload r) ''lot_ref'' \<noteq> []" if "rr_org q \<noteq> []"
    "emits (quarantine_flow C q) s e r \<or> emits (dispute_flow C q) s e r" for C s e r
  proof (rule admissible_iff)
    from that(2) obtain lot ty where "r = build_response lot ty q" "ty \<noteq> []"
      unfolding quarantine_flow_def dispute_flow_def by (auto dest: response_emits)
    with that(1) show "validate_record E (r\<lparr>cr_signatures := ss\<rparr>) = Inr () \<longleftrightarrow>
        get_str (cr_payload r) ''lot_ref'' \<noteq> []" if "ss \<noteq> []" for ss
      using that by (simp add: build_response_valid)
  qed
  show "admissible E r \<longleftrightarrow> get_str (cr_payload r) ''lot_ref'' \<noteq> []" if a: "attestation_config_ok a"
    "emits (certification_flow E C a) s e r \<or> emits (audit_flow E C a) s e r" for C s e r
  proof (rule admissible_iff)
    from a(2) obtain lot lc f where r: "r = build_attestation E lot lc (a\<lparr>ac_family := f\<rparr>)"
      "f \<in> {''quality_certification'', ''audit_attestation''}"
      unfolding certification_flow_def audit_flow_def by (blast dest: attestation_emits)
    have "ac_valid_to a \<noteq> []" using a(1) by (auto simp: attestation_config_ok_def)
    with a(1) r show "validate_record E (r\<lparr>cr_signatures := ss\<rparr>) = Inr () \<longleftrightarrow>
        get_str (cr_payload r) ''lot_ref'' \<noteq> []" if "ss \<noteq> []" for ss
      using build_attestation_valid [of ss "a\<lparr>ac_family := f\<rparr>" E lc lot] that assms
      by (simp add: attestation_config_ok_def manifest_commitment_def)
  qed
  show "admissible E r \<longleftrightarrow> get_str (cr_payload r) ''lot_ref'' \<noteq> [] \<and> get_str (cr_payload r) ''reason'' \<noteq> []"
    if c: "rc_issuer c \<noteq> []" "emits (recall_flow C c) s e r" for C s e r
  proof (rule admissible_iff)
    from recall_emits [OF c(2)] obtain lot why st where "r = build_recall lot why st c"
      "st \<in> {''issued'', ''active'', ''completed''}" by blast
    with c(1) show "validate_record E (r\<lparr>cr_signatures := ss\<rparr>) = Inr () \<longleftrightarrow>
        get_str (cr_payload r) ''lot_ref'' \<noteq> [] \<and> get_str (cr_payload r) ''reason'' \<noteq> []" if "ss \<noteq> []" for ss
      using that by (simp add: build_recall_valid)
  qed
qed

end
