(* ===== verification/Deals.thy ===== *)
theory Deals
  imports Runner FlowRecords
begin

text \<open>
  Flows of different organisations together, over the records they emit: a purchase between buyer
  and seller, and the custodians of one recalled lot, whose responses meet in the transaction pool.
\<close>

section \<open>A purchase reaches settlement\<close>

text \<open>The seller's configuration of a deal mirrors the buyer's.\<close>

definition mirrored :: "purchase_flow_config \<Rightarrow> purchase_flow_config \<Rightarrow> bool" where
  "mirrored buyer seller \<longleftrightarrow> pf_org seller = pf_counterparty buyer \<and>
     pf_counterparty seller = pf_org buyer \<and> pf_lot_ref seller = pf_lot_ref buyer"

lemma payload_is_records [simp]:
  "payload_is ((build_purchase_order rfq p)\<lparr>cr_signatures := ss\<rparr>) ''buyer_id'' (pf_org p)"
  "payload_is ((build_purchase_order rfq p)\<lparr>cr_signatures := ss\<rparr>) ''seller_id'' (pf_counterparty p)"
  "payload_is ((build_shipment po t p)\<lparr>cr_signatures := ss\<rparr>) ''lot_ref'' (pf_lot_ref p)"
  "payload_is ((build_shipment po t p)\<lparr>cr_signatures := ss\<rparr>) ''from_org'' (pf_org p)"
  "payload_is ((build_shipment po t p)\<lparr>cr_signatures := ss\<rparr>) ''to_org'' (pf_counterparty p)"
  "payload_is ((build_receipt sh q)\<lparr>cr_signatures := ss\<rparr>) ''shipment_ref'' (cr_record_id sh)"
  by (simp_all add: payload_is_def build_purchase_order_def build_shipment_def build_receipt_def
      map_of_btree_of_list as_str_def)

lemma record_sels [simp]:
  "cr_schema_id (build_purchase_order rfq p) = ''purchase_order''"
  "cr_record_id (build_purchase_order rfq p) = ''po:'' @ rfq"
  "cr_schema_id (build_shipment po t p) = ''shipment''"
  "cr_record_id (build_shipment po t p) = ''shipment:'' @ po @ '':'' @ pf_lot_ref p"
  "cr_schema_id (build_receipt sh q) = ''delivery_receipt''"
  "cr_record_id (build_receipt sh q) = ''receipt:'' @ cr_record_id sh"
  "cr_schema_id (build_response lot ty c) = ''inventory_transformation''"
  "cr_record_id (build_response lot ty c) = ''transformation:'' @ lot @ '':'' @ ty"
  "cr_issuer (build_response lot ty c) = rr_org c"
  by (simp_all add: build_purchase_order_def build_shipment_def build_receipt_def build_response_def)

text \<open>The three records of a deal, each on the chain with whatever signatures it was given.\<close>

definition deal_shipment :: "string \<Rightarrow> purchase_flow_config \<Rightarrow> canonical_record" where
  "deal_shipment rfq seller =
     build_shipment (''po:'' @ rfq) (pf_negotiated_at seller + 1) seller"

definition deal_receipt ::
  "string \<Rightarrow> purchase_flow_config \<Rightarrow> purchase_flow_config \<Rightarrow> record_signature list \<Rightarrow> canonical_record" where
  "deal_receipt rfq buyer seller ss = build_receipt ((deal_shipment rfq seller)\<lparr>cr_signatures := ss\<rparr>)
     \<lparr>sr_receiver_id = pf_org buyer, sr_issuer = pf_org buyer, sr_received_on = pf_delivery_on buyer\<rparr>"

lemma buyer_steps:
  "try_apply (buyer_flow C p) (RfqIssued rfq) (Woken (''quote-accepted:'' @ quote)) =
     Some (transition_result (QuoteAccepted rfq quote) [] False)"
  "try_apply (buyer_flow C p) (QuoteAccepted rfq quote) (Woken ''commit-po'') =
     Some (transition_result (AwaitingShipment (''po:'' @ rfq)) [EmitRecord (build_purchase_order rfq p)] False)"
  "try_apply (buyer_flow C p) (Delivered po receipt) (Woken ''settle'') =
     Some (transition_result (Settled po) [] True)"
  by (simp_all add: try_apply_def flow_simps woken_def record_committed_def starts_with_iff
      QUOTE_ACCEPTED_PREFIX_def Let_def)

lemma buyer_receives:
  assumes "mirrored buyer seller"
  shows "try_apply (buyer_flow C buyer) (AwaitingShipment (''po:'' @ rfq))
      (RecordCommitted ((deal_shipment rfq seller)\<lparr>cr_signatures := ss\<rparr>)) =
    Some (transition_result (Delivered (''po:'' @ rfq) (cr_record_id (deal_receipt rfq buyer seller ss)))
      [EmitRecord (deal_receipt rfq buyer seller ss)] False)"
proof -
  let ?r = "(deal_shipment rfq seller)\<lparr>cr_signatures := ss\<rparr>"
  have "payload_is ?r ''lot_ref'' (pf_lot_ref buyer)" "payload_is ?r ''from_org'' (pf_counterparty buyer)"
    "payload_is ?r ''to_org'' (pf_org buyer)" "cr_schema_id ?r = ''shipment''"
    "starts_with (cr_record_id ?r) (''shipment:'' @ (''po:'' @ rfq) @ '':'')"
    using assms payload_is_records(3-5) [where po = "''po:'' @ rfq" and t = "pf_negotiated_at seller + 1"
        and p = seller and ss = ss]
    by (simp_all add: mirrored_def deal_shipment_def starts_with_iff)
  then have "tn_matches (record_delivery_transition buyer) (AwaitingShipment (''po:'' @ rfq)) (RecordCommitted ?r)"
    by (simp add: record_delivery_transition_def record_committed_def)
  moreover have "tn_apply (record_delivery_transition buyer) (AwaitingShipment (''po:'' @ rfq)) (RecordCommitted ?r) =
    transition_result (Delivered (''po:'' @ rfq) (cr_record_id (deal_receipt rfq buyer seller ss)))
      [EmitRecord (deal_receipt rfq buyer seller ss)] False"
    by (simp add: record_delivery_transition_def deal_receipt_def Let_def)
  ultimately show ?thesis
    by (simp add: try_apply_def buyer_flow_def accept_quote_transition_def
        commit_purchase_order_transition_def)
qed

lemma seller_steps:
  assumes "mirrored buyer seller"
  shows "try_apply (seller_flow C seller) AwaitingPurchaseOrder
      (RecordCommitted ((build_purchase_order rfq buyer)\<lparr>cr_signatures := ss\<rparr>)) =
     Some (transition_result (PoAccepted (''po:'' @ rfq)) [] False)"
    and "pf_negotiated_at seller \<noteq> - 1 \<Longrightarrow>
     try_apply (seller_flow C seller) (PoAccepted (''po:'' @ rfq)) (Woken ''ship'') =
     Some (transition_result (AwaitingReceipt (''po:'' @ rfq) (cr_record_id (deal_shipment rfq seller)))
       [EmitRecord (deal_shipment rfq seller)] False)"
    and "try_apply (seller_flow C seller) (AwaitingReceipt po (cr_record_id (deal_shipment rfq seller)))
      (RecordCommitted ((deal_receipt rfq buyer seller s1)\<lparr>cr_signatures := s2\<rparr>)) =
     Some (transition_result (Delivered po (cr_record_id (deal_receipt rfq buyer seller s1))) [] False)"
    and "try_apply (seller_flow C seller) (Delivered po receipt) (Woken ''settle'') =
     Some (transition_result (Settled po) [] True)"
proof -
  let ?po = "(build_purchase_order rfq buyer)\<lparr>cr_signatures := ss\<rparr>"
  have "payload_is ?po ''buyer_id'' (pf_counterparty seller)" "payload_is ?po ''seller_id'' (pf_org seller)"
    using assms payload_is_records(1,2) [where rfq = rfq and p = buyer and ss = ss] by (simp_all add: mirrored_def)
  then show "try_apply (seller_flow C seller) AwaitingPurchaseOrder (RecordCommitted ?po) =
     Some (transition_result (PoAccepted (''po:'' @ rfq)) [] False)"
    by (simp add: try_apply_def seller_flow_def accept_purchase_order_transition_def record_committed_def)
  show "try_apply (seller_flow C seller) (PoAccepted (''po:'' @ rfq)) (Woken ''ship'') =
     Some (transition_result (AwaitingReceipt (''po:'' @ rfq) (cr_record_id (deal_shipment rfq seller)))
       [EmitRecord (deal_shipment rfq seller)] False)" if "pf_negotiated_at seller \<noteq> - 1"
    using that by (simp add: try_apply_def seller_flow_def accept_purchase_order_transition_def
        ship_order_transition_def woken_def shipment_timestamp_def deal_shipment_def Let_def)
  have "payload_is ((deal_receipt rfq buyer seller s1)\<lparr>cr_signatures := s2\<rparr>) ''shipment_ref''
      (cr_record_id (deal_shipment rfq seller))"
    using payload_is_records(6) [where sh = "(deal_shipment rfq seller)\<lparr>cr_signatures := s1\<rparr>"]
    by (simp add: deal_receipt_def)
  then show "try_apply (seller_flow C seller) (AwaitingReceipt po (cr_record_id (deal_shipment rfq seller)))
      (RecordCommitted ((deal_receipt rfq buyer seller s1)\<lparr>cr_signatures := s2\<rparr>)) =
     Some (transition_result (Delivered po (cr_record_id (deal_receipt rfq buyer seller s1))) [] False)"
    by (simp add: try_apply_def seller_flow_def accept_purchase_order_transition_def
        ship_order_transition_def await_settlement_transition_def record_committed_def)
      (simp add: deal_receipt_def)
  show "try_apply (seller_flow C seller) (Delivered po receipt) (Woken ''settle'') =
     Some (transition_result (Settled po) [] True)"
    by (simp add: try_apply_def flow_simps woken_def starts_with_iff)
qed

text \<open>
  C24.  A deal settles.  When buyer and seller hold mirrored configurations and the negotiation time
  has a successor, the buyer's flow emits the purchase order, the seller's flow accepts exactly that
  record and emits the shipment, the buyer's flow accepts exactly that one and emits the receipt,
  and the receipt closes the seller's side; both flows complete, with these three records and no
  other on the chain, and all three pass the validator under any signatures.
\<close>

theorem deal_settles:
  assumes "mirrored buyer seller" "pf_negotiated_at seller \<noteq> - 1"
    "purchase_config_ok buyer" "purchase_config_ok seller"
  shows "flow_run (buyer_flow C buyer) (RfqIssued rfq) None
      [Woken (''quote-accepted:'' @ quote), Woken ''commit-po'',
       RecordCommitted ((deal_shipment rfq seller)\<lparr>cr_signatures := s2\<rparr>), Woken ''settle''] =
      ([EmitRecord (build_purchase_order rfq buyer), EmitRecord (deal_receipt rfq buyer seller s2)], None) \<and>
    flow_run (seller_flow C' seller) AwaitingPurchaseOrder None
      [RecordCommitted ((build_purchase_order rfq buyer)\<lparr>cr_signatures := s1\<rparr>), Woken ''ship'',
       RecordCommitted ((deal_receipt rfq buyer seller s2)\<lparr>cr_signatures := s3\<rparr>), Woken ''settle''] =
      ([EmitRecord (deal_shipment rfq seller)], None) \<and>
    admissible E (build_purchase_order rfq buyer) \<and> admissible E (deal_shipment rfq seller) \<and>
    admissible E (deal_receipt rfq buyer seller s2)"
proof (intro conjI)
  show "flow_run (buyer_flow C buyer) (RfqIssued rfq) None
      [Woken (''quote-accepted:'' @ quote), Woken ''commit-po'',
       RecordCommitted ((deal_shipment rfq seller)\<lparr>cr_signatures := s2\<rparr>), Woken ''settle''] =
      ([EmitRecord (build_purchase_order rfq buyer), EmitRecord (deal_receipt rfq buyer seller s2)], None)"
    by (simp add: is_resumed_def buyer_steps [simplified] buyer_receives [OF assms(1), simplified])
  show "flow_run (seller_flow C' seller) AwaitingPurchaseOrder None
      [RecordCommitted ((build_purchase_order rfq buyer)\<lparr>cr_signatures := s1\<rparr>), Woken ''ship'',
       RecordCommitted ((deal_receipt rfq buyer seller s2)\<lparr>cr_signatures := s3\<rparr>), Woken ''settle''] =
      ([EmitRecord (deal_shipment rfq seller)], None)"
    by (simp add: is_resumed_def seller_steps [OF assms(1), simplified] assms(2))
  show "admissible E (build_purchase_order rfq buyer)" "admissible E (deal_shipment rfq seller)"
    "admissible E (deal_receipt rfq buyer seller s2)"
    using assms(3,4) by (simp_all add: admissible_def purchase_config_ok_def build_purchase_order_valid
        build_shipment_valid build_receipt_valid deal_shipment_def deal_receipt_def)
qed

section \<open>Responses of two custodians\<close>

text \<open>An identifier the pool knows, pending or committed, stays known and is not admitted again.\<close>

definition known_id :: "string \<Rightarrow> ledger \<Rightarrow> bool" where
  "known_id i l \<longleftrightarrow> (\<exists>ids. lg_ids l = Some ids \<and> i \<in> ids) \<or> i \<in> tx_id ` set (lg_pending l)"

text \<open>A ledger whose indexes cover its chain, as every accepted admission leaves it.\<close>

definition folded :: "'z canon_env_scheme \<Rightarrow> ledger \<Rightarrow> bool" where
  "folded E l \<longleftrightarrow> fold_capability E l = (Inr (), l) \<and> fold_committed_ids l = l"

lemma fold_tail_length: "fold_tail E bs h n = (Inr u, h', n') \<Longrightarrow> n' = n + length bs"
  by (induction bs arbitrary: h n) (fastforce split: prod.splits sum.splits)+

lemma fold_capability_idem: "fold_capability E l = (Inr u, l') \<Longrightarrow> fold_capability E l' = (Inr (), l')"
proof (cases "lg_history_len l = length (lg_chain l)")
  case False
  assume f: "fold_capability E l = (Inr u, l')"
  define h0 where "h0 = (case lg_history l of None \<Rightarrow> cap_default | Some h \<Rightarrow> h)"
  obtain r h n where t: "fold_tail E (drop (lg_history_len l) (lg_chain l)) h0 (lg_history_len l) = (r, h, n)" by (rule prod_cases3)
  with f False have r: "r = Inr u" and l': "l' = l\<lparr>lg_history := Some h, lg_history_len := n\<rparr>"
    by (simp_all add: fold_capability_def h0_def [symmetric])
  have "length (lg_chain l) \<le> n" using fold_tail_length [OF t [unfolded r]] by simp
  then show ?thesis by (simp add: fold_capability_def l')
qed (simp add: fold_capability_def)

lemma fold_capability_other: "fold_capability E (l\<lparr>lg_pending := p, lg_ids := i, lg_ids_len := n\<rparr>) =
    (fst (fold_capability E l), (snd (fold_capability E l))\<lparr>lg_pending := p, lg_ids := i, lg_ids_len := n\<rparr>)"
  by (simp add: fold_capability_def Let_def case_prod_beta)

lemma enqueue_accepted:
  assumes "enqueue tx l = (Inr u, l')" "fold_capability E l = (Inr (), l)"
  shows "folded E l' \<and> known_id (tx_id tx) l' \<and> lg_history l' = lg_history l \<and> lg_chain l' = lg_chain l"
proof -
  let ?l = "fold_committed_ids l"
  have l': "l' = ?l\<lparr>lg_pending := lg_pending l'\<rparr>" and k: "known_id (tx_id tx) l'"
    using assms(1) by (auto simp: enqueue_def Let_def known_id_def list_ex_iff fold_committed_ids_def split: if_splits option.splits)
  have f: "?l = l\<lparr>lg_pending := lg_pending l, lg_ids := lg_ids ?l, lg_ids_len := lg_ids_len ?l\<rparr>"
    by (simp add: fold_committed_ids_def split: option.split)
  have "fold_committed_ids l' = l'"
    by (subst (1 2) l') (simp add: fold_committed_ids_def block_ids_def split: option.split)
  moreover have "fold_capability E l' = (Inr (), l')"
  proof -
    have "l' = l\<lparr>lg_pending := lg_pending l', lg_ids := lg_ids ?l, lg_ids_len := lg_ids_len ?l\<rparr>"
      by (subst l', subst f) simp
    then show ?thesis using fold_capability_other [where E = E and l = l] assms(2) by (metis fst_conv snd_conv)
  qed
  moreover have "lg_history l' = lg_history l" "lg_chain l' = lg_chain l" by (subst l', subst f, simp)+
  ultimately show ?thesis using k by (simp add: folded_def)
qed

lemma add_transaction_accepted:
  assumes "add_transaction E tx l = (Inr u, l')"
  obtains l0 :: ledger where "folded E l'" "known_id (tx_id tx) l'" "tx_id tx \<noteq> []" "lg_history l' = lg_history l0"
    "is_ok (admit_kind E (lg_history l0) (case last_opt (lg_chain l) of None \<Rightarrow> 1 | Some b \<Rightarrow> b_index b + 1) (tx_kind tx))"
proof -
  obtain r l0 where f: "fold_capability E l = (r, l0)" by (cases "fold_capability E l")
  with assms have id: "tx_id tx \<noteq> []" and r: "r = Inr ()"
    and k: "is_ok (admit_kind E (lg_history l0) (case last_opt (lg_chain l) of None \<Rightarrow> 1 | Some b \<Rightarrow> b_index b + 1) (tx_kind tx))"
    and e: "enqueue tx l0 = (Inr u, l')"
    by (auto simp: add_transaction_def Let_def is_ok_def split: if_splits sum.splits)
  from enqueue_accepted [OF e fold_capability_idem] f r have "folded E l'" "known_id (tx_id tx) l'" "lg_history l' = lg_history l0" by auto
  with id k show thesis by (intro that [of l0])
qed

text \<open>A known identifier is accepted without an effect.\<close>

lemma add_transaction_known:
  assumes "folded E l" "known_id (tx_id tx) l" "tx_id tx \<noteq> []"
    "\<And>height. admit_kind E (lg_history l) height (tx_kind tx) = Inr ()"
  shows "add_transaction E tx l = (Inr (), l)"
  using assms by (auto simp: add_transaction_def folded_def enqueue_def known_id_def Let_def list_ex_iff)

lemma response_admitted:
  assumes "lg_history l = Some h" "lot \<noteq> []" "ty \<noteq> []" "rr_org c \<noteq> []" "ss \<noteq> []"
  shows "admit_kind E (lg_history l) height (CanonicalRecord ((build_response lot ty c)\<lparr>cr_signatures := ss\<rparr>)) = Inr ()"
  using build_response_valid [OF assms(5), of E lot ty c] assms(1-4)
  by (simp add: admit_kind_def validate_record_under_def STATE_COMMITMENT_CAPABILITY_ID_def)

lemma quarantine_run:
  assumes "rr_lot_ref a = lot" "cr_schema_id recall = ''recall''" "payload_is recall ''lot_ref'' lot"
  shows "flow_run (quarantine_flow C a) (WatchingLot lot) None [RecordCommitted recall, Woken ''quarantine''] =
    ([EmitRecord (build_response lot ''quarantine'' a)], None)"
  using assms by (simp add: try_apply_def flow_simps is_resumed_def record_committed_def woken_def
      wake_matches_def Let_def)

text \<open>
  C38.  The response of a second custodian is lost.  Two organisations that hold stock of one recalled
  lot and quarantine it emit different records under one identifier, because the identifier is made
  of the lot and the kind of response only.  Submitted under that identifier, as the flows document, and
  signed, the second record is answered with success and leaves the ledger exactly as it was: it is
  never enqueued.
\<close>

theorem custodian_response_dropped:
  assumes "rr_lot_ref a = lot" "rr_lot_ref b = lot" "rr_org a \<noteq> rr_org b" "lot \<noteq> []" "rr_org b \<noteq> []"
    "cr_schema_id recall = ''recall''" "payload_is recall ''lot_ref'' lot"
    and ra: "ra = build_response lot ''quarantine'' a" and rb: "rb = build_response lot ''quarantine'' b"
  shows "flow_run (quarantine_flow C a) (WatchingLot lot) None [RecordCommitted recall, Woken ''quarantine''] =
      ([EmitRecord ra], None) \<and>
    flow_run (quarantine_flow C b) (WatchingLot lot) None [RecordCommitted recall, Woken ''quarantine''] =
      ([EmitRecord rb], None) \<and>
    cr_record_id ra = cr_record_id rb \<and> cr_issuer ra \<noteq> cr_issuer rb \<and>
    (\<forall>l l1 t1 t2 s1 s2. s2 \<noteq> [] \<and>
       add_transaction E (with_id (cr_record_id ra) t1 (CanonicalRecord (ra\<lparr>cr_signatures := s1\<rparr>))) l = (Inr (), l1) \<longrightarrow>
       add_transaction E (with_id (cr_record_id rb) t2 (CanonicalRecord (rb\<lparr>cr_signatures := s2\<rparr>))) l1 = (Inr (), l1))"
proof (intro conjI allI impI)
  show "flow_run (quarantine_flow C a) (WatchingLot lot) None [RecordCommitted recall, Woken ''quarantine''] =
      ([EmitRecord ra], None)" unfolding ra using quarantine_run [OF assms(1,6,7)] .
  show "flow_run (quarantine_flow C b) (WatchingLot lot) None [RecordCommitted recall, Woken ''quarantine''] =
      ([EmitRecord rb], None)" unfolding rb using quarantine_run [OF assms(2,6,7)] .
  show "cr_issuer ra \<noteq> cr_issuer rb" using assms(3) by (simp add: ra rb)
  show same: "cr_record_id ra = cr_record_id rb" by (simp add: ra rb)
  fix l l1 t1 t2 s1 s2
  let ?t1 = "with_id (cr_record_id ra) t1 (CanonicalRecord (ra\<lparr>cr_signatures := s1\<rparr>))"
  let ?t2 = "with_id (cr_record_id rb) t2 (CanonicalRecord (rb\<lparr>cr_signatures := s2\<rparr>))"
  assume "s2 \<noteq> [] \<and> add_transaction E ?t1 l = (Inr (), l1)"
  then have s2: "s2 \<noteq> []" and "add_transaction E ?t1 l = (Inr (), l1)" by auto
  from this(2) obtain l0 :: ledger where ok: "folded E l1" "known_id (tx_id ?t1) l1" "tx_id ?t1 \<noteq> []" "lg_history l1 = lg_history l0"
    "is_ok (admit_kind E (lg_history l0) (case last_opt (lg_chain l) of None \<Rightarrow> 1 | Some b \<Rightarrow> b_index b + 1) (tx_kind ?t1))"
    by (rule add_transaction_accepted)
  have id: "tx_id ?t1 = tx_id ?t2" using same by (simp add: with_id_def)
  obtain h where "lg_history l1 = Some h"
    using ok(4,5) by (cases "lg_history l0") (auto simp: admit_kind_def with_id_def is_ok_def)
  from response_admitted [OF this assms(4) _ assms(5) s2, of "''quarantine''" E] show "add_transaction E ?t2 l1 = (Inr (), l1)"
    by (intro add_transaction_known [OF ok(1) ok(2,3) [unfolded id]]) (simp add: with_id_def rb)
qed


section \<open>Instances\<close>

definition demo_buyer :: purchase_flow_config where
  "demo_buyer = \<lparr>pf_org = ''b'', pf_counterparty = ''s'', pf_product_id = ''p'', pf_quantity = 5,
     pf_currency = ''BRL'', pf_lot_ref = ''lot1'', pf_rfq_id = ''1'', pf_negotiated_at = 100,
     pf_delivery_on = ''2026-01-01''\<rparr>"

definition demo_seller :: purchase_flow_config where
  "demo_seller = demo_buyer\<lparr>pf_org := ''s'', pf_counterparty := ''b''\<rparr>"

lemma demo_date: "is_valid_iso8601_date ''2026-01-01''"
  by (simp add: is_valid_iso8601_date_def parse_uint_def slice_def is_ascii_digit_def)

lemma demo_configs: "purchase_config_ok demo_buyer" "purchase_config_ok demo_seller"
  by (simp_all add: purchase_config_ok_def demo_seller_def demo_buyer_def demo_date)

theorem deal_settles_witness:
  "snd (flow_run (buyer_flow (\<lambda>_. None, \<lambda>_. None) demo_buyer) (RfqIssued ''1'') None
      [Woken (''quote-accepted:'' @ ''q''), Woken ''commit-po'',
       RecordCommitted ((deal_shipment ''1'' demo_seller)\<lparr>cr_signatures := [sample_signature]\<rparr>),
       Woken ''settle'']) = None \<and>
   admissible sample_env (deal_shipment ''1'' demo_seller) \<and>
   cr_record_id (deal_shipment ''1'' demo_seller) = ''shipment:po:1:lot1''"
proof -
  have "mirrored demo_buyer demo_seller" "pf_negotiated_at demo_seller \<noteq> - 1"
    by (simp_all add: mirrored_def demo_seller_def demo_buyer_def)
  note deal = deal_settles [OF this demo_configs, of "(\<lambda>_. None, \<lambda>_. None)" "''1''" "''q''" "[sample_signature]"
      "(\<lambda>_. None, \<lambda>_. None)" "[sample_signature]" "[sample_signature]" sample_env]
  show ?thesis
    unfolding deal [THEN conjunct1] snd_conv using deal [THEN conjunct2, THEN conjunct2, THEN conjunct2, THEN conjunct1]
    by (simp add: deal_shipment_def demo_seller_def demo_buyer_def)
qed

definition demo_custodian :: "string \<Rightarrow> recall_response_config" where
  "demo_custodian org = \<lparr>rr_org = org, rr_lot_ref = ''lot1'', rr_responded_at = 7\<rparr>"

definition demo_recall :: canonical_record where
  "demo_recall = build_recall ''lot1'' ''mould'' ''issued'' \<lparr>rc_issuer = ''m'', rc_lot_ref = ''lot1'', rc_issued_at = 5\<rparr>"

lemma demo_recall_for: "cr_schema_id demo_recall = ''recall''" "payload_is demo_recall ''lot_ref'' ''lot1''"
  by (simp_all add: demo_recall_def build_recall_def payload_is_def map_of_btree_of_list as_str_def)

lemma demo_response_admitted:
  assumes "ra = build_response ''lot1'' ''quarantine'' (demo_custodian ''x'')"
    "t = with_id (cr_record_id ra) 0 (CanonicalRecord (ra\<lparr>cr_signatures := [sample_signature]\<rparr>))"
  shows "\<exists>l1. add_transaction sample_tx_env t (demo_ledger sample_tx_env) = (Inr (), l1) \<and> lg_pending l1 = [t]"
proof -
  have "validate_record sample_tx_env (ra\<lparr>cr_signatures := [sample_signature]\<rparr>) = Inr ()"
    by (simp add: assms(1) build_response_valid demo_custodian_def)
  then have "admit_kind sample_tx_env (Some cap_default) 1 (tx_kind t) = Inr ()"
    by (simp add: assms admit_kind_def validate_record_under_def res_simps with_id_def
        STATE_COMMITMENT_CAPABILITY_ID_def)
  moreover have "tx_id t \<noteq> []" by (simp add: assms with_id_def)
  ultimately show ?thesis
    by (simp add: demo_ledger_def add_transaction_def fold_capability_def last_opt_def Let_def
        cap_replay_demo enqueue_def fold_committed_ids_def block_ids_def MAX_PENDING_TRANSACTIONS_def)
qed

theorem custodian_response_dropped_witness:
  "\<exists>ra rb l1. cr_issuer ra \<noteq> cr_issuer rb \<and>
     add_transaction sample_tx_env (with_id (cr_record_id ra) 0
       (CanonicalRecord (ra\<lparr>cr_signatures := [sample_signature]\<rparr>))) (demo_ledger sample_tx_env) = (Inr (), l1) \<and>
     length (lg_pending l1) = 1 \<and>
     add_transaction sample_tx_env (with_id (cr_record_id rb) 1
       (CanonicalRecord (rb\<lparr>cr_signatures := [sample_signature]\<rparr>))) l1 = (Inr (), l1)"
proof -
  define ra where "ra = build_response ''lot1'' ''quarantine'' (demo_custodian ''x'')"
  define rb where "rb = build_response ''lot1'' ''quarantine'' (demo_custodian ''y'')"
  have lot: "rr_lot_ref (demo_custodian g) = ''lot1''" for g by (simp add: demo_custodian_def)
  have org: "rr_org (demo_custodian ''x'') \<noteq> rr_org (demo_custodian ''y'')" "rr_org (demo_custodian ''y'') \<noteq> []"
    by (simp_all add: demo_custodian_def)
  note dropped = custodian_response_dropped [OF lot lot org(1) _ org(2) demo_recall_for ra_def rb_def,
      where C = "(\<lambda>_. None, \<lambda>_. None)" and E = sample_tx_env, THEN conjunct2, THEN conjunct2, THEN conjunct2]
  obtain l1 where l1: "add_transaction sample_tx_env (with_id (cr_record_id ra) 0
       (CanonicalRecord (ra\<lparr>cr_signatures := [sample_signature]\<rparr>))) (demo_ledger sample_tx_env) = (Inr (), l1)"
    "length (lg_pending l1) = 1"
    using demo_response_admitted [OF ra_def refl] by auto
  have "add_transaction sample_tx_env (with_id (cr_record_id rb) 1
       (CanonicalRecord (rb\<lparr>cr_signatures := [sample_signature]\<rparr>))) l1 = (Inr (), l1)"
    by (rule dropped [THEN conjunct2, rule_format, OF _ conjI [OF _ l1(1)]]) simp_all
  with dropped [THEN conjunct1] l1 show ?thesis
    by (intro exI [of _ ra] exI [of _ rb] exI [of _ l1] conjI) simp_all
qed

definition hex_env :: canon_env where
  "hex_env = sample_env\<lparr>hex_encode := (\<lambda>_. replicate 64 CHR ''0'')\<rparr>"

theorem flow_records_valid_witness:
  "admissible hex_env (build_purchase_order ''1'' demo_buyer) \<and>
   \<not> admissible hex_env (build_recall ''lot1'' [] ''issued'' \<lparr>rc_issuer = ''m'', rc_lot_ref = ''lot1'', rc_issued_at = 5\<rparr>)"
proof -
  let ?c = "\<lparr>rc_issuer = ''m'', rc_lot_ref = ''lot1'', rc_issued_at = 5\<rparr>"
  let ?C = "(\<lambda>_. None, \<lambda>_. None)"
  have E: "ser_record hex_env (canonical_tuple r) \<noteq> None" "is_hex64 (sha256 hex_env bs)" for r bs
    by (simp_all add: hex_env_def sample_env_def sha256_def is_hex64_def list_all_iff is_ascii_hexdigit_def
        is_ascii_digit_def)
  note valid = flow_records_valid [OF E, of demo_buyer "[]" "[]" "[]" "demo_custodian ''x''" undefined ?c]
  have "emits (buyer_flow ?C demo_buyer) (QuoteAccepted ''1'' ''q'') (Woken ''commit-po'')
      (build_purchase_order ''1'' demo_buyer)"
    unfolding emits_def
    by (intro exI [of _ "commit_purchase_order_transition demo_buyer"])
      (simp add: buyer_flow_def, simp add: commit_purchase_order_transition_def woken_def Let_def)
  with valid [THEN conjunct1, rule_format, OF demo_configs(1)]
  have "admissible hex_env (build_purchase_order ''1'' demo_buyer)" by blast
  moreover have "emits (recall_flow ?C ?c) (RecallLotAnchored ''lot1'' ''c'') (Woken ''recall:'')
      (build_recall ''lot1'' [] ''issued'' ?c)"
    unfolding emits_def
    by (intro exI [of _ "issue_recall_transition ?c"])
      (simp add: recall_flow_def, simp add: issue_recall_transition_def woken_def Let_def)
  with valid [THEN conjunct2, THEN conjunct2, THEN conjunct2, THEN conjunct2, rule_format, of ?C]
  have "\<not> admissible hex_env (build_recall ''lot1'' [] ''issued'' ?c)" by simp
  ultimately show ?thesis by blast
qed

end
