(* ===== verification/Watcher.thy ===== *)
theory Watcher
  imports Contracts
begin

text \<open>
  \<^verbatim>\<open>glasschain-workflows/src/watcher.rs\<close>: the inventory watcher, which turns committed inventory
  updates into purchase orders.

  Levels and deltas are 64-bit words read as signed numbers; additions wrap, as a release build
  does.  The hash maps are ordered association lists: the source promises no iteration order, and
  nothing below depends on the order of the orders of one update.
\<close>

record inventory_trigger =
  it_trigger_id :: string
  it_product_id :: string
  it_owner_id :: string
  it_reorder_threshold :: "64 word"
  it_reorder_quantity :: u64
  it_seller_id :: string
  it_price_per_unit :: u64
  it_currency :: string
  it_active :: bool
  it_wasm_code_b64 :: "string option"

type_synonym inventory = "(string \<times> (string \<times> 64 word) list) list"

record watcher_state_snapshot =
  wss_inventory :: inventory
  wss_trigger_fire_counts :: "(string \<times> u64) list"

record watcher_service =
  wt_triggers :: "(string \<times> inventory_trigger) list"
  wt_inventory :: inventory
  wt_trigger_fire_counts :: "(string \<times> u64) list"
  wt_executor :: "executor option"

definition watcher_new :: watcher_service where
  "watcher_new = \<lparr>wt_triggers = [], wt_inventory = [], wt_trigger_fire_counts = [], wt_executor = None\<rparr>"

definition watcher_set_executor :: "executor \<Rightarrow> watcher_service \<Rightarrow> watcher_service" where
  "watcher_set_executor exec w = w\<lparr>wt_executor := Some exec\<rparr>"

definition add_trigger :: "inventory_trigger \<Rightarrow> watcher_service \<Rightarrow> watcher_service" where
  "add_trigger t w = w\<lparr>wt_triggers := btree_insert (it_trigger_id t) t (wt_triggers w)\<rparr>"

text \<open>\<^verbatim>\<open>get_mut\<close> followed by an assignment to \<^verbatim>\<open>active\<close>.\<close>

definition set_active :: "bool \<Rightarrow> string \<Rightarrow> watcher_service \<Rightarrow> watcher_service" where
  "set_active b trigger_id w =
     (case map_of (wt_triggers w) trigger_id of
        None \<Rightarrow> w
      | Some t \<Rightarrow> w\<lparr>wt_triggers := btree_insert trigger_id (t\<lparr>it_active := b\<rparr>) (wt_triggers w)\<rparr>)"

definition disable_trigger :: "string \<Rightarrow> watcher_service \<Rightarrow> watcher_service" where
  "disable_trigger trigger_id w = set_active False trigger_id w"

definition enable_trigger :: "string \<Rightarrow> watcher_service \<Rightarrow> watcher_service" where
  "enable_trigger trigger_id w = set_active True trigger_id w"

definition level_in :: "inventory \<Rightarrow> string \<Rightarrow> string \<Rightarrow> 64 word" where
  "level_in stock product_id owner_id =
     (case Option.bind (map_of stock product_id) (\<lambda>m. map_of m owner_id) of None \<Rightarrow> 0 | Some l \<Rightarrow> l)"

definition inventory_level :: "watcher_service \<Rightarrow> string \<Rightarrow> string \<Rightarrow> 64 word" where
  "inventory_level w product_id owner_id = level_in (wt_inventory w) product_id owner_id"

definition to_snapshot :: "watcher_service \<Rightarrow> watcher_state_snapshot" where
  "to_snapshot w = \<lparr>wss_inventory = wt_inventory w,
     wss_trigger_fire_counts = wt_trigger_fire_counts w\<rparr>"

definition apply_snapshot :: "watcher_state_snapshot \<Rightarrow> watcher_service \<Rightarrow> watcher_service" where
  "apply_snapshot s w = w\<lparr>wt_inventory := wss_inventory s,
     wt_trigger_fire_counts := wss_trigger_fire_counts s\<rparr>"

text \<open>The JSON codec of the snapshot.\<close>

record snapshot_codec =
  ser_snapshot :: "watcher_state_snapshot \<Rightarrow> bytes option"
  de_snapshot :: "bytes \<Rightarrow> watcher_state_snapshot option"

definition serialize_state :: "'z snapshot_codec_scheme \<Rightarrow> watcher_service \<Rightarrow> bytes option" where
  "serialize_state S w = ser_snapshot S (to_snapshot w)"

definition restore_from_bytes ::
  "'z snapshot_codec_scheme \<Rightarrow> bytes \<Rightarrow> watcher_service \<Rightarrow> bool \<times> watcher_service" where
  "restore_from_bytes S data w =
     (case de_snapshot S data of None \<Rightarrow> (False, w) | Some s \<Rightarrow> (True, apply_snapshot s w))"


section \<open>The event-condition-action loop\<close>

text \<open>\<^verbatim>\<open>i64::to_string\<close>.\<close>

definition show_i64 :: "64 word \<Rightarrow> string" where
  "show_i64 x = (if sint x < 0 then ''-'' @ show_nat (nat (- sint x)) else show_nat (nat (sint x)))"

definition apply_delta :: "inventory_update \<Rightarrow> inventory \<Rightarrow> 64 word \<times> inventory" where
  "apply_delta u stock =
     (let owners = (case map_of stock (iu_product_id u) of None \<Rightarrow> [] | Some m \<Rightarrow> m);
          level = (case map_of owners (iu_owner_id u) of None \<Rightarrow> 0 | Some l \<Rightarrow> l);
          new_level = level + iu_quantity_delta u
      in (new_level, btree_insert (iu_product_id u) (btree_insert (iu_owner_id u) new_level owners) stock))"

definition fires :: "inventory_update \<Rightarrow> 64 word \<Rightarrow> inventory_trigger \<Rightarrow> bool" where
  "fires u new_level t \<longleftrightarrow> it_active t \<and> it_product_id t = iu_product_id u \<and>
     it_owner_id t = iu_owner_id u \<and> sint new_level \<le> sint (it_reorder_threshold t)"

text \<open>The gate is passed when the trigger has no code or no executor is attached.\<close>

definition trigger_gate :: "gate_env \<Rightarrow> executor option \<Rightarrow> 64 word \<Rightarrow> inventory_trigger \<Rightarrow> gate_decision" where
  "trigger_gate G executor new_level t =
     (case (it_wasm_code_b64 t, executor) of
        (Some wasm, Some exec) \<Rightarrow>
          gate_evaluate G exec InventoryTriggerPolicy (it_trigger_id t) wasm
            (Inr [''inventory_level'' \<mapsto> str_bytes (show_i64 new_level),
                  ''threshold'' \<mapsto> str_bytes (show_i64 (it_reorder_threshold t)),
                  ''product_id'' \<mapsto> str_bytes (it_product_id t)])
      | _ \<Rightarrow> Approved)"

definition order_id :: "string \<Rightarrow> string \<Rightarrow> string \<Rightarrow> u64 \<Rightarrow> string" where
  "order_id trigger_id product_id owner_id fire_count =
     ''watcher:'' @ trigger_id @ '':'' @ product_id @ '':'' @ owner_id @ '':'' @ show_nat (unat fire_count)"

definition reorder :: "u64 \<Rightarrow> inventory_update \<Rightarrow> u64 \<Rightarrow> inventory_trigger \<Rightarrow> transaction" where
  "reorder now u fire_count t =
     with_id (order_id (it_trigger_id t) (iu_product_id u) (iu_owner_id u) fire_count) now
       (PurchaseOrder \<lparr>po_product_id = it_product_id t, po_buyer_id = it_owner_id t,
          po_seller_id = it_seller_id t, po_quantity = it_reorder_quantity t,
          po_agreed_price_per_unit = it_price_per_unit t, po_currency = it_currency t,
          po_contract_id = Some (it_trigger_id t)\<rparr>)"

definition next_count :: "string \<Rightarrow> (string \<times> u64) list \<Rightarrow> u64" where
  "next_count trigger_id counts = (case map_of counts trigger_id of None \<Rightarrow> 0 | Some c \<Rightarrow> c) + 1"

text \<open>The loop over the firing triggers; \<open>k\<close> counts the clock readings.\<close>

fun fire_triggers ::
  "gate_env \<Rightarrow> clock \<Rightarrow> executor option \<Rightarrow> inventory_update \<Rightarrow> 64 word \<Rightarrow> inventory_trigger list \<Rightarrow>
     (string \<times> u64) list \<Rightarrow> nat \<Rightarrow> transaction list \<times> (string \<times> u64) list \<times> nat" where
  "fire_triggers G clock executor u new_level [] counts k = ([], counts, k)"
| "fire_triggers G clock executor u new_level (t # ts) counts k =
     (let fire_count = next_count (it_trigger_id t) counts;
          counts = btree_insert (it_trigger_id t) fire_count counts
      in if trigger_gate G executor new_level t \<noteq> Approved
         then fire_triggers G clock executor u new_level ts counts k
         else case fire_triggers G clock executor u new_level ts counts (k + 1) of
             (orders, counts', k') \<Rightarrow> (reorder (clock k) u fire_count t # orders, counts', k'))"

definition on_inventory_update ::
  "gate_env \<Rightarrow> clock \<Rightarrow> nat \<Rightarrow> inventory_update \<Rightarrow> watcher_service \<Rightarrow>
     transaction list \<times> watcher_service \<times> nat" where
  "on_inventory_update G clock k u w =
     (case apply_delta u (wt_inventory w) of (new_level, stock) \<Rightarrow>
        let firing = filter (fires u new_level) (map snd (wt_triggers w)) in
        case fire_triggers G clock (wt_executor w) u new_level firing (wt_trigger_fire_counts w) k of
          (orders, counts, k') \<Rightarrow>
            (orders, w\<lparr>wt_inventory := stock, wt_trigger_fire_counts := counts\<rparr>, k'))"


section \<open>Histories\<close>

text \<open>
  What a host does with the watcher.  \<open>Reload\<close> is a restart right after the state was saved: a fresh
  service with the triggers registered again and the current snapshot restored; if the snapshot
  cannot be written there is no restart.
\<close>

datatype watcher_op =
    Observe inventory_update
  | Register inventory_trigger
  | Enable string
  | Disable string
  | Attach executor
  | Reload

definition watcher_op ::
  "'z snapshot_codec_scheme \<Rightarrow> gate_env \<Rightarrow> clock \<Rightarrow> watcher_op \<Rightarrow> watcher_service \<times> nat \<Rightarrow>
     transaction list \<times> watcher_service \<times> nat" where
  "watcher_op S G clock op wk = (case wk of (w, k) \<Rightarrow> (case op of
       Observe u \<Rightarrow> on_inventory_update G clock k u w
     | Register t \<Rightarrow> ([], add_trigger t w, k)
     | Enable i \<Rightarrow> ([], enable_trigger i w, k)
     | Disable i \<Rightarrow> ([], disable_trigger i w, k)
     | Attach exec \<Rightarrow> ([], watcher_set_executor exec w, k)
     | Reload \<Rightarrow> ([], case serialize_state S w of
           None \<Rightarrow> w
         | Some bs \<Rightarrow> snd (restore_from_bytes S bs (watcher_new\<lparr>wt_triggers := wt_triggers w,
             wt_executor := wt_executor w\<rparr>)), k)))"

fun watcher_run ::
  "'z snapshot_codec_scheme \<Rightarrow> gate_env \<Rightarrow> clock \<Rightarrow> watcher_op list \<Rightarrow> watcher_service \<times> nat \<Rightarrow>
     transaction list \<times> watcher_service \<times> nat" where
  "watcher_run S G clock [] wk = ([], wk)"
| "watcher_run S G clock (op # ops) wk =
     (case watcher_op S G clock op wk of (orders, wk1) \<Rightarrow>
        apfst ((@) orders) (watcher_run S G clock ops wk1))"

text \<open>The updates of one product and owner, and the triggers registered, in a history.\<close>

definition deltas :: "string \<Rightarrow> string \<Rightarrow> watcher_op list \<Rightarrow> 64 word" where
  "deltas product_id owner_id ops = sum_list (map (\<lambda>op. case op of
       Observe u \<Rightarrow> if iu_product_id u = product_id \<and> iu_owner_id u = owner_id
         then iu_quantity_delta u else 0
     | _ \<Rightarrow> 0) ops)"

definition snapshot_faithful :: "'z snapshot_codec_scheme \<Rightarrow> bool" where
  "snapshot_faithful S \<longleftrightarrow> (\<forall>s bs. ser_snapshot S s = Some bs \<longrightarrow> de_snapshot S bs = Some s)"

lemma reload_id:
  assumes "snapshot_faithful S"
  shows "watcher_op S G clock Reload (w, k) = ([], w, k)"
  using assms by (auto simp: watcher_op_def serialize_state_def restore_from_bytes_def snapshot_faithful_def
      apply_snapshot_def to_snapshot_def watcher_new_def split: option.splits)


section \<open>Inventory levels\<close>

lemma level_after_delta:
  "level_in (snd (apply_delta u stock)) p q =
     level_in stock p q + (if iu_product_id u = p \<and> iu_owner_id u = q then iu_quantity_delta u else 0)"
  "fst (apply_delta u stock) = level_in stock (iu_product_id u) (iu_owner_id u) + iu_quantity_delta u"
  by (auto simp: apply_delta_def level_in_def Let_def map_of_btree_insert split: option.splits)

lemma on_inventory_update_parts:
  assumes "on_inventory_update G clock k u w = (orders, w', k')"
  shows "wt_triggers w' = wt_triggers w" "wt_executor w' = wt_executor w"
    "wt_inventory w' = snd (apply_delta u (wt_inventory w))"
    "fire_triggers G clock (wt_executor w) u (fst (apply_delta u (wt_inventory w)))
       (filter (fires u (fst (apply_delta u (wt_inventory w)))) (map snd (wt_triggers w)))
       (wt_trigger_fire_counts w) k = (orders, wt_trigger_fire_counts w', k')"
  using assms by (auto simp: on_inventory_update_def Let_def split: prod.splits)

lemma watcher_run_levels:
  assumes "snapshot_faithful S" "watcher_run S G clock ops (w, k) = (orders, w', k')"
  shows "inventory_level w' p q = inventory_level w p q + deltas p q ops"
  using assms(2)
proof (induction ops arbitrary: w k orders)
  case Nil
  then show ?case by (simp add: deltas_def)
next
  case (Cons op ops)
  obtain o1 w1 k1 where h: "watcher_op S G clock op (w, k) = (o1, w1, k1)" by (rule prod_cases3)
  obtain o2 where r: "watcher_run S G clock ops (w1, k1) = (o2, w', k')"
    using Cons.prems h by (cases "watcher_run S G clock ops (w1, k1)") auto
  have "inventory_level w1 p q = inventory_level w p q + deltas p q [op]"
  proof (cases op)
    case (Observe u)
    with h have "on_inventory_update G clock k u w = (o1, w1, k1)" by (simp add: watcher_op_def)
    from on_inventory_update_parts(3) [OF this] show ?thesis
      using level_after_delta(1) [of u "wt_inventory w" p q]
      by (simp add: inventory_level_def deltas_def Observe)
  next
    case Reload
    with h reload_id [OF assms(1), of G clock w k] show ?thesis by (simp add: deltas_def)
  qed (use h in \<open>auto simp: watcher_op_def inventory_level_def add_trigger_def enable_trigger_def
      disable_trigger_def set_active_def watcher_set_executor_def deltas_def split: option.splits\<close>)
  with Cons.IH [OF r] show ?case by (simp add: deltas_def)
qed

section \<open>Fire counters\<close>

text \<open>
  An order is identified by its trigger, product, owner and fire count.  The counters only grow,
  by one for a trigger that fires, and no order carries a count that was used before.
\<close>

type_synonym order_tag = "string \<times> string \<times> string \<times> u64"

definition tag_id :: "order_tag \<Rightarrow> string" where
  "tag_id x = (case x of (t, p, q, c) \<Rightarrow> order_id t p q c)"

definition fired :: "(string \<times> u64) list \<Rightarrow> string \<Rightarrow> nat" where
  "fired counts t = (case map_of counts t of None \<Rightarrow> 0 | Some c \<Rightarrow> unat c)"

definition tags_between :: "(string \<Rightarrow> nat) \<Rightarrow> (string \<Rightarrow> nat) \<Rightarrow> order_tag list \<Rightarrow> bool" where
  "tags_between f g xs \<longleftrightarrow> (\<forall>t. f t \<le> g t) \<and> distinct (map (\<lambda>(t, p, q, c). (t, c)) xs) \<and>
     (\<forall>(t, p, q, c) \<in> set xs. f t < unat c \<and> unat c \<le> g t)"

lemma tags_between_append:
  assumes "tags_between f g xs" "tags_between g h ys"
  shows "tags_between f h (xs @ ys)"
proof -
  have "(t, c) \<notin> (\<lambda>(t, p, q, c). (t, c)) ` set ys" if "(t, p, q, c) \<in> set xs" for t p q c
  proof
    assume "(t, c) \<in> (\<lambda>(t, p, q, c). (t, c)) ` set ys"
    then obtain p' q' where "(t, p', q', c) \<in> set ys" by auto
    with assms(2) have "g t < unat c" by (auto simp: tags_between_def)
    with assms(1) that show False by (fastforce simp: tags_between_def)
  qed
  then have "distinct (map (\<lambda>(t, p, q, c). (t, c)) (xs @ ys))"
    using assms by (fastforce simp: tags_between_def)
  moreover have "f t \<le> h t" for t using assms by (meson le_trans tags_between_def)
  moreover have "\<forall>(t, p, q, c) \<in> set (xs @ ys). f t < unat c \<and> unat c \<le> h t"
    using assms by (fastforce simp: tags_between_def intro: le_trans le_less_trans)
  ultimately show ?thesis by (simp add: tags_between_def)
qed

lemma fired_insert [simp]: "fired (btree_insert t c counts) = (fired counts)(t := unat c)"
  by (auto simp: fired_def map_of_btree_insert fun_eq_iff)

lemma next_count_fired:
  assumes "fired counts t < 2 ^ 64 - 1"
  shows "unat (next_count t counts) = fired counts t + 1"
proof (cases "map_of counts t")
  case (Some c)
  then have "unat c + 1 < 2 ^ 64" using assms by (simp add: fired_def)
  then show ?thesis using Some by (simp add: next_count_def fired_def unat_word_ariths)
qed (simp add: next_count_def fired_def)

lemma tags_between_skip:
  assumes "tags_between (f(t := f t + 1)) g xs"
  shows "tags_between f g xs"
  using tags_between_append [OF _ assms, of f "[]"] by (simp add: tags_between_def)

lemma fire_triggers_tags:
  assumes "fire_triggers G clock executor u new_level ts counts k = (orders, counts', k')"
    "distinct (map it_trigger_id ts)" "\<forall>t \<in> it_trigger_id ` set ts. fired counts t < 2 ^ 64 - 1"
  shows "\<exists>xs. map tx_id orders = map tag_id xs \<and> tags_between (fired counts) (fired counts') xs \<and>
    (\<forall>(t, p, q, c) \<in> set xs. t \<in> it_trigger_id ` set ts \<and> p = iu_product_id u \<and> q = iu_owner_id u) \<and>
    (\<forall>t. fired counts' t \<le> fired counts t + (if t \<in> it_trigger_id ` set ts then 1 else 0))"
  using assms
proof (induction ts arbitrary: counts k orders k')
  case Nil
  then show ?case by (intro exI [of _ "[]"]) (simp add: tags_between_def)
next
  case (Cons t ts)
  let ?i = "it_trigger_id t" and ?c = "next_count (it_trigger_id t) counts"
  define counts1 where "counts1 = btree_insert ?i ?c counts"
  have c: "unat ?c = fired counts ?i + 1" using Cons.prems(3) by (simp add: next_count_fired)
  have f1: "fired counts1 = (fired counts)(?i := fired counts ?i + 1)" by (simp add: counts1_def c)
  have notin: "?i \<notin> it_trigger_id ` set ts" using Cons.prems(2) by auto
  have pre: "distinct (map it_trigger_id ts)" using Cons.prems(2) by simp
  have bound: "\<forall>t \<in> it_trigger_id ` set ts. fired counts1 t < 2 ^ 64 - 1"
  proof
    fix j assume j: "j \<in> it_trigger_id ` set ts"
    with notin have "j \<noteq> ?i" by blast
    then have "fired counts1 j = fired counts j" by (simp add: f1)
    moreover have "fired counts j < 2 ^ 64 - 1" by (rule bspec [OF Cons.prems(3)]) (use j in auto)
    ultimately show "fired counts1 j < 2 ^ 64 - 1" by (simp only:)
  qed
  define k1 where "k1 = (if trigger_gate G executor new_level t \<noteq> Approved then k else k + 1)"
  obtain o1 where o1: "fire_triggers G clock executor u new_level ts counts1 k1 = (o1, counts', k')"
    "orders = (if trigger_gate G executor new_level t \<noteq> Approved then o1
       else reorder (clock k) u ?c t # o1)"
    using Cons.prems(1) by (auto simp: Let_def counts1_def k1_def split: if_splits prod.splits)
  from Cons.IH [OF o1(1) pre bound] obtain xs where xs: "map tx_id o1 = map tag_id xs"
    "tags_between (fired counts1) (fired counts') xs"
    "\<forall>(t, p, q, c) \<in> set xs. t \<in> it_trigger_id ` set ts \<and> p = iu_product_id u \<and> q = iu_owner_id u"
    "\<forall>t. fired counts' t \<le> fired counts1 t + (if t \<in> it_trigger_id ` set ts then 1 else 0)" by blast
  have grow: "fired counts' t' \<le> fired counts t' + (if t' \<in> it_trigger_id ` set (t # ts) then 1 else 0)" for t'
    using xs(4) [rule_format, of t'] notin by (auto simp: f1 split: if_splits)
  show ?case
  proof (cases "trigger_gate G executor new_level t \<noteq> Approved")
    case True
    then show ?thesis using o1(2) xs tags_between_skip [OF xs(2) [unfolded f1]] grow
      by (intro exI [of _ xs]) auto
  next
    case False
    let ?x = "(?i, iu_product_id u, iu_owner_id u, ?c)"
    have "tags_between (fired counts) (fired counts1) [?x]" by (simp add: tags_between_def f1 c)
    from tags_between_append [OF this xs(2)] False o1(2) xs(1,3) grow show ?thesis
      by (intro exI [of _ "?x # xs"]) (auto simp: tag_id_def reorder_def with_id_def)
  qed
qed

text \<open>The triggers are stored under their identifiers.\<close>

definition triggers_ok :: "watcher_service \<Rightarrow> bool" where
  "triggers_ok w \<longleftrightarrow> btree_wf (wt_triggers w) \<and> (\<forall>(i, t) \<in> set (wt_triggers w). it_trigger_id t = i)"

lemma triggers_ok_insert:
  "triggers_ok w \<Longrightarrow> it_trigger_id t = i \<Longrightarrow> triggers_ok (w\<lparr>wt_triggers := btree_insert i t (wt_triggers w)\<rparr>)"
  unfolding triggers_ok_def using set_btree_insert [of i t "wt_triggers w"]
  by (auto simp: btree_wf_insert)

lemma triggers_distinct:
  assumes "triggers_ok w"
  shows "distinct (map it_trigger_id (filter P (map snd (wt_triggers w))))"
proof -
  have "map it_trigger_id (map snd (wt_triggers w)) = map fst (wt_triggers w)"
    using assms by (auto simp: triggers_ok_def)
  moreover have "distinct (map fst (wt_triggers w))"
    using assms by (simp add: triggers_ok_def btree_wf_distinct)
  ultimately have "distinct (map it_trigger_id (map snd (wt_triggers w)))" by (simp only:)
  then show ?thesis by (simp add: distinct_map_filter)
qed

definition no_colon :: "string \<Rightarrow> bool" where
  "no_colon s \<longleftrightarrow> CHR '':'' \<notin> set s"

definition trigger_names_ok :: "inventory_trigger \<Rightarrow> bool" where
  "trigger_names_ok t \<longleftrightarrow> no_colon (it_trigger_id t) \<and> no_colon (it_product_id t) \<and> no_colon (it_owner_id t)"

definition tag_ok :: "order_tag \<Rightarrow> bool" where
  "tag_ok x = (case x of (t, p, q, c) \<Rightarrow> no_colon t \<and> no_colon p \<and> no_colon q)"

lemma tag_id_inj:
  assumes "tag_ok x" "tag_ok y" "tag_id x = tag_id y"
  shows "x = y"
proof -
  obtain t p q c where x: "x = (t, p, q, c)" by (cases x)
  obtain t' p' q' c' where y: "y = (t', p', q', c')" by (cases y)
  have "t @ CHR '':'' # p @ CHR '':'' # q @ CHR '':'' # show_nat (unat c) =
      t' @ CHR '':'' # p' @ CHR '':'' # q' @ CHR '':'' # show_nat (unat c')"
    using assms(3) by (simp add: x y tag_id_def order_id_def)
  with assms(1,2) have "t = t'" and p: "p @ CHR '':'' # q @ CHR '':'' # show_nat (unat c) =
      p' @ CHR '':'' # q' @ CHR '':'' # show_nat (unat c')"
    using sep_append_inj [of "CHR '':''" t t'] by (auto simp: x y tag_ok_def no_colon_def)
  from p assms(1,2) have "p = p'" and q: "q @ CHR '':'' # show_nat (unat c) = q' @ CHR '':'' # show_nat (unat c')"
    using sep_append_inj [of "CHR '':''" p p'] by (auto simp: x y tag_ok_def no_colon_def)
  from sep_append_inj [OF _ _ q] assms(1,2) have "q = q' \<and> show_nat (unat c) = show_nat (unat c')"
    by (simp add: x y tag_ok_def no_colon_def)
  then show ?thesis using \<open>t = t'\<close> \<open>p = p'\<close> by (simp add: x y word_unat_eq_iff)
qed

definition names_ok :: "watcher_service \<Rightarrow> bool" where
  "names_ok w \<longleftrightarrow> (\<forall>x \<in> set (wt_triggers w). trigger_names_ok (snd x))"

lemma names_ok_insert:
  "names_ok w \<Longrightarrow> trigger_names_ok t \<Longrightarrow> names_ok (w\<lparr>wt_triggers := btree_insert i t (wt_triggers w)\<rparr>)"
  unfolding names_ok_def using set_btree_insert [of i t "wt_triggers w"] by auto

lemma set_active_ok:
  assumes "triggers_ok w" "names_ok w"
  shows "triggers_ok (set_active b i w)" "names_ok (set_active b i w)"
proof -
  have "triggers_ok (set_active b i w) \<and> names_ok (set_active b i w)"
  proof (cases "map_of (wt_triggers w) i")
    case (Some t)
    from map_of_SomeD [OF this] assms have "it_trigger_id t = i" "trigger_names_ok t"
      by (auto simp: triggers_ok_def names_ok_def)
    then have t: "it_trigger_id (t\<lparr>it_active := b\<rparr>) = i" "trigger_names_ok (t\<lparr>it_active := b\<rparr>)"
      by (simp_all add: trigger_names_ok_def)
    show ?thesis using triggers_ok_insert [OF assms(1) t(1)] names_ok_insert [OF assms(2) t(2)] Some
      by (simp add: set_active_def)
  qed (simp add: set_active_def assms)
  then show "triggers_ok (set_active b i w)" "names_ok (set_active b i w)" by simp_all
qed

lemma set_active_counts [simp]: "wt_trigger_fire_counts (set_active b i w) = wt_trigger_fire_counts w"
  by (simp add: set_active_def split: option.split)

text \<open>One operation on the invariant of the histories below.\<close>

definition counted :: "nat \<Rightarrow> watcher_service \<Rightarrow> bool" where
  "counted n w \<longleftrightarrow> triggers_ok w \<and> names_ok w \<and> (\<forall>t. fired (wt_trigger_fire_counts w) t \<le> n)"

definition op_names_ok :: "watcher_op \<Rightarrow> bool" where
  "op_names_ok op = (case op of Register t \<Rightarrow> trigger_names_ok t | _ \<Rightarrow> True)"

definition tagged :: "watcher_service \<Rightarrow> transaction list \<Rightarrow> watcher_service \<Rightarrow> order_tag list \<Rightarrow> bool" where
  "tagged w orders w' xs \<longleftrightarrow> map tx_id orders = map tag_id xs \<and> (\<forall>x \<in> set xs. tag_ok x) \<and>
     tags_between (fired (wt_trigger_fire_counts w)) (fired (wt_trigger_fire_counts w')) xs"

lemma tagged_silent:
  "wt_trigger_fire_counts w' = wt_trigger_fire_counts w \<Longrightarrow> tagged w [] w' []"
  by (simp add: tagged_def tags_between_def)

lemma tagged_append: "tagged w o1 w1 xs \<Longrightarrow> tagged w1 o2 w2 ys \<Longrightarrow> tagged w (o1 @ o2) w2 (xs @ ys)"
  by (auto simp: tagged_def intro: tags_between_append)

lemma observe_tags:
  assumes "counted n w" "n < 2 ^ 64 - 1" "on_inventory_update G clock k u w = (orders, w', k')"
  shows "counted (n + 1) w' \<and> (\<exists>xs. tagged w orders w' xs)"
proof -
  define firing where
    "firing = filter (fires u (fst (apply_delta u (wt_inventory w)))) (map snd (wt_triggers w))"
  note parts = on_inventory_update_parts [OF assms(3), folded firing_def]
  have w: "triggers_ok w" "names_ok w" and le: "fired (wt_trigger_fire_counts w) t \<le> n" for t
    using assms(1) by (simp_all add: counted_def)
  have d: "distinct (map it_trigger_id firing)" unfolding firing_def by (rule triggers_distinct [OF w(1)])
  have b: "\<forall>t \<in> it_trigger_id ` set firing. fired (wt_trigger_fire_counts w) t < 2 ^ 64 - 1"
    using le assms(2) by (auto intro: le_less_trans)
  obtain xs where xs: "map tx_id orders = map tag_id xs"
    "tags_between (fired (wt_trigger_fire_counts w)) (fired (wt_trigger_fire_counts w')) xs"
    "\<forall>(t, p, q, c) \<in> set xs. t \<in> it_trigger_id ` set firing \<and> p = iu_product_id u \<and> q = iu_owner_id u"
    "\<forall>t. fired (wt_trigger_fire_counts w') t \<le> fired (wt_trigger_fire_counts w) t +
       (if t \<in> it_trigger_id ` set firing then 1 else 0)"
    using fire_triggers_tags [OF parts(4) d b] by blast
  have "tag_ok x" if "x \<in> set xs" for x
  proof -
    obtain t p q c where x: "x = (t, p, q, c)" by (cases x)
    with xs(3) that have "t \<in> it_trigger_id ` set firing" and pq: "p = iu_product_id u" "q = iu_owner_id u" by auto
    then obtain tr where tr: "tr \<in> set firing" "t = it_trigger_id tr" by blast
    then have "trigger_names_ok tr" and "it_product_id tr = p" "it_owner_id tr = q"
      using w(2) pq by (auto simp: firing_def names_ok_def fires_def)
    then show ?thesis by (simp add: x tag_ok_def trigger_names_ok_def tr(2))
  qed
  moreover have "fired (wt_trigger_fire_counts w') t \<le> n + 1" for t
    using xs(4) [rule_format, of t] le [of t] by (simp split: if_splits)
  moreover have "triggers_ok w'" "names_ok w'" using w parts(1) by (simp_all add: triggers_ok_def names_ok_def)
  ultimately show ?thesis using xs(1,2) by (auto simp: counted_def tagged_def)
qed

lemma watcher_op_tags:
  assumes "snapshot_faithful S" "counted n w" "op_names_ok op" "n < 2 ^ 64 - 1"
    "watcher_op S G clock op (w, k) = (orders, w', k')"
  shows "counted (n + 1) w' \<and> (\<exists>xs. tagged w orders w' xs)"
proof -
  have quiet: ?thesis if "orders = []" "wt_trigger_fire_counts w' = wt_trigger_fire_counts w"
    "triggers_ok w'" "names_ok w'"
    using that assms(2) tagged_silent [of w' w] by (auto simp: counted_def le_SucI)
  have w: "triggers_ok w" "names_ok w" using assms(2) by (simp_all add: counted_def)
  show ?thesis
  proof (cases op)
    case (Observe u)
    with assms(5) show ?thesis by (intro observe_tags [OF assms(2,4)]) (simp add: watcher_op_def)
  next
    case (Register t)
    then have "trigger_names_ok t" using assms(3) by (simp add: op_names_ok_def)
    with Register assms(5) show ?thesis
      by (intro quiet) (auto simp: watcher_op_def add_trigger_def triggers_ok_insert names_ok_insert w)
  next
    case (Enable i)
    with assms(5) show ?thesis by (intro quiet) (auto simp: watcher_op_def enable_trigger_def set_active_ok w)
  next
    case (Disable i)
    with assms(5) show ?thesis by (intro quiet) (auto simp: watcher_op_def disable_trigger_def set_active_ok w)
  next
    case (Attach exec)
    with assms(5) w show ?thesis
      by (intro quiet) (auto simp: watcher_op_def watcher_set_executor_def triggers_ok_def names_ok_def)
  next
    case Reload
    with assms(5) reload_id [OF assms(1), of G clock w k] w show ?thesis by (intro quiet) auto
  qed
qed

lemma watcher_run_tags:
  assumes "snapshot_faithful S" "counted n w" "\<forall>op \<in> set ops. op_names_ok op" "n + length ops < 2 ^ 64"
    "watcher_run S G clock ops (w, k) = (orders, w', k')"
  shows "\<exists>xs. tagged w orders w' xs"
  using assms(2-)
proof (induction ops arbitrary: w k orders n)
  case Nil
  then show ?case by (auto intro: tagged_silent)
next
  case (Cons op ops)
  obtain o1 w1 k1 where h: "watcher_op S G clock op (w, k) = (o1, w1, k1)" by (rule prod_cases3)
  obtain o2 where r: "watcher_run S G clock ops (w1, k1) = (o2, w', k')" and o: "orders = o1 @ o2"
    using Cons.prems(4) h by (cases "watcher_run S G clock ops (w1, k1)") auto
  have op: "op_names_ok op" "n < 2 ^ 64 - 1" and rest: "\<forall>op \<in> set ops. op_names_ok op" "n + 1 + length ops < 2 ^ 64"
    using Cons.prems(2,3) by simp_all
  from watcher_op_tags [OF assms(1) Cons.prems(1) op h] obtain xs
    where c: "counted (n + 1) w1" and xs: "tagged w o1 w1 xs" by blast
  from Cons.IH [OF c rest r] obtain ys where "tagged w1 o2 w' ys" by blast
  from tagged_append [OF xs this] show ?case unfolding o by blast
qed

lemma tagged_distinct:
  assumes "tagged w orders w' xs"
  shows "distinct (map tx_id orders)"
proof -
  have "inj_on tag_id (set xs)" using assms by (auto simp: tagged_def intro: inj_onI tag_id_inj)
  moreover have "distinct xs" using assms by (auto simp: tagged_def tags_between_def distinct_map)
  ultimately show ?thesis using assms by (simp add: tagged_def distinct_map)
qed

lemma counted_new: "counted 0 watcher_new"
  by (simp add: counted_def triggers_ok_def names_ok_def watcher_new_def fired_def btree_wf_def)


section \<open>What one update orders\<close>

text \<open>The purchase order of a trigger, without the identifier and the clock reading.\<close>

definition order_kind :: "inventory_trigger \<Rightarrow> transaction_kind" where
  "order_kind t = PurchaseOrder \<lparr>po_product_id = it_product_id t, po_buyer_id = it_owner_id t,
     po_seller_id = it_seller_id t, po_quantity = it_reorder_quantity t,
     po_agreed_price_per_unit = it_price_per_unit t, po_currency = it_currency t,
     po_contract_id = Some (it_trigger_id t)\<rparr>"

lemma fire_triggers_kinds:
  "map tx_kind (fst (fire_triggers G clock executor u new_level ts counts k)) =
     map order_kind (filter (\<lambda>t. trigger_gate G executor new_level t = Approved) ts)"
proof (induction ts arbitrary: counts k)
  case (Cons t ts)
  then show ?case
    by (simp add: Let_def case_prod_beta order_kind_def [of t] reorder_def with_id_def)
qed simp


section \<open>Properties\<close>

text \<open>
  One inventory update orders exactly what its triggers ask for: one purchase order, with the
  trigger's seller, quantity, price and currency, for every active trigger of that product and
  owner whose threshold is at least the level after the update and whose approval gate approves,
  and none for any other trigger.
\<close>

theorem watcher_orders_exactly:
  "map tx_kind (fst (on_inventory_update G clock k u w)) =
     map order_kind (filter (\<lambda>t. it_active t \<and> it_product_id t = iu_product_id u \<and>
         it_owner_id t = iu_owner_id u \<and>
         sint (inventory_level w (iu_product_id u) (iu_owner_id u) + iu_quantity_delta u)
           \<le> sint (it_reorder_threshold t) \<and>
         trigger_gate G (wt_executor w)
           (inventory_level w (iu_product_id u) (iu_owner_id u) + iu_quantity_delta u) t = Approved)
       (map snd (wt_triggers w)))"
proof -
  let ?lv = "inventory_level w (iu_product_id u) (iu_owner_id u) + iu_quantity_delta u"
  have lv: "fst (apply_delta u (wt_inventory w)) = ?lv" by (simp add: level_after_delta(2) inventory_level_def)
  obtain orders w' k' where h: "on_inventory_update G clock k u w = (orders, w', k')" by (rule prod_cases3)
  from on_inventory_update_parts(4) [OF h]
    fire_triggers_kinds [of G clock "wt_executor w" u ?lv "filter (fires u ?lv) (map snd (wt_triggers w))"
      "wt_trigger_fire_counts w" k]
  have "map tx_kind orders = map order_kind (filter (\<lambda>t. trigger_gate G (wt_executor w) ?lv t = Approved)
      (filter (fires u ?lv) (map snd (wt_triggers w))))" by (simp only: lv fst_conv)
  then show ?thesis by (simp add: h fires_def conj_assoc)
qed

text \<open>
  C17. Over any history shorter than \<open>2 ^ 64\<close> operations of updates, trigger changes, executor changes
  and restarts from a snapshot of the current state, in which the names of the registered triggers,
  of their products and of their owners are free of colons, no two orders the watcher emits share
  an identifier; and every inventory level is the sum of the observed deltas.
\<close>

theorem watcher_orders_unique:
  assumes "snapshot_faithful S" "\<forall>op \<in> set ops. op_names_ok op" "length ops < 2 ^ 64"
    "watcher_run S G clock ops (watcher_new, k) = (orders, w', k')"
  shows "distinct (map tx_id orders) \<and> (\<forall>p q. inventory_level w' p q = deltas p q ops)"
proof -
  obtain xs where "tagged watcher_new orders w' xs"
    using watcher_run_tags [OF assms(1) counted_new assms(2) _ assms(4)] assms(3) by auto
  moreover have "inventory_level w' p q = deltas p q ops" for p q
    using watcher_run_levels [OF assms(1,4), of p q] by (simp add: inventory_level_def level_in_def watcher_new_def)
  ultimately show ?thesis by (blast intro: tagged_distinct)
qed


section \<open>A run of the watcher\<close>

definition demo_trigger :: inventory_trigger where
  "demo_trigger = \<lparr>it_trigger_id = ''t'', it_product_id = ''p'', it_owner_id = ''o'',
     it_reorder_threshold = 10, it_reorder_quantity = 50, it_seller_id = ''s'', it_price_per_unit = 3,
     it_currency = ''BRL'', it_active = True, it_wasm_code_b64 = None\<rparr>"

definition demo_update :: "64 word \<Rightarrow> inventory_update" where
  "demo_update d = \<lparr>iu_product_id = ''p'', iu_owner_id = ''o'', iu_quantity_delta = d, iu_reason = ''sale''\<rparr>"

text \<open>A codec that knows the one snapshot of the run.\<close>

definition demo_snapshot :: watcher_state_snapshot where
  "demo_snapshot = \<lparr>wss_inventory = [(''p'', [(''o'', 5)])], wss_trigger_fire_counts = [(''t'', 1)]\<rparr>"

definition demo_codec :: snapshot_codec where
  "demo_codec = \<lparr>ser_snapshot = (\<lambda>s. if s = demo_snapshot then Some [1] else None),
     de_snapshot = (\<lambda>bs. if bs = [1] then Some demo_snapshot else None)\<rparr>"

definition demo_history :: "watcher_op list" where
  "demo_history = [Register demo_trigger, Observe (demo_update 5), Reload, Observe (demo_update (- 2))]"

definition demo_order :: "u64 \<Rightarrow> transaction" where
  "demo_order c = reorder 0 (demo_update 5) c demo_trigger"

theorem watcher_orders_unique_witness:
  "map tx_id (fst (watcher_run demo_codec sample_gate (\<lambda>_. 0) demo_history (watcher_new, 0))) =
     [''watcher:t:p:o:1'', ''watcher:t:p:o:2'']
   \<and> distinct (map tx_id (fst (watcher_run demo_codec sample_gate (\<lambda>_. 0) demo_history (watcher_new, 0))))
   \<and> inventory_level (fst (snd (watcher_run demo_codec sample_gate (\<lambda>_. 0) demo_history (watcher_new, 0)))) ''p'' ''o'' = 3"
proof -
  have run: "watcher_run demo_codec sample_gate (\<lambda>_. 0) demo_history (watcher_new, 0) =
     ([demo_order 1, demo_order 2], \<lparr>wt_triggers = [(''t'', demo_trigger)], wt_inventory = [(''p'', [(''o'', 3)])],
        wt_trigger_fire_counts = [(''t'', 2)], wt_executor = None\<rparr>, 2)"
    by (simp add: demo_history_def watcher_op_def add_trigger_def watcher_new_def on_inventory_update_def
        apply_delta_def demo_update_def fires_def trigger_gate_def next_count_def demo_order_def
        demo_trigger_def serialize_state_def restore_from_bytes_def demo_codec_def demo_snapshot_def
        to_snapshot_def apply_snapshot_def reorder_def)
  have ids: "tx_id (demo_order 1) = ''watcher:t:p:o:1''" "tx_id (demo_order 2) = ''watcher:t:p:o:2''"
    by (simp_all add: demo_order_def reorder_def with_id_def order_id_def demo_trigger_def demo_update_def
        show_nat_less_10 char_of_def bit_Suc_0_iff)
  have "snapshot_faithful demo_codec" by (simp add: snapshot_faithful_def demo_codec_def)
  moreover have "\<forall>op \<in> set demo_history. op_names_ok op"
    by (simp add: demo_history_def op_names_ok_def trigger_names_ok_def no_colon_def demo_trigger_def)
  moreover have "length demo_history < 2 ^ 64" by (simp add: demo_history_def)
  ultimately have "distinct (map tx_id [demo_order 1, demo_order 2]) \<and>
      (\<forall>p q. inventory_level \<lparr>wt_triggers = [(''t'', demo_trigger)], wt_inventory = [(''p'', [(''o'', 3)])],
        wt_trigger_fire_counts = [(''t'', 2)], wt_executor = None\<rparr> p q = deltas p q demo_history)"
    using watcher_orders_unique [OF _ _ _ run] by blast
  then show ?thesis by (simp add: run ids inventory_level_def level_in_def)
qed

end
