(* ===== verification/Indexer.thy ===== *)
theory Indexer
  imports Ledger "HOL-Library.Sublist"
begin

text \<open>
  \<^verbatim>\<open>glasschain-indexer\<close>: the block indexer, the provenance index, the analytical flattener with its
  CSV rows and lineage view, and the in-memory event bus.

  The JSON encoder and decoder of a transaction and the encoder of the block-level event are
  external and may fail.  The locks serialize the operations, so each is one step; the broadcast
  channel to live subscribers is not modelled, the bounded event log is.
\<close>

record index_env = env +
  de_transaction :: "string \<Rightarrow> transaction option"
  ser_block_event :: "u64 \<Rightarrow> string \<Rightarrow> nat \<Rightarrow> string"


section \<open>The block indexer\<close>

record indexed_block =
  ib_index :: u64
  ib_hash :: string
  ib_previous_hash :: string
  ib_timestamp :: u64
  ib_transaction_count :: nat
  ib_transaction_ids :: "string list"

definition indexed_block_of :: "block \<Rightarrow> indexed_block" where
  "indexed_block_of b = \<lparr>ib_index = b_index b, ib_hash = b_hash b,
     ib_previous_hash = b_previous_hash b, ib_timestamp = b_timestamp b,
     ib_transaction_count = length (b_transactions b), ib_transaction_ids = map tx_id (b_transactions b)\<rparr>"

record indexed_transaction =
  ix_id :: string
  ix_block_index :: u64
  ix_timestamp :: u64
  ix_kind :: string
  ix_payload_json :: string

datatype indexer_error = IndexSerialization | IndexStorage string

definition kind_name :: "transaction \<Rightarrow> string" where
  "kind_name tx =
     (case tx_kind tx of
        SupplyOffer _ \<Rightarrow> ''SupplyOffer''
      | PurchaseOrder _ \<Rightarrow> ''PurchaseOrder''
      | ContractCreation _ \<Rightarrow> ''ContractCreation''
      | ContractExecution _ \<Rightarrow> ''ContractExecution''
      | InventoryUpdate _ \<Rightarrow> ''InventoryUpdate''
      | AssetRegistration _ \<Rightarrow> ''AssetRegistration''
      | CanonicalRecord _ \<Rightarrow> ''CanonicalRecord''
      | CapabilityActivation _ \<Rightarrow> ''CapabilityActivation''
      | PolicyUpdate _ \<Rightarrow> ''PolicyUpdate'')"

definition indexed_transaction ::
  "'z index_env_scheme \<Rightarrow> block \<Rightarrow> transaction \<Rightarrow> indexer_error + indexed_transaction" where
  "indexed_transaction E b tx =
     res_bind (ok_or IndexSerialization (ser_transaction E tx)) (\<lambda>payload.
       Inr \<lparr>ix_id = tx_id tx, ix_block_index = b_index b, ix_timestamp = tx_timestamp tx,
         ix_kind = kind_name tx, ix_payload_json = payload\<rparr>)"

text \<open>\<^verbatim>\<open>collect\<close> into a \<^verbatim>\<open>Result\<close>: the first error, or all values.\<close>

fun collect_results :: "('e + 'a) list \<Rightarrow> 'e + 'a list" where
  "collect_results [] = Inr []"
| "collect_results (r # rs) = res_bind r (\<lambda>x. res_bind (collect_results rs) (\<lambda>xs. Inr (x # xs)))"

definition indexed_transactions_of ::
  "'z index_env_scheme \<Rightarrow> block \<Rightarrow> indexer_error + indexed_transaction list" where
  "indexed_transactions_of E b = collect_results (map (indexed_transaction E b) (b_transactions b))"

record in_memory_indexer =
  ii_blocks :: "(u64 \<times> indexed_block) list"
  ii_transactions :: "(string \<times> indexed_transaction) list"
  ii_block_tx_ids :: "(u64 \<times> string list) list"

definition indexer_new :: in_memory_indexer where
  "indexer_new = \<lparr>ii_blocks = [], ii_transactions = [], ii_block_tx_ids = []\<rparr>"

definition index_block ::
  "'z index_env_scheme \<Rightarrow> block \<Rightarrow> in_memory_indexer \<Rightarrow> (indexer_error + unit) \<times> in_memory_indexer" where
  "index_block E b i =
     (let i = i\<lparr>ii_blocks := btree_insert (b_index b) (indexed_block_of b) (ii_blocks i)\<rparr>;
          i = i\<lparr>ii_block_tx_ids := btree_insert (b_index b) (map tx_id (b_transactions b)) (ii_block_tx_ids i)\<rparr>
      in case indexed_transactions_of E b of
           Inl e \<Rightarrow> (Inl e, i)
         | Inr txs \<Rightarrow> (Inr (), i\<lparr>ii_transactions :=
             fold (\<lambda>tx. btree_insert (ix_id tx) tx) txs (ii_transactions i)\<rparr>))"

definition indexer_get_block :: "u64 \<Rightarrow> in_memory_indexer \<Rightarrow> indexed_block option" where
  "indexer_get_block index i = map_of (ii_blocks i) index"

definition indexer_get_transaction :: "string \<Rightarrow> in_memory_indexer \<Rightarrow> indexed_transaction option" where
  "indexer_get_transaction tid i = map_of (ii_transactions i) tid"

definition transactions_in_block :: "u64 \<Rightarrow> in_memory_indexer \<Rightarrow> indexed_transaction list" where
  "transactions_in_block index i =
     (case map_of (ii_block_tx_ids i) index of
        None \<Rightarrow> []
      | Some ids \<Rightarrow> List.map_filter (map_of (ii_transactions i)) ids)"

definition block_count :: "in_memory_indexer \<Rightarrow> nat" where
  "block_count i = length (ii_blocks i)"


section \<open>Provenance\<close>

record custody_event =
  cu_asset_id :: string
  cu_event_type :: string
  cu_custodian_id :: string
  cu_transaction_id :: string
  cu_block_index :: u64
  cu_timestamp :: u64

type_synonym provenance_index = "(string \<times> custody_event list) list"

definition provenance_new :: provenance_index where
  "provenance_new = []"

definition record_event :: "custody_event \<Rightarrow> provenance_index \<Rightarrow> provenance_index" where
  "record_event e p =
     btree_insert (cu_asset_id e)
       ((case map_of p (cu_asset_id e) of None \<Rightarrow> [] | Some es \<Rightarrow> es) @ [e]) p"

definition asset_id_for :: "traceable_asset \<Rightarrow> string" where
  "asset_id_for a =
     (case (gtin a, serial_number a, batch_number a) of
        (Some g, Some sn, _) \<Rightarrow> ''GTIN:'' @ g @ '':SN:'' @ sn
      | (Some g, None, Some batch) \<Rightarrow> ''GTIN:'' @ g @ '':BATCH:'' @ batch
      | (Some g, None, None) \<Rightarrow> ''GTIN:'' @ g
      | (None, Some sn, _) \<Rightarrow> ''SN:'' @ sn
      | (None, None, _) \<Rightarrow> ''PRODUCT:'' @ product_name a)"

definition custody_event_of :: "u64 \<Rightarrow> transaction \<Rightarrow> custody_event option" where
  "custody_event_of index tx =
     (case tx_kind tx of
        AssetRegistration reg \<Rightarrow> Some \<lparr>cu_asset_id = asset_id_for (ar_asset reg),
          cu_event_type = ar_event_type reg, cu_custodian_id = custodian_id (ar_asset reg),
          cu_transaction_id = tx_id tx, cu_block_index = index, cu_timestamp = tx_timestamp tx\<rparr>
      | _ \<Rightarrow> None)"

definition provenance_ingest_block :: "block \<Rightarrow> provenance_index \<Rightarrow> provenance_index" where
  "provenance_ingest_block b p =
     fold (\<lambda>tx p. case custody_event_of (b_index b) tx of Some e \<Rightarrow> record_event e p | None \<Rightarrow> p)
       (b_transactions b) p"

definition get_custody_chain :: "provenance_index \<Rightarrow> string \<Rightarrow> custody_event list" where
  "get_custody_chain p asset_id = (case map_of p asset_id of None \<Rightarrow> [] | Some es \<Rightarrow> es)"

definition tracked_assets :: "provenance_index \<Rightarrow> string list" where
  "tracked_assets p = map fst p"

text \<open>The loop of \<^verbatim>\<open>verify_lineage\<close>: \<^verbatim>\<open>any\<close> advances the iterator past the event it finds.\<close>

fun find_in_order :: "custody_event list \<Rightarrow> string list \<Rightarrow> bool" where
  "find_in_order chain [] = True"
| "find_in_order chain (expected # rest) =
     (case dropWhile (\<lambda>e. cu_event_type e \<noteq> expected) chain of
        [] \<Rightarrow> False
      | _ # chain' \<Rightarrow> find_in_order chain' rest)"

definition verify_lineage :: "provenance_index \<Rightarrow> string \<Rightarrow> string list \<Rightarrow> bool" where
  "verify_lineage p asset_id expected_events =
     (let chain = get_custody_chain p asset_id
      in if length chain < length expected_events then False else find_in_order chain expected_events)"


section \<open>The analytical flattener\<close>

record flat_asset_record =
  fa_block_index :: u64
  fa_block_hash :: string
  fa_block_timestamp :: u64
  fa_transaction_id :: string
  fa_transaction_timestamp :: u64
  fa_gtin :: "string option"
  fa_batch_number :: "string option"
  fa_expiry_date :: "string option"
  fa_serial_number :: "string option"
  fa_anvisa_registration :: "string option"
  fa_manufacturer_id :: "string option"
  fa_product_name :: string
  fa_custodian_id :: string
  fa_country_of_origin :: "string option"
  fa_storage_temp_celsius :: "string option"
  fa_quantity :: u64
  fa_event_type :: string
  fa_originator_id :: string
  fa_purchase_order_ref :: "string option"
  fa_trust_score :: u8
  fa_is_standard_compliant :: bool
  fa_missing_core_fields :: string

datatype flattener_error = Deserialization | NotAssetRegistration

definition flat_record ::
  "string \<Rightarrow> u64 \<Rightarrow> u64 \<Rightarrow> string \<Rightarrow> u64 \<Rightarrow> traceable_asset_registration \<Rightarrow> flat_asset_record" where
  "flat_record tid timestamp block_index block_hash block_timestamp reg =
     (let asset = ar_asset reg; s = compute asset
      in \<lparr>fa_block_index = block_index, fa_block_hash = block_hash,
          fa_block_timestamp = block_timestamp, fa_transaction_id = tid,
          fa_transaction_timestamp = timestamp, fa_gtin = gtin asset,
          fa_batch_number = batch_number asset, fa_expiry_date = expiry_date asset,
          fa_serial_number = serial_number asset, fa_anvisa_registration = anvisa_registration asset,
          fa_manufacturer_id = manufacturer_id asset, fa_product_name = product_name asset,
          fa_custodian_id = custodian_id asset, fa_country_of_origin = country_of_origin asset,
          fa_storage_temp_celsius = storage_temp_celsius asset, fa_quantity = asset_quantity asset,
          fa_event_type = ar_event_type reg, fa_originator_id = ar_originator_id reg,
          fa_purchase_order_ref = ar_purchase_order_ref reg, fa_trust_score = score s,
          fa_is_standard_compliant = is_standard s,
          fa_missing_core_fields = join_str '','' (missing_core_fields s)\<rparr>)"

definition flatten_transaction ::
  "'z index_env_scheme \<Rightarrow> indexed_transaction \<Rightarrow> u64 \<Rightarrow> string \<Rightarrow> u64 \<Rightarrow> flattener_error + flat_asset_record" where
  "flatten_transaction E tx block_index block_hash block_timestamp =
     (if ix_kind tx \<noteq> ''AssetRegistration'' then Inl NotAssetRegistration
      else res_bind (ok_or Deserialization (de_transaction E (ix_payload_json tx))) (\<lambda>full_tx.
        case tx_kind full_tx of
          AssetRegistration reg \<Rightarrow>
            Inr (flat_record (ix_id tx) (ix_timestamp tx) block_index block_hash block_timestamp reg)
        | _ \<Rightarrow> Inl NotAssetRegistration))"

type_synonym analytical_flattener = "flat_asset_record list"

definition flattener_new :: analytical_flattener where
  "flattener_new = []"

definition ingest_indexed_block ::
  "'z index_env_scheme \<Rightarrow> indexed_block \<Rightarrow> indexed_transaction list \<Rightarrow> analytical_flattener \<Rightarrow> analytical_flattener" where
  "ingest_indexed_block E b txs records =
     fold (\<lambda>tx records.
         if ix_kind tx \<noteq> ''AssetRegistration'' then records
         else case flatten_transaction E tx (ib_index b) (ib_hash b) (ib_timestamp b) of
           Inr record \<Rightarrow> records @ [record]
         | Inl _ \<Rightarrow> records) txs records"

text \<open>
  How \<^verbatim>\<open>Node\<close> feeds the flattener: a block with a transaction that does not serialize is skipped
  whole (\<^verbatim>\<open>after_block_commit\<close> and the rebuild of \<^verbatim>\<open>glasschain-network/src/node.rs\<close>).
\<close>

definition flatten_block :: "'z index_env_scheme \<Rightarrow> block \<Rightarrow> analytical_flattener \<Rightarrow> analytical_flattener" where
  "flatten_block E b records =
     (case indexed_transactions_of E b of
        Inl _ \<Rightarrow> records
      | Inr txs \<Rightarrow> ingest_indexed_block E (indexed_block_of b) txs records)"

definition records_by_gtin :: "string \<Rightarrow> analytical_flattener \<Rightarrow> flat_asset_record list" where
  "records_by_gtin g records = filter (\<lambda>r. fa_gtin r = Some g) records"

definition records_by_custodian :: "string \<Rightarrow> analytical_flattener \<Rightarrow> flat_asset_record list" where
  "records_by_custodian c records = filter (\<lambda>r. fa_custodian_id r = c) records"

definition records_by_batch :: "string \<Rightarrow> analytical_flattener \<Rightarrow> flat_asset_record list" where
  "records_by_batch b records = filter (\<lambda>r. fa_batch_number r = Some b) records"

definition standard_compliant_records :: "analytical_flattener \<Rightarrow> flat_asset_record list" where
  "standard_compliant_records records = filter fa_is_standard_compliant records"

definition low_trust_records :: "analytical_flattener \<Rightarrow> flat_asset_record list" where
  "low_trust_records records = filter (\<lambda>r. fa_trust_score r < 80) records"

definition total_quantity_for_gtin :: "string \<Rightarrow> analytical_flattener \<Rightarrow> u64" where
  "total_quantity_for_gtin g records = sum_list (map fa_quantity (records_by_gtin g records))"

subsection \<open>CSV rows\<close>

definition csv_quote :: "string \<Rightarrow> string" where
  "csv_quote s =
     (if CHR '','' \<in> set s \<or> CHR 0x22 \<in> set s \<or> CHR 0x0A \<in> set s
      then [CHR 0x22] @ concat (map (\<lambda>c. if c = CHR 0x22 then [c, c] else [c]) s) @ [CHR 0x22]
      else s)"

definition opt :: "string option \<Rightarrow> string" where
  "opt v = (case v of None \<Rightarrow> [] | Some s \<Rightarrow> s)"

definition show_bool :: "bool \<Rightarrow> string" where
  "show_bool b = (if b then ''true'' else ''false'')"

text \<open>The columns before the last one, which is the only quoted one.\<close>

definition plain_columns :: "flat_asset_record \<Rightarrow> string list" where
  "plain_columns r =
     [show_nat (unat (fa_block_index r)), fa_block_hash r, show_nat (unat (fa_block_timestamp r)),
      fa_transaction_id r, show_nat (unat (fa_transaction_timestamp r)), opt (fa_gtin r),
      opt (fa_batch_number r), opt (fa_expiry_date r), opt (fa_serial_number r),
      opt (fa_anvisa_registration r), opt (fa_manufacturer_id r), fa_product_name r,
      fa_custodian_id r, opt (fa_country_of_origin r), opt (fa_storage_temp_celsius r),
      show_nat (unat (fa_quantity r)), fa_event_type r, fa_originator_id r,
      opt (fa_purchase_order_ref r), show_nat (unat (fa_trust_score r)),
      show_bool (fa_is_standard_compliant r)]"

definition to_csv_row :: "flat_asset_record \<Rightarrow> string" where
  "to_csv_row r = join_str '','' (plain_columns r @ [csv_quote (fa_missing_core_fields r)])"

definition to_csv_header :: string where
  "to_csv_header =
     ''block_index,block_hash,block_timestamp,transaction_id,transaction_timestamp,'' @
     ''gtin,batch_number,expiry_date,serial_number,anvisa_registration,manufacturer_id,'' @
     ''product_name,custodian_id,country_of_origin,storage_temp_celsius,quantity,'' @
     ''event_type,originator_id,purchase_order_ref,trust_score,is_standard_compliant,'' @
     ''missing_core_fields''"

subsection \<open>Lineage\<close>

text \<open>The average is exact here; the source rounds it to an \<^verbatim>\<open>f64\<close>.\<close>

record verifiable_lineage =
  vl_asset_id :: string
  vl_custody_chain :: "custody_event list"
  vl_flat_records :: "flat_asset_record list"
  vl_is_complete :: bool
  vl_trust_score_avg :: rat

definition extract_gtin :: "string \<Rightarrow> string option" where
  "extract_gtin asset_id =
     (if starts_with asset_id ''GTIN:'' then Some (takeWhile (\<lambda>c. c \<noteq> CHR '':'') (drop 5 asset_id))
      else None)"

definition lineage_build :: "string \<Rightarrow> provenance_index \<Rightarrow> analytical_flattener \<Rightarrow> verifiable_lineage" where
  "lineage_build asset_id p records =
     (let custody_chain = get_custody_chain p asset_id;
          flat_records = (case extract_gtin asset_id of None \<Rightarrow> [] | Some g \<Rightarrow> records_by_gtin g records)
      in \<lparr>vl_asset_id = asset_id, vl_custody_chain = custody_chain, vl_flat_records = flat_records,
          vl_is_complete = (length custody_chain = length flat_records),
          vl_trust_score_avg = (if flat_records = [] then 0
            else sum_list (map (\<lambda>r. of_nat (unat (fa_trust_score r))) flat_records)
              / of_nat (length flat_records))\<rparr>)"


section \<open>The event bus\<close>

record indexer_event =
  ie_event_type :: string
  ie_block_index :: u64
  ie_transaction_id :: string
  ie_transaction_kind :: string
  ie_timestamp :: u64
  ie_payload_json :: string

datatype event_bus_error = BusSerialization | Publish string

definition block_event :: "'z index_env_scheme \<Rightarrow> block \<Rightarrow> indexer_event" where
  "block_event E b = \<lparr>ie_event_type = ''block_committed'', ie_block_index = b_index b,
     ie_transaction_id = [], ie_transaction_kind = [], ie_timestamp = b_timestamp b,
     ie_payload_json = ser_block_event E (b_index b) (b_hash b) (length (b_transactions b))\<rparr>"

definition transaction_event :: "block \<Rightarrow> transaction \<Rightarrow> string \<Rightarrow> indexer_event" where
  "transaction_event b tx payload = \<lparr>ie_event_type = ''transaction_committed'',
     ie_block_index = b_index b, ie_transaction_id = tx_id tx, ie_transaction_kind = kind_name tx,
     ie_timestamp = tx_timestamp tx, ie_payload_json = payload\<rparr>"

text \<open>\<^verbatim>\<open>EventBusProvider::publish_block\<close>, the trait's default over any provider's \<^verbatim>\<open>publish\<close>.\<close>

fun publish_transactions ::
  "'z index_env_scheme \<Rightarrow> (indexer_event \<Rightarrow> 'b \<Rightarrow> (event_bus_error + unit) \<times> 'b) \<Rightarrow> block \<Rightarrow>
     transaction list \<Rightarrow> 'b \<Rightarrow> (event_bus_error + unit) \<times> 'b" where
  "publish_transactions E publish b [] bus = (Inr (), bus)"
| "publish_transactions E publish b (tx # txs) bus =
     (case ser_transaction E tx of
        None \<Rightarrow> (Inl BusSerialization, bus)
      | Some payload \<Rightarrow>
          (case publish (transaction_event b tx payload) bus of
             (Inl e, bus) \<Rightarrow> (Inl e, bus)
           | (Inr _, bus) \<Rightarrow> publish_transactions E publish b txs bus))"

definition publish_block ::
  "'z index_env_scheme \<Rightarrow> (indexer_event \<Rightarrow> 'b \<Rightarrow> (event_bus_error + unit) \<times> 'b) \<Rightarrow> block \<Rightarrow> 'b \<Rightarrow>
     (event_bus_error + unit) \<times> 'b" where
  "publish_block E publish b bus =
     (case publish_transactions E publish b (b_transactions b) bus of
        (Inl e, bus) \<Rightarrow> (Inl e, bus)
      | (Inr _, bus) \<Rightarrow> publish (block_event E b) bus)"

record in_memory_event_bus =
  eb_log :: "indexer_event list"
  eb_capacity :: nat

definition event_bus_new :: "nat \<Rightarrow> in_memory_event_bus" where
  "event_bus_new capacity = \<lparr>eb_log = [], eb_capacity = capacity\<rparr>"

definition bus_publish :: "indexer_event \<Rightarrow> in_memory_event_bus \<Rightarrow> (event_bus_error + unit) \<times> in_memory_event_bus" where
  "bus_publish e bus =
     (let log = (if length (eb_log bus) \<ge> eb_capacity bus then tl (eb_log bus) else eb_log bus)
      in (Inr (), bus\<lparr>eb_log := log @ [e]\<rparr>))"

definition event_log :: "in_memory_event_bus \<Rightarrow> indexer_event list" where
  "event_log bus = eb_log bus"


section \<open>Custody chains\<close>

text \<open>The custody events of a chain of blocks, in chain order.\<close>

definition custody_events :: "block list \<Rightarrow> custody_event list" where
  "custody_events bs = concat (map (\<lambda>b. List.map_filter (custody_event_of (b_index b)) (b_transactions b)) bs)"

lemma custody_chain_record [simp]:
  "get_custody_chain (record_event e p) a = get_custody_chain p a @ (if cu_asset_id e = a then [e] else [])"
  by (simp add: get_custody_chain_def record_event_def map_of_btree_insert)

lemma custody_chain_transactions:
  "get_custody_chain (fold (\<lambda>tx p. case custody_event_of i tx of Some e \<Rightarrow> record_event e p | None \<Rightarrow> p) txs p) a
     = get_custody_chain p a @ filter (\<lambda>e. cu_asset_id e = a) (List.map_filter (custody_event_of i) txs)"
  by (induction txs arbitrary: p) (auto simp: map_filter_simps split: option.split)

lemma custody_chain_exact:
  "get_custody_chain (fold provenance_ingest_block bs p) a =
     get_custody_chain p a @ filter (\<lambda>e. cu_asset_id e = a) (custody_events bs)"
  by (induction bs arbitrary: p)
    (simp_all add: provenance_ingest_block_def custody_chain_transactions custody_events_def)

lemma custody_chain_new:
  "get_custody_chain (fold provenance_ingest_block bs provenance_new) a = filter (\<lambda>e. cu_asset_id e = a) (custody_events bs)"
  by (simp add: custody_chain_exact) (simp add: get_custody_chain_def provenance_new_def)

lemma find_in_order_subseq: "find_in_order chain es \<longleftrightarrow> subseq es (map cu_event_type chain)"
proof (induction chain es rule: find_in_order.induct)
  case (2 chain expected rest)
  show ?case
  proof (cases "dropWhile (\<lambda>e. cu_event_type e \<noteq> expected) chain")
    case Nil
    then have "\<forall>e \<in> set chain. cu_event_type e \<noteq> expected" by (simp add: dropWhile_eq_Nil_conv)
    then have "expected \<notin> set (map cu_event_type chain)" by auto
    then have "\<not> subseq (expected # rest) (map cu_event_type chain)"
      using list_emb_set [of "(=)" "expected # rest" "map cu_event_type chain" expected] by auto
    then show ?thesis by (simp only: find_in_order.simps Nil list.case)
  next
    case (Cons e chain')
    have e: "cu_event_type e = expected"
      using hd_dropWhile [of "\<lambda>e. cu_event_type e \<noteq> expected" chain] Cons by simp
    define skipped where "skipped = map cu_event_type (takeWhile (\<lambda>e. cu_event_type e \<noteq> expected) chain)"
    have split: "map cu_event_type chain = skipped @ expected # map cu_event_type chain'"
      using arg_cong [OF takeWhile_dropWhile_id [of "\<lambda>e. cu_event_type e \<noteq> expected" chain], of "map cu_event_type"]
      by (simp add: Cons e skipped_def)
    have "expected \<notin> set skipped" by (auto simp: skipped_def dest: set_takeWhileD)
    then have "subseq (expected # rest) (skipped @ expected # ys) \<longleftrightarrow> subseq rest ys" for ys
      by (induction skipped) auto
    with 2 [OF Cons] Cons show ?thesis by (simp add: split)
  qed
qed simp

text \<open>The registrations a chain commits, in chain order.\<close>

definition registrations :: "block list \<Rightarrow> traceable_asset_registration list" where
  "registrations bs = List.map_filter (\<lambda>tx. case tx_kind tx of AssetRegistration r \<Rightarrow> Some r | _ \<Rightarrow> None)
     (concat (map b_transactions bs))"

lemma map_filter_append: "List.map_filter f (xs @ ys) = List.map_filter f xs @ List.map_filter f ys"
  by (simp add: List.map_filter_def)

lemma event_types_of_asset:
  "map cu_event_type (filter (\<lambda>e. cu_asset_id e = a) (List.map_filter (custody_event_of i) txs)) =
     map ar_event_type (filter (\<lambda>r. asset_id_for (ar_asset r) = a)
       (List.map_filter (\<lambda>tx. case tx_kind tx of AssetRegistration r \<Rightarrow> Some r | _ \<Rightarrow> None) txs))"
  by (induction txs) (auto simp: map_filter_simps custody_event_of_def split: transaction_kind.split)

lemma event_types_of_chain:
  "map cu_event_type (filter (\<lambda>e. cu_asset_id e = a) (custody_events bs)) =
     map ar_event_type (filter (\<lambda>r. asset_id_for (ar_asset r) = a) (registrations bs))"
  by (induction bs)
    (simp_all add: custody_events_def registrations_def map_filter_append event_types_of_asset map_filter_simps)


section \<open>Flat records\<close>

text \<open>What the flattener relies on of the JSON codec, and the transactions it can encode.\<close>

definition index_codec_ok :: "'z index_env_scheme \<Rightarrow> bool" where
  "index_codec_ok E \<longleftrightarrow> (\<forall>t s. ser_transaction E t = Some s \<longrightarrow> de_transaction E s = Some t)"

definition encodable :: "'z index_env_scheme \<Rightarrow> block \<Rightarrow> bool" where
  "encodable E b \<longleftrightarrow> (\<forall>tx \<in> set (b_transactions b). ser_transaction E tx \<noteq> None)"

definition flat_row :: "block \<Rightarrow> transaction \<Rightarrow> flat_asset_record option" where
  "flat_row b tx = (case tx_kind tx of
       AssetRegistration r \<Rightarrow> Some (flat_record (tx_id tx) (tx_timestamp tx) (b_index b) (b_hash b) (b_timestamp b) r)
     | _ \<Rightarrow> None)"

lemma kind_name_asset: "kind_name tx = ''AssetRegistration'' \<longleftrightarrow> (\<exists>r. tx_kind tx = AssetRegistration r)"
  by (simp add: kind_name_def split: transaction_kind.split)

lemma flat_row_None: "kind_name tx \<noteq> ''AssetRegistration'' \<Longrightarrow> flat_row b tx = None"
  by (auto simp: kind_name_asset flat_row_def split: transaction_kind.split)

definition indexed_as :: "'z index_env_scheme \<Rightarrow> block \<Rightarrow> transaction \<Rightarrow> indexed_transaction" where
  "indexed_as E b tx = \<lparr>ix_id = tx_id tx, ix_block_index = b_index b, ix_timestamp = tx_timestamp tx,
     ix_kind = kind_name tx, ix_payload_json = the (ser_transaction E tx)\<rparr>"

lemma collect_results_Inr: "\<forall>x \<in> set xs. f x = Inr (g x) \<Longrightarrow> collect_results (map f xs) = Inr (map g xs)"
  by (induction xs) auto

lemma indexed_transactions_encodable:
  assumes "encodable E b"
  shows "indexed_transactions_of E b = Inr (map (indexed_as E b) (b_transactions b))"
  unfolding indexed_transactions_of_def using assms
  by (intro collect_results_Inr) (auto simp: encodable_def indexed_transaction_def indexed_as_def)

lemma flatten_indexed:
  assumes "index_codec_ok E" "ser_transaction E tx \<noteq> None"
  shows "(if ix_kind (indexed_as E b tx) \<noteq> ''AssetRegistration'' then records
     else case flatten_transaction E (indexed_as E b tx) (b_index b) (b_hash b) (b_timestamp b) of
       Inr record \<Rightarrow> records @ [record] | Inl _ \<Rightarrow> records) =
     records @ (case flat_row b tx of None \<Rightarrow> [] | Some r \<Rightarrow> [r])"
proof (cases "kind_name tx = ''AssetRegistration''")
  case True
  then obtain r where r: "tx_kind tx = AssetRegistration r" by (auto simp: kind_name_asset)
  have "de_transaction E (the (ser_transaction E tx)) = Some tx"
    using assms by (auto simp: index_codec_ok_def)
  then show ?thesis by (simp add: flatten_transaction_def indexed_as_def True flat_row_def r)
qed (simp add: indexed_as_def flat_row_None)

lemma indexed_block_sel:
  "ib_index (indexed_block_of b) = b_index b" "ib_hash (indexed_block_of b) = b_hash b"
  "ib_timestamp (indexed_block_of b) = b_timestamp b"
  by (simp_all add: indexed_block_of_def)

lemma flatten_block_rows:
  assumes "index_codec_ok E" "encodable E b"
  shows "flatten_block E b records = records @ List.map_filter (flat_row b) (b_transactions b)"
proof -
  have "fold (\<lambda>tx records. if ix_kind tx \<noteq> ''AssetRegistration'' then records
       else case flatten_transaction E tx (b_index b) (b_hash b) (b_timestamp b) of
         Inr record \<Rightarrow> records @ [record] | Inl _ \<Rightarrow> records) (map (indexed_as E b) txs) records
     = records @ List.map_filter (flat_row b) txs" if "\<forall>tx \<in> set txs. ser_transaction E tx \<noteq> None" for txs
    using that
  proof (induction txs arbitrary: records)
    case (Cons tx txs)
    then have "ser_transaction E tx \<noteq> None" by simp
    note step = flatten_indexed [OF assms(1) this]
    show ?case using Cons by (simp only: list.map fold_simps step) (simp add: map_filter_simps split: option.split)
  qed (simp add: map_filter_simps)
  from this [of "b_transactions b"] assms(2) show ?thesis
    unfolding flatten_block_def indexed_transactions_encodable [OF assms(2)] sum.case ingest_indexed_block_def
      indexed_block_sel by (simp only: encodable_def)
qed

definition flat_rows :: "block list \<Rightarrow> flat_asset_record list" where
  "flat_rows bs = concat (map (\<lambda>b. List.map_filter (flat_row b) (b_transactions b)) bs)"

lemma flatten_chain_rows:
  assumes "index_codec_ok E" "\<forall>b \<in> set bs. encodable E b"
  shows "fold (flatten_block E) bs records = records @ flat_rows bs"
  using assms(2) by (induction bs arbitrary: records) (simp_all add: flatten_block_rows [OF assms(1)] flat_rows_def)

lemma gtins_of_block:
  "map fa_gtin (List.map_filter (flat_row b) txs) = map (gtin \<circ> ar_asset)
     (List.map_filter (\<lambda>tx. case tx_kind tx of AssetRegistration r \<Rightarrow> Some r | _ \<Rightarrow> None) txs)"
  by (induction txs) (auto simp: map_filter_simps flat_row_def flat_record_def Let_def split: transaction_kind.split)

lemma gtins_of_chain: "map fa_gtin (flat_rows bs) = map (gtin \<circ> ar_asset) (registrations bs)"
  by (induction bs) (simp_all add: flat_rows_def registrations_def map_filter_append gtins_of_block map_filter_simps)

lemma count_by_image: "map f xs = map g ys \<Longrightarrow> length (filter (\<lambda>x. f x = v) xs) = length (filter (\<lambda>y. g y = v) ys)"
proof (induction xs arbitrary: ys)
  case (Cons x xs)
  then show ?case by (cases ys) auto
qed simp

lemma filter_lengths_eq:
  assumes "\<forall>x \<in> set xs. P x \<longrightarrow> Q x"
  shows "length (filter P xs) = length (filter Q xs) \<longleftrightarrow> (\<forall>x \<in> set xs. Q x \<longrightarrow> P x)"
proof -
  have le: "length (filter P ys) \<le> length (filter Q ys)" if "\<forall>x \<in> set ys. P x \<longrightarrow> Q x" for ys
    using that by (induction ys) auto
  show ?thesis using assms
  proof (induction xs)
    case (Cons x xs)
    then show ?case using le [of xs] by (cases "P x"; cases "Q x") auto
  qed simp
qed

lemma takeWhile_sep: "x \<notin> set h \<Longrightarrow> takeWhile (\<lambda>c. c \<noteq> x) (h @ x # r) = h"
  "x \<notin> set h \<Longrightarrow> takeWhile (\<lambda>c. c \<noteq> x) h = h"
  by (induction h) auto

lemma asset_id_gtin:
  assumes "gtin a = Some g" "CHR '':'' \<notin> set g" "\<And>h. gtin a' = Some h \<Longrightarrow> CHR '':'' \<notin> set h"
    "asset_id_for a' = asset_id_for a"
  shows "gtin a' = Some g"
proof -
  have take: "takeWhile (\<lambda>c. c \<noteq> CHR '':'') (drop 5 (asset_id_for x)) = h"
    if "gtin x = Some h" "CHR '':'' \<notin> set h" for x h
    using that by (auto simp: asset_id_for_def takeWhile_sep split: option.splits)
  have "hd (asset_id_for a) = CHR ''G''" using assms(1) by (simp add: asset_id_for_def split: option.split)
  then obtain h where h: "gtin a' = Some h"
    using assms(4) by (cases "gtin a'") (auto simp: asset_id_for_def split: option.splits)
  with take [OF h assms(3) [OF h]] take [OF assms(1,2)] assms(4) show ?thesis by simp
qed

lemma extract_asset_gtin:
  assumes "gtin a = Some g" "CHR '':'' \<notin> set g"
  shows "extract_gtin (asset_id_for a) = Some g"
  using assms by (auto simp: extract_gtin_def asset_id_for_def takeWhile_sep split: option.splits)


section \<open>CSV\<close>

text \<open>
  A reader of one CSV row after RFC 4180: a field that starts with a quote runs to the matching
  quote, with doubled quotes inside; any other field runs to the next comma.
\<close>

fun csv_parse :: "bool \<Rightarrow> string \<Rightarrow> string \<Rightarrow> string list" where
  "csv_parse quoted acc [] = [acc]"
| "csv_parse False acc (c # s) =
     (if c = CHR '','' then acc # csv_parse False [] s
      else if c = CHR 0x22 \<and> acc = [] then csv_parse True [] s
      else csv_parse False (acc @ [c]) s)"
| "csv_parse True acc (c # s) =
     (if c \<noteq> CHR 0x22 then csv_parse True (acc @ [c]) s
      else case s of
        d # s' \<Rightarrow> if d = CHR 0x22 then csv_parse True (acc @ [c]) s' else csv_parse False acc s
      | [] \<Rightarrow> [acc])"

definition commas :: "string \<Rightarrow> nat" where
  "commas s = length (filter (\<lambda>c. c = CHR '','') s)"

lemma commas_simps:
  "commas [] = 0" "commas (c # s) = (if c = CHR '','' then 1 else 0) + commas s"
  by (simp_all add: commas_def)

lemma commas_None: "CHR '','' \<notin> set s \<Longrightarrow> commas s = 0"
  unfolding commas_def by (induction s) auto

lemma csv_parse_column:
  "CHR 0x22 \<notin> set s \<Longrightarrow>
     length (csv_parse False acc (s @ CHR '','' # r)) = commas s + 1 + length (csv_parse False [] r)"
  by (induction s arbitrary: acc) (auto simp: commas_def)

lemma csv_parse_plain:
  "CHR 0x22 \<notin> set s \<Longrightarrow> CHR '','' \<notin> set s \<Longrightarrow>
     csv_parse False acc (s @ CHR '','' # r) = (acc @ s) # csv_parse False [] r"
  "CHR 0x22 \<notin> set s \<Longrightarrow> CHR '','' \<notin> set s \<Longrightarrow> csv_parse False acc s = [acc @ s]"
  by (induction s arbitrary: acc) auto

lemma csv_parse_quoted:
  "csv_parse True acc (concat (map (\<lambda>c. if c = CHR 0x22 then [c, c] else [c]) s) @ [CHR 0x22]) = [acc @ s]"
  by (induction s arbitrary: acc) auto

lemma csv_parse_quote: "csv_parse False [] (csv_quote s) = [s]"
  using csv_parse_quoted [of "[]" s] csv_parse_plain(2) [of s "[]"] by (auto simp: csv_quote_def)

lemma join_str_Cons: "ss \<noteq> [] \<Longrightarrow> join_str sep (s # ss) = s @ sep @ join_str sep ss"
  by (cases ss) auto

lemma csv_row_length:
  "\<forall>c \<in> set cs. CHR 0x22 \<notin> set c \<Longrightarrow>
     length (csv_parse False [] (join_str '','' (cs @ [csv_quote q]))) = length cs + 1 + sum_list (map commas cs)"
  by (induction cs) (simp_all add: join_str_Cons csv_parse_column csv_parse_quote)

lemma csv_row_columns:
  "\<forall>c \<in> set cs. CHR 0x22 \<notin> set c \<and> CHR '','' \<notin> set c \<Longrightarrow>
     csv_parse False [] (join_str '','' (cs @ [csv_quote q])) = cs @ [q]"
  by (induction cs) (simp_all add: join_str_Cons csv_parse_plain csv_parse_quote)


section \<open>The event log\<close>

definition block_events :: "'z index_env_scheme \<Rightarrow> block \<Rightarrow> indexer_event list" where
  "block_events E b = map (\<lambda>tx. transaction_event b tx (the (ser_transaction E tx))) (b_transactions b) @ [block_event E b]"

text \<open>
  The trait's contract: a bus that has seen some events accepts one more.  Publishing a block over
  any such bus delivers one event per transaction and then the block's own.
\<close>

locale event_bus =
  fixes publish :: "indexer_event \<Rightarrow> 'b \<Rightarrow> (event_bus_error + unit) \<times> 'b"
    and seen :: "'b \<Rightarrow> indexer_event list \<Rightarrow> bool"
  assumes publish_law: "seen bus es \<Longrightarrow> \<exists>bus'. publish e bus = (Inr (), bus') \<and> seen bus' (es @ [e])"
begin

lemma publish_transactions_events:
  "seen bus es \<Longrightarrow> \<forall>tx \<in> set txs. ser_transaction E tx \<noteq> None \<Longrightarrow>
     \<exists>bus'. publish_transactions E publish b txs bus = (Inr (), bus') \<and>
       seen bus' (es @ map (\<lambda>tx. transaction_event b tx (the (ser_transaction E tx))) txs)"
proof (induction txs arbitrary: bus es)
  case (Cons tx txs)
  then obtain payload where p: "ser_transaction E tx = Some payload" by auto
  from publish_law [OF Cons.prems(1), of "transaction_event b tx payload"] obtain bus1
    where b1: "publish (transaction_event b tx payload) bus = (Inr (), bus1)"
      "seen bus1 (es @ [transaction_event b tx payload])" by blast
  from Cons.IH [OF b1(2)] Cons.prems(2) show ?case by (simp add: p b1(1))
qed simp

lemma publish_block_events:
  assumes "seen bus es" "encodable E b"
  shows "\<exists>bus'. publish_block E publish b bus = (Inr (), bus') \<and> seen bus' (es @ block_events E b)"
proof -
  from publish_transactions_events [OF assms(1), of "b_transactions b" E b] assms(2) obtain bus1 where
    b1: "publish_transactions E publish b (b_transactions b) bus = (Inr (), bus1)"
    "seen bus1 (es @ map (\<lambda>tx. transaction_event b tx (the (ser_transaction E tx))) (b_transactions b))"
    by (auto simp: encodable_def)
  from publish_law [OF b1(2), of "block_event E b"] show ?thesis
    by (simp add: publish_block_def b1(1) block_events_def)
qed

lemma publish_chain_events:
  "seen bus es \<Longrightarrow> \<forall>b \<in> set bs. encodable E b \<Longrightarrow>
     seen (fold (\<lambda>b bus. snd (publish_block E publish b bus)) bs bus) (es @ concat (map (block_events E) bs))"
proof (induction bs arbitrary: bus es)
  case (Cons b bs)
  from publish_block_events [OF Cons.prems(1), of E b] Cons.prems(2) obtain bus1 where
    "publish_block E publish b bus = (Inr (), bus1)" "seen bus1 (es @ block_events E b)" by auto
  with Cons.IH [of bus1 "es @ block_events E b"] Cons.prems(2) show ?case by simp
qed simp

end

text \<open>The last \<open>n\<close> of a list of events.\<close>

definition recent :: "nat \<Rightarrow> 'a list \<Rightarrow> 'a list" where
  "recent n xs = drop (length xs - n) xs"

definition holds_recent :: "nat \<Rightarrow> in_memory_event_bus \<Rightarrow> indexer_event list \<Rightarrow> bool" where
  "holds_recent n bus es \<longleftrightarrow> 0 < n \<and> eb_capacity bus = n \<and> eb_log bus = recent n es"

lemma recent_snoc:
  assumes "0 < n"
  shows "(if length (recent n xs) \<ge> n then tl (recent n xs) else recent n xs) @ [x] = recent n (xs @ [x])"
proof (cases "length xs \<ge> n")
  case True
  let ?m = "length xs - n"
  have m: "length (xs @ [x]) - n = Suc ?m" "Suc ?m - length xs = 0" using True assms by simp_all
  have "tl (recent n xs) = drop (Suc ?m) xs" by (simp only: recent_def tl_drop drop_Suc)
  moreover have "recent n (xs @ [x]) = drop (Suc ?m) xs @ [x]"
    by (simp only: recent_def m drop_append drop_0)
  ultimately show ?thesis using True by (simp add: recent_def)
qed (simp add: recent_def)

interpretation mem_bus: event_bus bus_publish "holds_recent n" for n
proof unfold_locales
  fix bus es e
  assume "holds_recent n bus es"
  then show "\<exists>bus'. bus_publish e bus = (Inr (), bus') \<and> holds_recent n bus' (es @ [e])"
    using recent_snoc [of n es e] by (auto simp: holds_recent_def bus_publish_def Let_def split: if_splits)
qed


text \<open>The bound needs nothing of the codec.\<close>

definition bounded :: "nat \<Rightarrow> in_memory_event_bus \<Rightarrow> bool" where
  "bounded n bus \<longleftrightarrow> length (eb_log bus) \<le> n \<and> eb_capacity bus = n"

lemma bounded_publish: "0 < n \<Longrightarrow> bounded n bus \<Longrightarrow> bounded n (snd (bus_publish e bus))"
  by (auto simp: bounded_def bus_publish_def Let_def)

lemma bus_publish_ok: "bus_publish e bus = (Inr (), snd (bus_publish e bus))"
  by (simp add: bus_publish_def Let_def)

lemma bounded_transactions:
  assumes "0 < n"
  shows "bounded n bus \<Longrightarrow> bounded n (snd (publish_transactions E bus_publish b txs bus))"
proof (induction txs arbitrary: bus)
  case (Cons tx txs)
  show ?case
  proof (cases "ser_transaction E tx")
    case (Some payload)
    obtain bus1 where b1: "bus_publish (transaction_event b tx payload) bus = (Inr (), bus1)"
      using bus_publish_ok by blast
    with bounded_publish [OF assms Cons.prems, of "transaction_event b tx payload"] have "bounded n bus1" by simp
    from Cons.IH [OF this] show ?thesis by (simp add: Some b1)
  qed (use Cons.prems in simp)
qed simp

lemma bounded_block:
  assumes "0 < n" "bounded n bus"
  shows "bounded n (snd (publish_block E bus_publish b bus))"
  using bounded_transactions [OF assms, of E b "b_transactions b"] bounded_publish [OF assms(1)]
  by (auto simp: publish_block_def split: prod.split sum.split)

lemma bounded_chain:
  assumes "0 < n"
  shows "bounded n bus \<Longrightarrow> bounded n (fold (\<lambda>b bus. snd (publish_block E bus_publish b bus)) bs bus)"
  by (induction bs arbitrary: bus) (simp_all add: bounded_block [OF assms])


section \<open>Index lookups\<close>

lemma fold_insert_other:
  "\<forall>x \<in> set xs. k x \<noteq> i \<Longrightarrow> map_of (fold (\<lambda>x. btree_insert (k x) (v x)) xs es) i = map_of es i"
  by (induction xs arbitrary: es) (auto simp: map_of_btree_insert)

lemma fold_insert_lookup:
  "distinct (map k xs) \<Longrightarrow> x \<in> set xs \<Longrightarrow>
     map_of (fold (\<lambda>x. btree_insert (k x) (v x)) xs es) (k x) = Some (v x)"
proof (induction xs arbitrary: es)
  case (Cons y ys)
  show ?case
  proof (cases "x = y")
    case True
    with Cons.prems have "k x \<notin> k ` set ys" by simp
    then have "\<forall>z \<in> set ys. k z \<noteq> k x" by (metis image_eqI)
    then show ?thesis by (simp add: True fold_insert_other map_of_btree_insert)
  qed (use Cons in auto)
qed simp

lemma length_btree_insert: "k \<notin> fst ` set es \<Longrightarrow> length (btree_insert k v es) = Suc (length es)"
  by (induction es) auto

lemma fold_insert_length:
  "distinct (map k xs) \<Longrightarrow> \<forall>x \<in> set xs. k x \<notin> fst ` set es \<Longrightarrow>
     length (fold (\<lambda>x. btree_insert (k x) (v x)) xs es) = length es + length xs"
proof (induction xs arbitrary: es)
  case (Cons x xs)
  then have "k x \<notin> k ` set xs" by simp
  then have "\<forall>z \<in> set xs. k z \<notin> fst ` set (btree_insert (k x) (v x) es)"
    using Cons.prems(2) by (simp add: keys_btree_insert) (metis image_eqI)
  with Cons show ?case by (simp add: length_btree_insert)
qed simp

definition index_chain :: "'z index_env_scheme \<Rightarrow> block list \<Rightarrow> in_memory_indexer \<Rightarrow> in_memory_indexer" where
  "index_chain E bs i = fold (\<lambda>b i. snd (index_block E b i)) bs i"

lemma index_chain_tables:
  assumes "\<forall>b \<in> set bs. encodable E b"
  shows "ii_blocks (index_chain E bs i) = fold (\<lambda>b. btree_insert (b_index b) (indexed_block_of b)) bs (ii_blocks i)"
    "ii_block_tx_ids (index_chain E bs i) =
       fold (\<lambda>b. btree_insert (b_index b) (map tx_id (b_transactions b))) bs (ii_block_tx_ids i)"
    "ii_transactions (index_chain E bs i) =
       fold (\<lambda>x. btree_insert (tx_id (snd x)) (indexed_as E (fst x) (snd x)))
         (concat (map (\<lambda>b. map (Pair b) (b_transactions b)) bs)) (ii_transactions i)"
  using assms
  by (induction bs arbitrary: i)
    (simp_all add: index_chain_def index_block_def Let_def indexed_transactions_encodable fold_map comp_def
      indexed_as_def)


section \<open>Properties\<close>

text \<open>
  C39. The lineage check over the provenance index of a chain decides the specification: it accepts
  an asset and a list of expected event types exactly when that list is a subsequence of the event
  types registered for the asset on the chain, in chain order.
\<close>

theorem verify_lineage_exact:
  "verify_lineage (fold provenance_ingest_block bs provenance_new) asset_id expected \<longleftrightarrow>
     subseq expected (map ar_event_type (filter (\<lambda>r. asset_id_for (ar_asset r) = asset_id) (registrations bs)))"
proof -
  let ?types = "map ar_event_type (filter (\<lambda>r. asset_id_for (ar_asset r) = asset_id) (registrations bs))"
  have "map cu_event_type (get_custody_chain (fold provenance_ingest_block bs provenance_new) asset_id) = ?types"
    by (simp only: custody_chain_new event_types_of_chain)
  moreover from this have "length (get_custody_chain (fold provenance_ingest_block bs provenance_new) asset_id) = length ?types"
    by (metis length_map)
  ultimately show ?thesis
    using list_emb_length [of "(=)" expected ?types] by (auto simp: verify_lineage_def Let_def find_in_order_subseq)
qed

text \<open>
  The lineage view of a serialized unit is reported complete exactly when no other unit or
  batch of the same GTIN was ever registered: custody events are counted for the unit but flat
  records for the whole GTIN, so a second unit of the product makes a fully recorded history look
  incomplete.  (GTINs contain no colon.)
\<close>

theorem lineage_complete_iff:
  assumes "index_codec_ok E" "\<forall>b \<in> set bs. encodable E b" "gtin a = Some g" "CHR '':'' \<notin> set g"
    "\<forall>r \<in> set (registrations bs). \<forall>h. gtin (ar_asset r) = Some h \<longrightarrow> CHR '':'' \<notin> set h"
  shows "vl_is_complete (lineage_build (asset_id_for a) (fold provenance_ingest_block bs provenance_new)
      (fold (flatten_block E) bs flattener_new)) \<longleftrightarrow>
    (\<forall>r \<in> set (registrations bs). gtin (ar_asset r) = Some g \<longrightarrow> asset_id_for (ar_asset r) = asset_id_for a)"
proof -
  let ?p = "fold provenance_ingest_block bs provenance_new"
  have "length (get_custody_chain ?p (asset_id_for a)) =
      length (filter (\<lambda>r. asset_id_for (ar_asset r) = asset_id_for a) (registrations bs))"
    using arg_cong [OF event_types_of_chain [of "asset_id_for a" bs], of length]
    by (simp add: custody_chain_new)
  moreover have "length (records_by_gtin g (fold (flatten_block E) bs flattener_new)) =
      length (filter (\<lambda>r. gtin (ar_asset r) = Some g) (registrations bs))"
    using count_by_image [OF gtins_of_chain, of "Some g" bs]
    by (simp add: flatten_chain_rows [OF assms(1,2)] records_by_gtin_def flattener_new_def)
  moreover have "\<forall>r \<in> set (registrations bs). asset_id_for (ar_asset r) = asset_id_for a \<longrightarrow> gtin (ar_asset r) = Some g"
    using asset_id_gtin [OF assms(3,4)] assms(5) by blast
  ultimately show ?thesis
    by (simp add: lineage_build_def Let_def extract_asset_gtin [OF assms(3,4)] filter_lengths_eq)
qed

text \<open>
  C40. A CSV row without double quotes in its unquoted columns is read back as 22 columns plus one
  for every comma in an unquoted column; without such commas it is read back as exactly the
  record's columns, under the 22 column names of the header.  The last column may hold any text.
\<close>

theorem csv_row_roundtrip:
  assumes "\<forall>c \<in> set (plain_columns r). CHR 0x22 \<notin> set c"
  shows "length (csv_parse False [] (to_csv_row r)) = 22 + sum_list (map commas (plain_columns r))
    \<and> (sum_list (map commas (plain_columns r)) = 0 \<longrightarrow>
        csv_parse False [] (to_csv_row r) = plain_columns r @ [fa_missing_core_fields r])
    \<and> length (csv_parse False [] to_csv_header) = 22"
proof (intro conjI impI)
  have "length (plain_columns r) = 21" by (simp add: plain_columns_def)
  then show "length (csv_parse False [] (to_csv_row r)) = 22 + sum_list (map commas (plain_columns r))"
    using csv_row_length [OF assms, of "fa_missing_core_fields r"] by (simp add: to_csv_row_def)
  show "csv_parse False [] (to_csv_row r) = plain_columns r @ [fa_missing_core_fields r]"
    if "sum_list (map commas (plain_columns r)) = 0"
    unfolding to_csv_row_def
  proof (rule csv_row_columns)
    show "\<forall>c \<in> set (plain_columns r). CHR 0x22 \<notin> set c \<and> CHR '','' \<notin> set c"
      using assms that by (auto simp: commas_def filter_empty_conv)
  qed
  show "length (csv_parse False [] to_csv_header) = 22" by (simp add: to_csv_header_def)
qed

text \<open>
  The event log is a bounded ring: whatever blocks are published, it never holds more than its
  capacity, and when their transactions can be encoded it holds exactly the most recent events, in
  order, one per transaction followed by one per block.
\<close>

theorem event_log_recent:
  assumes "0 < n"
  shows "length (event_log (fold (\<lambda>b bus. snd (publish_block E bus_publish b bus)) bs (event_bus_new n))) \<le> n
    \<and> ((\<forall>b \<in> set bs. encodable E b) \<longrightarrow>
       event_log (fold (\<lambda>b bus. snd (publish_block E bus_publish b bus)) bs (event_bus_new n)) =
         recent n (concat (map (block_events E) bs)))"
proof
  let ?bus = "\<lambda>bs. fold (\<lambda>b bus. snd (publish_block E bus_publish b bus)) bs (event_bus_new n)"
  show "length (event_log (?bus bs)) \<le> n"
    using bounded_chain [OF assms, of "event_bus_new n" E bs] by (simp add: bounded_def event_log_def event_bus_new_def)
  show "(\<forall>b \<in> set bs. encodable E b) \<longrightarrow> event_log (?bus bs) = recent n (concat (map (block_events E) bs))"
  proof
    assume "\<forall>b \<in> set bs. encodable E b"
    moreover have "holds_recent n (event_bus_new n) []"
      using assms by (simp add: holds_recent_def event_bus_new_def recent_def)
    ultimately have "holds_recent n (?bus bs) ([] @ concat (map (block_events E) bs))"
      by (intro mem_bus.publish_chain_events)
    then show "event_log (?bus bs) = recent n (concat (map (block_events E) bs))"
      by (simp add: holds_recent_def event_log_def)
  qed
qed

text \<open>
  After indexing a chain whose blocks have distinct indexes and whose transactions have
  distinct identifiers, every block and every transaction is found under its key with the block
  that committed it, the transactions of a block are listed in block order, and the block count is
  the length of the chain.
\<close>

theorem indexer_roundtrip:
  assumes "\<forall>b \<in> set bs. encodable E b" "distinct (map b_index bs)"
    "distinct (map tx_id (concat (map b_transactions bs)))" "b \<in> set bs"
  shows "indexer_get_block (b_index b) (index_chain E bs indexer_new) = Some (indexed_block_of b)
    \<and> (\<forall>tx \<in> set (b_transactions b).
        indexer_get_transaction (tx_id tx) (index_chain E bs indexer_new) = Some (indexed_as E b tx))
    \<and> transactions_in_block (b_index b) (index_chain E bs indexer_new) = map (indexed_as E b) (b_transactions b)
    \<and> block_count (index_chain E bs indexer_new) = length bs"
proof -
  note tables = index_chain_tables [OF assms(1)]
  let ?i = "index_chain E bs indexer_new" and ?xs = "concat (map (\<lambda>b. map (Pair b) (b_transactions b)) bs)"
  have "map (\<lambda>x. tx_id (snd x)) ?xs = map tx_id (concat (map b_transactions bs))"
    by (simp add: map_concat comp_def)
  then have d: "distinct (map (\<lambda>x. tx_id (snd x)) ?xs)" using assms(3) by (simp only:)
  have tx: "map_of (ii_transactions ?i) (tx_id tx) = Some (indexed_as E b tx)" if "tx \<in> set (b_transactions b)" for tx
  proof -
    have "(b, tx) \<in> set ?xs" using that assms(4) by auto
    from fold_insert_lookup [OF d this, of "\<lambda>x. indexed_as E (fst x) (snd x)"] show ?thesis by (simp add: tables(3))
  qed
  have ids: "map_of (ii_block_tx_ids ?i) (b_index b) = Some (map tx_id (b_transactions b))"
    using fold_insert_lookup [OF assms(2,4), of "\<lambda>b. map tx_id (b_transactions b)"] by (simp add: tables(2))
  have "List.map_filter (map_of (ii_transactions ?i)) (map tx_id txs) = map (indexed_as E b) txs"
    if "set txs \<subseteq> set (b_transactions b)" for txs
    using that by (induction txs) (simp_all add: map_filter_simps tx)
  then have "transactions_in_block (b_index b) ?i = map (indexed_as E b) (b_transactions b)"
    by (simp add: transactions_in_block_def ids)
  moreover have "indexer_get_block (b_index b) ?i = Some (indexed_block_of b)"
    using fold_insert_lookup [OF assms(2,4), of indexed_block_of] by (simp add: indexer_get_block_def tables(1))
  moreover have "block_count ?i = length bs"
    using fold_insert_length [OF assms(2), of "[]" indexed_block_of] by (simp add: block_count_def tables(1) indexer_new_def)
  ultimately show ?thesis by (simp add: indexer_get_transaction_def tx)
qed


section \<open>Two units of one product\<close>

definition demo_asset :: "string \<Rightarrow> traceable_asset" where
  "demo_asset sn = \<lparr>gtin = Some ''789'', batch_number = None, expiry_date = None, serial_number = Some sn,
     anvisa_registration = None, manufacturer_id = None, product_name = ''Drug'', custodian_id = ''fab'',
     country_of_origin = None, storage_temp_celsius = None, asset_quantity = 1\<rparr>"

definition demo_registration :: "string \<Rightarrow> traceable_asset_registration" where
  "demo_registration sn = \<lparr>ar_asset = demo_asset sn, ar_event_type = ''manufacture'',
     ar_originator_id = ''fab'', ar_purchase_order_ref = None\<rparr>"

definition demo_unit :: "string \<Rightarrow> transaction" where
  "demo_unit sn = with_id sn 5 (AssetRegistration (demo_registration sn))"

definition demo_units :: block where
  "demo_units = \<lparr>b_index = 1, b_timestamp = 7, b_transactions = [demo_unit ''1'', demo_unit ''2''],
     b_write_set = [], b_previous_hash = [], b_nonce = 0, b_hash = ''h'', b_certificate = None\<rparr>"

definition demo_index_env :: index_env where
  "demo_index_env = env.extend (sample_tx_env\<lparr>ser_transaction := (\<lambda>t. if t = demo_unit ''1'' then Some ''a''
         else if t = demo_unit ''2'' then Some ''b'' else None)\<rparr>)
     (index_env.fields (\<lambda>s. if s = ''a'' then Some (demo_unit ''1'') else if s = ''b'' then Some (demo_unit ''2'') else None)
       (\<lambda>_ _ _. []))"

lemma demo_index_sel:
  "ser_transaction demo_index_env t = (if t = demo_unit ''1'' then Some ''a''
     else if t = demo_unit ''2'' then Some ''b'' else None)"
  "de_transaction demo_index_env s = (if s = ''a'' then Some (demo_unit ''1'')
     else if s = ''b'' then Some (demo_unit ''2'') else None)"
  by (simp_all add: demo_index_env_def env.defs index_env.defs)

lemma demo_encodable: "encodable demo_index_env demo_units"
  by (simp add: encodable_def demo_units_def demo_index_sel)

lemma demo_registrations: "registrations [demo_units] = [demo_registration ''1'', demo_registration ''2'']"
  by (simp add: registrations_def demo_units_def demo_unit_def with_id_def map_filter_simps)

text \<open>Both units are fully recorded, and the view of either is reported incomplete.\<close>

theorem lineage_complete_iff_witness:
  "\<not> vl_is_complete (lineage_build (asset_id_for (demo_asset ''1''))
      (fold provenance_ingest_block [demo_units] provenance_new)
      (fold (flatten_block demo_index_env) [demo_units] flattener_new))"
proof -
  have "index_codec_ok demo_index_env" by (simp add: index_codec_ok_def demo_index_sel)
  moreover have "\<forall>b \<in> set [demo_units]. encodable demo_index_env b" by (simp add: demo_encodable)
  moreover have "gtin (demo_asset ''1'') = Some ''789''" "CHR '':'' \<notin> set ''789''" by (simp_all add: demo_asset_def)
  moreover have "\<forall>r \<in> set (registrations [demo_units]). \<forall>h. gtin (ar_asset r) = Some h \<longrightarrow> CHR '':'' \<notin> set h"
    by (auto simp: demo_registrations demo_registration_def demo_asset_def)
  ultimately show ?thesis
    by (subst lineage_complete_iff)
      (auto simp: demo_registrations demo_registration_def demo_asset_def asset_id_for_def)
qed

theorem csv_row_roundtrip_witness:
  "length (csv_parse False [] (to_csv_row (flat_record ''1'' 5 1 ''h'' 7
      (demo_registration ''1''\<lparr>ar_asset := (demo_asset ''1'')\<lparr>product_name := ''Drug, 5mg''\<rparr>\<rparr>)))) = 23"
proof -
  let ?r = "flat_record ''1'' 5 1 ''h'' 7 (demo_registration ''1''\<lparr>ar_asset := (demo_asset ''1'')\<lparr>product_name := ''Drug, 5mg''\<rparr>\<rparr>)"
  have digits: "CHR 0x22 \<notin> set (show_nat n)" "commas (show_nat n) = 0" for n
  proof -
    have d: "set (show_nat n) \<subseteq> char_of ` {48..<58::nat}"
    proof (induction n rule: show_nat.induct)
      case (1 n)
      then show ?case by (subst show_nat.simps) auto
    qed
    have "c \<noteq> CHR 0x22 \<and> c \<noteq> CHR '',''" if "c \<in> char_of ` {48..<58::nat}" for c
    proof -
      have "(48::nat) \<le> of_char c" using that by auto
      then show ?thesis by auto
    qed
    with d show "CHR 0x22 \<notin> set (show_nat n)" "commas (show_nat n) = 0" by (auto intro: commas_None)
  qed
  have "\<forall>c \<in> set (plain_columns ?r). CHR 0x22 \<notin> set c" "sum_list (map commas (plain_columns ?r)) = 1"
    by (simp_all add: plain_columns_def flat_record_def Let_def demo_registration_def demo_asset_def digits
        opt_def show_bool_def commas_simps compute_def is_standard_score_def)
  with csv_row_roundtrip [of ?r] show ?thesis by simp
qed

theorem event_log_recent_witness:
  "event_log (fold (\<lambda>b bus. snd (publish_block demo_index_env bus_publish b bus)) [demo_units] (event_bus_new 2)) =
     [transaction_event demo_units (demo_unit ''2'') ''b'', block_event demo_index_env demo_units]"
proof -
  have "event_log (fold (\<lambda>b bus. snd (publish_block demo_index_env bus_publish b bus)) [demo_units] (event_bus_new 2)) =
      recent 2 (concat (map (block_events demo_index_env) [demo_units]))"
    using event_log_recent [of 2 demo_index_env "[demo_units]"] demo_encodable by simp
  also have "\<dots> = recent 2 (block_events demo_index_env demo_units)" by simp
  also have "b_transactions demo_units = [demo_unit ''1'', demo_unit ''2'']" by (simp add: demo_units_def)
  then have "recent 2 (block_events demo_index_env demo_units) =
      [transaction_event demo_units (demo_unit ''2'') ''b'', block_event demo_index_env demo_units]"
    by (simp add: block_events_def recent_def demo_index_sel demo_unit_def with_id_def)
  finally show ?thesis .
qed

theorem indexer_roundtrip_witness:
  "indexer_get_transaction ''2'' (index_chain demo_index_env [demo_units] indexer_new) =
     Some (indexed_as demo_index_env demo_units (demo_unit ''2''))"
proof -
  have "distinct (map tx_id (concat (map b_transactions [demo_units])))"
    by (simp add: demo_units_def demo_unit_def with_id_def)
  with indexer_roundtrip [of "[demo_units]" demo_index_env demo_units]
  have "\<forall>tx \<in> set (b_transactions demo_units). indexer_get_transaction (tx_id tx)
      (index_chain demo_index_env [demo_units] indexer_new) = Some (indexed_as demo_index_env demo_units tx)"
    by (simp add: demo_encodable)
  moreover have "demo_unit ''2'' \<in> set (b_transactions demo_units)" "tx_id (demo_unit ''2'') = ''2''"
    by (simp_all add: demo_units_def demo_unit_def with_id_def)
  ultimately show ?thesis by metis
qed

end
