(* ===== verification/Node.thy ===== *)
theory Node
  imports Watcher Indexer Providers
begin

text \<open>
  The commit pipeline of \<^verbatim>\<open>glasschain-network/src/node.rs\<close>: how a node turns submitted transactions
  into blocks, admits the blocks of its peers, persists them, keeps its derived state, and rebuilds
  that state at start and after a chain replacement.  It composes the ledger, the storage
  providers, the endorsement policies, the contract engine, the watcher and the indexes.

  The node is the one of a build without the \<^verbatim>\<open>bft\<close> feature; the vote rounds are in \<open>Rounds\<close>.
  Sockets, the dissemination of private payloads and the event channel are not part of the
  state; the messages a step broadcasts are part of its result.
\<close>

section \<open>State\<close>

text \<open>The trait \<^verbatim>\<open>StorageProvider\<close>, and its two implementations.\<close>

record 'st storage_provider =
  sp_apply_block :: "block \<Rightarrow> 'st \<Rightarrow> (core_error + unit) \<times> 'st"
  sp_put_block :: "block \<Rightarrow> 'st \<Rightarrow> (core_error + unit) \<times> 'st"
  sp_get_block :: "u64 \<Rightarrow> 'st \<Rightarrow> core_error + block option"
  sp_latest_block_index :: "'st \<Rightarrow> core_error + u64 option"
  sp_put_state :: "string \<Rightarrow> bytes \<Rightarrow> 'st \<Rightarrow> (core_error + unit) \<times> 'st"
  sp_get_state :: "string \<Rightarrow> 'st \<Rightarrow> core_error + bytes option"
  sp_delete_state :: "string \<Rightarrow> 'st \<Rightarrow> (core_error + unit) \<times> 'st"
  sp_list_state_keys :: "string \<Rightarrow> 'st \<Rightarrow> core_error + string list"

definition mem_provider :: "mem_store storage_provider" where
  "mem_provider = \<lparr>sp_apply_block = mem_apply_block, sp_put_block = mem_put_block,
     sp_get_block = mem_get_block, sp_latest_block_index = mem_latest_block_index,
     sp_put_state = mem_put_state, sp_get_state = mem_get_state, sp_delete_state = mem_delete_state,
     sp_list_state_keys = mem_list_state_keys\<rparr>"

definition redb_provider :: "block_codec \<Rightarrow> redb_txn \<Rightarrow> redb_store storage_provider" where
  "redb_provider C txn = \<lparr>sp_apply_block = redb_apply_block C txn, sp_put_block = redb_put_block C txn,
     sp_get_block = redb_get_block C txn, sp_latest_block_index = redb_latest_block_index txn,
     sp_put_state = redb_put_state txn, sp_get_state = redb_get_state txn,
     sp_delete_state = redb_delete_state txn, sp_list_state_keys = redb_list_state_keys txn\<rparr>"

record node_env = index_env +
  ne_gate :: gate_env
  ne_snapshot :: snapshot_codec
  ne_clock :: clock

text \<open>
  \<^verbatim>\<open>Node\<close> with its \<^verbatim>\<open>NodeState\<close>.  An identity is its signer: the JSON of the signed transaction, or a
  failure.  \<open>nd_reads\<close> counts the clock readings.
\<close>

record 'st node =
  nd_ledger :: ledger
  nd_storage :: 'st
  nd_world_state :: world_state
  nd_engine :: engine
  nd_watcher :: watcher_service
  nd_policies :: policy_history
  nd_capability_history :: "capability_history option"
  nd_executor :: "executor option"
  nd_endorsement :: "endorsement_provider option"
  nd_identity :: "(transaction \<Rightarrow> bytes option) option"
  nd_indexer :: in_memory_indexer
  nd_event_bus :: in_memory_event_bus
  nd_provenance :: provenance_index
  nd_flattener :: analytical_flattener
  nd_reads :: nat

datatype message = BlockMessage block | TransactionMessage transaction

abbreviation chain_of :: "('st, 'z) node_scheme \<Rightarrow> block list" where
  "chain_of nd \<equiv> lg_chain (nd_ledger nd)"

text \<open>\<^verbatim>\<open>Node::with_components\<close>.\<close>

definition node_new :: "ledger \<Rightarrow> 'st \<Rightarrow> (transaction \<Rightarrow> bytes option) option \<Rightarrow> nat \<Rightarrow> 'st node" where
  "node_new l st identity k = \<lparr>nd_ledger = l, nd_storage = st, nd_world_state = Map.empty,
     nd_engine = engine_new, nd_watcher = watcher_new, nd_policies = pol_default,
     nd_capability_history = None, nd_executor = None, nd_endorsement = None, nd_identity = identity,
     nd_indexer = indexer_new, nd_event_bus = event_bus_new 4096, nd_provenance = provenance_new,
     nd_flattener = flattener_new, nd_reads = k\<rparr>"

definition register_inventory_trigger :: "inventory_trigger \<Rightarrow> 'st node \<Rightarrow> 'st node" where
  "register_inventory_trigger t nd = nd\<lparr>nd_watcher := add_trigger t (nd_watcher nd)\<rparr>"

definition set_execution_provider :: "executor \<Rightarrow> 'st node \<Rightarrow> 'st node" where
  "set_execution_provider exec nd = nd\<lparr>nd_engine := set_executor exec (nd_engine nd),
     nd_watcher := watcher_set_executor exec (nd_watcher nd), nd_executor := Some exec\<rparr>"


section \<open>Rebuilding derived state\<close>

text \<open>The two loops of \<^verbatim>\<open>rebuild_world_state\<close>; every \<^verbatim>\<open>?\<close> keeps what the storage has absorbed so far.\<close>

fun heal_writes ::
  "'st storage_provider \<Rightarrow> persistent_write list \<Rightarrow> world_state \<Rightarrow> 'st \<Rightarrow> (core_error + world_state) \<times> 'st" where
  "heal_writes P [] ws st = (Inr ws, st)"
| "heal_writes P (w # rest) ws st =
     (case (case pw_op w of
          Set v \<Rightarrow> (ws(state_key w \<mapsto> v), sp_put_state P (state_key w) v st)
        | Delete \<Rightarrow> (ws(state_key w := None), sp_delete_state P (state_key w) st)) of
        (ws', Inl e, st') \<Rightarrow> (Inl e, st')
      | (ws', Inr _, st') \<Rightarrow> heal_writes P rest ws' st')"

fun heal_blocks ::
  "'st storage_provider \<Rightarrow> nat list \<Rightarrow> world_state \<Rightarrow> 'st \<Rightarrow> (core_error + world_state) \<times> 'st" where
  "heal_blocks P [] ws st = (Inr ws, st)"
| "heal_blocks P (i # is) ws st =
     (case sp_get_block P (of_nat i) st of
        Inl e \<Rightarrow> (Inl e, st)
      | Inr None \<Rightarrow> heal_blocks P is ws st
      | Inr (Some b) \<Rightarrow>
          (case heal_writes P (b_write_set b) ws st of
             (Inl e, st') \<Rightarrow> (Inl e, st')
           | (Inr ws', st') \<Rightarrow> heal_blocks P is ws' st'))"

definition rebuild_world_state :: "'st storage_provider \<Rightarrow> 'st \<Rightarrow> (core_error + world_state) \<times> 'st" where
  "rebuild_world_state P st =
     (case sp_latest_block_index P st of
        Inl e \<Rightarrow> (Inl e, st)
      | Inr None \<Rightarrow> (Inr Map.empty, st)
      | Inr (Some latest) \<Rightarrow> heal_blocks P [0..<Suc (unat latest)] Map.empty st)"

definition WATCHER_STATE_KEY :: string where
  "WATCHER_STATE_KEY = ''watcher:state''"

text \<open>The inventory updates of a list of transactions, observed one after the other.\<close>

definition observe_updates ::
  "'z node_env_scheme \<Rightarrow> transaction list \<Rightarrow> watcher_service \<Rightarrow> nat \<Rightarrow> transaction list \<times> watcher_service \<times> nat" where
  "observe_updates N txs w k =
     fold (\<lambda>tx (orders, w, k). case tx_kind tx of
         InventoryUpdate u \<Rightarrow> (case on_inventory_update (ne_gate N) (ne_clock N) k u w of
           (new, w', k') \<Rightarrow> (orders @ new, w', k'))
       | _ \<Rightarrow> (orders, w, k)) txs ([], w, k)"

definition restore_watcher ::
  "'z node_env_scheme \<Rightarrow> 'st storage_provider \<Rightarrow> block list \<Rightarrow> 'st \<Rightarrow> watcher_service \<Rightarrow> nat \<Rightarrow> watcher_service \<times> nat" where
  "restore_watcher N P chain st w k =
     (let (restored, w) = (case sp_get_state P WATCHER_STATE_KEY st of
            Inr (Some bytes) \<Rightarrow> restore_from_bytes (ne_snapshot N) bytes w
          | _ \<Rightarrow> (False, w))
      in if \<not> restored then snd (observe_updates N (concat (map b_transactions chain)) watcher_new k) else (w, k))"

definition rebuild_runtime_state_from_chain ::
  "'z node_env_scheme \<Rightarrow> 'st storage_provider \<Rightarrow> 'st node \<Rightarrow> 'st node" where
  "rebuild_runtime_state_from_chain N P nd =
     (let chain = chain_of nd;
          nd = (case rebuild_world_state P (nd_storage nd) of
              (Inr ws, st) \<Rightarrow> nd\<lparr>nd_storage := st, nd_world_state := ws\<rparr>
            | (Inl _, st) \<Rightarrow> nd\<lparr>nd_storage := st\<rparr>);
          nd = nd\<lparr>nd_provenance := fold provenance_ingest_block chain provenance_new\<rparr>;
          nd = nd\<lparr>nd_flattener := fold (flatten_block N) chain flattener_new\<rparr>;
          nd = nd\<lparr>nd_engine := rebuild_from_chain chain\<rparr>;
          nd = (case pol_build_from_blocks chain of Inr h \<Rightarrow> nd\<lparr>nd_policies := h\<rparr> | Inl _ \<Rightarrow> nd);
          nd = (case cap_build_from_blocks N chain of
              Inr h \<Rightarrow> nd\<lparr>nd_capability_history := Some h\<rparr> | Inl _ \<Rightarrow> nd);
          (w, k) = restore_watcher N P chain (nd_storage nd) (nd_watcher nd) (nd_reads nd)
      in nd\<lparr>nd_watcher := w, nd_reads := k\<rparr>)"

definition capability_effective_set ::
  "'z node_env_scheme \<Rightarrow> u64 \<Rightarrow> 'st node \<Rightarrow> (core_error + capability_set) \<times> 'st node" where
  "capability_effective_set N height nd =
     (case nd_capability_history nd of
        Some h \<Rightarrow> (Inr (effective_set N h height), nd)
      | None \<Rightarrow> (case cap_build_from_blocks N (chain_of nd) of
          Inl e \<Rightarrow> (Inl e, nd)
        | Inr h \<Rightarrow> (Inr (effective_set N h height), nd\<lparr>nd_capability_history := Some h\<rparr>)))"


section \<open>After a commit\<close>

fun apply_activations ::
  "'z node_env_scheme \<Rightarrow> (capability_activation \<times> u64) list \<Rightarrow> capability_history \<Rightarrow> capability_history option" where
  "apply_activations N [] h = Some h"
| "apply_activations N ((a, containing) # rest) h =
     (case cap_apply N a containing h of
        (Inl _, _) \<Rightarrow> None
      | (Inr _, h') \<Rightarrow> apply_activations N rest h')"

definition activations_of :: "block \<Rightarrow> (capability_activation \<times> u64) list" where
  "activations_of b = List.map_filter (\<lambda>tx. case tx_kind tx of
     CapabilityActivation a \<Rightarrow> Some (a, b_index b) | _ \<Rightarrow> None) (b_transactions b)"

definition advance_capability :: "'z node_env_scheme \<Rightarrow> block \<Rightarrow> 'st node \<Rightarrow> 'st node" where
  "advance_capability N b nd =
     (let h = (case nd_capability_history nd of
          Some h \<Rightarrow> Some h
        | None \<Rightarrow> (case cap_build_from_blocks N (chain_of nd) of Inr h \<Rightarrow> Some h | Inl _ \<Rightarrow> None))
      in nd\<lparr>nd_capability_history := Option.bind h (apply_activations N (activations_of b))\<rparr>)"

definition persist_block :: "'st storage_provider \<Rightarrow> block \<Rightarrow> 'st node \<Rightarrow> 'st node" where
  "persist_block P b nd =
     (case sp_apply_block P b (nd_storage nd) of
        (Inr _, st) \<Rightarrow> nd\<lparr>nd_storage := st, nd_world_state := fold apply_to_cache (b_write_set b) (nd_world_state nd)\<rparr>
      | (Inl _, st) \<Rightarrow> nd\<lparr>nd_storage := st\<rparr>)"

definition refresh_policies :: "block \<Rightarrow> 'st node \<Rightarrow> 'st node" where
  "refresh_policies b nd =
     (if list_ex (\<lambda>tx. update_of tx \<noteq> None) (b_transactions b)
      then case pol_build_from_blocks (chain_of nd) of Inr h \<Rightarrow> nd\<lparr>nd_policies := h\<rparr> | Inl _ \<Rightarrow> nd
      else nd)"

definition project_block :: "'z node_env_scheme \<Rightarrow> block \<Rightarrow> 'st node \<Rightarrow> 'st node" where
  "project_block N b nd = nd\<lparr>nd_indexer := snd (index_block N b (nd_indexer nd)),
     nd_event_bus := snd (publish_block N bus_publish b (nd_event_bus nd)),
     nd_provenance := provenance_ingest_block b (nd_provenance nd),
     nd_flattener := flatten_block N b (nd_flattener nd)\<rparr>"

text \<open>Every order signed by the node's key is stored under \<^verbatim>\<open>signed_tx:<id>\<close>; failures are logged.\<close>

definition store_signed :: "'st storage_provider \<Rightarrow> transaction list \<Rightarrow> 'st node \<Rightarrow> 'st node" where
  "store_signed P orders nd =
     (case nd_identity nd of
        None \<Rightarrow> nd
      | Some sign \<Rightarrow> nd\<lparr>nd_storage := fold (\<lambda>order st. case sign order of
            Some json \<Rightarrow> snd (sp_put_state P (''signed_tx:'' @ tx_id order) json st)
          | None \<Rightarrow> st) orders (nd_storage nd)\<rparr>)"

definition persist_watcher :: "'z node_env_scheme \<Rightarrow> 'st storage_provider \<Rightarrow> 'st node \<Rightarrow> 'st node" where
  "persist_watcher N P nd =
     (case serialize_state (ne_snapshot N) (nd_watcher nd) of
        Some bytes \<Rightarrow> nd\<lparr>nd_storage := snd (sp_put_state P WATCHER_STATE_KEY bytes (nd_storage nd))\<rparr>
      | None \<Rightarrow> nd)"

text \<open>The orders the pool accepts, in order.\<close>

fun admit_orders ::
  "'z node_env_scheme \<Rightarrow> transaction list \<Rightarrow> ledger \<Rightarrow> transaction list \<times> ledger" where
  "admit_orders N [] l = ([], l)"
| "admit_orders N (order # orders) l =
     (case add_transaction N order l of
        (r, l') \<Rightarrow> (case admit_orders N orders l' of
           (generated, l'') \<Rightarrow> (if is_ok r then order # generated else generated, l'')))"

definition after_block_commit ::
  "'z node_env_scheme \<Rightarrow> 'st storage_provider \<Rightarrow> block \<Rightarrow> 'st node \<Rightarrow> transaction list \<times> 'st node" where
  "after_block_commit N P b nd =
     (let nd = advance_capability N b nd;
          nd = persist_block P b nd;
          nd = refresh_policies b nd;
          nd = project_block N b nd;
          (orders, w, k) = observe_updates N (b_transactions b) (nd_watcher nd) (nd_reads nd);
          nd = nd\<lparr>nd_watcher := w, nd_reads := k\<rparr>;
          nd = store_signed P orders nd;
          nd = persist_watcher N P nd;
          (generated, l) = admit_orders N orders (nd_ledger nd)
      in (generated, nd\<lparr>nd_ledger := l\<rparr>))"


section \<open>Endorsement enforcement\<close>

definition covered :: "block \<Rightarrow> persistent_write \<Rightarrow> core_error + unit" where
  "covered b w =
     (if \<not> list_ex (\<lambda>tx. list_ex (\<lambda>e. covers e w) (tx_endorsements tx)) (b_transactions b)
      then Inl (endorsement_err WriteOutsideScope) else Inr ())"

definition enforce_block_endorsements ::
  "'z node_env_scheme \<Rightarrow> block \<Rightarrow> persistent_write list list \<Rightarrow> 'st node \<Rightarrow> (core_error + unit) \<times> 'st node" where
  "enforce_block_endorsements N b per_tx_writes nd =
     (case nd_endorsement nd of
        None \<Rightarrow> (Inr (), nd)
      | Some provider \<Rightarrow>
          (case capability_effective_set N (b_index b) nd of
             (Inl e, nd) \<Rightarrow> (Inl e, nd)
           | (Inr active, nd) \<Rightarrow>
               if \<not> is_active active ENDORSEMENT_CAPABILITY_ID then (Inr (), nd)
               else
                 let policies = nd_policies nd;
                     writes_of = (\<lambda>i. if i < length per_tx_writes then per_tx_writes ! i else [])
                 in (res_bind (fst (pol_validate_block b policies)) (\<lambda>_.
                     res_bind (try_all (\<lambda>(i, tx). evaluate_transaction_endorsements N provider policies tx
                         (writes_of i) (b_index b)) (enumerate 0 (b_transactions b))) (\<lambda>_.
                     if per_tx_writes = [] then try_all (covered b) (b_write_set b) else Inr ())), nd)))"

fun enforce_candidate ::
  "'z node_env_scheme \<Rightarrow> endorsement_provider \<Rightarrow> capability_history \<Rightarrow> policy_history \<Rightarrow> block list \<Rightarrow> core_error + unit" where
  "enforce_candidate N provider caps policies [] = Inr ()"
| "enforce_candidate N provider caps policies (b # bs) =
     (case cap_validate_block N b caps of
        (Inl e, _) \<Rightarrow> Inl e
      | (Inr _, caps) \<Rightarrow>
          res_bind (if is_active (effective_set N caps (b_index b)) ENDORSEMENT_CAPABILITY_ID
            then res_bind (try_all (\<lambda>tx. evaluate_transaction_endorsements N provider policies tx [] (b_index b))
                (b_transactions b)) (\<lambda>_. try_all (covered b) (b_write_set b))
            else Inr ()) (\<lambda>_.
            case pol_validate_block b policies of
              (Inl e, _) \<Rightarrow> Inl e
            | (Inr _, policies) \<Rightarrow> enforce_candidate N provider caps policies bs))"

definition enforce_chain_endorsements :: "'z node_env_scheme \<Rightarrow> block list \<Rightarrow> 'st node \<Rightarrow> core_error + unit" where
  "enforce_chain_endorsements N candidate nd =
     (case nd_endorsement nd of
        None \<Rightarrow> Inr ()
      | Some provider \<Rightarrow> enforce_candidate N provider cap_default pol_default candidate)"


section \<open>Submission\<close>

definition submit_gate :: "'z node_env_scheme \<Rightarrow> transaction \<Rightarrow> 'st node \<Rightarrow> (core_error + unit) \<times> 'st node" where
  "submit_gate N tx nd =
     (case nd_endorsement nd of
        None \<Rightarrow> (Inr (), nd)
      | Some provider \<Rightarrow>
          let next_height = of_nat (length (chain_of nd))
          in case capability_effective_set N next_height nd of
               (Inl e, nd) \<Rightarrow> (Inl e, nd)
             | (Inr active, nd) \<Rightarrow>
                 (if is_active active ENDORSEMENT_CAPABILITY_ID
                  then evaluate_transaction_endorsements N provider (nd_policies nd) tx [] next_height
                  else Inr (), nd))"

text \<open>What an offer or a contract creation does to the engine.\<close>

definition evaluate_offer ::
  "'z node_env_scheme \<Rightarrow> transaction \<Rightarrow> 'st node \<Rightarrow> transaction list \<times> 'st node" where
  "evaluate_offer N tx nd =
     (case tx_kind tx of
        SupplyOffer offer \<Rightarrow>
          (case evaluate_supply_offer (ne_gate N) (ne_clock N) (nd_reads nd) offer (tx_id tx) (nd_engine nd) of
             (generated, engine, k) \<Rightarrow> (generated, nd\<lparr>nd_engine := engine, nd_reads := k\<rparr>))
      | _ \<Rightarrow> ([], nd))"

definition submit_transaction ::
  "'z node_env_scheme \<Rightarrow> transaction \<Rightarrow> 'st node \<Rightarrow> (core_error + message list) \<times> 'st node" where
  "submit_transaction N tx nd =
     (case submit_gate N tx nd of
        (Inl e, nd) \<Rightarrow> (Inl e, nd)
      | (Inr _, nd) \<Rightarrow>
          (case add_transaction N tx (nd_ledger nd) of
             (Inl e, l) \<Rightarrow> (Inl e, nd\<lparr>nd_ledger := l\<rparr>)
           | (Inr _, l) \<Rightarrow>
               (case evaluate_offer N tx (nd\<lparr>nd_ledger := l\<rparr>) of
                  (generated, nd) \<Rightarrow>
                    let nd = (case tx_kind tx of
                        ContractCreation d \<Rightarrow> nd\<lparr>nd_engine := snd (register_contract d (nd_engine nd))\<rparr>
                      | _ \<Rightarrow> nd);
                        nd = nd\<lparr>nd_ledger := fold (\<lambda>g l. snd (add_transaction N g l)) generated (nd_ledger nd)\<rparr>
                    in (Inr (map TransactionMessage (tx # generated)), nd))))"

text \<open>
  A transaction of a peer that has completed its Hello and may propose writes: here the engine
  runs before the pool decides.
\<close>

definition handle_transaction ::
  "'z node_env_scheme \<Rightarrow> transaction \<Rightarrow> 'st node \<Rightarrow> message list \<times> 'st node" where
  "handle_transaction N tx nd =
     (case evaluate_offer N tx nd of
        (generated, nd) \<Rightarrow>
          let nd = (case tx_kind tx of
              ContractCreation d \<Rightarrow> nd\<lparr>nd_engine := load_from_ledger d (nd_engine nd)\<rparr>
            | _ \<Rightarrow> nd);
              l = snd (add_transaction N tx (nd_ledger nd));
              l = fold (\<lambda>g l. snd (add_transaction N g l)) generated l
          in (map TransactionMessage generated, nd\<lparr>nd_ledger := l\<rparr>))"


section \<open>Mining\<close>

definition COMMIT_LIMITS :: execution_limits where
  "COMMIT_LIMITS = \<lparr>fuel_limit = 100000, operation_gas_limit = 100000\<rparr>"

text \<open>The writes of one transaction of a candidate; every failure before the canonical order accepts none.\<close>

definition contribution ::
  "'z node_env_scheme \<Rightarrow> executor \<Rightarrow> engine \<Rightarrow> world_state \<Rightarrow> transaction \<Rightarrow> core_error + persistent_write list" where
  "contribution N exec engine ws tx =
     (case tx_kind tx of
        ContractExecution execution \<Rightarrow>
          (case Option.bind (get_contract (ce_contract_id execution) engine)
              (\<lambda>c. sc_wasm_code_b64 (ct_definition c)) of
             None \<Rightarrow> Inr []
           | Some wasm_b64 \<Rightarrow>
               (case base64_standard (ne_gate N) wasm_b64 of
                  Inl _ \<Rightarrow> Inr []
                | Inr wasm \<Rightarrow>
                    (case exec (''commit:'' @ ce_contract_id execution @ '':'' @ tx_id tx) wasm ws COMMIT_LIMITS of
                       Inl _ \<Rightarrow> Inr []
                     | Inr r \<Rightarrow> res_bind (canonicalize \<lparr>ephemeral = [], writes = writes r\<rparr>) (\<lambda>c. Inr (writes c)))))
      | _ \<Rightarrow> Inr [])"

definition compute_write_set ::
  "'z node_env_scheme \<Rightarrow> transaction list \<Rightarrow> 'st node \<Rightarrow>
     core_error + persistent_write list \<times> persistent_write list list" where
  "compute_write_set N txs nd =
     (case nd_executor nd of
        None \<Rightarrow> Inr ([], replicate (length txs) [])
      | Some exec \<Rightarrow>
          res_bind (collect_results (map (contribution N exec (nd_engine nd) (nd_world_state nd)) txs)) (\<lambda>per_tx.
          res_bind (canonicalize \<lparr>ephemeral = [], writes = concat per_tx\<rparr>) (\<lambda>c.
            Inr (map (block_form N) (writes c), per_tx))))"

definition is_pdc :: "persistent_write \<Rightarrow> bool" where
  "is_pdc w = (case pw_visibility w of Pdc _ \<Rightarrow> True | Public \<Rightarrow> False)"

definition restore_pending :: "transaction list \<Rightarrow> 'st node \<Rightarrow> 'st node" where
  "restore_pending txs nd = nd\<lparr>nd_ledger := fold restore_transaction txs (nd_ledger nd)\<rparr>"

text \<open>The check that private writes are active at the candidate's height.\<close>

definition pdc_gate :: "'z node_env_scheme \<Rightarrow> u64 \<Rightarrow> persistent_write list \<Rightarrow> 'st node \<Rightarrow> bool \<times> 'st node" where
  "pdc_gate N index ws nd =
     (if list_ex is_pdc ws
      then case capability_effective_set N index nd of
          (Inl _, nd) \<Rightarrow> (False, nd)
        | (Inr active, nd) \<Rightarrow> (is_active active PDC_CAPABILITY_ID, nd)
      else (True, nd))"

text \<open>
  \<^verbatim>\<open>mine_async\<close> with Proof-of-Work, up to the dissemination of private payloads: its result and the
  broadcast messages, or no value when mining does not end.  \<open>txs\<close> are the drained transactions.
\<close>

definition mine_candidate ::
  "'z node_env_scheme \<Rightarrow> 'st storage_provider \<Rightarrow> u64 \<Rightarrow> string \<Rightarrow> transaction list \<Rightarrow> nat \<Rightarrow>
     persistent_write list \<Rightarrow> persistent_write list list \<Rightarrow> 'st node \<Rightarrow> ((core_error + message list) \<times> 'st node) option" where
  "mine_candidate N P index prev_hash txs difficulty ws per_tx nd =
     (let k = nd_reads nd;
          block = with_write_set N (ne_clock N k) index txs prev_hash ws;
          nd = nd\<lparr>nd_reads := k + 1\<rparr>
      in case enforce_block_endorsements N block per_tx nd of
           (Inl e, nd) \<Rightarrow> Some (Inl e, restore_pending txs nd)
         | (Inr _, nd) \<Rightarrow>
             (case mine N (ne_clock N) difficulty block (nd_reads nd) of
                None \<Rightarrow> None
              | Some (block, k) \<Rightarrow>
                  let nd = nd\<lparr>nd_reads := k\<rparr>
                  in case commit_mined_block N block prev_hash (nd_ledger nd) of
                       (Inl e, l) \<Rightarrow> Some (Inl e, nd\<lparr>nd_ledger := l\<rparr>)
                     | (Inr appended, l) \<Rightarrow>
                         if appended
                         then case after_block_commit N P block (nd\<lparr>nd_ledger := l\<rparr>) of
                             (generated, nd) \<Rightarrow>
                               Some (Inr (BlockMessage block # map TransactionMessage generated), nd)
                         else Some (Inr [], nd\<lparr>nd_ledger := l\<rparr>)))"

definition mine_async ::
  "'z node_env_scheme \<Rightarrow> 'st storage_provider \<Rightarrow> 'st node \<Rightarrow> ((core_error + message list) \<times> 'st node) option" where
  "mine_async N P nd =
     (case prepare_mining (nd_ledger nd) of
        (Inl e, l) \<Rightarrow> Some (Inl e, nd\<lparr>nd_ledger := l\<rparr>)
      | (Inr (index, prev_hash, txs, difficulty), l) \<Rightarrow>
          let nd = nd\<lparr>nd_ledger := l\<rparr>
          in case compute_write_set N txs nd of
               Inl e \<Rightarrow> Some (Inl e, nd)
             | Inr (ws, per_tx) \<Rightarrow>
                 (case pdc_gate N index ws nd of
                    (False, nd) \<Rightarrow> Some (Inl (InvalidTransaction PdcInactive), restore_pending txs nd)
                  | (True, nd) \<Rightarrow> mine_candidate N P index prev_hash txs difficulty ws per_tx nd))"


section \<open>Blocks and chains of peers\<close>

definition FUTURE_TIMESTAMP_WINDOW_SECS :: u64 where
  "FUTURE_TIMESTAMP_WINDOW_SECS = 7200"

definition timestamp_within_future_window :: "u64 \<Rightarrow> u64 \<Rightarrow> u64 \<Rightarrow> bool" where
  "timestamp_within_future_window block_index block_timestamp now_secs \<longleftrightarrow>
     block_index = 0 \<or> block_timestamp \<le> now_secs + FUTURE_TIMESTAMP_WINDOW_SECS"

datatype block_verdict = Append | CatchUp u64 | Ignore

text \<open>
  The admission of a block from a peer that has completed its Hello and may propose blocks.  The
  locks are released before the block is committed.
\<close>

definition admit_block :: "'z node_env_scheme \<Rightarrow> block \<Rightarrow> 'st node \<Rightarrow> block_verdict \<times> 'st node" where
  "admit_block N b nd =
     (let now_secs = ne_clock N (nd_reads nd); nd = nd\<lparr>nd_reads := nd_reads nd + 1\<rparr>
      in if \<not> timestamp_within_future_window (b_index b) (b_timestamp b) now_secs then (Ignore, nd)
         else
           let nd = (case nd_capability_history nd of
                 Some _ \<Rightarrow> nd
               | None \<Rightarrow> (case cap_build_from_blocks N (chain_of nd) of
                   Inr h \<Rightarrow> nd\<lparr>nd_capability_history := Some h\<rparr> | Inl _ \<Rightarrow> nd));
               expected = of_nat (length (chain_of nd))
           in if b_index b = expected
              then (case last_opt (chain_of nd) of
                  None \<Rightarrow> (Ignore, nd)
                | Some prev \<Rightarrow>
                    let history = (case nd_capability_history nd of Some h \<Rightarrow> h | None \<Rightarrow> cap_default)
                    in (if is_ok (chains_to N b prev) \<and> is_ok (fst (cap_validate_block N b history))
                          \<and> has_valid_pow b (lg_difficulty (nd_ledger nd))
                        then Append else Ignore, nd))
              else if b_index b > expected then (CatchUp expected, nd) else (Ignore, nd))"

text \<open>The commit of an admitted block: the result of \<^const>\<open>append_peer_block\<close> is not looked at.\<close>

definition commit_peer_block ::
  "'z node_env_scheme \<Rightarrow> 'st storage_provider \<Rightarrow> block \<Rightarrow> 'st node \<Rightarrow> message list \<times> 'st node" where
  "commit_peer_block N P b nd =
     (case enforce_block_endorsements N b [] nd of
        (Inl _, nd) \<Rightarrow> ([], nd)
      | (Inr _, nd) \<Rightarrow>
          let nd = nd\<lparr>nd_ledger := snd (append_peer_block N b (nd_ledger nd))\<rparr>
          in case after_block_commit N P b nd of
               (generated, nd) \<Rightarrow> (map TransactionMessage generated, nd))"

definition handle_block ::
  "'z node_env_scheme \<Rightarrow> 'st storage_provider \<Rightarrow> block \<Rightarrow> 'st node \<Rightarrow> message list \<times> 'st node" where
  "handle_block N P b nd =
     (case admit_block N b nd of
        (Append, nd) \<Rightarrow> commit_peer_block N P b nd
      | (_, nd) \<Rightarrow> ([], nd))"

definition handle_suffix ::
  "'z node_env_scheme \<Rightarrow> 'st storage_provider \<Rightarrow> block list \<Rightarrow> 'st node \<Rightarrow> 'st node" where
  "handle_suffix N P bs nd = fold (\<lambda>b nd. snd (handle_block N P b nd)) bs nd"

definition handle_chain ::
  "'z node_env_scheme \<Rightarrow> 'st storage_provider \<Rightarrow> block list \<Rightarrow> 'st node \<Rightarrow> 'st node" where
  "handle_chain N P candidate nd =
     (case enforce_chain_endorsements N candidate nd of
        Inl _ \<Rightarrow> nd
      | Inr _ \<Rightarrow>
          (case try_replace_chain N candidate (nd_ledger nd) of
             (False, l) \<Rightarrow> nd\<lparr>nd_ledger := l\<rparr>
           | (True, l) \<Rightarrow>
               let nd = nd\<lparr>nd_ledger := l,
                     nd_storage := fold (\<lambda>b st. snd (sp_put_block P b st)) (lg_chain l) (nd_storage nd)\<rparr>
               in rebuild_runtime_state_from_chain N P nd))"


section \<open>Start\<close>

text \<open>The loop that brings the stored chain up to the chain in memory.\<close>

fun persist_missing :: "'st storage_provider \<Rightarrow> block list \<Rightarrow> 'st \<Rightarrow> (core_error + unit) \<times> 'st" where
  "persist_missing P [] st = (Inr (), st)"
| "persist_missing P (b # bs) st =
     (case sp_get_block P (b_index b) st of
        Inl e \<Rightarrow> (Inl e, st)
      | Inr (Some _) \<Rightarrow> persist_missing P bs st
      | Inr None \<Rightarrow> persist_missing P bs (snd (sp_apply_block P b st)))"

definition start ::
  "'z node_env_scheme \<Rightarrow> 'st storage_provider \<Rightarrow> 'st node \<Rightarrow> (core_error + unit) \<times> 'st node" where
  "start N P nd =
     (let nd = rebuild_runtime_state_from_chain N P nd
      in case persist_missing P (chain_of nd) (nd_storage nd) of
           (r, st) \<Rightarrow> (r, nd\<lparr>nd_storage := st\<rparr>))"

end
