(* ===== verification/Commits.thy ===== *)
theory Commits
  imports Node "HOL-Library.Countable"
begin

text \<open>
  What the commit pipeline of \<open>Node\<close> maintains.  While the storage provider keeps its contract, the
  stored blocks and the derived state of a node are a projection of its chain, whatever mixture of
  submissions, mined blocks, peer blocks and adopted chains the node processes; inventory and
  fire counts are those of the stored watcher snapshot.  \<open>Faults\<close> shows where the code leaves that path.
\<close>

section \<open>The storage provider of a node\<close>

locale node_store = storage_contract "sp_apply_block P" "sp_get_block P" "sp_latest_block_index P"
    "sp_put_state P" "sp_get_state P" "sp_delete_state P" "sp_list_state_keys P" s_inv s_blocks s_state storable
  for P :: "'st storage_provider" and s_inv :: "'st \<Rightarrow> bool" and s_blocks :: "'st \<Rightarrow> (u64 \<times> block) list"
    and s_state :: "'st \<Rightarrow> world_state" and storable :: "block \<Rightarrow> bool" +
  assumes put_block_law: "s_inv s \<Longrightarrow> storable b \<Longrightarrow> \<exists>s'. sp_put_block P b s = (Inr (), s') \<and> s_inv s'
    \<and> s_blocks s' = btree_insert (b_index b) b (s_blocks s) \<and> s_state s' = s_state s"

interpretation mem_node: node_store mem_provider mem_inv ms_blocks "\<lambda>s. map_of (ms_state s)" "\<lambda>b. True"
  unfolding node_store_def node_store_axioms_def
  by (simp add: mem_provider_def mem.storage_contract_axioms mem_put_block_def mem_inv_def btree_wf_insert)

interpretation redb_node: node_store "redb_provider C txn_ok" "redb_inv C" "stored_blocks C"
  "\<lambda>s. map_of (rb_state s)" "\<lambda>b. ser_block C b \<noteq> None" for C
proof -
  have "\<exists>s'. redb_put_block C txn_ok b s = (Inr (), s') \<and> redb_inv C s'
      \<and> stored_blocks C s' = btree_insert (b_index b) b (stored_blocks C s) \<and> map_of (rb_state s') = map_of (rb_state s)"
    if i: "redb_inv C s" and sb: "ser_block C b \<noteq> None" for s b
  proof -
    obtain v where v: "ser_block C b = Some v" using sb by blast
    from redb_put_inv(1) [OF i v, where ws = "[]"] redb_put_inv(2) [OF i v] show ?thesis
      by (simp add: redb_put_block_def in_txn_def txn_step_def txn_ok_def stored_blocks_def v)
  qed
  with redb.storage_contract_axioms [of C] show "node_store (redb_provider C txn_ok) (redb_inv C) (stored_blocks C)
      (\<lambda>s. map_of (rb_state s)) (\<lambda>b. ser_block C b \<noteq> None)"
    unfolding node_store_def node_store_axioms_def redb_provider_def storage_provider.simps by blast
qed


section \<open>Chains in storage\<close>

definition stored_as :: "(u64 \<times> block) list \<Rightarrow> block list \<Rightarrow> bool" where
  "stored_as es bs \<longleftrightarrow> es = map (\<lambda>b. (b_index b, b)) bs \<and> consecutive bs \<and> bs \<noteq> [] \<and> length bs \<le> 2 ^ 64"

definition chain_writes :: "block list \<Rightarrow> persistent_write list" where
  "chain_writes bs = concat (map b_write_set bs)"

lemma chain_writes_snoc [simp]: "chain_writes (bs @ [b]) = chain_writes bs @ b_write_set b"
  by (simp add: chain_writes_def)

lemma apply_writes_append: "apply_writes (xs @ ys) m = apply_writes ys (apply_writes xs m)"
  by (simp add: apply_writes_def)

lemma apply_writes_Cons: "apply_writes (w # ws) m = apply_writes ws (apply_to_cache w m)"
  by (simp add: apply_writes_def)

lemma stored_lookup:
  assumes "stored_as es bs" "i < length bs"
  shows "map_of es (of_nat i) = Some (bs ! i)"
proof -
  have "distinct (map fst es)"
    using consecutive_keys(1) [of bs] assms(1) by (simp add: stored_as_def comp_def)
  moreover have "b_index (bs ! i) = of_nat i" using assms by (simp add: stored_as_def consecutive_def)
  then have "(of_nat i, bs ! i) \<in> set es"
    using assms by (auto simp: stored_as_def intro: image_eqI [of _ _ "bs ! i"])
  ultimately show ?thesis by simp
qed

lemma stored_latest:
  assumes "stored_as es bs"
  shows "map_option fst (last_opt es) = Some (of_nat (length bs - 1))"
    "Suc (unat (of_nat (length bs - 1) :: u64)) = length bs"
proof -
  have ne: "bs \<noteq> []" and len: "length bs \<le> 2 ^ 64" using assms by (simp_all add: stored_as_def)
  have "b_index (last bs) = of_nat (length bs - 1)"
    using assms by (simp add: stored_as_def consecutive_def last_conv_nth)
  then show "map_option fst (last_opt es) = Some (of_nat (length bs - 1))"
    using assms by (simp add: stored_as_def last_opt_def last_map)
  have "unat (of_nat (length bs - 1) :: u64) = length bs - 1" using ne len by (simp add: unat_of_nat)
  then show "Suc (unat (of_nat (length bs - 1) :: u64)) = length bs" using ne by simp
qed

lemma consecutive_last_index: "consecutive bs \<Longrightarrow> bs \<noteq> [] \<Longrightarrow> b_index (last bs) + 1 = of_nat (length bs)"
  by (cases bs rule: rev_cases) (simp_all add: consecutive_snoc add.commute)

lemma stored_tip: "stored_as es bs \<Longrightarrow> map_option snd (last_opt es) = Some (last bs)"
  by (simp add: stored_as_def last_opt_def last_map)

lemma stored_snoc:
  assumes "stored_as es bs" "consecutive (bs @ [b])" "length (bs @ [b]) \<le> 2 ^ 64"
  shows "stored_as (btree_insert (b_index b) b es) (bs @ [b])"
    "validate_tip_chain b (map_option snd (last_opt es)) = Inr ()"
proof -
  have bs: "es = map (\<lambda>b. (b_index b, b)) bs" "bs \<noteq> []" and c: "consecutive bs" "b_index b = of_nat (length bs)"
      "b_previous_hash b = b_hash (last bs)"
    using assms(1,2) by (simp_all add: stored_as_def consecutive_snoc)
  have "unat (b_index b) = length bs" using c(2) assms(3) by (simp add: unat_of_nat)
  then have "\<forall>x \<in> fst ` set es. x < b_index b"
    using consecutive_keys(2) [OF c(1)] assms(3) by (auto simp: bs(1) word_less_nat_alt)
  from btree_insert_end [OF this] show "stored_as (btree_insert (b_index b) b es) (bs @ [b])"
    using assms(2,3) by (simp add: stored_as_def bs(1))
  show "validate_tip_chain b (map_option snd (last_opt es)) = Inr ()"
    by (simp add: stored_tip [OF assms(1)] validate_tip_chain_def c consecutive_last_index [OF c(1) bs(2)])
qed

context node_store
begin

lemma heal_writes_ok:
  "s_inv st \<Longrightarrow> \<exists>st'. heal_writes P ws m st = (Inr (apply_writes ws m), st') \<and> s_inv st'
     \<and> s_blocks st' = s_blocks st \<and> s_state st' = apply_writes ws (s_state st)"
proof (induction ws arbitrary: m st)
  case (Cons w ws)
  show ?case
  proof (cases "pw_op w")
    case (Set v)
    from put_state_law [OF Cons.prems, of "state_key w" v] obtain st1 where
      1: "sp_put_state P (state_key w) v st = (Inr (), st1)" "s_inv st1" "s_blocks st1 = s_blocks st"
        "s_state st1 = (s_state st)(state_key w \<mapsto> v)" by blast
    have eq: "apply_to_cache w m = m(state_key w \<mapsto> v)" "s_state st1 = apply_to_cache w (s_state st)"
      by (simp_all add: apply_to_cache_def Set 1(4))
    from Cons.IH [OF 1(2), of "m(state_key w \<mapsto> v)"] show ?thesis
      by (simp only: heal_writes.simps Set write_op.case prod.case 1(1,3) sum.case apply_writes_Cons eq)
  next
    case Delete
    from delete_state_law [OF Cons.prems, of "state_key w"] obtain st1 where
      1: "sp_delete_state P (state_key w) st = (Inr (), st1)" "s_inv st1" "s_blocks st1 = s_blocks st"
        "s_state st1 = (s_state st)(state_key w := None)" by blast
    have eq: "apply_to_cache w m = m(state_key w := None)" "s_state st1 = apply_to_cache w (s_state st)"
      by (simp_all add: apply_to_cache_def Delete 1(4))
    from Cons.IH [OF 1(2), of "m(state_key w := None)"] show ?thesis
      by (simp only: heal_writes.simps Delete write_op.case prod.case 1(1,3) sum.case apply_writes_Cons eq)
  qed
qed (simp add: apply_writes_def)

lemma heal_blocks_ok:
  "s_inv st \<Longrightarrow> \<forall>i \<in> set is. map_of (s_blocks st) (of_nat i) = Some (f i) \<Longrightarrow>
     \<exists>st'. heal_blocks P is m st = (Inr (apply_writes (chain_writes (map f is)) m), st') \<and> s_inv st'
     \<and> s_blocks st' = s_blocks st \<and> s_state st' = apply_writes (chain_writes (map f is)) (s_state st)"
proof (induction "is" arbitrary: m st)
  case (Cons i "is")
  have get: "sp_get_block P (of_nat i) st = Inr (Some (f i))"
    using get_law [OF Cons.prems(1)] Cons.prems(2) by simp
  from heal_writes_ok [OF Cons.prems(1), of "b_write_set (f i)" m] obtain st1 where
    1: "heal_writes P (b_write_set (f i)) m st = (Inr (apply_writes (b_write_set (f i)) m), st1)" "s_inv st1"
      "s_blocks st1 = s_blocks st" "s_state st1 = apply_writes (b_write_set (f i)) (s_state st)" by blast
  from Cons.IH [OF 1(2), of "apply_writes (b_write_set (f i)) m"] 1 Cons.prems(2) show ?case
    by (auto simp: get chain_writes_def apply_writes_append)
qed (simp add: apply_writes_def chain_writes_def)

lemma rebuild_world_state_ok:
  assumes "s_inv st" "stored_as (s_blocks st) bs"
  shows "\<exists>st'. rebuild_world_state P st = (Inr (apply_writes (chain_writes bs) Map.empty), st') \<and> s_inv st'
    \<and> s_blocks st' = s_blocks st \<and> s_state st' = apply_writes (chain_writes bs) (s_state st)"
proof -
  have "\<forall>i \<in> set [0..<length bs]. map_of (s_blocks st) (of_nat i) = Some (bs ! i)"
    using stored_lookup [OF assms(2)] by simp
  from heal_blocks_ok [OF assms(1) this, of Map.empty] show ?thesis
    using latest_law [OF assms(1)] stored_latest [OF assms(2)] unfolding map_nth
    by (simp only: rebuild_world_state_def sum.case option.case)
qed

end


section \<open>Projections of the chain\<close>

text \<open>The stock and the fire counts of a watcher without triggers that observes a chain from the start.\<close>

definition replayed :: "'z node_env_scheme \<Rightarrow> block list \<Rightarrow> watcher_state_snapshot" where
  "replayed N bs = to_snapshot (fst (snd (observe_updates N (concat (map b_transactions bs)) watcher_new 0)))"

text \<open>The watcher is the one whose snapshot is stored; without a snapshot it is what a replay of the chain gives.\<close>

definition watcher_saved :: "'z node_env_scheme \<Rightarrow> world_state \<Rightarrow> block list \<Rightarrow> watcher_service \<Rightarrow> bool" where
  "watcher_saved N st bs w =
     (case st WATCHER_STATE_KEY of
        Some bytes \<Rightarrow> serialize_state (ne_snapshot N) w = Some bytes
      | None \<Rightarrow> to_snapshot w = replayed N bs)"

definition indexes_project :: "'z node_env_scheme \<Rightarrow> block list \<Rightarrow> 'st node \<Rightarrow> bool" where
  "indexes_project N bs nd \<longleftrightarrow>
     nd_provenance nd = fold provenance_ingest_block bs provenance_new
     \<and> nd_flattener nd = fold (flatten_block N) bs flattener_new
     \<and> (\<forall>h. pol_build_from_blocks bs = Inr h \<longrightarrow> nd_policies nd = h)"

definition world_of :: "block list \<Rightarrow> world_state" where
  "world_of bs = apply_writes (chain_writes bs) Map.empty"

definition projected ::
  "'z node_env_scheme \<Rightarrow> ('st \<Rightarrow> bool) \<Rightarrow> ('st \<Rightarrow> (u64 \<times> block) list) \<Rightarrow> ('st \<Rightarrow> world_state) \<Rightarrow>
     block list \<Rightarrow> 'st node \<Rightarrow> bool" where
  "projected N s_inv s_blocks s_state bs nd \<longleftrightarrow> s_inv (nd_storage nd)
     \<and> stored_as (s_blocks (nd_storage nd)) bs
     \<and> nd_world_state nd = world_of bs
     \<and> watcher_saved N (s_state (nd_storage nd)) bs (nd_watcher nd)
     \<and> indexes_project N bs nd"

lemma state_key_not_watcher: "state_key w \<noteq> WATCHER_STATE_KEY"
  by (simp add: state_key_def WATCHER_STATE_KEY_def)

lemma apply_writes_watcher: "apply_writes ws m WATCHER_STATE_KEY = m WATCHER_STATE_KEY"
  by (rule apply_writes_other) (auto simp: state_key_not_watcher dest: sym)

lemma world_of_snoc: "world_of (bs @ [b]) = apply_writes (b_write_set b) (world_of bs)"
  by (simp add: world_of_def apply_writes_append)

lemma pol_build_snoc_quiet:
  assumes "pol_build_from_blocks (bs @ [b]) = Inr h" "\<not> list_ex (\<lambda>tx. update_of tx \<noteq> None) (b_transactions b)"
  shows "pol_build_from_blocks bs = Inr h"
proof -
  obtain h0 h1 where h: "pol_replay pol_default bs = Inr h0" "pol_validate_block b h0 = (Inr (), h1)" "h1 = h"
    using assms(1) by (cases "pol_replay pol_default bs")
      (auto simp: pol_build_from_blocks_def pol_replay_append split: sum.splits prod.splits)
  have "pending_updates b = []"
    using assms(2) by (simp add: pending_updates_def List.map_filter_def list_ex_iff filter_empty_conv)
  then have "h1 = h0" using h(2) by (simp add: pol_validate_block_def split: if_splits)
  with h show ?thesis by (simp add: pol_build_from_blocks_def)
qed

lemma refresh_policies_projects:
  assumes "\<forall>h. pol_build_from_blocks bs = Inr h \<longrightarrow> nd_policies nd = h" "chain_of nd = bs @ [b]"
    "pol_build_from_blocks (bs @ [b]) = Inr h"
  shows "nd_policies (refresh_policies b nd) = h"
  using assms pol_build_snoc_quiet [OF assms(3)] by (auto simp: refresh_policies_def)

lemma commit_stages_sel [simp]:
  "nd_storage (advance_capability N b nd) = nd_storage nd" "nd_world_state (advance_capability N b nd) = nd_world_state nd"
  "nd_watcher (advance_capability N b nd) = nd_watcher nd" "nd_policies (advance_capability N b nd) = nd_policies nd"
  "nd_provenance (advance_capability N b nd) = nd_provenance nd" "nd_flattener (advance_capability N b nd) = nd_flattener nd"
  "nd_ledger (advance_capability N b nd) = nd_ledger nd" "nd_engine (advance_capability N b nd) = nd_engine nd"
  "nd_endorsement (advance_capability N b nd) = nd_endorsement nd" "nd_reads (advance_capability N b nd) = nd_reads nd"
  "nd_watcher (persist_block P b nd) = nd_watcher nd" "nd_policies (persist_block P b nd) = nd_policies nd"
  "nd_provenance (persist_block P b nd) = nd_provenance nd" "nd_flattener (persist_block P b nd) = nd_flattener nd"
  "nd_ledger (persist_block P b nd) = nd_ledger nd" "nd_endorsement (persist_block P b nd) = nd_endorsement nd"
  "nd_reads (persist_block P b nd) = nd_reads nd"
  "nd_storage (refresh_policies b nd) = nd_storage nd" "nd_world_state (refresh_policies b nd) = nd_world_state nd"
  "nd_watcher (refresh_policies b nd) = nd_watcher nd" "nd_provenance (refresh_policies b nd) = nd_provenance nd"
  "nd_flattener (refresh_policies b nd) = nd_flattener nd" "nd_ledger (refresh_policies b nd) = nd_ledger nd"
  "nd_endorsement (refresh_policies b nd) = nd_endorsement nd" "nd_reads (refresh_policies b nd) = nd_reads nd"
  "nd_storage (project_block N b nd) = nd_storage nd" "nd_world_state (project_block N b nd) = nd_world_state nd"
  "nd_watcher (project_block N b nd) = nd_watcher nd" "nd_policies (project_block N b nd) = nd_policies nd"
  "nd_ledger (project_block N b nd) = nd_ledger nd" "nd_endorsement (project_block N b nd) = nd_endorsement nd"
  "nd_reads (project_block N b nd) = nd_reads nd"
  "nd_provenance (project_block N b nd) = provenance_ingest_block b (nd_provenance nd)"
  "nd_flattener (project_block N b nd) = flatten_block N b (nd_flattener nd)"
  by (simp_all add: advance_capability_def persist_block_def refresh_policies_def project_block_def Let_def
      split: prod.split sum.split)

lemma store_stages_sel [simp]:
  "nd_world_state (store_signed P orders nd) = nd_world_state nd" "nd_watcher (store_signed P orders nd) = nd_watcher nd"
  "nd_policies (store_signed P orders nd) = nd_policies nd" "nd_provenance (store_signed P orders nd) = nd_provenance nd"
  "nd_flattener (store_signed P orders nd) = nd_flattener nd" "nd_ledger (store_signed P orders nd) = nd_ledger nd"
  "nd_endorsement (store_signed P orders nd) = nd_endorsement nd" "nd_reads (store_signed P orders nd) = nd_reads nd"
  "nd_world_state (persist_watcher N P nd) = nd_world_state nd" "nd_watcher (persist_watcher N P nd) = nd_watcher nd"
  "nd_policies (persist_watcher N P nd) = nd_policies nd" "nd_provenance (persist_watcher N P nd) = nd_provenance nd"
  "nd_flattener (persist_watcher N P nd) = nd_flattener nd" "nd_ledger (persist_watcher N P nd) = nd_ledger nd"
  "nd_endorsement (persist_watcher N P nd) = nd_endorsement nd" "nd_reads (persist_watcher N P nd) = nd_reads nd"
  by (simp_all add: store_signed_def persist_watcher_def split: option.split)

text \<open>Admission touches neither the chain nor the difficulty.\<close>

definition same_chain :: "ledger \<Rightarrow> ledger \<Rightarrow> bool" where
  "same_chain l l' \<longleftrightarrow> lg_chain l' = lg_chain l \<and> lg_difficulty l' = lg_difficulty l"

lemma same_chain_refl [simp]: "same_chain l l"
  by (simp add: same_chain_def)

lemma same_chain_trans: "same_chain a b \<Longrightarrow> same_chain b c \<Longrightarrow> same_chain a c"
  by (simp add: same_chain_def)

lemma fold_capability_same: "same_chain l (snd (fold_capability E l))"
  by (simp add: fold_capability_def Let_def same_chain_def split: prod.split)

lemma add_transaction_same: "same_chain l (snd (add_transaction E tx l))"
proof -
  have enq: "same_chain l (snd (enqueue tx l))" for l
    by (cases "lg_ids l") (simp_all add: enqueue_def fold_committed_ids_def Let_def same_chain_def)
  obtain r l1 where f: "fold_capability E l = (r, l1)" by (cases "fold_capability E l")
  have "same_chain l l1" using fold_capability_same [of l E] by (simp add: f)
  with same_chain_trans [OF this enq] show ?thesis
    by (auto simp: add_transaction_def Let_def f split: sum.split)
qed

lemma admit_orders_same: "same_chain l (snd (admit_orders N orders l))"
proof (induction orders arbitrary: l)
  case (Cons order orders)
  show ?case using same_chain_trans [OF add_transaction_same Cons, of l N order] by (simp add: case_prod_beta)
qed simp

lemma fold_admit_same: "same_chain l (fold (\<lambda>g l. snd (add_transaction E g l)) gs l)"
proof (induction gs arbitrary: l)
  case (Cons g gs)
  show ?case using same_chain_trans [OF add_transaction_same Cons, of l E g] by simp
qed simp

lemma restore_same: "same_chain l (fold restore_transaction txs l)"
proof (induction txs arbitrary: l)
  case (Cons tx txs)
  have "same_chain l (restore_transaction tx l)" by (simp add: restore_transaction_def same_chain_def)
  from same_chain_trans [OF this Cons] show ?case by simp
qed simp

lemma prepare_mining_same: "same_chain l (snd (prepare_mining l))"
  by (simp add: prepare_mining_def Let_def same_chain_def split: option.split)

text \<open>
  The node before its ledger admits the orders of a committed block; \<open>observed\<close> is what the watcher
  returns for it.
\<close>

definition committed_node ::
  "'z node_env_scheme \<Rightarrow> 'st storage_provider \<Rightarrow> block \<Rightarrow> 'st node \<Rightarrow> 'st node" where
  "committed_node N P b nd = project_block N b (refresh_policies b (persist_block P b (advance_capability N b nd)))"

lemma after_block_commit_eq:
  assumes "observe_updates N (b_transactions b) (nd_watcher nd) (nd_reads nd) = (orders, w, k)"
  shows "after_block_commit N P b nd =
    (let nd' = persist_watcher N P (store_signed P orders ((committed_node N P b nd)\<lparr>nd_watcher := w, nd_reads := k\<rparr>))
     in (fst (admit_orders N orders (nd_ledger nd)),
         nd'\<lparr>nd_ledger := snd (admit_orders N orders (nd_ledger nd))\<rparr>))"
  using assms by (simp add: after_block_commit_def Let_def committed_node_def case_prod_beta)

text \<open>The part of the projection that lives in the store.\<close>

definition store_projects ::
  "('st \<Rightarrow> bool) \<Rightarrow> ('st \<Rightarrow> (u64 \<times> block) list) \<Rightarrow> block list \<Rightarrow> world_state \<Rightarrow> 'st \<Rightarrow> bool" where
  "store_projects s_inv s_blocks bs m st \<longleftrightarrow>
     s_inv st \<and> stored_as (s_blocks st) bs \<and> m = world_of bs"

definition snapshot_total :: "'z node_env_scheme \<Rightarrow> bool" where
  "snapshot_total N \<longleftrightarrow> (\<forall>s. ser_snapshot (ne_snapshot N) s \<noteq> None)"

context node_store
begin

abbreviation holds :: "block list \<Rightarrow> world_state \<Rightarrow> 'st \<Rightarrow> bool" where
  "holds \<equiv> store_projects s_inv s_blocks"

lemma put_holds:
  assumes "holds bs m st"
  shows "holds bs m (snd (sp_put_state P k v st))" "s_state (snd (sp_put_state P k v st)) = (s_state st)(k \<mapsto> v)"
proof -
  from put_state_law [of st k v] assms(1) obtain st' where
    "sp_put_state P k v st = (Inr (), st')" "s_inv st'" "s_blocks st' = s_blocks st" "s_state st' = (s_state st)(k \<mapsto> v)"
    by (auto simp: store_projects_def)
  then show "s_state (snd (sp_put_state P k v st)) = (s_state st)(k \<mapsto> v)" "holds bs m (snd (sp_put_state P k v st))"
    using assms by (simp_all add: store_projects_def)
qed

lemma store_signed_holds: "holds bs m (nd_storage nd) \<Longrightarrow> holds bs m (nd_storage (store_signed P orders nd))"
proof (cases "nd_identity nd")
  case (Some sign)
  assume "holds bs m (nd_storage nd)"
  then have "holds bs m (fold (\<lambda>order st. case sign order of
      Some json \<Rightarrow> snd (sp_put_state P (''signed_tx:'' @ tx_id order) json st) | None \<Rightarrow> st) orders (nd_storage nd))"
  proof (induction orders arbitrary: nd)
    case (Cons order orders)
    have step: "holds bs m (case sign order of
        Some json \<Rightarrow> snd (sp_put_state P (''signed_tx:'' @ tx_id order) json (nd_storage nd)) | None \<Rightarrow> nd_storage nd)"
      using put_holds(1) [OF Cons.prems] Cons.prems by (simp split: option.split)
    from Cons.IH [of "nd\<lparr>nd_storage := _\<rparr>", simplified, OF step] show ?case by (simp only: fold_simps)
  qed simp
  then show ?thesis by (simp add: store_signed_def Some)
qed (simp add: store_signed_def)

lemma persist_watcher_holds:
  assumes "holds bs m (nd_storage nd)" "snapshot_total N"
  shows "holds bs m (nd_storage (persist_watcher N P nd))"
    "watcher_saved N (s_state (nd_storage (persist_watcher N P nd))) cs (nd_watcher nd)"
proof -
  obtain bytes where b: "serialize_state (ne_snapshot N) (nd_watcher nd) = Some bytes"
    using assms(2) by (auto simp: snapshot_total_def serialize_state_def)
  then show "holds bs m (nd_storage (persist_watcher N P nd))"
    using put_holds(1) [OF assms(1)] by (simp add: persist_watcher_def)
  show "watcher_saved N (s_state (nd_storage (persist_watcher N P nd))) cs (nd_watcher nd)"
    using put_holds(2) [OF assms(1)] b by (simp add: persist_watcher_def watcher_saved_def)
qed

lemma persist_block_holds:
  assumes "holds bs (nd_world_state nd) (nd_storage nd)" "consecutive (bs @ [b])" "length (bs @ [b]) \<le> 2 ^ 64" "storable b"
  shows "holds (bs @ [b]) (nd_world_state (persist_block P b nd)) (nd_storage (persist_block P b nd))"
proof -
  from assms(1) have st: "s_inv (nd_storage nd)" "stored_as (s_blocks (nd_storage nd)) bs"
    "nd_world_state nd = world_of bs" by (simp_all add: store_projects_def)
  note snoc = stored_snoc [OF st(2) assms(2,3)]
  from apply_law [OF st(1) assms(4) snoc(2)] obtain st' where
    1: "sp_apply_block P b (nd_storage nd) = (Inr (), st')" "s_inv st'"
      "s_blocks st' = btree_insert (b_index b) b (s_blocks (nd_storage nd))"
      "s_state st' = apply_writes (b_write_set b) (s_state (nd_storage nd))" by blast
  show ?thesis using snoc(1) st(3)
    by (simp add: persist_block_def 1 store_projects_def world_of_snoc) (simp add: apply_writes_def)
qed

lemma commit_projects:
  assumes "projected N s_inv s_blocks s_state bs nd" "chain_of nd = bs @ [b]" "consecutive (bs @ [b])"
    "length (bs @ [b]) \<le> 2 ^ 64" "storable b" "snapshot_total N"
  shows "projected N s_inv s_blocks s_state (bs @ [b]) (snd (after_block_commit N P b nd))"
    "chain_of (snd (after_block_commit N P b nd)) = bs @ [b]"
    "s_state (nd_storage (snd (after_block_commit N P b nd))) WATCHER_STATE_KEY \<noteq> None"
proof -
  obtain orders w k where o: "observe_updates N (b_transactions b) (nd_watcher nd) (nd_reads nd) = (orders, w, k)"
    by (rule prod_cases3)
  define nd1 where "nd1 = store_signed P orders ((committed_node N P b nd)\<lparr>nd_watcher := w, nd_reads := k\<rparr>)"
  have res: "snd (after_block_commit N P b nd) =
      (persist_watcher N P nd1)\<lparr>nd_ledger := snd (admit_orders N orders (nd_ledger nd))\<rparr>"
    by (simp add: after_block_commit_eq [OF o] Let_def nd1_def)
  have idx: "indexes_project N bs nd" using assms(1) by (simp add: projected_def)
  have "holds bs (nd_world_state nd) (nd_storage nd)" using assms(1) by (simp add: projected_def store_projects_def)
  then have "holds (bs @ [b]) (nd_world_state (committed_node N P b nd)) (nd_storage (committed_node N P b nd))"
    using persist_block_holds [OF _ assms(3-5), of "advance_capability N b nd"] by (simp add: committed_node_def)
  then have h1: "holds (bs @ [b]) (nd_world_state nd1) (nd_storage nd1)"
    unfolding nd1_def by (simp add: store_signed_holds)
  have "indexes_project N (bs @ [b]) nd1"
    using idx refresh_policies_projects [of bs "persist_block P b (advance_capability N b nd)" b] assms(2)
    by (simp add: indexes_project_def nd1_def committed_node_def)
  then show "projected N s_inv s_blocks s_state (bs @ [b]) (snd (after_block_commit N P b nd))"
    using persist_watcher_holds [OF h1 assms(6)]
    by (simp add: projected_def res store_projects_def indexes_project_def)
  obtain bytes where "serialize_state (ne_snapshot N) (nd_watcher nd1) = Some bytes"
    using assms(6) by (auto simp: snapshot_total_def serialize_state_def)
  then show "s_state (nd_storage (snd (after_block_commit N P b nd))) WATCHER_STATE_KEY \<noteq> None"
    using put_holds(2) [OF h1] by (simp add: res persist_watcher_def)
  show "chain_of (snd (after_block_commit N P b nd)) = bs @ [b]"
    using assms(2) admit_orders_same [of "nd_ledger nd" N orders] by (simp add: res same_chain_def)
qed

end


section \<open>Rebuilding\<close>

lemma observe_no_triggers:
  assumes "wt_triggers w = []"
  shows "\<exists>w'. wt_triggers w' = [] \<and> (\<forall>k. observe_updates N txs w k = ([], w', k))"
proof (induction txs rule: rev_induct)
  case (snoc tx txs)
  then obtain w' where w': "wt_triggers w' = []" "\<forall>k. observe_updates N txs w k = ([], w', k)" by blast
  show ?case
  proof (cases "\<exists>u. tx_kind tx = InventoryUpdate u")
    case True
    then obtain u where u: "tx_kind tx = InventoryUpdate u" by blast
    obtain level stock where d: "apply_delta u (wt_inventory w') = (level, stock)" by fastforce
    have "\<forall>k. observe_updates N (txs @ [tx]) w k = ([], w'\<lparr>wt_inventory := stock\<rparr>, k)"
      using w' by (simp add: observe_updates_def u on_inventory_update_def d)
    moreover have "wt_triggers (w'\<lparr>wt_inventory := stock\<rparr>) = []" using w'(1) by simp
    ultimately show ?thesis by blast
  next
    case False
    then have "\<forall>k. observe_updates N (txs @ [tx]) w k = ([], w', k)"
      using w'(2) by (cases "tx_kind tx") (simp_all add: observe_updates_def)
    with w'(1) show ?thesis by blast
  qed
qed (use assms in \<open>simp add: observe_updates_def\<close>)

lemma replayed_any: "to_snapshot (fst (snd (observe_updates N (concat (map b_transactions bs)) watcher_new k))) = replayed N bs"
proof -
  have "wt_triggers watcher_new = []" by (simp add: watcher_new_def)
  from observe_no_triggers [OF this, of N "concat (map b_transactions bs)"] show ?thesis by (auto simp: replayed_def)
qed

lemma restore_watcher_none:
  "sp_get_state P WATCHER_STATE_KEY s = Inr None \<Longrightarrow> to_snapshot (fst (restore_watcher N P bs s w0 k)) = replayed N bs"
  by (simp add: restore_watcher_def replayed_any)

lemma restore_watcher_saved:
  assumes "watcher_saved N st bs w" "snapshot_faithful (ne_snapshot N)" "sp_get_state P WATCHER_STATE_KEY s = Inr (st WATCHER_STATE_KEY)"
  shows "to_snapshot (fst (restore_watcher N P bs s w0 k)) = to_snapshot w"
proof (cases "st WATCHER_STATE_KEY")
  case None
  with assms(1,3) restore_watcher_none [of P s N bs w0 k] show ?thesis by (simp add: watcher_saved_def)
next
  case (Some bytes)
  with assms(1,2) have "de_snapshot (ne_snapshot N) bytes = Some (to_snapshot w)"
    by (simp add: watcher_saved_def serialize_state_def snapshot_faithful_def)
  then have "restore_from_bytes (ne_snapshot N) bytes w0 = (True, apply_snapshot (to_snapshot w) w0)"
    by (simp add: restore_from_bytes_def)
  then show ?thesis using assms(3) Some by (simp add: restore_watcher_def) (simp add: apply_snapshot_def to_snapshot_def)
qed

text \<open>The derived state that a rebuild replaces.\<close>

definition derived_state ::
  "'st node \<Rightarrow> world_state \<times> provenance_index \<times> analytical_flattener \<times> policy_history \<times> watcher_state_snapshot" where
  "derived_state nd = (nd_world_state nd, nd_provenance nd, nd_flattener nd, nd_policies nd, to_snapshot (nd_watcher nd))"

lemma rebuild_sel:
  assumes "rebuild_world_state P (nd_storage nd) = (Inr ws, st)"
  shows "nd_world_state (rebuild_runtime_state_from_chain N P nd) = ws"
    "nd_storage (rebuild_runtime_state_from_chain N P nd) = st"
    "nd_provenance (rebuild_runtime_state_from_chain N P nd) = fold provenance_ingest_block (chain_of nd) provenance_new"
    "nd_flattener (rebuild_runtime_state_from_chain N P nd) = fold (flatten_block N) (chain_of nd) flattener_new"
    "nd_policies (rebuild_runtime_state_from_chain N P nd) =
       (case pol_build_from_blocks (chain_of nd) of Inr h \<Rightarrow> h | Inl _ \<Rightarrow> nd_policies nd)"
    "nd_watcher (rebuild_runtime_state_from_chain N P nd) =
       fst (restore_watcher N P (chain_of nd) st (nd_watcher nd) (nd_reads nd))"
    "nd_ledger (rebuild_runtime_state_from_chain N P nd) = nd_ledger nd"
    "nd_engine (rebuild_runtime_state_from_chain N P nd) = rebuild_from_chain (chain_of nd)"
  using assms by (simp_all add: rebuild_runtime_state_from_chain_def Let_def case_prod_beta split: sum.split)


section \<open>Steps of a node\<close>

text \<open>What a running node does without replacing its chain, one complete operation at a time.\<close>

inductive linear_step :: "'z node_env_scheme \<Rightarrow> 'st storage_provider \<Rightarrow> 'st node \<Rightarrow> 'st node \<Rightarrow> bool"
  for N :: "'z node_env_scheme" and P :: "'st storage_provider" where
  submit: "linear_step N P nd (snd (submit_transaction N tx nd))"
| receive: "linear_step N P nd (snd (handle_transaction N tx nd))"
| mined: "mine_async N P nd = Some (r, nd') \<Longrightarrow> linear_step N P nd nd'"
| block: "linear_step N P nd (snd (handle_block N P b nd))"
| trigger: "linear_step N P nd (register_inventory_trigger t nd)"
| executor: "linear_step N P nd (set_execution_provider exec nd)"

inductive_cases linear_stepE: "linear_step N P nd nd'"

text \<open>Every operation, the adoption of a longer chain of a peer included.\<close>

inductive node_step :: "'z node_env_scheme \<Rightarrow> 'st storage_provider \<Rightarrow> 'st node \<Rightarrow> 'st node \<Rightarrow> bool"
  for N :: "'z node_env_scheme" and P :: "'st storage_provider" where
  linear: "linear_step N P nd nd' \<Longrightarrow> node_step N P nd nd'"
| sync: "node_step N P nd (handle_chain N P candidate nd)"

text \<open>A step that leaves the chain, the store and the derived state as they are.\<close>

definition silent :: "'st node \<Rightarrow> 'st node \<Rightarrow> bool" where
  "silent nd nd' \<longleftrightarrow> chain_of nd' = chain_of nd \<and> lg_difficulty (nd_ledger nd') = lg_difficulty (nd_ledger nd)
     \<and> nd_storage nd' = nd_storage nd \<and> derived_state nd' = derived_state nd"

lemma silent_refl [simp]: "silent nd nd"
  by (simp add: silent_def)

lemma silent_trans [trans]: "silent a b \<Longrightarrow> silent b c \<Longrightarrow> silent a c"
  by (simp add: silent_def)

lemma silent_projected: "silent nd nd' \<Longrightarrow> projected N i b s bs nd \<Longrightarrow> projected N i b s bs nd'"
  by (simp add: silent_def derived_state_def projected_def watcher_saved_def serialize_state_def indexes_project_def
      split: option.splits)

lemma silent_cache: "silent nd (snd (capability_effective_set N height nd))"
  by (simp add: capability_effective_set_def silent_def derived_state_def split: option.split sum.split)

lemma silent_enforce: "silent nd (snd (enforce_block_endorsements N b per_tx nd))"
  using silent_cache [of nd N "b_index b"]
  by (cases "capability_effective_set N (b_index b) nd")
    (simp add: enforce_block_endorsements_def Let_def split: option.split sum.split)

lemma silent_submit_gate: "silent nd (snd (submit_gate N tx nd))"
  using silent_cache [of nd N "of_nat (length (chain_of nd))"]
  by (simp add: submit_gate_def Let_def split: option.split prod.split sum.split) (metis snd_conv)

lemma silent_pdc_gate: "silent nd (snd (pdc_gate N index ws nd))"
  using silent_cache [of nd N index] by (simp add: pdc_gate_def split: prod.split sum.split) (metis snd_conv)

lemma silent_ledger: "same_chain (nd_ledger nd) l \<Longrightarrow> silent nd (nd\<lparr>nd_ledger := l\<rparr>)"
  by (simp add: silent_def derived_state_def same_chain_def)

lemma silent_engine: "silent nd (nd\<lparr>nd_engine := e\<rparr>)" "silent nd (nd\<lparr>nd_reads := k\<rparr>)"
  by (simp_all add: silent_def derived_state_def)

lemma silent_offer: "silent nd (snd (evaluate_offer N tx nd))"
  by (simp add: evaluate_offer_def silent_def derived_state_def split: transaction_kind.split prod.split)

lemma silent_submit: "silent nd (snd (submit_transaction N tx nd))"
proof -
  obtain r nd1 where g: "submit_gate N tx nd = (r, nd1)" by (cases "submit_gate N tx nd")
  have 1: "silent nd nd1" using silent_submit_gate [of nd N tx] by (simp add: g)
  obtain a l where al: "add_transaction N tx (nd_ledger nd1) = (a, l)" by (cases "add_transaction N tx (nd_ledger nd1)")
  have l: "same_chain (nd_ledger nd1) l" using add_transaction_same [of "nd_ledger nd1" N tx] by (simp add: al)
  note 2 = silent_trans [OF 1 silent_ledger [OF l]]
  obtain gen nd2 where o: "evaluate_offer N tx (nd1\<lparr>nd_ledger := l\<rparr>) = (gen, nd2)"
    by (cases "evaluate_offer N tx (nd1\<lparr>nd_ledger := l\<rparr>)")
  from silent_trans [OF 2 silent_offer [of _ N tx]] have 3: "silent nd nd2" by (simp add: o)
  then have "silent nd (nd2\<lparr>nd_engine := e, nd_ledger := fold (\<lambda>g l. snd (add_transaction N g l)) gen (nd_ledger nd2)\<rparr>)"
    "silent nd (nd2\<lparr>nd_ledger := fold (\<lambda>g l. snd (add_transaction N g l)) gen (nd_ledger nd2)\<rparr>)" for e
    using fold_admit_same [of "nd_ledger nd2" N gen] by (simp_all add: silent_def derived_state_def same_chain_def)
  with 1 2 show ?thesis
    by (simp add: submit_transaction_def g al o Let_def split: sum.split transaction_kind.split)
qed

lemma silent_receive: "silent nd (snd (handle_transaction N tx nd))"
proof -
  obtain gen nd1 where o: "evaluate_offer N tx nd = (gen, nd1)" by (cases "evaluate_offer N tx nd")
  have 1: "silent nd nd1" using silent_offer [of nd N tx] by (simp add: o)
  have "same_chain (nd_ledger nd1) (fold (\<lambda>g l. snd (add_transaction N g l)) gen (snd (add_transaction N tx (nd_ledger nd1))))"
    by (rule same_chain_trans [OF add_transaction_same fold_admit_same])
  with 1 show ?thesis
    by (simp add: handle_transaction_def o Let_def silent_def derived_state_def same_chain_def split: transaction_kind.split)
qed

text \<open>The chain after the ledger operations of the pipeline.\<close>

lemma commit_mined_block_chain:
  assumes "commit_mined_block E b p l = (r, l')"
  shows "lg_chain l' = (if r = Inr True then lg_chain l @ [b] else lg_chain l)" "lg_difficulty l' = lg_difficulty l"
proof -
  have "lg_chain l' = (if r = Inr True then lg_chain l @ [b] else lg_chain l) \<and> lg_difficulty l' = lg_difficulty l"
  proof (cases "last_opt (lg_chain l)")
    case None
    then show ?thesis using assms by (auto simp: commit_mined_block_def)
  next
    case (Some tip)
    show ?thesis
    proof (cases "b_hash tip = p")
      case False
      then show ?thesis using assms restore_same [of l "b_transactions b"]
        by (auto simp: commit_mined_block_def Some same_chain_def)
    next
      case True
      obtain f lf where f: "fold_capability E l = (f, lf)" by (cases "fold_capability E l")
      have "lg_chain lf = lg_chain l" "lg_difficulty lf = lg_difficulty l"
        using fold_capability_same [of l E] by (simp_all add: f same_chain_def)
      then show ?thesis using assms True unfolding commit_mined_block_def Some option.case f prod.case
        by (auto simp: Let_def append_block_sel split: sum.splits option.splits prod.splits)
    qed
  qed
  then show "lg_chain l' = (if r = Inr True then lg_chain l @ [b] else lg_chain l)" "lg_difficulty l' = lg_difficulty l"
    by simp_all
qed

lemma mined_block:
  assumes "mine E clock d b k = Some (b', k')"
  shows "same_content b' b" "is_valid E b'" "has_valid_pow b' d"
proof -
  have "is_valid E (fst (b', k')) \<and> starts_with (b_hash (fst (b', k'))) (replicate d (CHR ''0''))
      \<and> same_content (fst (b', k')) (fst (b\<lparr>b_hash := calculate_hash E b\<rparr>, k))"
    by (rule mine_loop_Some [OF assms [unfolded mine_def]]) (simp add: is_valid_def calculate_hash_def header_of_def)
  then show "same_content b' b" "is_valid E b'" "has_valid_pow b' d"
    by (simp_all add: same_content_def starts_with_zeros has_valid_pow_def)
qed

lemma consecutive_next:
  assumes "consecutive bs" "bs \<noteq> []" "b_index b = b_index (last bs) + 1" "b_previous_hash b = b_hash (last bs)"
  shows "consecutive (bs @ [b])"
  using assms consecutive_last_index [OF assms(1,2)] by (simp add: consecutive_snoc)

lemma admit_block_Append:
  assumes "admit_block N b nd = (Append, nd')"
  shows "silent nd nd'" "nd_ledger nd' = nd_ledger nd" "nd_endorsement nd' = nd_endorsement nd" "chain_of nd \<noteq> []"
    "chains_to N b (last (chain_of nd)) = Inr ()" "nd_watcher nd' = nd_watcher nd"
    "has_valid_pow b (lg_difficulty (nd_ledger nd))"
proof -
  have "silent nd nd' \<and> nd_ledger nd' = nd_ledger nd \<and> nd_endorsement nd' = nd_endorsement nd \<and> chain_of nd \<noteq> []
      \<and> is_ok (chains_to N b (last (chain_of nd))) \<and> nd_watcher nd' = nd_watcher nd
      \<and> has_valid_pow b (lg_difficulty (nd_ledger nd))"
    using assms by (auto simp: admit_block_def Let_def silent_def derived_state_def last_opt_def
        split: if_splits option.splits sum.splits)
  then show "silent nd nd'" "nd_ledger nd' = nd_ledger nd" "nd_endorsement nd' = nd_endorsement nd" "chain_of nd \<noteq> []"
    "chains_to N b (last (chain_of nd)) = Inr ()" "nd_watcher nd' = nd_watcher nd"
    "has_valid_pow b (lg_difficulty (nd_ledger nd))" by (auto simp: is_ok_iff)
qed

lemma silent_admit_block: "silent nd (snd (admit_block N b nd))"
  by (simp add: admit_block_def Let_def silent_def derived_state_def split: option.split sum.split)

lemma chains_to_ok: "chains_to E b p = Inr () \<Longrightarrow> b_index b = b_index p + 1 \<and> b_previous_hash b = b_hash p"
  by (simp add: chains_to_def split: if_splits)

text \<open>
  Every step is silent, or appends one linked block and runs the post-commit pipeline on it.
\<close>

definition commits :: "'z node_env_scheme \<Rightarrow> 'st storage_provider \<Rightarrow> 'st node \<Rightarrow> block \<Rightarrow> 'st node \<Rightarrow> bool" where
  "commits N P nd b nd' \<longleftrightarrow> chain_of nd \<noteq> [] \<and> chains_to N b (last (chain_of nd)) = Inr ()
     \<and> has_valid_pow b (lg_difficulty (nd_ledger nd))
     \<and> (\<exists>nd1. nd_storage nd1 = nd_storage nd \<and> derived_state nd1 = derived_state nd
         \<and> chain_of nd1 = chain_of nd @ [b] \<and> lg_difficulty (nd_ledger nd1) = lg_difficulty (nd_ledger nd)
         \<and> nd' = snd (after_block_commit N P b nd1))"

lemma commitsI:
  assumes "silent nd nd2" "chain_of nd \<noteq> []" "chains_to N b (last (chain_of nd)) = Inr ()"
    "has_valid_pow b (lg_difficulty (nd_ledger nd))" "lg_chain l = chain_of nd @ [b]"
    "lg_difficulty l = lg_difficulty (nd_ledger nd)"
  shows "commits N P nd b (snd (after_block_commit N P b (nd2\<lparr>nd_ledger := l\<rparr>)))"
  unfolding commits_def using assms
  by (intro conjI exI [of _ "nd2\<lparr>nd_ledger := l\<rparr>"]) (simp_all add: silent_def derived_state_def)

lemma handle_block_cases: "silent nd (snd (handle_block N P b nd)) \<or> commits N P nd b (snd (handle_block N P b nd))"
proof (cases "fst (admit_block N b nd) = Append")
  case False
  then show ?thesis using silent_admit_block [of nd N b]
    by (cases "admit_block N b nd") (auto simp: handle_block_def split: block_verdict.split)
next
  case True
  then obtain nd1 where a: "admit_block N b nd = (Append, nd1)" by (cases "admit_block N b nd") auto
  note adm = admit_block_Append [OF a]
  obtain e nd2 where e: "enforce_block_endorsements N b [] nd1 = (e, nd2)" by (cases "enforce_block_endorsements N b [] nd1")
  have s: "silent nd nd2" using silent_trans [OF adm(1) silent_enforce [of nd1 N b "[]"]] by (simp add: e)
  have res: "snd (handle_block N P b nd) = (if is_ok e
      then snd (after_block_commit N P b (nd2\<lparr>nd_ledger := snd (append_peer_block N b (nd_ledger nd2))\<rparr>)) else nd2)"
    by (cases e) (simp_all add: handle_block_def a commit_peer_block_def e Let_def case_prod_beta)
  have "lg_chain (snd (append_peer_block N b (nd_ledger nd2))) = chain_of nd @ [b]"
    "lg_difficulty (snd (append_peer_block N b (nd_ledger nd2))) = lg_difficulty (nd_ledger nd)"
    using adm(4,5) s by (simp_all add: append_peer_block_def silent_def last_opt_def)
  then have "commits N P nd b (snd (after_block_commit N P b (nd2\<lparr>nd_ledger := snd (append_peer_block N b (nd_ledger nd2))\<rparr>)))"
    by (rule commitsI [OF s adm(4,5,7)])
  then show ?thesis using s by (cases "is_ok e") (simp_all add: res)
qed

lemma silent_restore: "silent nd (restore_pending txs nd)"
  unfolding restore_pending_def by (rule silent_ledger [OF restore_same])

lemma commit_needs_policies:
  assumes "pol_build_from_blocks (lg_chain l) = Inl e"
  shows "fst (commit_mined_block N b h l) \<noteq> Inr True" "lg_chain (snd (commit_mined_block N b h l)) = lg_chain l"
proof -
  obtain r l1 where f: "fold_capability N l = (r, l1)" by (rule prod.exhaust)
  have l1: "lg_chain l1 = lg_chain l" using fold_capability_same [of l N] by (simp add: f same_chain_def)
  have "fst (commit_mined_block N b h l) \<noteq> Inr True \<and> lg_chain (snd (commit_mined_block N b h l)) = lg_chain l"
    using assms l1 restore_same [of l "b_transactions b"]
    by (auto simp: commit_mined_block_def f Let_def same_chain_def split: option.split sum.split prod.split)
  then show "fst (commit_mined_block N b h l) \<noteq> Inr True" "lg_chain (snd (commit_mined_block N b h l)) = lg_chain l"
    by simp_all
qed

lemma mine_candidate_cases:
  assumes "mine_candidate N P index prev txs d ws per_tx nd = Some (r, nd')" "chain_of nd \<noteq> []"
    "d = lg_difficulty (nd_ledger nd)" "index = b_index (last (chain_of nd)) + 1" "prev = b_hash (last (chain_of nd))"
  shows "silent nd nd' \<or> (\<exists>b. commits N P nd b nd' \<and> is_ok (pol_build_from_blocks (chain_of nd)))"
proof -
  let ?b0 = "with_write_set N (ne_clock N (nd_reads nd)) index txs prev ws"
  obtain e nd1 where e: "enforce_block_endorsements N ?b0 per_tx (nd\<lparr>nd_reads := nd_reads nd + 1\<rparr>) = (e, nd1)"
    by (cases "enforce_block_endorsements N ?b0 per_tx (nd\<lparr>nd_reads := nd_reads nd + 1\<rparr>)")
  have s1: "silent nd nd1"
  proof (rule silent_trans [OF silent_engine(2)])
    show "silent (nd\<lparr>nd_reads := nd_reads nd + 1\<rparr>) nd1"
      using silent_enforce [of "nd\<lparr>nd_reads := nd_reads nd + 1\<rparr>" N ?b0 per_tx] by (simp only: e snd_conv)
  qed
  note unf = assms(1) [unfolded mine_candidate_def Let_def e prod.case]
  show ?thesis
  proof (cases e)
    case (Inl x)
    then have "nd' = restore_pending txs nd1" using unf by simp
    with silent_trans [OF s1 silent_restore] show ?thesis by simp
  next
    case (Inr u)
    with unf obtain b k where m: "mine N (ne_clock N) d ?b0 (nd_reads nd1) = Some (b, k)"
      by (auto split: option.splits)
    have b: "b_index b = index" "b_previous_hash b = prev" "b_transactions b = txs" "b_write_set b = ws"
      using mined_block(1) [OF m] by (simp_all add: same_content_def with_write_set_def Let_def)
    obtain c l where c: "commit_mined_block N b prev (nd_ledger nd1) = (c, l)" by (cases "commit_mined_block N b prev (nd_ledger nd1)")
    note chain = commit_mined_block_chain [OF c]
    have s2: "silent nd (nd1\<lparr>nd_reads := k\<rparr>)" using silent_trans [OF s1 silent_engine(2)] .
    show ?thesis
    proof (cases "c = Inr True")
      case True
      then have nd': "nd' = snd (after_block_commit N P b (nd1\<lparr>nd_reads := k, nd_ledger := l\<rparr>))"
        using unf by (simp add: Inr m c case_prod_beta)
      have "commits N P nd b nd'"
        unfolding nd' using b chain True assms(3-5) s1 mined_block(2,3) [OF m]
        by (intro commitsI [OF s2 assms(2)]) (simp_all add: silent_def chains_to_def)
      moreover have "is_ok (pol_build_from_blocks (chain_of nd))"
        using commit_needs_policies(1) [of "nd_ledger nd1" _ N b prev] c True s1
        by (cases "pol_build_from_blocks (chain_of nd)") (auto simp: silent_def is_ok_def)
      ultimately show ?thesis by blast
    next
      case False
      then have "nd' = nd1\<lparr>nd_reads := k, nd_ledger := l\<rparr>" "same_chain (nd_ledger nd1) l"
        using unf chain by (auto simp: Inr m c same_chain_def split: sum.splits if_splits)
      with silent_trans [OF s2 silent_ledger [of _ l]] show ?thesis by simp
    qed
  qed
qed

lemma mine_async_cases:
  assumes "mine_async N P nd = Some (r, nd')"
  shows "silent nd nd' \<or> (\<exists>b. commits N P nd b nd' \<and> is_ok (pol_build_from_blocks (chain_of nd)))"
proof -
  obtain p l where p: "prepare_mining (nd_ledger nd) = (p, l)" by (cases "prepare_mining (nd_ledger nd)")
  have s1: "silent nd (nd\<lparr>nd_ledger := l\<rparr>)" using silent_ledger [OF prepare_mining_same, of nd] by (simp add: p)
  show ?thesis
  proof (cases p)
    case (Inl e)
    with assms s1 show ?thesis by (simp add: mine_async_def p)
  next
    case (Inr q)
    obtain index prev txs d where q: "q = (index, prev, txs, d)" by (cases q)
    have tip: "chain_of nd \<noteq> []" "d = lg_difficulty (nd_ledger nd)" "index = b_index (last (chain_of nd)) + 1" "prev = b_hash (last (chain_of nd))"
      using p Inr q by (auto simp: prepare_mining_def Let_def last_opt_def split: if_splits)
    let ?nd1 = "nd\<lparr>nd_ledger := l\<rparr>"
    show ?thesis
    proof (cases "compute_write_set N txs ?nd1")
      case (Inl e)
      with assms s1 show ?thesis by (simp add: mine_async_def p Inr q)
    next
      case ws: (Inr w)
      obtain ws per_tx where w: "w = (ws, per_tx)" by (cases w)
      obtain ok nd2 where g: "pdc_gate N index ws ?nd1 = (ok, nd2)" by (cases "pdc_gate N index ws ?nd1")
      have s2: "silent nd nd2" using silent_trans [OF s1 silent_pdc_gate [of ?nd1 N index ws]] by (simp add: g)
      show ?thesis
      proof (cases ok)
        case False
        then have "nd' = restore_pending txs nd2" using assms by (simp add: mine_async_def p Inr q ws w g)
        with silent_trans [OF s2 silent_restore] show ?thesis by simp
      next
        case True
        with assms have m: "mine_candidate N P index prev txs d ws per_tx nd2 = Some (r, nd')"
          by (simp add: mine_async_def p Inr q ws w g)
        have "chain_of nd2 = chain_of nd" "lg_difficulty (nd_ledger nd2) = lg_difficulty (nd_ledger nd)"
          using s2 by (simp_all add: silent_def)
        with mine_candidate_cases [OF m] tip consider "silent nd2 nd'" | b where "commits N P nd2 b nd'" "is_ok (pol_build_from_blocks (chain_of nd))" by auto
        then show ?thesis
        proof cases
          case 1
          with silent_trans [OF s2] show ?thesis by blast
        next
          case 2
          from 2(1) s2 have "commits N P nd b nd'" by (simp add: commits_def silent_def)
          with 2(2) show ?thesis by blast
        qed
      qed
    qed
  qed
qed

lemma linear_step_cases:
  assumes "linear_step N P nd nd'"
  shows "silent nd nd' \<or> (\<exists>b. commits N P nd b nd')"
  using assms
proof cases
  case (submit tx)
  then show ?thesis using silent_submit [of nd N tx] by simp
next
  case (receive tx)
  then show ?thesis using silent_receive [of nd N tx] by simp
next
  case (mined r)
  then show ?thesis using mine_async_cases by blast
next
  case (block b)
  then show ?thesis using handle_block_cases [of nd N P b] by auto
next
  case (trigger t)
  then show ?thesis by (simp add: silent_def derived_state_def register_inventory_trigger_def add_trigger_def to_snapshot_def)
next
  case (executor exec)
  then show ?thesis
    by (simp add: silent_def derived_state_def set_execution_provider_def watcher_set_executor_def to_snapshot_def)
qed


section \<open>Runs\<close>

definition valid_chain :: "'z node_env_scheme \<Rightarrow> nat \<Rightarrow> block list \<Rightarrow> bool" where
  "valid_chain N d bs \<longleftrightarrow> bs \<noteq> [] \<and> is_valid N (hd bs) \<and> b_index (hd bs) = 0 \<and> b_previous_hash (hd bs) = ''0''
     \<and> check_links N d bs = Inr ()"

text \<open>A node whose chain validates and, as long as its length fits an index, is what the store and the derived state show.\<close>

definition steady ::
  "'z node_env_scheme \<Rightarrow> ('st \<Rightarrow> bool) \<Rightarrow> ('st \<Rightarrow> (u64 \<times> block) list) \<Rightarrow> ('st \<Rightarrow> world_state) \<Rightarrow>
     nat \<Rightarrow> 'st node \<Rightarrow> bool" where
  "steady N s_inv s_blocks s_state d nd \<longleftrightarrow> lg_difficulty (nd_ledger nd) = d \<and> valid_chain N d (chain_of nd)
     \<and> (length (chain_of nd) \<le> 2 ^ 64 \<longrightarrow> projected N s_inv s_blocks s_state (chain_of nd) nd)"

lemma valid_chain_snoc:
  "valid_chain N d bs \<Longrightarrow> chains_to N b (last bs) = Inr () \<Longrightarrow> has_valid_pow b d \<Longrightarrow> valid_chain N d (bs @ [b])"
  by (simp add: valid_chain_def check_links_snoc block_consensus_admissible_def)

lemma derived_projected:
  "nd_storage nd' = nd_storage nd \<Longrightarrow> derived_state nd' = derived_state nd \<Longrightarrow>
     projected N i b s bs nd \<Longrightarrow> projected N i b s bs nd'"
  by (simp add: derived_state_def projected_def watcher_saved_def serialize_state_def indexes_project_def
      split: option.splits)

lemma after_block_commit_difficulty:
  "lg_difficulty (nd_ledger (snd (after_block_commit N P b nd))) = lg_difficulty (nd_ledger nd)"
proof -
  obtain orders w k where o: "observe_updates N (b_transactions b) (nd_watcher nd) (nd_reads nd) = (orders, w, k)"
    by (rule prod_cases3)
  show ?thesis using admit_orders_same [of "nd_ledger nd" N orders]
    by (simp add: after_block_commit_eq [OF o] Let_def same_chain_def)
qed

lemma after_block_commit_chain: "chain_of (snd (after_block_commit N P b nd)) = chain_of nd"
proof -
  obtain orders w k where o: "observe_updates N (b_transactions b) (nd_watcher nd) (nd_reads nd) = (orders, w, k)"
    by (rule prod_cases3)
  show ?thesis using admit_orders_same [of "nd_ledger nd" N orders]
    by (simp add: after_block_commit_eq [OF o] Let_def same_chain_def)
qed

lemma persist_missing_none:
  "\<forall>b \<in> set bs. \<exists>b'. sp_get_block P (b_index b) st = Inr (Some b') \<Longrightarrow> persist_missing P bs st = (Inr (), st)"
  by (induction bs) auto

text \<open>The stored chain after every block of a longer one has been put.\<close>

definition put_entries :: "block list \<Rightarrow> (u64 \<times> block) list \<Rightarrow> (u64 \<times> block) list" where
  "put_entries bs es = fold (\<lambda>b. btree_insert (b_index b) b) bs es"

lemma map_of_put_entries: "map_of (put_entries bs es) = map_of es ++ map_of (rev (map (\<lambda>b. (b_index b, b)) bs))"
  by (induction bs arbitrary: es) (simp_all add: put_entries_def map_of_btree_insert)

lemma btree_wf_put_entries: "btree_wf es \<Longrightarrow> btree_wf (put_entries bs es)"
  by (induction bs arbitrary: es) (simp_all add: put_entries_def btree_wf_insert)

lemma consecutive_index_set:
  assumes "consecutive bs"
  shows "b_index ` set bs = of_nat ` {..<length bs}"
proof -
  have "map b_index bs = map of_nat [0..<length bs]"
    using assms by (intro nth_equalityI) (simp_all add: consecutive_def)
  from arg_cong [OF this, of set] show ?thesis by (simp add: atLeast0LessThan)
qed

lemma consecutive_sorted:
  assumes "consecutive bs" "length bs \<le> 2 ^ 64"
  shows "btree_wf (map (\<lambda>b. (b_index b, b)) bs)"
proof -
  have "b_index (bs ! i) < b_index (bs ! j)" if "i < j" "j < length bs" for i j
    using assms that by (simp add: consecutive_def word_less_nat_alt unat_of_nat)
  then show ?thesis by (simp add: btree_wf_def sorted_wrt_iff_nth_less)
qed

lemma put_longer_chain:
  assumes "stored_as es bs" "consecutive cs" "length bs \<le> length cs" "length cs \<le> 2 ^ 64"
  shows "stored_as (put_entries cs es) cs"
proof -
  let ?kv = "map (\<lambda>b. (b_index b, b))"
  have con: "consecutive bs" "es = ?kv bs" "bs \<noteq> []" "length bs \<le> 2 ^ 64" using assms(1) by (simp_all add: stored_as_def)
  have wf: "btree_wf (?kv cs)" "btree_wf es"
    using consecutive_sorted [OF assms(2,4)] consecutive_sorted [OF con(1,4)] by (simp_all add: con(2))
  have "dom (map_of es) \<subseteq> dom (map_of (?kv cs))"
    using consecutive_index_set [OF con(1)] consecutive_index_set [OF assms(2)] assms(3)
    by (auto simp: dom_map_of_conv_image_fst con(2) image_image)
  then have "map_of es ++ map_of (?kv cs) = map_of (?kv cs)"
    by (intro ext) (auto simp: map_add_def split: option.split)
  moreover have "map_of (rev (?kv cs)) = map_of (?kv cs)"
    using btree_wf_distinct [OF wf(1)] by (subst map_of_inject_set) (simp_all add: rev_map [symmetric])
  ultimately have "map_of (put_entries cs es) = map_of (?kv cs)" by (simp add: map_of_put_entries)
  from map_of_btree_sorted_eq [OF btree_wf_put_entries [OF wf(2)] wf(1) this]
  show ?thesis using assms con(3) by (auto simp: stored_as_def)
qed

lemma same_genesis:
  assumes "ser_header_faithful N" "\<not> sha_collision N" "valid_chain N d (lg_chain l)" "lg_difficulty l = d"
    "try_replace_chain N cs l = (True, l')"
  shows "valid_chain N d cs" "consecutive cs"
proof -
  note t = try_replace_chain_True [OF assms(5)]
  have ne: "lg_chain l \<noteq> []" "cs \<noteq> []" using assms(3) t(1) by (auto simp: valid_chain_def)
  have "header_of (hd (lg_chain l)) = header_of (hd cs)"
    using is_valid_hash_eq [OF assms(1) _ t(4) t(6) [OF ne(1)]] assms(2,3) by (auto simp: valid_chain_def)
  then have g: "b_index (hd cs) = 0" "b_previous_hash (hd cs) = ''0''"
    using assms(3) by (simp_all add: header_of_def valid_chain_def)
  have links: "check_links N d cs = Inr ()" using check_candidate_links [OF t(3)] assms(4) by simp
  show "valid_chain N d cs" using ne(2) t(4) g links by (simp add: valid_chain_def)
  show "consecutive cs" by (rule check_links_consecutive [OF links ne(2) g(1)])
qed

context node_store
begin

lemma put_blocks_ok:
  assumes "s_inv st" "\<forall>b \<in> set bs. storable b"
  shows "s_inv (fold (\<lambda>b st. snd (sp_put_block P b st)) bs st)
    \<and> s_blocks (fold (\<lambda>b st. snd (sp_put_block P b st)) bs st) = put_entries bs (s_blocks st)
    \<and> s_state (fold (\<lambda>b st. snd (sp_put_block P b st)) bs st) = s_state st"
  using assms
proof (induction bs arbitrary: st)
  case (Cons b bs)
  from put_block_law [of st b] Cons.prems obtain st' where 1: "sp_put_block P b st = (Inr (), st')" "s_inv st'"
    "s_blocks st' = btree_insert (b_index b) b (s_blocks st)" "s_state st' = s_state st" by auto
  with Cons.IH [of st'] Cons.prems(2) show ?case by (simp add: put_entries_def)
qed (simp add: put_entries_def)

text \<open>
  A sync that passes the checks: the stored blocks, the world state and the indexes are those of the
  new chain, the watcher is the one whose snapshot is stored.
\<close>

lemma sync_state:
  assumes "projected N s_inv s_blocks s_state (chain_of nd) nd" "snapshot_faithful (ne_snapshot N)" "\<forall>b. storable b"
    and "enforce_chain_endorsements N cs nd = Inr ()" "try_replace_chain N cs (nd_ledger nd) = (True, l)"
    and "consecutive cs" "length cs \<le> 2 ^ 64"
  shows "chain_of (handle_chain N P cs nd) = cs"
    and "to_snapshot (nd_watcher (handle_chain N P cs nd)) =
      (if s_state (nd_storage nd) WATCHER_STATE_KEY = None then replayed N cs else to_snapshot (nd_watcher nd))"
    and "projected N s_inv s_blocks s_state cs (handle_chain N P cs nd)"
    and "lg_difficulty (nd_ledger (handle_chain N P cs nd)) = lg_difficulty (nd_ledger nd)"
proof -
  note p = assms(1) [unfolded projected_def]
  define st where "st = fold (\<lambda>b st. snd (sp_put_block P b st)) cs (nd_storage nd)"
  have l: "lg_chain l = cs" "length (chain_of nd) < length cs" "lg_difficulty l = lg_difficulty (nd_ledger nd)"
    using try_replace_chain_True(1,2) [OF assms(5)] by (simp_all add: reset_indexes_def)
  have st: "s_inv st" "s_blocks st = put_entries cs (s_blocks (nd_storage nd))" "s_state st = s_state (nd_storage nd)"
    using put_blocks_ok [of "nd_storage nd" cs] p assms(3) by (simp_all add: st_def)
  then have stored: "stored_as (s_blocks st) cs" using put_longer_chain [of _ "chain_of nd" cs] p assms(6,7) l(2) by simp
  let ?nd1 = "nd\<lparr>nd_ledger := l, nd_storage := st\<rparr>"
  have h: "handle_chain N P cs nd = rebuild_runtime_state_from_chain N P ?nd1"
    using assms(4,5) by (simp add: handle_chain_def l(1) st_def)
  from rebuild_world_state_ok [OF st(1) stored] obtain st' where
    r: "rebuild_world_state P (nd_storage ?nd1) = (Inr (world_of cs), st')"
    and st': "s_inv st'" "s_blocks st' = s_blocks st" "s_state st' = apply_writes (chain_writes cs) (s_state st)"
    by (auto simp: world_of_def)
  note sel = rebuild_sel [OF r, where N = N]
  have key: "s_state st' WATCHER_STATE_KEY = s_state (nd_storage nd) WATCHER_STATE_KEY"
    by (simp add: st'(3) apply_writes_watcher st(3))
  note get = get_state_law [OF st'(1), of WATCHER_STATE_KEY]
  have w: "to_snapshot (nd_watcher (handle_chain N P cs nd)) =
      (if s_state (nd_storage nd) WATCHER_STATE_KEY = None then replayed N cs else to_snapshot (nd_watcher nd))"
  proof (cases "s_state (nd_storage nd) WATCHER_STATE_KEY")
    case None
    then show ?thesis using restore_watcher_none [of P st' N cs] get by (simp add: h sel l(1) key)
  next
    case (Some bytes)
    with p key have "watcher_saved N (s_state st') cs (nd_watcher nd)" by (simp add: watcher_saved_def)
    from restore_watcher_saved [OF this assms(2) get] show ?thesis by (simp add: h sel l(1) Some)
  qed
  show "to_snapshot (nd_watcher (handle_chain N P cs nd)) =
      (if s_state (nd_storage nd) WATCHER_STATE_KEY = None then replayed N cs else to_snapshot (nd_watcher nd))" by (rule w)
  show "chain_of (handle_chain N P cs nd) = cs" "lg_difficulty (nd_ledger (handle_chain N P cs nd)) = lg_difficulty (nd_ledger nd)"
    by (simp_all add: h sel l)
  have "watcher_saved N (s_state st') cs (nd_watcher (handle_chain N P cs nd))"
    using p w by (auto simp: watcher_saved_def key serialize_state_def split: option.splits)
  moreover have "indexes_project N cs (handle_chain N P cs nd)" by (auto simp: indexes_project_def h sel l(1))
  ultimately show "projected N s_inv s_blocks s_state cs (handle_chain N P cs nd)"
    using st'(1) stored by (simp add: projected_def h sel st'(2))
qed

lemma linear_steady:
  assumes "linear_step N P nd nd'" "snapshot_total N" "\<forall>b. storable b" "steady N s_inv s_blocks s_state d nd"
  shows "steady N s_inv s_blocks s_state d nd'"
proof -
  consider "silent nd nd'" | b where "commits N P nd b nd'" using linear_step_cases [OF assms(1)] by blast
  then show ?thesis
  proof cases
    case 1
    then have "chain_of nd' = chain_of nd" "lg_difficulty (nd_ledger nd') = lg_difficulty (nd_ledger nd)"
      by (simp_all add: silent_def)
    with assms(4) silent_projected [OF 1] show ?thesis by (auto simp: steady_def)
  next
    case 2
    then obtain nd1 where b: "chain_of nd \<noteq> []" "chains_to N b (last (chain_of nd)) = Inr ()"
      "has_valid_pow b (lg_difficulty (nd_ledger nd))" and nd1: "nd_storage nd1 = nd_storage nd"
      "derived_state nd1 = derived_state nd" "chain_of nd1 = chain_of nd @ [b]"
      "lg_difficulty (nd_ledger nd1) = lg_difficulty (nd_ledger nd)" "nd' = snd (after_block_commit N P b nd1)"
      by (auto simp: commits_def)
    have chain: "chain_of nd' = chain_of nd @ [b]" by (simp add: nd1(5) after_block_commit_chain nd1(3))
    have "projected N s_inv s_blocks s_state (chain_of nd') nd'" if "length (chain_of nd') \<le> 2 ^ 64"
    proof -
      have p: "projected N s_inv s_blocks s_state (chain_of nd) nd1"
        by (rule derived_projected [OF nd1(1,2)]) (use assms(4) that in \<open>simp add: steady_def chain\<close>)
      have "consecutive (chain_of nd)" using p by (simp add: projected_def stored_as_def)
      from consecutive_next [OF this b(1)] chains_to_ok [OF b(2)] have "consecutive (chain_of nd @ [b])" by simp
      from commit_projects(1) [OF p nd1(3) this _ _ assms(2)] that [unfolded chain] assms(3) show ?thesis
        by (simp add: nd1(5) after_block_commit_chain nd1(3))
    qed
    with assms(4) b valid_chain_snoc [of N d "chain_of nd" b] show ?thesis
      by (simp add: steady_def chain) (simp add: nd1 after_block_commit_difficulty)
  qed
qed

lemma sync_steady:
  assumes "ser_header_faithful N" "\<not> sha_collision N" "snapshot_faithful (ne_snapshot N)" "\<forall>b. storable b"
    and "steady N s_inv s_blocks s_state d nd"
  shows "steady N s_inv s_blocks s_state d (handle_chain N P cs nd)"
proof (cases "enforce_chain_endorsements N cs nd = Inr () \<and> fst (try_replace_chain N cs (nd_ledger nd))")
  case False
  then have "handle_chain N P cs nd = nd"
    using try_replace_chain_False [of N cs "nd_ledger nd"]
    by (auto simp: handle_chain_def split: sum.split prod.split bool.split)
  with assms(5) show ?thesis by simp
next
  case True
  then obtain l where e: "enforce_chain_endorsements N cs nd = Inr ()" and l: "try_replace_chain N cs (nd_ledger nd) = (True, l)"
    by (metis prod.collapse)
  have v: "valid_chain N d (chain_of nd)" "lg_difficulty (nd_ledger nd) = d" using assms(5) by (simp_all add: steady_def)
  note g = same_genesis [OF assms(1,2) v l]
  note t = try_replace_chain_True(1,2) [OF l]
  have same: "chain_of (handle_chain N P cs nd) = cs" "lg_difficulty (nd_ledger (handle_chain N P cs nd)) = d"
    using v(2) by (simp_all add: handle_chain_def e l t(2) rebuild_runtime_state_from_chain_def Let_def case_prod_beta reset_indexes_def
        split: sum.split)
  have "projected N s_inv s_blocks s_state cs (handle_chain N P cs nd)" if "length cs \<le> 2 ^ 64"
    using sync_state(3) [OF _ assms(3,4) e l g(2) that] assms(5) that t(1) by (simp add: steady_def)
  with same g(1) show ?thesis by (simp add: steady_def)
qed

lemma run_steady:
  assumes "(node_step N P)\<^sup>*\<^sup>* nd nd'" "snapshot_total N" "snapshot_faithful (ne_snapshot N)" "ser_header_faithful N"
    "\<not> sha_collision N" "\<forall>b. storable b" "steady N s_inv s_blocks s_state d nd"
  shows "steady N s_inv s_blocks s_state d nd'"
  using assms(1,7)
proof induction
  case (step y z)
  from step(2) step(3) [OF step(4)] show ?case
    by cases (auto intro: linear_steady [OF _ assms(2,6)] sync_steady [OF assms(4,5,3,6)])
qed

text \<open>The first start on an empty store.\<close>

lemma first_start_steady:
  assumes "s_inv st" "s_blocks st = []" "s_state st WATCHER_STATE_KEY = None" "storable g" "lg_chain l = [g]" "lg_difficulty l = d" "is_valid N g" "b_index g = 0" "b_previous_hash g = ''0''"
    "b_transactions g = []" "b_write_set g = []"
    "start N P (node_new l st identity k) = (r, nd)"
  shows "r = Inr ()" "steady N s_inv s_blocks s_state d nd" "chain_of nd = [g]"
proof -
  let ?nd0 = "node_new l st identity k"
  have chain: "chain_of ?nd0 = [g]" and nds: "nd_storage ?nd0 = st" "nd_watcher ?nd0 = watcher_new" "nd_ledger ?nd0 = l"
    using assms(5) by (simp_all add: node_new_def)
  have rw: "rebuild_world_state P (nd_storage ?nd0) = (Inr Map.empty, st)"
    using latest_law [OF assms(1)] assms(2) by (simp add: rebuild_world_state_def nds last_opt_def)
  let ?nd1 = "rebuild_runtime_state_from_chain N P ?nd0"
  note sel = rebuild_sel [OF rw, where N = N, unfolded chain]
  have w: "to_snapshot (nd_watcher ?nd1) = replayed N [g]"
    using restore_watcher_none [of P st N "[g]"] get_state_law [OF assms(1), of WATCHER_STATE_KEY] assms(3) by (simp add: sel)
  have "validate_tip_chain g (map_option snd (last_opt (s_blocks st))) = Inr ()"
    using assms(2,8) by (simp add: validate_tip_chain_def last_opt_def)
  from apply_law [OF assms(1,4) this] obtain st' where st': "sp_apply_block P g st = (Inr (), st')" "s_inv st'"
      "s_blocks st' = [(0, g)]" "s_state st' = s_state st"
    using assms(2,8,11) by (auto simp: apply_writes_def)
  have "persist_missing P [g] st = (Inr (), st')"
    using get_law [OF assms(1), of 0] assms(2,8) by (simp add: st'(1))
  then have res: "r = Inr ()" "nd = ?nd1\<lparr>nd_storage := st'\<rparr>"
    using assms(12) by (auto simp: start_def Let_def sel nds assms(5))
  show "r = Inr ()" by (rule res(1))
  show chn: "chain_of nd = [g]" by (simp add: res(2) sel nds assms(5))
  have "stored_as (s_blocks st') [g]" using assms(8) by (simp add: stored_as_def st'(3) consecutive_def)
  moreover have "indexes_project N [g] nd"
    by (auto simp: indexes_project_def res(2) sel)
  moreover have "watcher_saved N (s_state st') [g] (nd_watcher nd)"
    using assms(3) w by (simp add: watcher_saved_def st'(4) res(2))
  moreover have "nd_world_state nd = world_of [g]"
    using assms(11) by (simp add: world_of_def res(2) sel chain_writes_def apply_writes_def)
  ultimately have "projected N s_inv s_blocks s_state [g] nd" using st'(2) by (simp add: projected_def res(2))
  then show "steady N s_inv s_blocks s_state d nd"
    unfolding steady_def chn using assms(6-9) by (simp add: valid_chain_def res(2) sel nds)
qed

lemma restart_derived:
  assumes "steady N s_inv s_blocks s_state d nd" "length (chain_of nd) \<le> 2 ^ 64" "snapshot_faithful (ne_snapshot N)"
    "pol_build_from_blocks (chain_of nd) = Inr h" "lg_chain l = chain_of nd"
    "start N P (node_new l (nd_storage nd) identity k) = (r, nd')"
  shows "r = Inr () \<and> chain_of nd' = chain_of nd \<and> derived_state nd' = derived_state nd"
proof -
  have p: "projected N s_inv s_blocks s_state (chain_of nd) nd" using assms(1-2) by (simp add: steady_def)
  note p' = p [unfolded projected_def indexes_project_def]
  let ?nd0 = "node_new l (nd_storage nd) identity k"
  have chain: "chain_of ?nd0 = chain_of nd" and nds: "nd_storage ?nd0 = nd_storage nd" "nd_ledger ?nd0 = l"
    using assms(5) by (simp_all add: node_new_def)
  from rebuild_world_state_ok [of "nd_storage nd" "chain_of nd"] p' obtain st' where
    rw: "rebuild_world_state P (nd_storage ?nd0) = (Inr (nd_world_state nd), st')" and st': "s_inv st'"
      "s_blocks st' = s_blocks (nd_storage nd)" "s_state st' = apply_writes (chain_writes (chain_of nd)) (s_state (nd_storage nd))"
    by (auto simp: nds world_of_def)
  note sel = rebuild_sel [OF rw, where N = N, unfolded chain]
  have "watcher_saved N (s_state st') (chain_of nd) (nd_watcher nd)"
    using p' by (simp add: watcher_saved_def st'(3) apply_writes_watcher)
  note w = restore_watcher_saved [OF this assms(3) get_state_law [OF st'(1)]]
  have "\<exists>b'. sp_get_block P (b_index b) st' = Inr (Some b')" if b: "b \<in> set (chain_of nd)" for b
  proof -
    have st: "stored_as (s_blocks st') (chain_of nd)" using p' by (simp add: st'(2))
    from b obtain i where i: "i < length (chain_of nd)" "chain_of nd ! i = b" by (metis in_set_conv_nth)
    then have "b_index b = of_nat i" using st by (auto simp: stored_as_def consecutive_def)
    with stored_lookup [OF st i(1)] get_law [OF st'(1)] show ?thesis by simp
  qed
  then have "persist_missing P (chain_of nd) st' = (Inr (), st')" by (intro persist_missing_none) blast
  then have res: "r = Inr ()" "nd' = (rebuild_runtime_state_from_chain N P ?nd0)\<lparr>nd_storage := st'\<rparr>"
    using assms(6) by (auto simp: start_def Let_def sel nds assms(5))
  show ?thesis using p' w assms(4) by (simp add: res derived_state_def sel nds assms(5))
qed

end

lemma ledger_new_genesis:
  assumes "ledger_new N clock d k = Some (l, k')"
  obtains g where "lg_chain l = [g]" "lg_difficulty l = d" "is_valid N g" "b_index g = 0" "b_previous_hash g = ''0''"
    "b_transactions g = []" "b_write_set g = []"
proof -
  from assms obtain g where g: "mine N clock d (genesis_block N) k = Some (g, k')" "lg_chain l = [g]" "lg_difficulty l = d"
    by (auto simp: ledger_new_def)
  have "is_valid N g \<and> same_content g (genesis_block N)"
    using mine_loop_Some [OF g(1) [unfolded mine_def]] by (auto simp: is_valid_def same_content_def)
  then have "is_valid N g" "b_index g = 0" "b_previous_hash g = ''0''" "b_transactions g = []" "b_write_set g = []"
    by (simp_all add: same_content_def genesis_block_def Let_def)
  with g(2,3) show thesis by (rule that)
qed

lemma start_keeps:
  "nd_ledger (snd (start N P nd)) = nd_ledger nd" "nd_endorsement (snd (start N P nd)) = nd_endorsement nd"
proof -
  have "nd_ledger (rebuild_runtime_state_from_chain N P nd) = nd_ledger nd"
    "nd_endorsement (rebuild_runtime_state_from_chain N P nd) = nd_endorsement nd"
    by (simp_all add: rebuild_runtime_state_from_chain_def Let_def case_prod_beta split: sum.split)
  then show "nd_ledger (snd (start N P nd)) = nd_ledger nd" "nd_endorsement (snd (start N P nd)) = nd_endorsement nd"
    by (simp_all add: start_def Let_def case_prod_beta)
qed

lemma run_prefix:
  assumes "(linear_step N P)\<^sup>*\<^sup>* nd nd'"
  shows "prefix (chain_of nd) (chain_of nd')"
  using assms
proof induction
  case (step y z)
  consider "silent y z" | b where "commits N P y b z" using linear_step_cases [OF step(2)] by blast
  then have "prefix (chain_of y) (chain_of z)"
    by cases (auto simp: silent_def commits_def after_block_commit_chain)
  with step(3) show ?case by (rule prefix_order.trans)
qed simp

text \<open>The nodes a run can reach from the first start on an empty, working database.\<close>

definition live :: "'z node_env_scheme \<Rightarrow> block_codec \<Rightarrow> nat \<Rightarrow> redb_store node \<Rightarrow> bool" where
  "live N C d nd \<longleftrightarrow> (\<exists>l k k' identity r nd0. ledger_new N (ne_clock N) d k = Some (l, k')
     \<and> start N (redb_provider C txn_ok) (node_new l redb_open identity k') = (r, nd0)
     \<and> (node_step N (redb_provider C txn_ok))\<^sup>*\<^sup>* nd0 nd)"

text \<open>
  The codecs read back what they wrote and encode every value, and the header encoding tells any two
  headers apart.
\<close>

definition codecs_ok :: "'z node_env_scheme \<Rightarrow> block_codec \<Rightarrow> bool" where
  "codecs_ok N C \<longleftrightarrow> codec_faithful C \<and> (\<forall>b. ser_block C b \<noteq> None) \<and> snapshot_faithful (ne_snapshot N)
     \<and> snapshot_total N \<and> ser_header_faithful N"

lemma live_steady:
  assumes "codecs_ok N C" "\<not> sha_collision N" "live N C d nd"
  shows "steady N (redb_inv C) (stored_blocks C) (\<lambda>s. map_of (rb_state s)) d nd"
proof -
  let ?P = "redb_provider C txn_ok"
  note ok = assms(1) [unfolded codecs_ok_def]
  from assms(3) obtain l k k' identity r nd0 where new: "ledger_new N (ne_clock N) d k = Some (l, k')"
    and start: "start N ?P (node_new l redb_open identity k') = (r, nd0)" and run: "(node_step N ?P)\<^sup>*\<^sup>* nd0 nd"
    by (auto simp: live_def)
  obtain g where g: "lg_chain l = [g]" "lg_difficulty l = d" "is_valid N g" "b_index g = 0" "b_previous_hash g = ''0''"
    "b_transactions g = []" "b_write_set g = []" by (rule ledger_new_genesis [OF new])
  have opened: "redb_inv C redb_open" "stored_blocks C redb_open = []" "map_of (rb_state redb_open) = Map.empty"
    using ok by (simp_all add: redb_inv_def redb_open_def stored_blocks_def)
  have sg: "ser_block C g \<noteq> None" using ok by blast
  have "steady N (redb_inv C) (stored_blocks C) (\<lambda>s. map_of (rb_state s)) d nd0"
    by (rule redb_node.first_start_steady(2) [OF opened(1,2) _ sg g start]) (simp add: opened(3))
  from redb_node.run_steady [OF run _ _ _ assms(2) _ this] ok show ?thesis by blast
qed

text \<open>Every commit of a live node stores a watcher snapshot.\<close>

lemma live_commit_saves:
  assumes "codecs_ok N C" "\<not> sha_collision N" "live N C d nd" "length (chain_of nd) < 2 ^ 64"
    and "commits N (redb_provider C txn_ok) nd b nd'"
  shows "map_of (rb_state (nd_storage nd')) WATCHER_STATE_KEY \<noteq> None"
proof -
  note ok = assms(1) [unfolded codecs_ok_def]
  from assms(5) obtain nd1 where b: "chain_of nd \<noteq> []" "chains_to N b (last (chain_of nd)) = Inr ()"
    and nd1: "nd_storage nd1 = nd_storage nd" "derived_state nd1 = derived_state nd" "chain_of nd1 = chain_of nd @ [b]"
      "nd' = snd (after_block_commit N (redb_provider C txn_ok) b nd1)" by (auto simp: commits_def)
  have "projected N (redb_inv C) (stored_blocks C) (\<lambda>s. map_of (rb_state s)) (chain_of nd) nd"
    using live_steady [OF assms(1-3)] assms(4) by (simp add: steady_def)
  then have p: "projected N (redb_inv C) (stored_blocks C) (\<lambda>s. map_of (rb_state s)) (chain_of nd) nd1"
    by (rule derived_projected [OF nd1(1,2)])
  have "consecutive (chain_of nd @ [b])"
    using p consecutive_next [of "chain_of nd" b] b chains_to_ok [OF b(2)] by (simp add: projected_def stored_as_def)
  from redb_node.commit_projects(3) [OF p nd1(3) this] ok assms(4) show ?thesis by (simp add: nd1(4))
qed

text \<open>The ledger read back from a store that holds a valid chain.\<close>

lemma restore_stored:
  assumes "redb_inv C st" "stored_as (stored_blocks C st) bs" "valid_chain N d bs" "length bs \<le> 2 ^ 64" "certs_ok bs"
    and "ledger_new N clock d j = Some (l0, j')"
  shows "restore_ledger N certs_ok (redb_latest_block_index txn_ok) (redb_get_block C txn_ok) clock d st j
    = Some (l0\<lparr>lg_chain := bs\<rparr>, j')"
proof -
  obtain b cs where "bs = b # cs" using assms(3) by (cases bs) (auto simp: valid_chain_def)
  moreover have "read_chain (redb_latest_block_index txn_ok) (redb_get_block C txn_ok) st = Some bs"
    using assms(1-4) by (intro redb.read_back) (auto simp: stored_as_def valid_chain_def)
  ultimately show ?thesis using assms(3,5,6) by (simp add: restore_ledger_def valid_chain_def)
qed

text \<open>
  C3. A restart loses nothing while the database accepts the writes.  Take a node first started on an
  empty database and run for any number of complete steps: submitted, gossiped and mined transactions,
  blocks of peers, adopted longer chains, registered triggers and the provider set, each stored without
  a fault by codecs that read back what they write.  If the chain it holds fits the index type, replays
  into a policy history and passes the certificate check, then reopening the database restores the very chain the node holds, and the node
  started on it has the same world state, policies, provenance and analytics and the same inventory and
  fire counts as the one that kept running; or two inputs with the same SHA-256 digest exist.
\<close>

theorem restart_equals_live:
  assumes "codecs_ok N C" "live N C d nd" "length (chain_of nd) \<le> 2 ^ 64"
    and "is_ok (pol_build_from_blocks (chain_of nd))" "certs_ok (chain_of nd)"
    and "ledger_new N (ne_clock N) d j = Some (l0, j')"
  shows "sha_collision N \<or> (\<exists>l' nd'.
    restore_ledger N certs_ok (redb_latest_block_index txn_ok) (redb_get_block C txn_ok) (ne_clock N) d
        (nd_storage nd) j = Some (l', j')
    \<and> start N (redb_provider C txn_ok) (node_new l' (nd_storage nd) identity j') = (Inr (), nd')
    \<and> chain_of nd' = chain_of nd \<and> derived_state nd' = derived_state nd)"
proof (cases "sha_collision N")
  case False
  note st = live_steady [OF assms(1) False assms(2)]
  then have p: "projected N (redb_inv C) (stored_blocks C) (\<lambda>s. map_of (rb_state s)) (chain_of nd) nd"
    and v: "valid_chain N d (chain_of nd)" using assms(3) by (simp_all add: steady_def)
  have restored: "restore_ledger N certs_ok (redb_latest_block_index txn_ok) (redb_get_block C txn_ok) (ne_clock N) d
      (nd_storage nd) j = Some (l0\<lparr>lg_chain := chain_of nd\<rparr>, j')"
    by (rule restore_stored [where certs_ok = certs_ok, OF _ _ v assms(3,5,6)]) (use p in \<open>simp_all add: projected_def\<close>)
  obtain h where h: "pol_build_from_blocks (chain_of nd) = Inr h" using assms(4) by (auto simp: is_ok_iff)
  have sf: "snapshot_faithful (ne_snapshot N)" using assms(1) by (simp add: codecs_ok_def)
  obtain r' nd' where s: "start N (redb_provider C txn_ok) (node_new (l0\<lparr>lg_chain := chain_of nd\<rparr>)
      (nd_storage nd) identity j') = (r', nd')"
    by (rule prod.exhaust)
  from redb_node.restart_derived [OF st assms(3) sf h _ s] show ?thesis using restored s by auto
qed simp


section \<open>Instances\<close>

text \<open>Blocks and snapshots are countable, so faithful and total codecs exist.\<close>

instance quorum_certificate_ext :: (countable) countable
  by (rule countable_classI [of "\<lambda>r. to_nat (qc_block_index r, qc_block_hash r, qc_signers_bitmap r,
      qc_aggregate_signature r, qc_algorithm r, quorum_certificate.more r)"]) simp

instance block_ext :: (countable) countable
  by (rule countable_classI [of "\<lambda>r. to_nat (b_index r, b_timestamp r, b_transactions r, b_write_set r,
      b_previous_hash r, b_nonce r, b_hash r, b_certificate r, block.more r)"]) simp

instance watcher_state_snapshot_ext :: (countable) countable
  by (rule countable_classI [of "\<lambda>r. to_nat (wss_inventory r, wss_trigger_fire_counts r,
      watcher_state_snapshot.more r)"]) simp

definition unary_codec :: block_codec where
  "unary_codec = \<lparr>ser_block = (\<lambda>b. Some (replicate (to_nat b) 0)), de_block = (\<lambda>v. Some (from_nat (length v)))\<rparr>"

definition unary_snapshot :: snapshot_codec where
  "unary_snapshot = \<lparr>ser_snapshot = (\<lambda>s. Some (replicate (to_nat s) 0)), de_snapshot = (\<lambda>v. Some (from_nat (length v)))\<rparr>"

definition demo_node_env :: node_env where
  "demo_node_env = index_env.extend demo_index_env (node_env.fields sample_gate unary_snapshot (\<lambda>_. 9))"

lemma demo_node_sel [simp]: "ne_snapshot demo_node_env = unary_snapshot" "ne_gate demo_node_env = sample_gate"
  "ne_clock demo_node_env = (\<lambda>_. 9)"
  by (simp_all add: demo_node_env_def index_env.defs node_env.defs)

lemma unary_faithful: "codec_faithful unary_codec" "ser_block unary_codec b \<noteq> None" "snapshot_faithful unary_snapshot"
  by (auto simp: codec_faithful_def snapshot_faithful_def unary_codec_def unary_snapshot_def)

lemma demo_snapshot_total: "snapshot_total demo_node_env"
  by (simp add: snapshot_total_def) (simp add: unary_snapshot_def)

lemma demo_codecs: "codecs_ok demo_node_env unary_codec" "\<not> sha_collision demo_node_env"
proof -
  have "ser_header demo_node_env = ser_header sample_tx_env" "sha256 demo_node_env = sha256 sample_tx_env"
    unfolding sha256_def demo_node_env_def demo_index_env_def env.defs index_env.defs node_env.defs by (simp_all add: fun_eq_iff)
  then have "ser_header_faithful demo_node_env = ser_header_faithful sample_tx_env" "sha_collision demo_node_env = sha_collision sample_tx_env"
    by (simp_all only: ser_header_faithful_def sha_collision_def)
  then show "codecs_ok demo_node_env unary_codec" "\<not> sha_collision demo_node_env"
    using sample_tx_env_faithful(1,4) unary_faithful demo_snapshot_total by (simp_all add: codecs_ok_def)
qed

text \<open>A peer's block at difficulty 0 with a past timestamp.\<close>

lemma peer_block_accepted:
  assumes "chain_of nd \<noteq> []" "b_index b = of_nat (length (chain_of nd))" "chains_to N b (last (chain_of nd)) = Inr ()"
    and "b_timestamp b \<le> ne_clock N (nd_reads nd) + FUTURE_TIMESTAMP_WINDOW_SECS" "lg_difficulty (nd_ledger nd) = 0"
    and "nd_endorsement nd = None" "\<forall>h. is_ok (fst (cap_validate_block N b h))"
  shows "fst (admit_block N b nd) = Append" "chain_of (snd (handle_block N P b nd)) = chain_of nd @ [b]"
    "nd_watcher (snd (handle_block N P b nd)) = fst (snd (observe_updates N (b_transactions b) (nd_watcher nd) (nd_reads nd + 1)))"
    "nd_endorsement (snd (handle_block N P b nd)) = None" "lg_difficulty (nd_ledger (snd (handle_block N P b nd))) = 0"
proof -
  show 1: "fst (admit_block N b nd) = Append"
    using assms by (simp add: admit_block_def Let_def timestamp_within_future_window_def last_opt_def has_valid_pow_def
        has_leading_zeros_def is_ok_def split: option.split sum.split)
  have reads: "nd_reads (snd (admit_block N b nd)) = nd_reads nd + 1"
    by (simp add: admit_block_def Let_def split: option.split sum.split)
  obtain nd' where a: "admit_block N b nd = (Append, nd')" using 1 by (cases "admit_block N b nd") simp
  note adm = admit_block_Append [OF a]
  let ?l = "snd (append_peer_block N b (nd_ledger nd))"
  have h: "snd (handle_block N P b nd) = snd (after_block_commit N P b (nd'\<lparr>nd_ledger := ?l\<rparr>))"
    using adm(2,3) assms(6) by (simp add: handle_block_def a commit_peer_block_def enforce_block_endorsements_def case_prod_beta Let_def)
  have l: "lg_chain ?l = chain_of nd @ [b]" "lg_difficulty ?l = 0"
    using adm(4,5) assms(5) by (simp_all add: append_peer_block_def last_opt_def)
  obtain os w k where o: "observe_updates N (b_transactions b) (nd_watcher nd) (nd_reads nd + 1) = (os, w, k)"
    by (rule prod_cases3)
  then have o': "observe_updates N (b_transactions b) (nd_watcher (nd'\<lparr>nd_ledger := ?l\<rparr>)) (nd_reads (nd'\<lparr>nd_ledger := ?l\<rparr>)) = (os, w, k)"
    using adm(6) reads by (simp add: a)
  show "chain_of (snd (handle_block N P b nd)) = chain_of nd @ [b]" by (simp add: h after_block_commit_chain l)
  show "lg_difficulty (nd_ledger (snd (handle_block N P b nd))) = 0" by (simp add: h after_block_commit_difficulty l)
  show "nd_watcher (snd (handle_block N P b nd)) = fst (snd (observe_updates N (b_transactions b) (nd_watcher nd) (nd_reads nd + 1)))"
    using o by (simp add: h after_block_commit_eq [OF o'] Let_def)
  show "nd_endorsement (snd (handle_block N P b nd)) = None"
    using adm(3) assms(6) by (simp add: h after_block_commit_eq [OF o'] Let_def committed_node_def)
qed

text \<open>A node that has committed one peer block.\<close>

definition fresh_node :: "redb_store node" where
  "fresh_node = snd (start demo_node_env (redb_provider unary_codec txn_ok)
     (node_new (demo_ledger demo_node_env) redb_open None 0))"

definition demo_node :: "redb_store node" where
  "demo_node = snd (handle_block demo_node_env (redb_provider unary_codec txn_ok) (demo_peer demo_node_env) fresh_node)"

lemma fresh_node_sel: "nd_ledger fresh_node = demo_ledger demo_node_env" "nd_endorsement fresh_node = None"
  "chain_of fresh_node = [genesis_block demo_node_env]" "lg_difficulty (nd_ledger fresh_node) = 0"
  using start_keeps [of demo_node_env "redb_provider unary_codec txn_ok" "node_new (demo_ledger demo_node_env) redb_open None 0"]
  by (simp_all add: fresh_node_def node_new_def demo_ledger_def)

lemma fresh_live: "live demo_node_env unary_codec 0 fresh_node"
  unfolding live_def fresh_node_def
  by (rule exI [of _ "demo_ledger demo_node_env"], rule exI [of _ 0], rule exI [of _ 0], rule exI [of _ None],
      rule exI [of _ "fst (start demo_node_env (redb_provider unary_codec txn_ok) (node_new (demo_ledger demo_node_env) redb_open None 0))"],
      rule exI [of _ "snd (start demo_node_env (redb_provider unary_codec txn_ok) (node_new (demo_ledger demo_node_env) redb_open None 0))"])
    (simp add: demo_new)

lemma demo_peer_accepted:
  "fst (admit_block demo_node_env (demo_peer demo_node_env) fresh_node) = Append"
  "chain_of (snd (handle_block demo_node_env P (demo_peer demo_node_env) fresh_node)) =
     [genesis_block demo_node_env, demo_peer demo_node_env]"
  "nd_endorsement (snd (handle_block demo_node_env P (demo_peer demo_node_env) fresh_node)) = None"
  "lg_difficulty (nd_ledger (snd (handle_block demo_node_env P (demo_peer demo_node_env) fresh_node))) = 0"
  "nd_watcher (snd (handle_block demo_node_env P (demo_peer demo_node_env) fresh_node)) =
     fst (snd (observe_updates demo_node_env [demo_tx ''b''] (nd_watcher fresh_node) (nd_reads fresh_node + 1)))"
proof -
  let ?N = demo_node_env
  have "chains_to ?N (demo_peer ?N) (last (chain_of fresh_node)) = Inr ()"
    by (simp add: fresh_node_sel(3) demo_peer_def chains_to_def)
  moreover have "b_timestamp (demo_peer ?N) = 5"
    by (simp add: demo_peer_def block_new_def with_write_set_def Let_def)
  ultimately have c: "chain_of fresh_node \<noteq> []" "b_index (demo_peer ?N) = of_nat (length (chain_of fresh_node))"
    "chains_to ?N (demo_peer ?N) (last (chain_of fresh_node)) = Inr ()"
    "b_timestamp (demo_peer ?N) \<le> ne_clock ?N (nd_reads fresh_node) + FUTURE_TIMESTAMP_WINDOW_SECS"
    "lg_difficulty (nd_ledger fresh_node) = 0" "nd_endorsement fresh_node = None"
    "\<forall>h. is_ok (fst (cap_validate_block ?N (demo_peer ?N) h))"
    by (simp_all add: fresh_node_sel(2-4) cap_replay_demo FUTURE_TIMESTAMP_WINDOW_SECS_def) (simp add: demo_peer_def)
  note r = peer_block_accepted [OF c]
  show "fst (admit_block ?N (demo_peer ?N) fresh_node) = Append" by (rule r(1))
  show "chain_of (snd (handle_block ?N P (demo_peer ?N) fresh_node)) = [genesis_block ?N, demo_peer ?N]"
    by (simp add: r(2) fresh_node_sel(3))
  show "nd_endorsement (snd (handle_block ?N P (demo_peer ?N) fresh_node)) = None"
    "lg_difficulty (nd_ledger (snd (handle_block ?N P (demo_peer ?N) fresh_node))) = 0" by (rule r(4,5))+
  show "nd_watcher (snd (handle_block ?N P (demo_peer ?N) fresh_node)) =
      fst (snd (observe_updates ?N [demo_tx ''b''] (nd_watcher fresh_node) (nd_reads fresh_node + 1)))"
    using r(3) by (simp add: demo_peer_def)
qed

lemma demo_live: "live demo_node_env unary_codec 0 demo_node"
proof -
  have "node_step demo_node_env (redb_provider unary_codec txn_ok) fresh_node demo_node"
    unfolding demo_node_def by (rule node_step.linear [OF linear_step.block])
  with fresh_live show ?thesis unfolding live_def by (meson rtranclp.rtrancl_into_rtrancl)
qed

lemmas demo_chain = demo_peer_accepted(2-4) [where P = "redb_provider unary_codec txn_ok", folded demo_node_def]

text \<open>A longer chain without any transaction, and the node that has adopted it.\<close>

definition rival_one :: block where
  "rival_one = block_new demo_node_env 6 1 [] (b_hash (genesis_block demo_node_env))"

definition rival_two :: block where
  "rival_two = block_new demo_node_env 6 2 [] (b_hash rival_one)"

definition rival_chain :: "block list" where
  "rival_chain = [genesis_block demo_node_env, rival_one, rival_two]"

lemma rival_sel [simp]:
  "b_index rival_one = 1" "b_index rival_two = 2" "b_transactions rival_one = []" "b_transactions rival_two = []"
  "b_previous_hash rival_one = b_hash (genesis_block demo_node_env)" "b_previous_hash rival_two = b_hash rival_one"
  "is_valid demo_node_env rival_one" "is_valid demo_node_env rival_two" "b_certificate rival_one = None" "b_certificate rival_two = None"
  by (simp_all add: rival_one_def rival_two_def)

lemma rival_replaces: "fst (try_replace_chain demo_node_env rival_chain (nd_ledger demo_node))"
proof -
  let ?N = demo_node_env
  have "check_candidate ?N 0 cap_default rival_chain"
    by (simp add: rival_chain_def chains_to_def block_consensus_admissible_def has_valid_pow_def has_leading_zeros_def
        cap_validate_block_empty)
  then show ?thesis
    by (simp add: try_replace_chain_def demo_chain)
      (simp add: rival_chain_def has_valid_pow_def has_leading_zeros_def demo_chain)
qed

definition synced_node :: "redb_store node" where
  "synced_node = handle_chain demo_node_env (redb_provider unary_codec txn_ok) rival_chain demo_node"

lemma demo_enforced: "enforce_chain_endorsements demo_node_env rival_chain demo_node = Inr ()"
  by (simp add: enforce_chain_endorsements_def demo_chain)

lemma synced_live: "live demo_node_env unary_codec 0 synced_node" "chain_of synced_node = rival_chain"
proof -
  have "node_step demo_node_env (redb_provider unary_codec txn_ok) demo_node synced_node"
    unfolding synced_node_def by (rule node_step.sync)
  with demo_live show "live demo_node_env unary_codec 0 synced_node"
    unfolding live_def by (meson rtranclp.rtrancl_into_rtrancl)
  obtain l where l: "try_replace_chain demo_node_env rival_chain (nd_ledger demo_node) = (True, l)"
    using rival_replaces by (cases "try_replace_chain demo_node_env rival_chain (nd_ledger demo_node)") simp
  show "chain_of synced_node = rival_chain"
    using try_replace_chain_True(2) [OF l] by (simp add: synced_node_def handle_chain_def demo_enforced l
        rebuild_runtime_state_from_chain_def Let_def case_prod_beta reset_indexes_def split: sum.split)
qed

theorem restart_equals_live_witness:
  "\<exists>l' nd'. restore_ledger demo_node_env (\<lambda>_. True) (redb_latest_block_index txn_ok)
        (redb_get_block unary_codec txn_ok) (\<lambda>_. 9) 0 (nd_storage synced_node) 0 = Some (l', 0)
    \<and> start demo_node_env (redb_provider unary_codec txn_ok) (node_new l' (nd_storage synced_node) None 0) = (Inr (), nd')
    \<and> chain_of nd' = rival_chain \<and> derived_state nd' = derived_state synced_node"
proof -
  have "pol_replay pol_default rival_chain = Inr pol_default"
    by (simp add: rival_chain_def pol_replay_demo)
      (simp add: pol_validate_block_def pending_updates_def changed_keys_def map_filter_simps list_ex_iff)
  then have "is_ok (pol_build_from_blocks (chain_of synced_node))"
    by (simp add: synced_live(2) pol_build_from_blocks_def)
  moreover have "length (chain_of synced_node) \<le> 2 ^ 64" by (simp add: synced_live(2) rival_chain_def)
  ultimately show ?thesis
    using restart_equals_live [OF demo_codecs(1) synced_live(1), of "\<lambda>_. True" 0 "demo_ledger demo_node_env" 0 None]
      demo_codecs(2) by (simp add: synced_live(2) demo_new)
qed

end
