(* ===== verification/Faults.thy ===== *)
theory Faults
imports Commits
begin

text \<open>
  What the commit paths of \<^verbatim>\<open>glasschain-network/src/node.rs\<close> do off the ordinary path: a block write the
  database refuses, a sync that replaces the chain under a stored watcher snapshot, two peers
  delivering the same block, a candidate whose write set cannot be computed, and a peer's block
  whose policy updates do not replay.
\<close>

section \<open>A store behind its chain\<close>

definition frozen ::
  "('st \<Rightarrow> bool) \<Rightarrow> ('st \<Rightarrow> (u64 \<times> block) list) \<Rightarrow> block list \<Rightarrow> world_state \<Rightarrow> 'st node \<Rightarrow> bool" where
  "frozen s_inv s_blocks bs m nd \<longleftrightarrow> bs \<noteq> [] \<and> length bs < length (chain_of nd) \<and> consecutive (chain_of nd)
     \<and> (length (chain_of nd) \<le> 2 ^ 64 \<longrightarrow>
          store_projects s_inv s_blocks bs m (nd_storage nd) \<and> nd_world_state nd = m)"

context node_store
begin

lemma persist_block_stale:
  assumes "holds bs m (nd_storage nd)" "bs \<noteq> []" "b_index b = of_nat n" "length bs < n" "n < 2 ^ 64"
  shows "persist_block P b nd = nd"
proof -
  have st: "s_inv (nd_storage nd)" "stored_as (s_blocks (nd_storage nd)) bs" using assms(1) by (simp_all add: store_projects_def)
  have "b_index (last bs) = of_nat (length bs - 1)"
    using st(2) assms(2) by (simp add: stored_as_def consecutive_def last_conv_nth)
  then have "b_index (last bs) + 1 = (of_nat (length bs) :: u64)" using assms(2) by (cases bs) simp_all
  moreover have "of_nat (length bs) \<noteq> (of_nat n :: u64)" using assms(4,5) by (auto simp: word_of_nat_eq_iff take_bit_nat_eq_self)
  ultimately have "validate_tip_chain b (map_option snd (last_opt (s_blocks (nd_storage nd)))) \<noteq> Inr ()"
    unfolding stored_tip [OF st(2)] using assms(3) by (auto simp: validate_tip_chain_def)
  from reject_law [OF st(1) this] show ?thesis by (auto simp: persist_block_def)
qed

lemma commit_frozen:
  assumes "holds bs m (nd_storage nd)" "nd_world_state nd = m" "bs \<noteq> []" "b_index b = of_nat n" "length bs < n" "n < 2 ^ 64"
  shows "holds bs m (nd_storage (snd (after_block_commit N P b nd)))" "nd_world_state (snd (after_block_commit N P b nd)) = m"
proof -
  obtain orders w k where o: "observe_updates N (b_transactions b) (nd_watcher nd) (nd_reads nd) = (orders, w, k)"
    by (rule prod_cases3)
  define nd1 where "nd1 = store_signed P orders ((committed_node N P b nd)\<lparr>nd_watcher := w, nd_reads := k\<rparr>)"
  have res: "snd (after_block_commit N P b nd) =
      (persist_watcher N P nd1)\<lparr>nd_ledger := snd (admit_orders N orders (nd_ledger nd))\<rparr>"
    by (simp add: after_block_commit_eq [OF o] Let_def nd1_def)
  have "persist_block P b (advance_capability N b nd) = advance_capability N b nd"
    by (rule persist_block_stale [where m = m, OF _ assms(3-6)]) (simp add: assms(1))
  then have "holds bs m (nd_storage nd1)" and ws: "nd_world_state nd1 = m"
    using assms(1,2) by (simp_all add: nd1_def committed_node_def store_signed_holds)
  then show "holds bs m (nd_storage (snd (after_block_commit N P b nd)))"
    using put_holds(1) by (simp add: res persist_watcher_def split: option.split)
  show "nd_world_state (snd (after_block_commit N P b nd)) = m" using ws by (simp add: res)
qed

lemma step_frozen:
  assumes "linear_step N P nd nd'" "frozen s_inv s_blocks bs m nd"
  shows "frozen s_inv s_blocks bs m nd'"
proof -
  consider "silent nd nd'" | b where "commits N P nd b nd'" using linear_step_cases [OF assms(1)] by blast
  then show ?thesis
  proof cases
    case 1
    then show ?thesis using assms(2) by (simp add: frozen_def silent_def derived_state_def)
  next
    case 2
    then obtain nd1 where b: "chain_of nd \<noteq> []" "chains_to N b (last (chain_of nd)) = Inr ()"
      and nd1: "nd_storage nd1 = nd_storage nd" "derived_state nd1 = derived_state nd" "chain_of nd1 = chain_of nd @ [b]"
        "nd' = snd (after_block_commit N P b nd1)"
      by (auto simp: commits_def)
    have chain: "chain_of nd' = chain_of nd @ [b]" by (simp add: nd1(4) after_block_commit_chain nd1(3))
    have con: "consecutive (chain_of nd @ [b])"
      using consecutive_next [of "chain_of nd" b] assms(2) b chains_to_ok [OF b(2)] by (simp add: frozen_def)
    then have idx: "b_index b = of_nat (length (chain_of nd))" by (simp add: consecutive_snoc)
    have "holds bs m (nd_storage nd') \<and> nd_world_state nd' = m" if "length (chain_of nd') \<le> 2 ^ 64"
    proof -
      have f: "holds bs m (nd_storage nd1)" "nd_world_state nd1 = m" "bs \<noteq> []" "length bs < length (chain_of nd)"
        "length (chain_of nd) < 2 ^ 64"
        using assms(2) nd1(1,2) that by (simp_all add: frozen_def chain derived_state_def)
      from commit_frozen [OF f(1-3) idx f(4,5), of N] show ?thesis by (simp add: nd1(4))
    qed
    with con assms(2) show ?thesis by (simp add: frozen_def chain)
  qed
qed

lemma run_frozen:
  assumes "(linear_step N P)\<^sup>*\<^sup>* nd nd'" "frozen s_inv s_blocks bs m nd"
  shows "frozen s_inv s_blocks bs m nd'"
  using assms by induction (auto intro: step_frozen)

end

text \<open>
  A database whose block writes fail without an effect; every other write it either makes or refuses,
  whichever it may be.
\<close>

definition block_writes_fail :: "redb_store storage_provider \<Rightarrow> bool" where
  "block_writes_fail P \<longleftrightarrow> (\<forall>b st. \<exists>e. sp_apply_block P b st = (Inl e, st))
     \<and> (\<forall>key v st. snd (sp_put_state P key v st) \<in> {st, snd (redb_put_state txn_ok key v st)})"

lemma failing_redb:
  assumes "txn_begin txn = Some e \<or> txn_commit txn = Some e"
  shows "block_writes_fail (redb_provider C txn)"
  using assms unfolding block_writes_fail_def
  by (auto simp: redb_provider_def redb_apply_block_def redb_put_state_def in_txn_def txn_step_def res_bind_def
      split: sum.splits option.splits)

lemma failing_puts:
  assumes "block_writes_fail P" "store_projects (redb_inv C) (stored_blocks C) bs m st"
  shows "store_projects (redb_inv C) (stored_blocks C) bs m (snd (sp_put_state P key v st))"
proof -
  have "snd (sp_put_state P key v st) \<in> {st, snd (sp_put_state (redb_provider C txn_ok) key v st)}"
    using assms(1) by (simp add: block_writes_fail_def redb_provider_def)
  with redb_node.put_holds(1) [OF assms(2)] assms(2) show ?thesis by auto
qed

lemma failing_commit:
  assumes "block_writes_fail P" "store_projects (redb_inv C) (stored_blocks C) bs m (nd_storage nd)"
  shows "store_projects (redb_inv C) (stored_blocks C) bs m (nd_storage (snd (after_block_commit N P b nd)))"
    "nd_world_state (snd (after_block_commit N P b nd)) = nd_world_state nd"
proof -
  let ?holds = "store_projects (redb_inv C) (stored_blocks C) bs m"
  obtain orders w k where o: "observe_updates N (b_transactions b) (nd_watcher nd) (nd_reads nd) = (orders, w, k)"
    by (rule prod_cases3)
  have block: "persist_block P b nd = nd" for nd
  proof -
    obtain e where "sp_apply_block P b (nd_storage nd) = (Inl e, nd_storage nd)"
      using assms(1) unfolding block_writes_fail_def by blast
    then show ?thesis by (simp add: persist_block_def)
  qed
  have signed: "?holds (nd_storage (store_signed P orders nd))" if "?holds (nd_storage nd)" for nd
  proof -
    have "?holds (fold (\<lambda>order st. case sign order of Some json \<Rightarrow> snd (sp_put_state P (''signed_tx:'' @ tx_id order) json st)
        | None \<Rightarrow> st) orders st)" if "?holds st" for sign st
      using that by (induction orders arbitrary: st) (auto intro: failing_puts [OF assms(1)] split: option.split)
    with that show ?thesis by (simp add: store_signed_def split: option.split)
  qed
  have saved: "?holds (nd_storage (persist_watcher N P nd))" if "?holds (nd_storage nd)" for nd
    using failing_puts [OF assms(1) that] that by (simp add: persist_watcher_def split: option.split)
  have committed: "nd_storage (committed_node N P b nd) = nd_storage nd" "nd_world_state (committed_node N P b nd) = nd_world_state nd"
    by (simp_all add: committed_node_def block)
  then show "nd_world_state (snd (after_block_commit N P b nd)) = nd_world_state nd"
    by (simp add: after_block_commit_eq [OF o] Let_def)
  have "?holds (nd_storage (store_signed P orders ((committed_node N P b nd)\<lparr>nd_watcher := w, nd_reads := k\<rparr>)))"
    by (rule signed) (simp add: committed assms(2))
  from saved [OF this] show "?holds (nd_storage (snd (after_block_commit N P b nd)))"
    by (simp add: after_block_commit_eq [OF o] Let_def)
qed

text \<open>
  C27. A commit whose block write fails is not made up for until a sync replaces the chain.  Take a
  live node and one step that extended its chain while the database refused the block, whatever it did
  with the other writes.  However the run goes on without adopting a peer's chain, and although
  the database works again, the stored chain and the world state stay those before the failure: the tip
  check refuses every later block, a rebuild reads the stored blocks only, and a restart comes back to
  the chain before the failure.  (The chain fits the index type and its stored part passes the
  certificate check; or SHA-256 has a collision.)
\<close>

theorem failed_commit_freezes_store:
  assumes "codecs_ok N C" "live N C d nd"
    and "block_writes_fail P" "linear_step N P nd nd1" "chain_of nd1 \<noteq> chain_of nd"
    and "(linear_step N (redb_provider C txn_ok))\<^sup>*\<^sup>* nd1 nd2" "length (chain_of nd2) \<le> 2 ^ 64"
    and "certs_ok (chain_of nd)" "ledger_new N (ne_clock N) d j = Some (l0, j')"
  shows "sha_collision N \<or>
    (length (chain_of nd) < length (chain_of nd2) \<and> nd_world_state nd2 = nd_world_state nd
    \<and> stored_blocks C (nd_storage nd2) = map (\<lambda>b. (b_index b, b)) (chain_of nd)
    \<and> fst (rebuild_world_state (redb_provider C txn_ok) (nd_storage nd2)) = Inr (nd_world_state nd)
    \<and> restore_ledger N certs_ok (redb_latest_block_index txn_ok) (redb_get_block C txn_ok) (ne_clock N) d
        (nd_storage nd2) j = Some (l0\<lparr>lg_chain := chain_of nd\<rparr>, j'))"
proof (cases "sha_collision N")
  case False
  let ?frozen = "frozen (redb_inv C) (stored_blocks C) (chain_of nd) (nd_world_state nd)"
  consider "silent nd nd1" | b where "commits N P nd b nd1" using linear_step_cases [OF assms(4)] by blast
  then obtain b nd' where b: "chain_of nd \<noteq> []" "chains_to N b (last (chain_of nd)) = Inr ()"
    and nd': "nd_storage nd' = nd_storage nd" "derived_state nd' = derived_state nd" "chain_of nd' = chain_of nd @ [b]"
      "nd1 = snd (after_block_commit N P b nd')"
    using assms(5) by cases (auto simp: silent_def commits_def)
  have chain: "chain_of nd1 = chain_of nd @ [b]" by (simp add: nd'(4) after_block_commit_chain nd'(3))
  have len: "length (chain_of nd) < 2 ^ 64" using run_prefix [OF assms(6)] assms(7) by (auto simp: chain prefix_def)
  with live_steady [OF assms(1) False assms(2)]
  have p: "projected N (redb_inv C) (stored_blocks C) (\<lambda>s. map_of (rb_state s)) (chain_of nd) nd"
    and v: "valid_chain N d (chain_of nd)" by (simp_all add: steady_def)
  have "store_projects (redb_inv C) (stored_blocks C) (chain_of nd) (nd_world_state nd) (nd_storage nd')"
    using p by (simp add: projected_def store_projects_def nd'(1))
  note fc = failing_commit [OF assms(3) this, of N b]
  have "consecutive (chain_of nd @ [b])"
    using p consecutive_next [of "chain_of nd" b] b chains_to_ok [OF b(2)] by (simp add: projected_def stored_as_def)
  with fc b(1) nd'(2) have "?frozen nd1" by (simp add: frozen_def chain) (simp add: nd'(4) derived_state_def)
  from redb_node.run_frozen [OF assms(6) this] assms(7)
  have f: "length (chain_of nd) < length (chain_of nd2)" "nd_world_state nd2 = nd_world_state nd" "redb_inv C (nd_storage nd2)"
    "stored_as (stored_blocks C (nd_storage nd2)) (chain_of nd)" "nd_world_state nd = apply_writes (chain_writes (chain_of nd)) Map.empty"
    by (simp_all add: frozen_def store_projects_def world_of_def)
  have "restore_ledger N certs_ok (redb_latest_block_index txn_ok) (redb_get_block C txn_ok) (ne_clock N) d
      (nd_storage nd2) j = Some (l0\<lparr>lg_chain := chain_of nd\<rparr>, j')"
    by (rule restore_stored [where certs_ok = certs_ok, OF f(3,4) v _ assms(8,9)]) (use len in simp)
  with redb_node.rebuild_world_state_ok [OF f(3,4)] f(1,2,4,5) show ?thesis by (auto simp: stored_as_def)
qed simp


section \<open>Synchronisation\<close>

text \<open>
  C28. A node that adopts a longer chain keeps the inventory of the one it abandons.  A full chain
  that passes every check and fits the index type replaces the chain in memory, its blocks replace the stored ones and the
  world state becomes exactly that of the new chain; but if the database holds a watcher snapshot,
  stock levels and fire counts stay those of the old chain, whatever inventory updates the new one
  holds.  Only without a stored snapshot are they replayed from the new chain.  (Or SHA-256 has a
  collision.)
\<close>

theorem sync_keeps_old_inventory:
  assumes "codecs_ok N C" "live N C d nd"
    and "enforce_chain_endorsements N candidate nd = Inr ()" "fst (try_replace_chain N candidate (nd_ledger nd))"
    and "length candidate \<le> 2 ^ 64"
    and "nd' = handle_chain N (redb_provider C txn_ok) candidate nd"
  shows "sha_collision N \<or> (chain_of nd' = candidate
    \<and> stored_blocks C (nd_storage nd') = map (\<lambda>b. (b_index b, b)) candidate
    \<and> nd_world_state nd' = apply_writes (concat (map b_write_set candidate)) Map.empty
    \<and> to_snapshot (nd_watcher nd') =
        (case map_of (rb_state (nd_storage nd)) WATCHER_STATE_KEY of
           Some _ \<Rightarrow> to_snapshot (nd_watcher nd)
         | None \<Rightarrow> to_snapshot (fst (snd (observe_updates N (concat (map b_transactions candidate)) watcher_new 0)))))"
proof (cases "sha_collision N")
  case False
  obtain l where l: "try_replace_chain N candidate (nd_ledger nd) = (True, l)"
    using assms(4) by (cases "try_replace_chain N candidate (nd_ledger nd)") simp
  note st = live_steady [OF assms(1) False assms(2)]
  note ok = assms(1) [unfolded codecs_ok_def]
  have con: "consecutive candidate"
    by (rule same_genesis(2) [OF _ False _ _ l]) (use ok st in \<open>simp_all add: steady_def\<close>)
  have p: "projected N (redb_inv C) (stored_blocks C) (\<lambda>s. map_of (rb_state s)) (chain_of nd) nd"
    using st assms(5) try_replace_chain_True(1) [OF l] by (simp add: steady_def)
  note sync = redb_node.sync_state(1-3) [OF p _ _ assms(3) l con assms(5), folded assms(6)]
  show ?thesis using sync ok
    by (simp add: projected_def stored_as_def world_of_def chain_writes_def replayed_def split: option.split)
qed simp


section \<open>One block from two peers\<close>

lemma observe_append:
  assumes "observe_updates N xs w k = (os, w1, k1)"
  shows "observe_updates N (xs @ ys) w k = (os @ fst (observe_updates N ys w1 k1), snd (observe_updates N ys w1 k1))"
proof -
  let ?f = "\<lambda>tx (orders, w, k). case tx_kind tx of
      InventoryUpdate u \<Rightarrow> (case on_inventory_update (ne_gate N) (ne_clock N) k u w of
        (new, w', k') \<Rightarrow> (orders @ new, w', k'))
    | _ \<Rightarrow> (orders, w, k)"
  have "fold ?f ys (os, w1, k1) = (os @ fst (fold ?f ys ([], w1, k1)), snd (fold ?f ys ([], w1, k1)))"
  proof (induction ys rule: rev_induct)
    case (snoc y ys)
    then show ?case by (cases "tx_kind y") (simp_all add: case_prod_beta)
  qed simp
  with assms show ?thesis by (simp add: observe_updates_def)
qed

text \<open>
  C29. The result of the append is not looked at.  Admission releases its locks before the block is
  committed, so two peers that deliver the same block can both be admitted.  The second append is
  refused and the chain holds the block once, yet its effects run again: the watcher observes every
  inventory update twice and the provenance index ingests the block twice.
\<close>

theorem peer_block_counted_twice:
  assumes "admit_block N b nd = (Append, nd1)" "admit_block N b nd1 = (Append, nd2)" "nd_endorsement nd = None"
    and "commit_peer_block N P b nd2 = (ms, nd3)" "commit_peer_block N P b nd3 = (ms', nd4)"
  shows "chain_of nd3 = chain_of nd @ [b] \<and> chain_of nd4 = chain_of nd @ [b]
    \<and> nd_watcher nd4 = fst (snd (observe_updates N (b_transactions b @ b_transactions b) (nd_watcher nd) (nd_reads nd2)))
    \<and> nd_provenance nd4 = provenance_ingest_block b (provenance_ingest_block b (nd_provenance nd))"
proof -
  note a1 = admit_block_Append [OF assms(1)]
  note a2 = admit_block_Append [OF assms(2)]
  obtain os w k where o: "observe_updates N (b_transactions b) (nd_watcher nd) (nd_reads nd2) = (os, w, k)"
    by (rule prod_cases3)
  obtain os' w' k' where o': "observe_updates N (b_transactions b) w k = (os', w', k')"
    by (rule prod_cases3)
  have s: "nd_ledger nd2 = nd_ledger nd" "nd_watcher nd2 = nd_watcher nd" "nd_endorsement nd2 = None"
    "nd_provenance nd2 = nd_provenance nd"
    using a1(1,2,3,6) a2(1,2,3,6) assms(3) by (simp_all add: silent_def derived_state_def)
  have b: "chains_to N b b \<noteq> Inr ()" using chains_to_ok [of N b b] by auto
  let ?l = "snd (append_peer_block N b (nd_ledger nd))"
  have l: "lg_chain ?l = chain_of nd @ [b]" using a1(4,5) by (simp add: append_peer_block_def last_opt_def)
  have nd3: "nd3 = snd (after_block_commit N P b (nd2\<lparr>nd_ledger := ?l\<rparr>))"
    using assms(4) s by (auto simp: commit_peer_block_def enforce_block_endorsements_def split: prod.splits)
  have c3: "chain_of nd3 = chain_of nd @ [b]" by (simp add: nd3 after_block_commit_chain l)
  have e3: "nd_endorsement nd3 = None" "nd_watcher nd3 = w" "nd_reads nd3 = k"
    "nd_provenance nd3 = provenance_ingest_block b (nd_provenance nd)"
    using o s by (simp_all add: nd3 after_block_commit_eq [of N b _ os w k] Let_def committed_node_def)
  have "append_peer_block N b (nd_ledger nd3) = (False, nd_ledger nd3)"
    using b by (auto simp: append_peer_block_def c3 last_opt_def is_ok_iff)
  then have nd4: "nd4 = snd (after_block_commit N P b nd3)"
    using assms(5) e3(1) by (auto simp: commit_peer_block_def enforce_block_endorsements_def split: prod.splits)
  have "chain_of nd4 = chain_of nd @ [b]" by (simp add: nd4 after_block_commit_chain c3)
  moreover have "nd_watcher nd4 = w'" "nd_provenance nd4 = provenance_ingest_block b (nd_provenance nd3)"
    using o' e3 by (simp_all add: nd4 after_block_commit_eq [of N b _ os' w' k'] Let_def committed_node_def)
  ultimately show ?thesis using c3 e3 observe_append [OF o, of "b_transactions b"] o' by simp
qed


section \<open>Mining that cannot commit\<close>

text \<open>
  C30. A candidate whose write set cannot be computed takes its transactions with it.  If two writes of
  the executions in the drained batch fall on one scope, mining fails and the node is as before
  except that the batch has left the pool: unlike a candidate stopped by a missing capability or
  endorsement, it is not put back.
\<close>

theorem mine_loses_transactions:
  assumes "chain_of nd \<noteq> []" "nd_executor nd = Some exec"
    and "txs = take MAX_BLOCK_TRANSACTIONS (lg_pending (nd_ledger nd))"
    and "collect_results (map (contribution N exec (nd_engine nd) (nd_world_state nd)) txs) = Inr per_tx"
    and "\<not> distinct (map scope (concat per_tx))"
  shows "\<exists>e. mine_async N P nd = Some (Inl e, nd\<lparr>nd_ledger := (nd_ledger nd)\<lparr>lg_pending :=
    drop MAX_BLOCK_TRANSACTIONS (lg_pending (nd_ledger nd))\<rparr>\<rparr>)"
proof -
  let ?l = "(nd_ledger nd)\<lparr>lg_pending := drop MAX_BLOCK_TRANSACTIONS (lg_pending (nd_ledger nd))\<rparr>"
  have t: "take (min (length xs) n) xs = take n xs" "drop (min (length xs) n) xs = drop n xs" for xs :: "transaction list" and n
    by (simp_all add: min_def)
  have p: "prepare_mining (nd_ledger nd) = (Inr (b_index (last (chain_of nd)) + 1, b_hash (last (chain_of nd)), txs,
      lg_difficulty (nd_ledger nd)), ?l)"
    using assms(1) by (simp add: prepare_mining_def last_opt_def Let_def t assms(3))
  obtain e where "canonicalize \<lparr>ephemeral = [], writes = concat per_tx\<rparr> = Inl e"
    using assms(5) canonicalize_Inr_iff [of "\<lparr>ephemeral = [], writes = concat per_tx\<rparr>"]
    by (cases "canonicalize \<lparr>ephemeral = [], writes = concat per_tx\<rparr>") auto
  then have "compute_write_set N txs (nd\<lparr>nd_ledger := ?l\<rparr>) = Inl e"
    using assms(2,4) by (simp add: compute_write_set_def)
  then show ?thesis by (simp add: mine_async_def p)
qed

text \<open>
  C31. A peer's block stops a node's own mining.  Without an endorsement provider a peer's block is
  appended without a look at its policy updates.  If the policy history of the chain then no
  longer replays, the block stays in the chain until a sync replaces it, and as long as the chain
  starts with these blocks no attempt to mine extends it.
\<close>

theorem invalid_policy_block_halts_mining:
  assumes "nd_endorsement nd = None" "fst (admit_block N b nd) = Append"
    and "\<not> is_ok (pol_build_from_blocks (chain_of nd @ [b]))"
  shows "chain_of (snd (handle_block N P b nd)) = chain_of nd @ [b]
    \<and> (\<forall>nd1. (linear_step N P)\<^sup>*\<^sup>* (snd (handle_block N P b nd)) nd1 \<longrightarrow> prefix (chain_of nd @ [b]) (chain_of nd1))
    \<and> (\<forall>nd1 r nd2. prefix (chain_of nd @ [b]) (chain_of nd1) \<and> mine_async N P nd1 = Some (r, nd2) \<longrightarrow>
         chain_of nd2 = chain_of nd1)"
proof (intro conjI allI impI)
  obtain nd' where a: "admit_block N b nd = (Append, nd')" using assms(2) by (cases "admit_block N b nd") simp
  note adm = admit_block_Append [OF a]
  show c: "chain_of (snd (handle_block N P b nd)) = chain_of nd @ [b]"
    using adm(2-5) assms(1) by (simp add: handle_block_def a commit_peer_block_def enforce_block_endorsements_def
        case_prod_beta after_block_commit_chain append_peer_block_def last_opt_def)
  show "prefix (chain_of nd @ [b]) (chain_of nd1)" if "(linear_step N P)\<^sup>*\<^sup>* (snd (handle_block N P b nd)) nd1" for nd1
    using run_prefix [OF that] by (simp add: c)
  fix nd1 r nd2
  assume m: "prefix (chain_of nd @ [b]) (chain_of nd1) \<and> mine_async N P nd1 = Some (r, nd2)"
  then obtain bs where bs: "chain_of nd1 = (chain_of nd @ [b]) @ bs" by (auto simp: prefix_def)
  have "\<not> is_ok (pol_build_from_blocks (chain_of nd1))"
    using assms(3) unfolding bs by (simp add: pol_build_from_blocks_def pol_replay_append [of _ "chain_of nd @ [b]"]
        is_ok_def del: append_assoc split: sum.splits)
  with mine_async_cases [OF m [THEN conjunct2]] show "chain_of nd2 = chain_of nd1" by (auto simp: silent_def)
qed


section \<open>Instances\<close>

definition full_disk :: redb_txn where
  "full_disk = \<lparr>txn_begin = None, txn_commit = Some ''disk full''\<rparr>"

definition lossy_node :: "redb_store node" where
  "lossy_node = snd (handle_block demo_node_env (redb_provider unary_codec full_disk) (demo_peer demo_node_env) fresh_node)"

lemmas lossy_chain = demo_peer_accepted(2) [where P = "redb_provider unary_codec full_disk", folded lossy_node_def]

theorem failed_commit_freezes_store_witness:
  "chain_of lossy_node = [genesis_block demo_node_env, demo_peer demo_node_env]
   \<and> restore_ledger demo_node_env (\<lambda>_. True) (redb_latest_block_index txn_ok) (redb_get_block unary_codec txn_ok)
       (\<lambda>_. 9) 0 (nd_storage lossy_node) 0 = Some (demo_ledger demo_node_env, 0)"
proof -
  let ?N = demo_node_env
  have step: "linear_step ?N (redb_provider unary_codec full_disk) fresh_node lossy_node"
    unfolding lossy_node_def by (rule linear_step.block)
  have fail: "block_writes_fail (redb_provider unary_codec full_disk)"
    by (rule failing_redb [of _ "''disk full''"]) (simp add: full_disk_def)
  have "chain_of lossy_node \<noteq> chain_of fresh_node" "length (chain_of lossy_node) \<le> 2 ^ 64"
    by (simp_all add: lossy_chain fresh_node_sel(3))
  then have "restore_ledger ?N (\<lambda>_. True) (redb_latest_block_index txn_ok) (redb_get_block unary_codec txn_ok)
      (ne_clock ?N) 0 (nd_storage lossy_node) 0 = Some ((demo_ledger ?N)\<lparr>lg_chain := chain_of fresh_node\<rparr>, 0)"
    using failed_commit_freezes_store [OF demo_codecs(1) fresh_live fail step, of lossy_node "\<lambda>_. True" 0 "demo_ledger ?N" 0]
      demo_codecs(2) demo_new [of ?N] by simp
  then show ?thesis by (simp add: lossy_chain fresh_node_sel(3)) (simp add: demo_ledger_def)
qed

lemma fresh_watcher: "nd_watcher fresh_node = watcher_new"
proof -
  let ?P = "redb_provider unary_codec txn_ok"
  let ?nd = "node_new (demo_ledger demo_node_env) redb_open None 0"
  have rw: "rebuild_world_state ?P (nd_storage ?nd) = (Inr Map.empty, redb_open)"
    by (simp add: rebuild_world_state_def node_new_def redb_provider_def redb_latest_block_index_def txn_step_def txn_ok_def
        redb_open_def last_opt_def)
  have "observe_updates demo_node_env [] watcher_new k = ([], watcher_new, k)" for k by (simp add: observe_updates_def)
  then have "nd_watcher (rebuild_runtime_state_from_chain demo_node_env ?P ?nd) = watcher_new"
    unfolding rebuild_sel(6) [OF rw]
    by (simp add: restore_watcher_def node_new_def redb_provider_def redb_get_state_def txn_step_def txn_ok_def)
      (simp add: redb_open_def demo_ledger_def)
  then show ?thesis by (simp add: fresh_node_def start_def Let_def case_prod_beta)
qed

lemma demo_stock: "wt_inventory (nd_watcher demo_node) = [(''p'', [(''o'', 1)])]"
  using demo_peer_accepted(5) [of "redb_provider unary_codec txn_ok", folded demo_node_def]
  by (simp add: fresh_watcher observe_updates_def on_inventory_update_def apply_delta_def watcher_new_def)

lemma demo_snapshot_stored: "map_of (rb_state (nd_storage demo_node)) WATCHER_STATE_KEY \<noteq> None"
proof -
  have "\<not> silent fresh_node demo_node" by (simp add: silent_def demo_chain fresh_node_sel(3))
  then have "commits demo_node_env (redb_provider unary_codec txn_ok) fresh_node (demo_peer demo_node_env) demo_node"
    using handle_block_cases [of fresh_node demo_node_env "redb_provider unary_codec txn_ok" "demo_peer demo_node_env"]
    by (simp add: demo_node_def)
  from live_commit_saves [OF demo_codecs fresh_live _ this] show ?thesis by (simp add: fresh_node_sel(3))
qed

theorem sync_keeps_old_inventory_witness:
  "chain_of synced_node = rival_chain \<and> wss_inventory (to_snapshot (nd_watcher synced_node)) = [(''p'', [(''o'', 1)])]"
proof -
  have "length rival_chain \<le> 2 ^ 64" by (simp add: rival_chain_def)
  from sync_keeps_old_inventory [OF demo_codecs(1) demo_live demo_enforced rival_replaces this synced_node_def] demo_codecs(2)
    demo_snapshot_stored show ?thesis by (auto simp: to_snapshot_def demo_stock)
qed

text \<open>The peer block of \<^const>\<open>demo_node\<close>, admitted twice before it is committed twice.\<close>

definition twice_admitted :: "redb_store node" where
  "twice_admitted = snd (admit_block demo_node_env (demo_peer demo_node_env)
     (snd (admit_block demo_node_env (demo_peer demo_node_env) fresh_node)))"

definition twice_node :: "redb_store node" where
  "twice_node = snd (commit_peer_block demo_node_env (redb_provider unary_codec txn_ok) (demo_peer demo_node_env)
     (snd (commit_peer_block demo_node_env (redb_provider unary_codec txn_ok) (demo_peer demo_node_env) twice_admitted)))"

lemma readmitted:
  "fst (admit_block demo_node_env (demo_peer demo_node_env)
     (snd (admit_block demo_node_env (demo_peer demo_node_env) fresh_node))) = Append"
proof -
  let ?N = demo_node_env
  obtain nd where a: "admit_block ?N (demo_peer ?N) fresh_node = (Append, nd)"
    using demo_peer_accepted(1) by (cases "admit_block ?N (demo_peer ?N) fresh_node") simp
  note adm = admit_block_Append [OF a]
  have "b_timestamp (demo_peer ?N) = 5" by (simp add: demo_peer_def block_new_def with_write_set_def Let_def)
  then have "b_timestamp (demo_peer ?N) \<le> ne_clock ?N (nd_reads nd) + FUTURE_TIMESTAMP_WINDOW_SECS"
    by (simp add: FUTURE_TIMESTAMP_WINDOW_SECS_def)
  moreover have "b_index (demo_peer ?N) = of_nat (length (chain_of nd))"
    unfolding adm(2) fresh_node_sel(3) by (simp add: demo_peer_def)
  moreover have "\<forall>h. is_ok (fst (cap_validate_block ?N (demo_peer ?N) h))" by (simp add: cap_replay_demo)
  ultimately show ?thesis
    unfolding a snd_conv using adm(4,5) fresh_node_sel(2,4) by (intro peer_block_accepted(1)) (simp_all add: adm(2,3))
qed

theorem peer_block_counted_twice_witness:
  "chain_of twice_node = [genesis_block demo_node_env, demo_peer demo_node_env]
   \<and> wt_inventory (nd_watcher twice_node) = [(''p'', [(''o'', 2)])]"
proof -
  let ?N = demo_node_env and ?P = "redb_provider unary_codec txn_ok"
  obtain nd1 where a1: "admit_block ?N (demo_peer ?N) fresh_node = (Append, nd1)"
    using demo_peer_accepted(1) by (cases "admit_block ?N (demo_peer ?N) fresh_node") simp
  then have a2: "admit_block ?N (demo_peer ?N) nd1 = (Append, twice_admitted)"
    using readmitted by (cases "admit_block ?N (demo_peer ?N) nd1") (simp add: twice_admitted_def)
  obtain ms nd3 where c3: "commit_peer_block ?N ?P (demo_peer ?N) twice_admitted = (ms, nd3)" by (rule prod.exhaust)
  then obtain ms' where c4: "commit_peer_block ?N ?P (demo_peer ?N) nd3 = (ms', twice_node)"
    by (cases "commit_peer_block ?N ?P (demo_peer ?N) nd3") (simp add: twice_node_def)
  have "b_transactions (demo_peer ?N) = [demo_tx ''b'']" by (simp add: demo_peer_def)
  then show ?thesis
    using peer_block_counted_twice [OF a1 a2 fresh_node_sel(2) c3 c4]
    by (simp add: fresh_node_sel(3) fresh_watcher) (simp add: observe_updates_def on_inventory_update_def apply_delta_def watcher_new_def)
qed

text \<open>Two executions of one contract, which write the same key.\<close>

definition writing_executor :: executor where
  "writing_executor _ _ _ _ = Inr \<lparr>ephemeral = [], writes = [sample_write ''a'']\<rparr>"

definition execution_tx :: "string \<Rightarrow> transaction" where
  "execution_tx i = with_id i 0 (ContractExecution \<lparr>ce_contract_id = ''c'', ce_purchase_order_tx_id = ''o'', ce_buyer_id = ''b'',
     ce_seller_id = ''s'', ce_product_id = ''p'', ce_quantity = 1, ce_total_price = 1, ce_currency = ''BRL''\<rparr>)"

definition busy_node :: "redb_store node" where
  "busy_node = fresh_node\<lparr>nd_ledger := (demo_ledger demo_node_env)\<lparr>lg_pending := [execution_tx ''1'', execution_tx ''2'']\<rparr>,
     nd_executor := Some writing_executor, nd_engine := snd (register_contract sample_contract engine_new)\<rparr>"

theorem mine_loses_transactions_witness:
  "\<exists>e nd. mine_async demo_node_env (redb_provider unary_codec txn_ok) busy_node = Some (Inl e, nd) \<and> lg_pending (nd_ledger nd) = []
     \<and> chain_of nd = [genesis_block demo_node_env]"
proof -
  let ?txs = "[execution_tx ''1'', execution_tx ''2'']"
  have pending: "lg_pending (nd_ledger busy_node) = ?txs" "nd_executor busy_node = Some writing_executor"
    "chain_of busy_node = [genesis_block demo_node_env]" by (simp_all add: busy_node_def demo_ledger_def)
  have "get_contract ''c'' (nd_engine busy_node) = Some (contract_new sample_contract)"
    by (simp add: get_contract_def busy_node_def register_contract_def engine_new_def)
  moreover have "sc_wasm_code_b64 (ct_definition (contract_new sample_contract)) = Some ''AA==''"
    by (simp add: contract_new_def sample_contract_def)
  moreover have "canonicalize \<lparr>ephemeral = [], writes = [sample_write ''a'']\<rparr> = Inr \<lparr>ephemeral = [], writes = [sample_write ''a'']\<rparr>"
    by (simp add: canonicalize_Inr_iff write_ok_def) (simp add: sample_write_def)
  ultimately have "contribution demo_node_env writing_executor (nd_engine busy_node) (nd_world_state busy_node) (execution_tx i) =
      Inr [sample_write ''a'']" for i
    by (simp add: contribution_def execution_tx_def with_id_def sample_gate_def writing_executor_def)
  then have "collect_results (map (contribution demo_node_env writing_executor (nd_engine busy_node) (nd_world_state busy_node)) ?txs)
      = Inr [[sample_write ''a''], [sample_write ''a'']]" by simp
  with mine_loses_transactions [OF _ pending(2), of ?txs demo_node_env "[[sample_write ''a''], [sample_write ''a'']]"
      "redb_provider unary_codec txn_ok"] pending
  show ?thesis by (simp add: MAX_BLOCK_TRANSACTIONS_def) (auto simp: pending)
qed

text \<open>A block that updates the policies of an empty channel.\<close>

definition bad_policy_block :: block where
  "bad_policy_block = block_new demo_node_env 5 1 [with_id ''u'' 0 (PolicyUpdate (sample_update\<lparr>pu_channel := []\<rparr>))]
     (b_hash (genesis_block demo_node_env))"

lemma mine_async_returns:
  assumes "lg_difficulty (nd_ledger nd) = 0"
  shows "\<exists>r nd'. mine_async N P nd = Some (r, nd')"
proof -
  have "\<exists>r nd'. mine_candidate N P index prev txs 0 ws per_tx nd = Some (r, nd')" for index prev txs ws per_tx nd
    by (auto simp: mine_candidate_def Let_def mine_zero case_prod_beta split: sum.split)
  with assms show ?thesis
    by (auto simp: mine_async_def prepare_mining_def Let_def case_prod_beta split: option.split sum.split bool.split)
qed

theorem invalid_policy_block_halts_mining_witness:
  "\<exists>nd r nd'. chain_of nd = [genesis_block demo_node_env, bad_policy_block]
     \<and> mine_async demo_node_env (redb_provider unary_codec txn_ok) nd = Some (r, nd') \<and> chain_of nd' = chain_of nd"
proof -
  let ?N = demo_node_env and ?P = "redb_provider unary_codec txn_ok"
  define nd where "nd = snd (handle_block ?N ?P bad_policy_block fresh_node)"
  have b: "b_transactions bad_policy_block = [with_id ''u'' 0 (PolicyUpdate (sample_update\<lparr>pu_channel := []\<rparr>))]"
    "b_index bad_policy_block = 1" "b_timestamp bad_policy_block = 5" "b_write_set bad_policy_block = []"
    "chains_to ?N bad_policy_block (last (chain_of fresh_node)) = Inr ()"
    by (simp_all add: bad_policy_block_def chains_to_def fresh_node_sel(3)) (simp add: block_new_def with_write_set_def Let_def)
  have cap: "\<forall>h. is_ok (fst (cap_validate_block ?N bad_policy_block h))" by (simp add: cap_validate_block_def b with_id_def)
  have idx: "chain_of fresh_node \<noteq> []" "b_index bad_policy_block = of_nat (length (chain_of fresh_node))"
    "b_timestamp bad_policy_block \<le> ne_clock ?N (nd_reads fresh_node) + FUTURE_TIMESTAMP_WINDOW_SECS"
    by (simp_all add: b fresh_node_sel(3) FUTURE_TIMESTAMP_WINDOW_SECS_def)
  note acc = peer_block_accepted [OF idx(1,2) b(5) idx(3) fresh_node_sel(4,2) cap]
  have "\<not> is_ok (pol_build_from_blocks (chain_of fresh_node @ [bad_policy_block]))"
    by (simp add: fresh_node_sel(3) pol_build_from_blocks_def pol_replay_demo)
      (simp add: pol_validate_block_def pending_updates_def changed_keys_def written_keys_def update_of_def b with_id_def
        map_filter_simps pol_apply_def)
  moreover obtain r nd' where m: "mine_async ?N ?P nd = Some (r, nd')"
    using mine_async_returns [of nd ?N ?P] acc(5) by (auto simp: nd_def)
  ultimately have c: "chain_of nd = chain_of fresh_node @ [bad_policy_block]"
    and "\<forall>nd1 r nd2. prefix (chain_of fresh_node @ [bad_policy_block]) (chain_of nd1) \<and> mine_async ?N ?P nd1 = Some (r, nd2) \<longrightarrow>
      chain_of nd2 = chain_of nd1"
    using invalid_policy_block_halts_mining [OF fresh_node_sel(2) acc(1), of ?P] unfolding nd_def by blast+
  then have "chain_of nd' = chain_of nd" using m by (metis prefix_order.refl)
  with m c show ?thesis unfolding fresh_node_sel(3) by auto
qed

end
