(* ===== verification/Private.thy ===== *)
theory Private
  imports Commits
begin

text \<open>
  Private data collections: \<^verbatim>\<open>glasschain-identity/src/channel.rs\<close> and \<^verbatim>\<open>payload_gate.rs\<close>, and the transient
  payload store of \<^verbatim>\<open>glasschain-storage/src/transient.rs\<close> over any storage provider.

  The JSON codec of the stored envelope is a parameter.  A store is its in-memory expiry index and the
  state of the provider below it; every operation takes the clock reading it makes.
\<close>

section \<open>Channels\<close>

definition DEFAULT_REGULATOR_ORGS :: "string list" where
  "DEFAULT_REGULATOR_ORGS = [''anvisa'', ''mapa'']"

record channel_config =
  cc_name :: string
  cc_member_ids :: "string list"
  cc_description :: string
  cc_endorsement_policy :: "policy_expression option"
  cc_retention_secs :: u64

definition default_retention_secs :: u64 where
  "default_retention_secs = 72 * 60 * 60"

record private_data_entry =
  pd_channel_name :: string
  pd_payload_hash :: string
  pd_payload :: bytes
  pd_submitter_id :: string

record channel =
  ch_config :: channel_config
  ch_committed_hashes :: "string list"
  ch_private_data :: "private_data_entry list"
  ch_members :: "string list"

datatype channel_error = NotAMember string string

fun contains_str :: "string list \<Rightarrow> string \<Rightarrow> bool" where
  "contains_str [] node_id = False"
| "contains_str (m # ms) node_id = (if m = node_id then True else contains_str ms node_id)"

text \<open>\<^verbatim>\<open>Vec::dedup\<close> drops consecutive repetitions.\<close>

definition channel_new :: "channel_config \<Rightarrow> channel" where
  "channel_new config = \<lparr>ch_config = config, ch_committed_hashes = [], ch_private_data = [],
     ch_members = remdups_adj (sort (cc_member_ids config @ DEFAULT_REGULATOR_ORGS))\<rparr>"

definition member_orgs :: "channel \<Rightarrow> string list" where
  "member_orgs c = sort (ch_members c)"

definition is_member :: "channel \<Rightarrow> string \<Rightarrow> bool" where
  "is_member c node_id = contains_str (ch_members c) node_id"

definition submit_private_data ::
  "'z crypto_scheme \<Rightarrow> string \<Rightarrow> bytes \<Rightarrow> channel \<Rightarrow> (channel_error + string) \<times> channel" where
  "submit_private_data E submitter_id payload c =
     (if \<not> is_member c submitter_id then (Inl (NotAMember submitter_id (cc_name (ch_config c))), c)
      else
        let hash = sha256 E payload
        in (Inr hash, c\<lparr>ch_committed_hashes := ch_committed_hashes c @ [hash],
              ch_private_data := ch_private_data c @ [\<lparr>pd_channel_name = cc_name (ch_config c), pd_payload_hash = hash,
                pd_payload = payload, pd_submitter_id = submitter_id\<rparr>]\<rparr>))"

definition get_private_data :: "channel \<Rightarrow> string \<Rightarrow> string \<Rightarrow> private_data_entry option" where
  "get_private_data c hash requestor_id =
     (if \<not> is_member c requestor_id then None
      else find (\<lambda>e. pd_payload_hash e = hash) (ch_private_data c))"

definition add_member :: "string \<Rightarrow> channel \<Rightarrow> channel" where
  "add_member nid c =
     (let c = (if \<not> is_member c nid then c\<lparr>ch_members := ch_members c @ [nid]\<rparr> else c)
      in if nid \<notin> set (cc_member_ids (ch_config c))
         then c\<lparr>ch_config := (ch_config c)\<lparr>cc_member_ids := cc_member_ids (ch_config c) @ [nid]\<rparr>\<rparr> else c)"

definition remove_member :: "string \<Rightarrow> channel \<Rightarrow> bool \<times> channel" where
  "remove_member node_id c =
     (if node_id \<in> set DEFAULT_REGULATOR_ORGS then (False, c)
      else (is_member c node_id,
        c\<lparr>ch_members := filter (\<lambda>i. i \<noteq> node_id) (ch_members c),
          ch_config := (ch_config c)\<lparr>cc_member_ids := filter (\<lambda>i. i \<noteq> node_id) (cc_member_ids (ch_config c))\<rparr>\<rparr>))"

definition private_payload_allowed :: "bool \<Rightarrow> bool \<Rightarrow> bool \<Rightarrow> bool" where
  "private_payload_allowed verifier_present org_verified org_is_member =
     (verifier_present \<and> org_verified \<and> org_is_member)"


section \<open>The transient store\<close>

definition TRANSIENT_PREFIX :: string where
  "TRANSIENT_PREFIX = ''transient''"

record payload_envelope =
  pe_payload :: bytes
  pe_expires_at :: u64

record envelope_codec =
  ser_envelope :: "payload_envelope \<Rightarrow> bytes option"
  de_envelope :: "bytes \<Rightarrow> payload_envelope option"

type_synonym expiry_index = "(string \<times> u64) list"

definition transient_key :: "string \<Rightarrow> string \<Rightarrow> string" where
  "transient_key collection cmt = TRANSIENT_PREFIX @ '':'' @ collection @ '':'' @ cmt"

definition record_expiry :: "string \<Rightarrow> u64 \<Rightarrow> expiry_index \<Rightarrow> expiry_index" where
  "record_expiry key expires_at index = btree_insert key expires_at index"

definition transient_put ::
  "'z envelope_codec_scheme \<Rightarrow> 'st storage_provider \<Rightarrow> u64 \<Rightarrow> string \<Rightarrow> string \<Rightarrow> bytes \<Rightarrow> u64 \<Rightarrow>
     expiry_index \<times> 'st \<Rightarrow> (core_error + unit) \<times> expiry_index \<times> 'st" where
  "transient_put C P now collection cmt payload retention_secs s =
     (case s of (index, st) \<Rightarrow>
        let expires_at = now + retention_secs
        in case ser_envelope C \<lparr>pe_payload = payload, pe_expires_at = expires_at\<rparr> of
             None \<Rightarrow> (Inl Serialization, index, st)
           | Some envelope \<Rightarrow>
               let key = transient_key collection cmt
               in case sp_put_state P key envelope st of
                    (Inl e, st) \<Rightarrow> (Inl e, index, st)
                  | (Inr _, st) \<Rightarrow> (Inr (), record_expiry key expires_at index, st))"

definition transient_get ::
  "'z envelope_codec_scheme \<Rightarrow> 'st storage_provider \<Rightarrow> u64 \<Rightarrow> string \<Rightarrow> string \<Rightarrow> expiry_index \<times> 'st \<Rightarrow>
     (core_error + bytes option) \<times> expiry_index \<times> 'st" where
  "transient_get C P now collection cmt s =
     (case s of (index, st) \<Rightarrow>
        let key = transient_key collection cmt
        in case sp_get_state P key st of
             Inl e \<Rightarrow> (Inl e, index, st)
           | Inr None \<Rightarrow> (Inr None, index, st)
           | Inr (Some raw) \<Rightarrow>
               (case de_envelope C raw of
                  None \<Rightarrow> (Inl Serialization, index, st)
                | Some envelope \<Rightarrow>
                    if now \<ge> pe_expires_at envelope then (Inr None, index, st)
                    else (Inr (Some (pe_payload envelope)), record_expiry key (pe_expires_at envelope) index, st)))"

text \<open>The payloads that only the storage knows, and the deletions, of \<^verbatim>\<open>purge_expired\<close>.\<close>

fun discover_expired ::
  "'z envelope_codec_scheme \<Rightarrow> 'st storage_provider \<Rightarrow> u64 \<Rightarrow> expiry_index \<Rightarrow> string list \<Rightarrow> 'st \<Rightarrow> core_error + string list" where
  "discover_expired C P now known [] st = Inr []"
| "discover_expired C P now known (key # keys) st =
     (if key \<in> fst ` set known then discover_expired C P now known keys st
      else case sp_get_state P key st of
        Inl e \<Rightarrow> Inl e
      | Inr None \<Rightarrow> discover_expired C P now known keys st
      | Inr (Some raw) \<Rightarrow>
          (case de_envelope C raw of
             None \<Rightarrow> discover_expired C P now known keys st
           | Some envelope \<Rightarrow>
               if now \<ge> pe_expires_at envelope
               then res_bind (discover_expired C P now known keys st) (\<lambda>ks. Inr (key # ks))
               else discover_expired C P now known keys st))"

fun purge_keys :: "'st storage_provider \<Rightarrow> string list \<Rightarrow> expiry_index \<times> 'st \<Rightarrow> nat \<times> expiry_index \<times> 'st" where
  "purge_keys P [] s = (0, s)"
| "purge_keys P (key # keys) (index, st) =
     (case sp_delete_state P key st of
        (Inr _, st) \<Rightarrow> apfst Suc (purge_keys P keys (btree_remove key index, st))
      | (Inl _, st) \<Rightarrow> purge_keys P keys (index, st))"

definition purge_expired ::
  "'z envelope_codec_scheme \<Rightarrow> 'st storage_provider \<Rightarrow> u64 \<Rightarrow> expiry_index \<times> 'st \<Rightarrow>
     (core_error + nat) \<times> expiry_index \<times> 'st" where
  "purge_expired C P now s =
     (case s of (known, st) \<Rightarrow>
        let expired = map fst (filter (\<lambda>(_, expires_at). now \<ge> expires_at) known)
        in case sp_list_state_keys P (TRANSIENT_PREFIX @ '':'') st of
             Inl e \<Rightarrow> (Inl e, known, st)
           | Inr keys \<Rightarrow>
               (case discover_expired C P now known keys st of
                  Inl e \<Rightarrow> (Inl e, known, st)
                | Inr found \<Rightarrow> (case purge_keys P (expired @ found) (known, st) of (n, s') \<Rightarrow> (Inr n, s'))))"


section \<open>Histories of a channel\<close>

datatype channel_op = SubmitOp string bytes | AddOp string | RemoveOp string

fun channel_step :: "'z crypto_scheme \<Rightarrow> channel_op \<Rightarrow> channel \<Rightarrow> channel" where
  "channel_step E (SubmitOp submitter payload) c = snd (submit_private_data E submitter payload c)"
| "channel_step E (AddOp org) c = add_member org c"
| "channel_step E (RemoveOp org) c = snd (remove_member org c)"

text \<open>What a channel promises: the organisations admitted so far, and the payloads accepted from them.\<close>

fun admitted_step :: "channel_op \<Rightarrow> string set \<Rightarrow> string set" where
  "admitted_step (SubmitOp _ _) ms = ms"
| "admitted_step (AddOp org) ms = insert org ms"
| "admitted_step (RemoveOp org) ms = ms - {org}"

definition regulators :: "string set" where
  "regulators = set DEFAULT_REGULATOR_ORGS"

definition admitted :: "channel_config \<Rightarrow> channel_op list \<Rightarrow> string set" where
  "admitted cfg ops = fold admitted_step ops (set (cc_member_ids cfg)) \<union> regulators"

fun accepted :: "channel_config \<Rightarrow> channel_op list \<Rightarrow> channel_op list \<Rightarrow> bytes list" where
  "accepted cfg past [] = []"
| "accepted cfg past (op # ops) =
     (case op of SubmitOp org payload \<Rightarrow> if org \<in> admitted cfg past then [payload] else [] | _ \<Rightarrow> [])
       @ accepted cfg (past @ [op]) ops"

lemma contains_str_iff: "contains_str ms n \<longleftrightarrow> n \<in> set ms"
  by (induction ms) auto

lemma is_member_iff: "is_member c n \<longleftrightarrow> n \<in> set (ch_members c)"
  by (simp add: is_member_def contains_str_iff)

lemma distinct_remdups_adj_sorted: "sorted xs \<Longrightarrow> distinct (remdups_adj xs)"
  for xs :: "'a::linorder list"
  by (induction xs rule: remdups_adj.induct) auto

definition channel_ok :: "'z crypto_scheme \<Rightarrow> channel \<Rightarrow> bool" where
  "channel_ok E c \<longleftrightarrow> distinct (ch_members c)
     \<and> set (ch_members c) = set (cc_member_ids (ch_config c)) \<union> regulators
     \<and> ch_committed_hashes c = map pd_payload_hash (ch_private_data c)
     \<and> (\<forall>e \<in> set (ch_private_data c). pd_payload_hash e = sha256 E (pd_payload e)
          \<and> pd_channel_name e = cc_name (ch_config c))"

lemma channel_new_ok: "channel_ok E (channel_new cfg)"
  by (simp add: channel_ok_def channel_new_def regulators_def distinct_remdups_adj_sorted)

lemma channel_step_ok: "channel_ok E c \<Longrightarrow> channel_ok E (channel_step E op c)"
  by (cases op) (auto simp: channel_ok_def submit_private_data_def add_member_def remove_member_def
      is_member_iff Let_def regulators_def)

lemma accepted_snoc:
  "accepted cfg past (ops @ [op]) = accepted cfg past ops
     @ (case op of SubmitOp org payload \<Rightarrow> if org \<in> admitted cfg (past @ ops) then [payload] else [] | _ \<Rightarrow> [])"
  by (induction cfg past ops rule: accepted.induct) (simp_all split: channel_op.split)

lemma channel_run:
  "channel_ok E (fold (channel_step E) ops (channel_new cfg))
   \<and> set (ch_members (fold (channel_step E) ops (channel_new cfg))) = admitted cfg ops
   \<and> map pd_payload (ch_private_data (fold (channel_step E) ops (channel_new cfg))) = accepted cfg [] ops"
proof (induction ops rule: rev_induct)
  case Nil
  show ?case by (simp add: channel_new_ok) (simp add: channel_new_def admitted_def regulators_def)
next
  case (snoc op ops)
  let ?c = "fold (channel_step E) ops (channel_new cfg)"
  have ok: "channel_ok E (channel_step E op ?c)" using snoc by (simp add: channel_step_ok)
  have m: "set (ch_members ?c) = admitted cfg ops" using snoc by simp
  have "set (ch_members (channel_step E op ?c)) = admitted cfg (ops @ [op])"
    using m by (cases op) (auto simp: submit_private_data_def add_member_def remove_member_def
        is_member_iff Let_def admitted_def regulators_def)
  moreover have "map pd_payload (ch_private_data (channel_step E op ?c)) = accepted cfg [] (ops @ [op])"
    using snoc m by (cases op) (simp_all add: submit_private_data_def add_member_def remove_member_def
        is_member_iff Let_def accepted_snoc)
  ultimately show ?case using ok by simp
qed

lemma find_payload:
  "\<forall>e \<in> set es. pd_payload_hash e = f (pd_payload e) \<Longrightarrow>
   map_option pd_payload (find (\<lambda>e. pd_payload_hash e = h) es) = find (\<lambda>p. f p = h) (map pd_payload es)"
  by (induction es) auto

text \<open>
  C23. Over any history of submissions, admissions and removals on a new channel: the members are listed without
  repetition and are exactly the organisations admitted by then, regulators always included; the commitments are the
  hashes of the payloads that organisations submitted while they were members; and a lookup returns
  the first such payload with the requested hash to a member and nothing to anybody else.
\<close>

theorem channel_members_only:
  "let c = fold (channel_step E) ops (channel_new cfg)
   in distinct (member_orgs c) \<and> set (member_orgs c) = admitted cfg ops \<and> regulators \<subseteq> admitted cfg ops
    \<and> ch_committed_hashes c = map (sha256 E) (accepted cfg [] ops)
    \<and> map_option pd_payload (get_private_data c h org) =
        (if org \<in> admitted cfg ops then find (\<lambda>p. sha256 E p = h) (accepted cfg [] ops) else None)"
proof -
  let ?c = "fold (channel_step E) ops (channel_new cfg)"
  have r: "channel_ok E ?c" "set (ch_members ?c) = admitted cfg ops"
    "map pd_payload (ch_private_data ?c) = accepted cfg [] ops"
    using channel_run [of E ops cfg] by simp_all
  have h: "\<forall>e \<in> set (ch_private_data ?c). pd_payload_hash e = sha256 E (pd_payload e)"
    using r(1) by (simp add: channel_ok_def)
  have "ch_committed_hashes ?c = map (\<lambda>e. sha256 E (pd_payload e)) (ch_private_data ?c)"
    using r(1) h by (simp add: channel_ok_def)
  also have "\<dots> = map (sha256 E) (accepted cfg [] ops)" by (simp flip: r(3))
  finally show ?thesis
    using r find_payload [OF h, of h] by (simp add: channel_ok_def member_orgs_def get_private_data_def
        is_member_iff admitted_def)
qed


section \<open>The payload store over a storage provider\<close>

locale payload_store = node_store P s_inv s_blocks s_state storable
  for P :: "'st storage_provider" and s_inv s_blocks s_state storable +
  assumes finite_state: "s_inv s \<Longrightarrow> finite (dom (s_state s))"

interpretation mem_payloads: payload_store mem_provider mem_inv ms_blocks "\<lambda>s. map_of (ms_state s)" "\<lambda>b. True"
  by unfold_locales (rule finite_dom_map_of)

interpretation redb_payloads: payload_store "redb_provider C txn_ok" "redb_inv C" "stored_blocks C"
  "\<lambda>s. map_of (rb_state s)" "\<lambda>b. ser_block C b \<noteq> None" for C
  by unfold_locales (rule finite_dom_map_of)

definition envelope_roundtrip :: "'z envelope_codec_scheme \<Rightarrow> bool" where
  "envelope_roundtrip C \<longleftrightarrow> (\<forall>e. \<exists>raw. ser_envelope C e = Some raw \<and> de_envelope C raw = Some e)"

definition envelope_at :: "'z envelope_codec_scheme \<Rightarrow> world_state \<Rightarrow> string \<Rightarrow> payload_envelope option" where
  "envelope_at C ws key = Option.bind (ws key) (de_envelope C)"

definition is_payload_key :: "string \<Rightarrow> bool" where
  "is_payload_key key = starts_with key (TRANSIENT_PREFIX @ '':'')"

definition expired_at :: "'z envelope_codec_scheme \<Rightarrow> u64 \<Rightarrow> world_state \<Rightarrow> string \<Rightarrow> bool" where
  "expired_at C now ws key = (case envelope_at C ws key of Some e \<Rightarrow> pe_expires_at e \<le> now | None \<Rightarrow> False)"

text \<open>Every stored payload can be read, and the index never disagrees with the store.\<close>

definition payloads_ok :: "'z envelope_codec_scheme \<Rightarrow> world_state \<Rightarrow> expiry_index \<Rightarrow> bool" where
  "payloads_ok C ws index \<longleftrightarrow> btree_wf index
     \<and> (\<forall>key raw. is_payload_key key \<and> ws key = Some raw \<longrightarrow> de_envelope C raw \<noteq> None)
     \<and> (\<forall>key d. map_of index key = Some d \<longrightarrow>
          is_payload_key key \<and> map_option pe_expires_at (envelope_at C ws key) = Some d)"

lemma map_of_fold_remove: "map_of (fold btree_remove ks es) = map_of es |` (- set ks)"
  by (induction ks arbitrary: es) (auto simp: map_of_btree_remove restrict_map_def fun_eq_iff)

lemma btree_wf_fold_remove: "btree_wf es \<Longrightarrow> btree_wf (fold btree_remove ks es)"
  by (induction ks arbitrary: es) (simp_all add: btree_wf_remove)

datatype transient_op = PutOp u64 string string bytes u64 | GetOp u64 string string | PurgeOp u64 | ReopenOp | CommitOp block

text \<open>A reopened store starts with an empty index; a commit is a block that the node applies to the same database.\<close>

fun transient_step ::
  "'z envelope_codec_scheme \<Rightarrow> 'st storage_provider \<Rightarrow> transient_op \<Rightarrow> expiry_index \<times> 'st \<Rightarrow> expiry_index \<times> 'st" where
  "transient_step C P (PutOp now collection cmt payload retention) s = snd (transient_put C P now collection cmt payload retention s)"
| "transient_step C P (GetOp now collection cmt) s = snd (transient_get C P now collection cmt s)"
| "transient_step C P (PurgeOp now) s = snd (purge_expired C P now s)"
| "transient_step C P ReopenOp (index, st) = ([], st)"
| "transient_step C P (CommitOp b) (index, st) = (index, snd (sp_apply_block P b st))"

definition no_colon :: "string \<Rightarrow> bool" where
  "no_colon s \<longleftrightarrow> CHR '':'' \<notin> set s"

text \<open>The steps of a history up to the time \<open>now\<close>: no purge read a later clock, commitments are hexadecimal strings.\<close>

fun step_ok :: "(block \<Rightarrow> bool) \<Rightarrow> u64 \<Rightarrow> transient_op \<Rightarrow> bool" where
  "step_ok storable now (PutOp _ _ cmt _ _) = no_colon cmt"
| "step_ok storable now (PurgeOp t) = (t \<le> now)"
| "step_ok storable now (CommitOp b) = storable b"
| "step_ok storable now _ = True"

text \<open>What the store promises: the envelope of the last \<^verbatim>\<open>put\<close> of an address, readable before its deadline.\<close>

definition put_of :: "string \<Rightarrow> string \<Rightarrow> transient_op \<Rightarrow> payload_envelope option \<Rightarrow> payload_envelope option" where
  "put_of collection cmt op e =
     (case op of PutOp now c h payload retention \<Rightarrow>
        if c = collection \<and> h = cmt then Some \<lparr>pe_payload = payload, pe_expires_at = now + retention\<rparr> else e
      | _ \<Rightarrow> e)"

definition last_put :: "string \<Rightarrow> string \<Rightarrow> transient_op list \<Rightarrow> payload_envelope option" where
  "last_put collection cmt ops = fold (put_of collection cmt) ops None"

definition readable :: "u64 \<Rightarrow> payload_envelope option \<Rightarrow> bytes option" where
  "readable now e = (case e of Some e \<Rightarrow> if now < pe_expires_at e then Some (pe_payload e) else None | None \<Rightarrow> None)"

lemma transient_key_payload: "is_payload_key (transient_key collection cmt)"
  by (simp add: is_payload_key_def transient_key_def starts_with_iff)

lemma payload_key_not_written: "is_payload_key k \<Longrightarrow> apply_writes ws m k = m k"
  by (rule apply_writes_other) (auto simp: is_payload_key_def starts_with_iff TRANSIENT_PREFIX_def state_key_def)

lemma split_last_colon:
  assumes "no_colon x" "no_colon y" "a @ '':'' @ x = b @ '':'' @ y"
  shows "a = b \<and> x = y"
proof -
  have "takeWhile (\<lambda>c. c \<noteq> CHR '':'') (rev (a @ '':'' @ x)) = rev x" "takeWhile (\<lambda>c. c \<noteq> CHR '':'') (rev (b @ '':'' @ y)) = rev y"
    using assms(1,2) by (auto simp: no_colon_def takeWhile_append)
  with assms(3) have "x = y" by (metis rev_rev_ident)
  with assms(3) show ?thesis by simp
qed

lemma transient_key_inject:
  "no_colon h \<Longrightarrow> no_colon cmt \<Longrightarrow> transient_key c h = transient_key collection cmt \<longleftrightarrow> c = collection \<and> h = cmt"
  using split_last_colon [of h cmt c collection] by (auto simp: transient_key_def)

lemma fst_keys_iff: "k \<in> fst ` set es \<longleftrightarrow> map_of es k \<noteq> None"
  by (simp add: map_of_eq_None_iff)

context payload_store
begin

lemma purge_keys_spec:
  "s_inv st \<Longrightarrow> \<exists>st'. purge_keys P ks (index, st) = (length ks, fold btree_remove ks index, st') \<and> s_inv st'
     \<and> s_blocks st' = s_blocks st \<and> s_state st' = s_state st |` (- set ks)"
proof (induction ks arbitrary: index st)
  case (Cons k ks)
  obtain st1 where s1: "sp_delete_state P k st = (Inr (), st1)" "s_inv st1" "s_blocks st1 = s_blocks st"
    "s_state st1 = (s_state st)(k := None)" using delete_state_law [OF Cons.prems] by blast
  obtain st2 where "purge_keys P ks (btree_remove k index, st1) = (length ks, fold btree_remove ks (btree_remove k index), st2)"
    "s_inv st2" "s_blocks st2 = s_blocks st1" "s_state st2 = s_state st1 |` (- set ks)"
    using Cons.IH [OF s1(2)] by blast
  with s1 show ?case by (auto simp: restrict_map_def fun_eq_iff)
qed (simp add: restrict_map_def)

lemma discover_spec:
  "s_inv st \<Longrightarrow> discover_expired C P now known ks st =
     Inr (filter (\<lambda>k. map_of known k = None \<and> expired_at C now (s_state st) k) ks)"
  by (induction ks) (auto simp: get_state_law fst_keys_iff expired_at_def envelope_at_def res_bind_def split: option.splits)

lemma payloads_ok_remove:
  assumes "payloads_ok C ws index"
  shows "payloads_ok C (ws |` (- set ks)) (fold btree_remove ks index)"
  unfolding payloads_ok_def
proof (intro conjI allI impI)
  show "btree_wf (fold btree_remove ks index)" using assms by (simp add: payloads_ok_def btree_wf_fold_remove)
next
  fix key raw
  assume "is_payload_key key \<and> (ws |` (- set ks)) key = Some raw"
  then show "de_envelope C raw \<noteq> None" using assms by (auto simp: payloads_ok_def restrict_map_def split: if_splits)
next
  fix key d
  assume "map_of (fold btree_remove ks index) key = Some d"
  then have k: "key \<notin> set ks" "map_of index key = Some d"
    by (simp_all add: map_of_fold_remove restrict_map_def split: if_splits)
  then have "is_payload_key key" "map_option pe_expires_at (envelope_at C ws key) = Some d"
    using assms by (simp_all add: payloads_ok_def)
  with k(1) show "is_payload_key key"
    "map_option pe_expires_at (envelope_at C (ws |` (- set ks)) key) = Some d"
    by (simp_all add: envelope_at_def)
qed

text \<open>A purge removes exactly the expired payloads, indexed or not, and reports their number.\<close>

lemma purge_exact:
  fixes C :: "'z envelope_codec_scheme" and now
  defines "gone ws \<equiv> {k \<in> dom ws. is_payload_key k \<and> expired_at C now ws k}"
  assumes "s_inv st" "payloads_ok C (s_state st) index"
  shows "\<exists>index' st'. purge_expired C P now (index, st) = (Inr (card (gone (s_state st))), index', st')
     \<and> s_inv st' \<and> s_blocks st' = s_blocks st \<and> s_state st' = s_state st |` (- gone (s_state st))
     \<and> payloads_ok C (s_state st') index'"
proof -
  let ?ws = "s_state st"
  define ex where "ex = map fst (filter (\<lambda>(_, d). now \<ge> d) index)"
  define keys where "keys = sorted_list_of_set {k \<in> dom ?ws. is_payload_key k}"
  define found where "found = filter (\<lambda>k. map_of index k = None \<and> expired_at C now ?ws k) keys"
  have wf: "btree_wf index" and ix: "\<And>k d. map_of index k = Some d \<Longrightarrow>
      is_payload_key k \<and> map_option pe_expires_at (envelope_at C ?ws k) = Some d"
    using assms(3) by (auto simp: payloads_ok_def)
  have di: "distinct (map fst index)" by (rule btree_wf_distinct [OF wf])
  have ex: "k \<in> set ex \<longleftrightarrow> (\<exists>d. map_of index k = Some d \<and> d \<le> now)" for k
    unfolding ex_def using map_of_eq_Some_iff [OF di, of k] by (auto simp: image_iff)
  have fin: "finite {k \<in> dom ?ws. is_payload_key k}" using finite_state [OF assms(2)] by simp
  have ex': "k \<in> set ex \<longleftrightarrow> map_of index k \<noteq> None \<and> k \<in> gone ?ws" for k
  proof (cases "map_of index k")
    case None
    then show ?thesis by (simp add: ex)
  next
    case (Some d)
    then obtain e where "is_payload_key k" "envelope_at C ?ws k = Some e" "pe_expires_at e = d" using ix [of k] by auto
    moreover from this have "k \<in> dom ?ws" by (auto simp: envelope_at_def bind_eq_Some_conv)
    ultimately show ?thesis using Some by (auto simp: ex gone_def expired_at_def)
  qed
  have fnd: "k \<in> set found \<longleftrightarrow> map_of index k = None \<and> k \<in> gone ?ws" for k
    using fin by (auto simp: found_def keys_def gone_def)
  have set: "set (ex @ found) = gone ?ws" using ex' fnd by auto
  have "distinct ex" unfolding ex_def using di by (rule distinct_map_filter)
  moreover have "distinct found" by (simp add: found_def keys_def)
  ultimately have len: "length (ex @ found) = card (gone ?ws)"
    using set distinct_card [of "ex @ found"] ex' fnd by (metis disjoint_iff distinct_append)
  obtain st' where st': "purge_keys P (ex @ found) (index, st) = (length (ex @ found), fold btree_remove (ex @ found) index, st')"
    "s_inv st'" "s_blocks st' = s_blocks st" "s_state st' = ?ws |` (- set (ex @ found))"
    using purge_keys_spec [OF assms(2)] by blast
  have "discover_expired C P now index keys st = Inr found" by (simp add: discover_spec [OF assms(2)] found_def)
  moreover have "sp_list_state_keys P (TRANSIENT_PREFIX @ '':'') st = Inr keys"
    using list_law [OF assms(2)] by (simp add: keys_def is_payload_key_def)
  ultimately have "purge_expired C P now (index, st) = (Inr (card (gone ?ws)), fold btree_remove (ex @ found) index, st')"
    using st'(1) len by (simp add: purge_expired_def Let_def flip: ex_def)
  moreover have "payloads_ok C (s_state st') (fold btree_remove (ex @ found) index)"
    using payloads_ok_remove [OF assms(3)] unfolding st'(4) .
  ultimately show ?thesis using st' unfolding set by blast
qed

lemma payloads_ok_put:
  assumes "payloads_ok C ws index" "de_envelope C raw = Some e" "is_payload_key k"
  shows "payloads_ok C (ws(k \<mapsto> raw)) (record_expiry k (pe_expires_at e) index)"
  using assms by (auto simp: payloads_ok_def record_expiry_def btree_wf_insert map_of_btree_insert envelope_at_def)

lemma payloads_ok_note:
  assumes "payloads_ok C ws index" "envelope_at C ws k = Some e" "is_payload_key k"
  shows "payloads_ok C ws (record_expiry k (pe_expires_at e) index)"
  using assms by (auto simp: payloads_ok_def record_expiry_def btree_wf_insert map_of_btree_insert)

lemma put_spec:
  assumes "s_inv st" "payloads_ok C (s_state st) index" "envelope_roundtrip C"
  shows "\<exists>index' st' raw. transient_put C P now c h p r (index, st) = (Inr (), index', st') \<and> s_inv st'
     \<and> s_blocks st' = s_blocks st \<and> s_state st' = (s_state st)(transient_key c h \<mapsto> raw)
     \<and> de_envelope C raw = Some \<lparr>pe_payload = p, pe_expires_at = now + r\<rparr> \<and> payloads_ok C (s_state st') index'"
proof -
  let ?e = "\<lparr>pe_payload = p, pe_expires_at = now + r\<rparr>"
  obtain raw where raw: "ser_envelope C ?e = Some raw" "de_envelope C raw = Some ?e"
    using assms(3) by (auto simp: envelope_roundtrip_def)
  obtain st' where st': "sp_put_state P (transient_key c h) raw st = (Inr (), st')" "s_inv st'" "s_blocks st' = s_blocks st"
    "s_state st' = (s_state st)(transient_key c h \<mapsto> raw)" using put_state_law [OF assms(1)] by blast
  have "payloads_ok C (s_state st') (record_expiry (transient_key c h) (pe_expires_at ?e) index)"
    unfolding st'(4) by (rule payloads_ok_put [OF assms(2) raw(2) transient_key_payload])
  moreover have "transient_put C P now c h p r (index, st) = (Inr (), record_expiry (transient_key c h) (pe_expires_at ?e) index, st')"
    using raw st' by (simp add: transient_put_def)
  ultimately show ?thesis using raw st' by blast
qed

lemma get_spec:
  assumes "s_inv st" "payloads_ok C (s_state st) index"
  shows "\<exists>index'. transient_get C P now c h (index, st)
       = (Inr (readable now (envelope_at C (s_state st) (transient_key c h))), index', st)
     \<and> payloads_ok C (s_state st) index'"
proof (cases "s_state st (transient_key c h)")
  case None
  then show ?thesis using assms by (simp add: transient_get_def get_state_law readable_def envelope_at_def)
next
  case (Some raw)
  then obtain e where e: "de_envelope C raw = Some e"
    using assms(2) transient_key_payload by (fastforce simp: payloads_ok_def)
  with Some have "envelope_at C (s_state st) (transient_key c h) = Some e" by (simp add: envelope_at_def)
  with Some e show ?thesis using assms payloads_ok_note [OF assms(2) _ transient_key_payload]
    by (auto simp: transient_get_def get_state_law readable_def)
qed

lemma commit_spec:
  assumes "s_inv st" "storable b"
  shows "\<exists>r st'. sp_apply_block P b st = (r, st') \<and> s_inv st' \<and> (\<forall>k. is_payload_key k \<longrightarrow> s_state st' k = s_state st k)"
proof (cases "validate_tip_chain b (map_option snd (last_opt (s_blocks st))) = Inr ()")
  case True
  from apply_law [OF assms True] show ?thesis by (auto simp: payload_key_not_written)
next
  case False
  from reject_law [OF assms(1) False] assms(1) show ?thesis by auto
qed

lemma payloads_ok_agree:
  assumes "payloads_ok C ws index" "\<forall>k. is_payload_key k \<longrightarrow> ws' k = ws k"
  shows "payloads_ok C ws' index"
  using assms by (auto simp: payloads_ok_def envelope_at_def)

lemma readable_purged:
  assumes "t \<le> now"
  shows "readable now (envelope_at C (ws |` (- {k \<in> dom ws. is_payload_key k \<and> expired_at C t ws k})) key)
    = readable now (envelope_at C ws key)"
  using assms by (auto simp: readable_def envelope_at_def restrict_map_def expired_at_def split: option.splits)

definition serves :: "'z envelope_codec_scheme \<Rightarrow> u64 \<Rightarrow> transient_op list \<Rightarrow> expiry_index \<times> 'st \<Rightarrow> bool" where
  "serves C now ops s \<longleftrightarrow> s_inv (snd s) \<and> payloads_ok C (s_state (snd s)) (fst s)
     \<and> (\<forall>c h. no_colon h \<longrightarrow> readable now (envelope_at C (s_state (snd s)) (transient_key c h)) = readable now (last_put c h ops))"

lemma serves_step:
  assumes "serves C now ops (index, st)" "step_ok storable now op" "envelope_roundtrip C"
  shows "serves C now (ops @ [op]) (transient_step C P op (index, st))"
proof -
  have i: "s_inv st" "payloads_ok C (s_state st) index"
    and r: "\<And>c h. no_colon h \<Longrightarrow> readable now (envelope_at C (s_state st) (transient_key c h)) = readable now (last_put c h ops)"
    using assms(1) by (simp_all add: serves_def)
  have quiet: "serves C now (ops @ [op]) (index', st')"
    if "\<And>c h. last_put c h (ops @ [op]) = last_put c h ops" "s_inv st'" "payloads_ok C (s_state st') index'"
      "\<And>k. is_payload_key k \<Longrightarrow> readable now (envelope_at C (s_state st') k) = readable now (envelope_at C (s_state st) k)"
    for index' st' using that r transient_key_payload by (simp add: serves_def)
  show ?thesis
  proof (cases op)
    case (PutOp t c h p d)
    then have h: "no_colon h" using assms(2) by simp
    obtain index' st' raw where s: "transient_put C P t c h p d (index, st) = (Inr (), index', st')" "s_inv st'"
      "s_state st' = (s_state st)(transient_key c h \<mapsto> raw)" "payloads_ok C (s_state st') index'"
      "de_envelope C raw = Some \<lparr>pe_payload = p, pe_expires_at = t + d\<rparr>"
      using put_spec [OF i assms(3)] by blast
    have "readable now (envelope_at C (s_state st') (transient_key c' h')) = readable now (last_put c' h' (ops @ [op]))"
      if "no_colon h'" for c' h'
      using r [OF that, of c'] transient_key_inject [OF h that, of c c'] s(3,5) PutOp
      by (auto simp: last_put_def put_of_def envelope_at_def)
    with s PutOp show ?thesis by (simp add: serves_def)
  next
    case (GetOp t c h)
    obtain index' where "transient_get C P t c h (index, st)
        = (Inr (readable t (envelope_at C (s_state st) (transient_key c h))), index', st)" "payloads_ok C (s_state st) index'"
      using get_spec [OF i] by blast
    with GetOp i show ?thesis by (simp add: quiet [unfolded GetOp] last_put_def put_of_def)
  next
    case (PurgeOp t)
    obtain n index' st' where "purge_expired C P t (index, st) = (Inr n, index', st')" "s_inv st'" "payloads_ok C (s_state st') index'"
      "s_state st' = s_state st |` (- {k \<in> dom (s_state st). is_payload_key k \<and> expired_at C t (s_state st) k})"
      using purge_exact [OF i] by blast
    with PurgeOp assms(2) show ?thesis by (simp add: quiet [unfolded PurgeOp] last_put_def put_of_def readable_purged)
  next
    case ReopenOp
    have "payloads_ok C (s_state st) []" using i(2) by (simp add: payloads_ok_def)
    with ReopenOp i show ?thesis by (simp add: quiet [unfolded ReopenOp] last_put_def put_of_def)
  next
    case (CommitOp b)
    then have "storable b" using assms(2) by simp
    then obtain x st' where s: "sp_apply_block P b st = (x, st')" "s_inv st'" "\<forall>k. is_payload_key k \<longrightarrow> s_state st' k = s_state st k"
      using commit_spec [OF i(1)] by blast
    with CommitOp payloads_ok_agree [OF i(2) s(3)] show ?thesis
      by (simp add: quiet [unfolded CommitOp] last_put_def put_of_def envelope_at_def)
  qed
qed

lemma serves_run:
  assumes "s_inv st" "\<forall>k. is_payload_key k \<longrightarrow> s_state st k = None" "\<forall>op \<in> set ops. step_ok storable now op" "envelope_roundtrip C"
  shows "serves C now ops (fold (transient_step C P) ops ([], st))"
  using assms(3)
proof (induction ops rule: rev_induct)
  case Nil
  show ?case using assms(1,2) transient_key_payload by (auto simp: serves_def payloads_ok_def envelope_at_def last_put_def)
next
  case (snoc op ops)
  obtain index st' where s: "fold (transient_step C P) ops ([], st) = (index, st')" by fastforce
  from snoc have "serves C now ops (index, st')" by (simp add: s)
  from serves_step [OF this _ assms(4), of op] snoc.prems s show ?case by simp
qed

end

text \<open>
  C22. Retention of private payloads on the redb store, which also holds the chain.  After any history of puts, gets,
  purges, committed blocks and restarts, none of whose purges read a clock later than \<open>now\<close>: a
  get at \<open>now\<close> returns the payload of the last put of that collection and commitment exactly when its deadline is
  not reached; and a purge at \<open>now\<close> deletes exactly the expired payloads, those written before a restart
  included, reports their number and leaves every other key as it was.
\<close>

theorem retention_contract:
  assumes "envelope_roundtrip C" "redb_inv K st" "\<forall>k. is_payload_key k \<longrightarrow> map_of (rb_state st) k = None"
    and "\<forall>op \<in> set ops. step_ok (\<lambda>b. ser_block K b \<noteq> None) now op" "no_colon cmt"
  shows "\<exists>index st'. fold (transient_step C (redb_provider K txn_ok)) ops ([], st) = (index, st')
    \<and> fst (transient_get C (redb_provider K txn_ok) now collection cmt (index, st'))
        = Inr (readable now (last_put collection cmt ops))
    \<and> (\<exists>index2 st2. purge_expired C (redb_provider K txn_ok) now (index, st')
          = (Inr (card {k. is_payload_key k \<and> expired_at C now (map_of (rb_state st')) k}), index2, st2)
        \<and> (\<forall>k. map_of (rb_state st2) k = (if is_payload_key k \<and> expired_at C now (map_of (rb_state st')) k then None
              else map_of (rb_state st') k)))"
proof -
  let ?P = "redb_provider K txn_ok"
  obtain index st' where s: "fold (transient_step C ?P) ops ([], st) = (index, st')" by fastforce
  let ?ws = "map_of (rb_state st')"
  have "redb_payloads.serves K C now ops (index, st')"
    using redb_payloads.serves_run [OF assms(2-4,1)] by (simp add: s)
  then have i: "redb_inv K st'" "payloads_ok C ?ws index"
    and r: "readable now (envelope_at C ?ws (transient_key collection cmt)) = readable now (last_put collection cmt ops)"
    using assms(5) by (simp_all add: redb_payloads.serves_def)
  have g: "{k \<in> dom ?ws. is_payload_key k \<and> expired_at C now ?ws k} = {k. is_payload_key k \<and> expired_at C now ?ws k}"
    by (auto simp: expired_at_def envelope_at_def bind_eq_Some_conv split: option.splits)
  obtain index2 st2 where "purge_expired C ?P now (index, st')
      = (Inr (card {k. is_payload_key k \<and> expired_at C now ?ws k}), index2, st2)"
    "map_of (rb_state st2) = ?ws |` (- {k. is_payload_key k \<and> expired_at C now ?ws k})"
    using redb_payloads.purge_exact [OF i, of now] unfolding g by blast
  then show ?thesis using s redb_payloads.get_spec [OF i, of now collection cmt] r by (auto simp: restrict_map_def)
qed

definition run_length_envelope :: envelope_codec where
  "run_length_envelope = \<lparr>ser_envelope = (\<lambda>e. Some (replicate (unat (pe_expires_at e)) 0 @ 1 # pe_payload e)),
     de_envelope = (\<lambda>raw. Some \<lparr>pe_payload = tl (dropWhile (\<lambda>x. x = 0) raw),
       pe_expires_at = of_nat (length (takeWhile (\<lambda>x. x = 0) raw))\<rparr>)\<rparr>"

lemma run_length_roundtrip: "envelope_roundtrip run_length_envelope"
  by (auto simp: envelope_roundtrip_def run_length_envelope_def takeWhile_append dropWhile_append)

theorem retention_contract_witness:
  "\<exists>index st'. fold (transient_step run_length_envelope (redb_provider unary_codec txn_ok))
      [PutOp 0 ''prices'' ''ab'' [1] 10, ReopenOp, PurgeOp 5, CommitOp (genesis_block demo_node_env)] ([], redb_open) = (index, st')
    \<and> fst (transient_get run_length_envelope (redb_provider unary_codec txn_ok) 7 ''prices'' ''ab'' (index, st')) = Inr (Some [1])"
proof -
  let ?ops = "[PutOp 0 ''prices'' ''ab'' [1] 10, ReopenOp, PurgeOp 5, CommitOp (genesis_block demo_node_env)]"
  have "redb_inv unary_codec redb_open" using unary_faithful(1) by (simp add: redb_inv_def redb_open_def)
  moreover have "\<forall>k. is_payload_key k \<longrightarrow> map_of (rb_state redb_open) k = None" by (simp add: redb_open_def)
  moreover have "\<forall>op \<in> set ?ops. step_ok (\<lambda>b. ser_block unary_codec b \<noteq> None) 7 op"
    using unary_faithful(2) by (simp add: no_colon_def)
  moreover have "no_colon ''ab''" by (simp add: no_colon_def)
  moreover have "readable 7 (last_put ''prices'' ''ab'' ?ops) = Some [1]"
    by (simp add: readable_def last_put_def put_of_def)
  ultimately show ?thesis
    using retention_contract [OF run_length_roundtrip, of unary_codec redb_open ?ops 7 "''ab''" "''prices''"] by force
qed

end
