(* ===== verification/Spec2Isabelle.thy ===== *)
theory Spec2Isabelle
  imports WriteSet Asset Msp Ledger Providers Bft Rounds Contracts Deals Faults Private
begin

text \<open>
  GlassChain, a permissioned supply-chain ledger written in Rust: a chain of blocks with
  Proof-of-Work or BFT certificates, typed supply-chain records, endorsement policies and
  capabilities that the chain itself carries, purchase contracts, durable business flows, derived
  indexes, and private data collections.  Paths below are relative to \<^verbatim>\<open>src/crates\<close>.

  \<^bold>\<open>How the program is put together.\<close>  A transaction reaches a node through \<^verbatim>\<open>submit_transaction\<close> or
  from a peer, is checked by the ledger (capability, record schema, duplicate identifier, pool
  bound) and waits in the pending pool.  Mining drains a batch, runs the contracts' programs into a write
  set, checks the endorsements against the policies in force, seals the block and appends it.
  After the append the node persists block and write set in one storage transaction, refreshes
  policies and capabilities, and feeds the block to the watcher, the contract engine and the
  indexes.  A peer block takes the same path after its admission, a longer peer chain replaces the
  chain and rebuilds the derived state, and a restart rebuilds everything from the stored blocks.
  Flows run beside the node: they emit records as transactions and advance when those records commit.

  \<^bold>\<open>Theories and sources.\<close>
  \<^item> \<open>Prelude\<close>, \<open>Core_Base\<close>: machine integers, \<^verbatim>\<open>Result\<close> and \<^verbatim>\<open>?\<close>, ordered maps, decimal printing;
    \<^verbatim>\<open>glasschain-core/src\<close>: \<^verbatim>\<open>error.rs\<close>, \<^verbatim>\<open>crypto.rs\<close>, \<^verbatim>\<open>wire.rs\<close>.
  \<^item> \<open>WriteSet\<close>, \<open>Asset\<close>, \<open>Canonical\<close>, \<open>Policy\<close>, \<open>Transaction\<close>, \<open>Block\<close>, \<open>Capability\<close>, \<open>Endorsement\<close>, \<open>Ledger\<close>:
    \<^verbatim>\<open>write_set.rs\<close>, \<^verbatim>\<open>asset.rs\<close> with \<^verbatim>\<open>schema.rs\<close>, \<^verbatim>\<open>canonical.rs\<close>, \<^verbatim>\<open>endorsement.rs\<close> (its policy language and
    its chain history), \<^verbatim>\<open>transaction.rs\<close>, \<^verbatim>\<open>block.rs\<close> with \<^verbatim>\<open>consensus.rs\<close>, \<^verbatim>\<open>capability.rs\<close>, \<^verbatim>\<open>ledger.rs\<close>.
  \<^item> \<open>Possession\<close>, \<open>Msp\<close>: \<^verbatim>\<open>glasschain-identity/src/possession.rs\<close> and \<^verbatim>\<open>msp_policy.rs\<close>.
  \<^item> \<open>Providers\<close>: \<^verbatim>\<open>glasschain-core/src/providers.rs\<close> and \<^verbatim>\<open>glasschain-storage/src/redb_backend.rs\<close>.
  \<^item> \<open>Bft\<close>, \<open>Rounds\<close>: \<^verbatim>\<open>glasschain-core/src/bft.rs\<close> and \<^verbatim>\<open>rounds.rs\<close>, \<^verbatim>\<open>glasschain-network/src/rounds.rs\<close> and
    the round handlers of \<^verbatim>\<open>node.rs\<close>.
  \<^item> \<open>Contracts\<close>: \<^verbatim>\<open>glasschain-contracts/src\<close>.
  \<^item> \<open>Workflow\<close>, \<open>Flows\<close>, \<open>Runner\<close>, \<open>FlowRecords\<close>, \<open>Deals\<close>, \<open>Watcher\<close>: \<^verbatim>\<open>glasschain-workflows/src\<close>.
  \<^item> \<open>Indexer\<close>: \<^verbatim>\<open>glasschain-indexer/src\<close>.
  \<^item> \<open>Node\<close>, \<open>Commits\<close>, \<open>Faults\<close>: the submit, mine, admit, sync, persist and restart paths of
    \<^verbatim>\<open>glasschain-network/src/node.rs\<close>.
  \<^item> \<open>Private\<close>: \<^verbatim>\<open>glasschain-identity/src/channel.rs\<close> and \<^verbatim>\<open>payload_gate.rs\<close>,
    \<^verbatim>\<open>glasschain-storage/src/transient.rs\<close>.

  \<^bold>\<open>Conventions.\<close>  A struct is a record, an enum a datatype, a \<^verbatim>\<open>u64\<close> a 64-bit word whose addition wraps,
  \<^verbatim>\<open>Result<T, E>\<close> the sum \<open>'e + 'a\<close> with \<open>Inl\<close> the error.  A method on \<^verbatim>\<open>&mut self\<close> that can fail returns its result
  together with the state it leaves, so the partial effects of a failed call are visible.  A map is an
  association list ordered by key.  A lock makes an operation one step; what an operation sends is
  part of its result.  Code that is not part of the repository (SHA-256, ed25519, BLS12-381, \<^verbatim>\<open>serde_json\<close>,
  base64, X.509 parsing, redb's transactions, the WASM engine, the clock) is a field of a
  record the definitions take as an argument, and a theorem that relies on it names the law
  (collision freedom, a codec's round trip, a correct signature) as a hypothesis, with a concrete
  instance in its witness.

  \<^bold>\<open>Interfaces.\<close>  \<open>storage_contract\<close> (\<open>Providers\<close>) is the storage trait, interpreted by the in-memory and
  the redb store; \<open>node_store\<close> (\<open>Commits\<close>) extends it with what the node needs, again for both.
  \<open>consensus_contract\<close> is interpreted by Proof-of-Work and by BFT; \<open>endorsement_contract\<close>
  (\<open>Endorsement\<close>) by the MSP provider; \<open>state_seam\<close> and \<open>healthy_seam\<close> (\<open>Runner\<close>) are the checkpoint store of the
  flow runner, with and without storage faults; \<open>event_bus\<close> (\<open>Indexer\<close>) by the in-memory bus.

  \<^bold>\<open>What is shown.\<close>
  \<^item> Records and policies: the record validator accepts exactly the records that
    meet the schema; policy and capability histories replayed from a chain are sound and stable
    under extension; what the MSP provider accepts meets its policies by valid signatures of registered,
    unrevoked keys, and a revocation changes no evaluation at an earlier height at which the key was valid.
  \<^item> Chain: every block the mining pipeline produces passes the validation of other nodes; two chains
    of one length that pass it and share a tip hash agree in every header field, or SHA-256 has a
    collision; an adopted chain is valid and longer; the capability index agrees with the chain in
    every ledger reached by the steps of \<open>ledger_step\<close> (the identifier index as well while no peer
    block is appended); the mining loop returns once a solving nonce is reached.
  \<^item> Storage: the redb store refines the in-memory store operation by operation, and a commit is
    atomic under transaction faults; the refinement is stated for a database without faults.
  \<^item> BFT: two certificates of one validator set share more than a third of the validators; aggregated
    votes verify; a chain's non-degenerate certificates are governed by the validator set of its prefix;
    round 0 commits when every vote that arrives for it is for the proposed block and a quorum votes in
    both phases; the lock rule holds within a round.
  \<^item> Contracts, flows and watcher: purchases stay within budget; the durable runner refines the
    pure flow machine and loses no action across crashes; emitted records of well-formed configurations are valid; mirrored buyer
    and seller flows reach settlement; watcher orders are unique over histories with restarts, for
    colon-free names.
  \<^item> Node: take a run of complete operations (\<open>node_step\<close>: submissions, gossip, mining, peer blocks
    and, with \<open>sync\<close>, adopted chains; \<open>linear_step\<close> is the same without \<open>sync\<close>) on a database that accepts every
    write.  If the chain it ends with replays into a policy history, passes the certificate check and fits
    the index type, a restart on the stored data gives that chain and the derived state of the live
    node, or SHA-256 has a collision.  \<open>Faults\<close>, and single theorems of the other theories, state what the
    code does on the paths where this fails; these are theorems about the model as the code is written.
  \<^item> Private data: members of a collection, and the retention contract of the transient store.

  \<^bold>\<open>Termination.\<close>  The mining loop is the one unbounded loop; it is a partial function whose
  value \<open>None\<close> is not returning, and \<open>Block.mine_returns\<close> shows when it returns.  Every other loop of the code
  is a structural or measured recursion.  No bound or fuel is chosen by the model; capacities
  (\<open>MAX_PENDING_TRANSACTIONS\<close>, \<open>MAX_BLOCK_TRANSACTIONS\<close>, \<open>MAX_ROUNDS\<close>) are the constants of the code.

  \<^bold>\<open>Not modelled.\<close>  Sockets, TLS and libp2p (\<^verbatim>\<open>net.rs\<close>, \<^verbatim>\<open>peer.rs\<close>, \<^verbatim>\<open>libp2p_swarm.rs\<close>); certificate parsing
  and revocation lists (\<^verbatim>\<open>msp.rs\<close>, \<^verbatim>\<open>cert_verifier.rs\<close>, \<^verbatim>\<open>ocsp.rs\<close>), which are almost wholly calls of
  X.509 crates; the WASM host (\<^verbatim>\<open>glasschain-vm\<close>); the RPC server, SDK, command-line tool, node binary and
  demo, which translate requests to the operations modelled here; the peer handshake with its identity
  pins (\<^verbatim>\<open>pin.rs\<close>); the proposal workflow of \<^verbatim>\<open>glasschain-identity/src/endorsement.rs\<close>, which no other crate
  calls; the interleaving of lock acquisitions inside one
  operation, except where a theorem splits an operation into its locked steps.
\<close>

end
